(* ===== verification/Sim_Prelude.thy ===== *)
theory Sim_Prelude
  imports Main "HOL-Library.Word" "HOL-Library.Multiset" "HOL-Library.List_Lexorder"
begin

text \<open>
  The shared base of the development: the machine types of the C++ program, the ways a
  run can stop abnormally, memory regions, the little-endian layout of integers, decimal
  text, C strings, and the file system the program reads and writes.  The collections
  \<open>layout_simps\<close> (byte layouts), \<open>mem_simps\<close> (memory regions) and \<open>res_simps\<close> (the result
  type) carry the component proofs.
\<close>

unbundle bit_operations_syntax

named_theorems layout_simps
named_theorems mem_simps
named_theorems res_simps

section \<open>Machine types\<close>

type_synonym byte = "8 word"
type_synonym bytes = "byte list"
type_synonym u16 = "16 word"
type_synonym u32 = "32 word"
type_synonym u64 = "64 word"

text \<open>
  A C++ \<open>int\<close> is an \<open>int\<close> in the range of 32 bits; a conversion from a wider unsigned
  value keeps the low 32 bits and reads them as two's complement, and a comparison of an
  unsigned 64-bit value with an \<open>int\<close> converts the \<open>int\<close> modulo \<open>2 ^ 64\<close>.
\<close>

definition int_of_u64 :: "u64 \<Rightarrow> int" where
  "int_of_u64 w = sint (ucast w :: u32)"

definition u64_of_int :: "int \<Rightarrow> nat" where
  "u64_of_int i = nat (i mod 2 ^ 64)"

definition in_int :: "int \<Rightarrow> bool" where
  "in_int i \<longleftrightarrow> - (2 ^ 31) \<le> i \<and> i < 2 ^ 31"

lemma u64_of_int_small: "0 \<le> i \<Longrightarrow> i < 2 ^ 64 \<Longrightarrow> u64_of_int i = nat i"
  by (simp add: u64_of_int_def)

lemma in_int_int_of_u64: "in_int (int_of_u64 w)"
  unfolding in_int_def int_of_u64_def
  using sint_greater_eq [of "ucast w :: u32"] sint_less [of "ucast w :: u32"] by simp

lemma int_of_u64_small:
  assumes "unat w < 2 ^ 31"
  shows "int_of_u64 w = int (unat w)"
proof -
  have b: "uint w < 2 ^ 31"
    using assms of_nat_less_iff [of "unat w" "2 ^ 31", where ?'a = int] by simp
  have u: "uint (ucast w :: u32) = uint w"
    using b by (simp add: unsigned_ucast_eq take_bit_int_eq_self)
  have "sint (ucast w :: u32) = signed_take_bit 31 (uint w)"
    by (simp only: sint_uint u) simp
  also have "\<dots> = uint w"
    by (rule signed_take_bit_int_eq_self)
      (use b in \<open>auto intro: order_trans [OF _ uint_ge_0]\<close>)
  finally show ?thesis by (simp add: int_of_u64_def)
qed

section \<open>Abnormal ends of a run\<close>

text \<open>
  \<open>Exit n\<close> is a call of \<open>exit(n)\<close>; \<open>Thrown e\<close> an exception nobody catches; the others are
  the kinds of undefined behaviour the code can reach: an access outside an object, control
  flowing off the end of a function that must return a value and whose value is then used,
  the use of a value that was never written, a shift by 32 or more places and a division by zero.
\<close>

datatype abort = Exit nat | Thrown string | OutOfBounds | NoReturn | Uninitialised | BadShift | DivByZero

type_synonym 'a result = "abort + 'a"

fun and_then :: "'a result \<Rightarrow> ('a \<Rightarrow> 'b result) \<Rightarrow> 'b result" where
  "and_then (Inl e) f = Inl e"
| "and_then (Inr x) f = f x"

lemma and_then_Inr_iff [res_simps]:
  "and_then r f = Inr y \<longleftrightarrow> (\<exists>x. r = Inr x \<and> f x = Inr y)"
  by (cases r) auto

lemma and_then_cong [fundef_cong]:
  "r = r' \<Longrightarrow> (\<And>x. r' = Inr x \<Longrightarrow> f x = g x) \<Longrightarrow> and_then r f = and_then r' g"
  by (cases r') auto

text \<open>Restoring a chunk may recurse for ever, so operations that restore return an \<open>option\<close> of a
  \<open>result\<close>; \<open>opt_then\<close> sequences them.\<close>

definition opt_then :: "'a result option \<Rightarrow> ('a \<Rightarrow> 'b result option) \<Rightarrow> 'b result option" where
  "opt_then m f = Option.bind m (\<lambda>r. case r of Inl e \<Rightarrow> Some (Inl e) | Inr x \<Rightarrow> f x)"

lemma opt_then_simps [simp]:
  "opt_then None f = None" "opt_then (Some (Inl e)) f = Some (Inl e)" "opt_then (Some (Inr x)) f = f x"
  by (simp_all add: opt_then_def)

lemma opt_then_Some_Inr [res_simps]:
  "opt_then m f = Some (Inr y) \<longleftrightarrow> (\<exists>x. m = Some (Inr x) \<and> f x = Some (Inr y))"
  by (cases m) (auto simp: opt_then_def split: sum.splits)

lemma opt_then_ends: "m \<noteq> None \<Longrightarrow> (\<And>x. f x \<noteq> None) \<Longrightarrow> opt_then m f \<noteq> None"
  by (cases m) (auto simp: opt_then_def split: sum.splits)

lemma opt_then_mono [partial_function_mono]:
  assumes "mono_option B" and "\<And>y. mono_option (\<lambda>f. C y f)"
  shows "mono_option (\<lambda>f. opt_then (B f) (\<lambda>y. C y f))"
  unfolding opt_then_def
proof (rule bind_mono [OF assms(1)])
  fix r
  show "mono_option (\<lambda>f. case r of Inl e \<Rightarrow> Some (Inl e) | Inr x \<Rightarrow> C x f)"
    using assms(2) by (cases r) (auto intro: option.const_mono)
qed

text \<open>\<open>std::vector::operator[]\<close> and array accesses are not checked: outside the bounds the
  behaviour is undefined.\<close>

definition vec_at :: "'a list \<Rightarrow> int \<Rightarrow> 'a result" where
  "vec_at xs i = (if 0 \<le> i \<and> i < int (length xs) then Inr (xs ! nat i) else Inl OutOfBounds)"

lemma vec_at_nat [res_simps]: "i < length xs \<Longrightarrow> vec_at xs (int i) = Inr (xs ! i)"
  by (simp add: vec_at_def)

lemma vec_at_Inr_iff [res_simps]:
  "vec_at xs i = Inr x \<longleftrightarrow> 0 \<le> i \<and> i < int (length xs) \<and> x = xs ! nat i"
  by (auto simp: vec_at_def)

section \<open>Memory regions\<close>

text \<open>A fixed array that is written in pieces (the body of a container) is a function from
  indices to bytes; the operations that write it check the bound of the array.\<close>

type_synonym memory = "nat \<Rightarrow> byte"

definition mem_write :: "memory \<Rightarrow> nat \<Rightarrow> bytes \<Rightarrow> memory" where
  "mem_write m off d = (\<lambda>i. if off \<le> i \<and> i < off + length d then d ! (i - off) else m i)"

definition mem_read :: "memory \<Rightarrow> nat \<Rightarrow> nat \<Rightarrow> bytes" where
  "mem_read m off n = map m [off..<off + n]"

lemma length_mem_read [simp, mem_simps]: "length (mem_read m off n) = n"
  by (simp add: mem_read_def)

lemma mem_read_write_same [mem_simps]:
  "n = length d \<Longrightarrow> mem_read (mem_write m off d) off n = d"
  by (rule nth_equalityI) (auto simp: mem_read_def mem_write_def)

lemma mem_read_write_disjoint [mem_simps]:
  "a + n \<le> off \<or> off + length d \<le> a \<Longrightarrow> mem_read (mem_write m off d) a n = mem_read m a n"
  by (rule nth_equalityI) (auto simp: mem_read_def mem_write_def)

lemma mem_read_sub [mem_simps]:
  "a + n \<le> k \<Longrightarrow> take n (drop a (mem_read m 0 k)) = mem_read m a n"
  by (rule nth_equalityI) (auto simp: mem_read_def)

lemma mem_read_cong:
  "(\<And>i. a \<le> i \<Longrightarrow> i < a + n \<Longrightarrow> m i = m' i) \<Longrightarrow> mem_read m a n = mem_read m' a n"
  by (simp add: mem_read_def)

section \<open>Little-endian layout\<close>

primrec le_bytes :: "nat \<Rightarrow> 'a::len word \<Rightarrow> bytes" where
  "le_bytes 0 w = []"
| "le_bytes (Suc n) w = ucast w # le_bytes n (drop_bit 8 w)"

fun of_le :: "bytes \<Rightarrow> 'a::len word" where
  "of_le [] = 0"
| "of_le (b # bs) = ucast b OR push_bit 8 (of_le bs)"

lemma length_le_bytes [simp, layout_simps]: "length (le_bytes n w) = n"
  by (induction n arbitrary: w) auto

lemma of_le_take_bit: "of_le (le_bytes n w) = take_bit (8 * n) w"
proof (induction n arbitrary: w)
  case 0
  show ?case by simp
next
  case (Suc n)
  show ?case
    by (rule bit_word_eqI)
      (auto simp: Suc.IH bit_or_iff bit_push_bit_iff bit_take_bit_iff bit_drop_bit_eq
        bit_ucast_iff)
qed

lemma of_le_bytes [layout_simps]:
  "LENGTH('a::len) \<le> 8 * n \<Longrightarrow> of_le (le_bytes n (w :: 'a word)) = w"
  by (simp add: of_le_take_bit take_bit_word_eq_self)

text \<open>The four bytes of an \<open>int\<close> in a struct that is copied to or from raw memory.\<close>

definition int_bytes :: "int \<Rightarrow> bytes" where
  "int_bytes i = le_bytes 4 (word_of_int i :: u32)"

definition int_of_bytes :: "bytes \<Rightarrow> int" where
  "int_of_bytes bs = sint (of_le bs :: u32)"

lemma length_int_bytes [simp, layout_simps]: "length (int_bytes i) = 4"
  by (simp add: int_bytes_def)

lemma int_of_int_bytes [layout_simps]: "in_int i \<Longrightarrow> int_of_bytes (int_bytes i) = i"
  by (simp add: int_of_bytes_def int_bytes_def of_le_bytes in_int_def sint_sbintrunc'
      signed_take_bit_int_eq_self)

text \<open>Cutting a buffer into consecutive fields.\<close>

definition slice :: "nat \<Rightarrow> nat \<Rightarrow> 'a list \<Rightarrow> 'a list" where
  "slice off n xs = take n (drop off xs)"

lemma slice_here [layout_simps]: "length xs = n \<Longrightarrow> slice 0 n (xs @ ys) = xs"
  by (simp add: slice_def)

lemma slice_all [layout_simps]: "length xs = n \<Longrightarrow> slice 0 n xs = xs"
  by (simp add: slice_def)

lemma slice_skip [layout_simps]:
  "length xs \<le> off \<Longrightarrow> slice off n (xs @ ys) = slice (off - length xs) n ys"
  by (simp add: slice_def)

section \<open>C strings and decimal text\<close>

text \<open>A \<open>char *\<close> turned into a \<open>std::string\<close> is read up to its first zero byte; without one
  in the object the read runs out of it.\<close>

definition c_string :: "bytes \<Rightarrow> bytes result" where
  "c_string bs = (if 0 \<in> set bs then Inr (takeWhile (\<lambda>b. b \<noteq> 0) bs) else Inl OutOfBounds)"

lemma c_string_terminated [res_simps]:
  "0 \<notin> set xs \<Longrightarrow> c_string (xs @ 0 # ys) = Inr xs"
  by (induction xs) (auto simp: c_string_def)

definition str :: "string \<Rightarrow> bytes" where
  "str s = map of_char s"

fun dec_of_nat :: "nat \<Rightarrow> bytes" where
  "dec_of_nat n = (if n < 10 then [48 + of_nat n] else dec_of_nat (n div 10) @ [48 + of_nat (n mod 10)])"

declare dec_of_nat.simps [simp del]

definition is_digit :: "byte \<Rightarrow> bool" where
  "is_digit b \<longleftrightarrow> 48 \<le> b \<and> b \<le> 57"

text \<open>The digits at the front of a text, with the rest.\<close>

fun parse_dec :: "nat \<Rightarrow> bytes \<Rightarrow> nat \<times> bytes" where
  "parse_dec acc [] = (acc, [])"
| "parse_dec acc (b # bs) =
     (if is_digit b then parse_dec (10 * acc + (unat b - 48)) bs else (acc, b # bs))"

lemma unat_digit: "d < 10 \<Longrightarrow> unat (48 + of_nat d :: byte) = 48 + d"
  by (simp add: unat_word_ariths unat_of_nat)

lemma is_digit_of_nat: "d < 10 \<Longrightarrow> is_digit (48 + of_nat d)"
  by (simp add: is_digit_def word_le_nat_alt unat_digit)

lemma parse_dec_digits:
  "\<exists>k. \<forall>acc. parse_dec acc (dec_of_nat n @ r) = parse_dec (k * acc + n) r"
proof (induction n arbitrary: r rule: dec_of_nat.induct)
  case (1 n)
  show ?case
  proof (cases "n < 10")
    case True
    then have "\<forall>acc. parse_dec acc (dec_of_nat n @ r) = parse_dec (10 * acc + n) r"
      by (simp add: dec_of_nat.simps [of n] is_digit_of_nat unat_digit)
    then show ?thesis by blast
  next
    case False
    let ?d = "48 + of_nat (n mod 10) :: byte"
    from False obtain k where
      "\<forall>acc. parse_dec acc (dec_of_nat (n div 10) @ ?d # r) = parse_dec (k * acc + n div 10) (?d # r)"
      using "1.IH" by blast
    then have "\<forall>acc. parse_dec acc (dec_of_nat n @ r)
        = parse_dec (10 * (k * acc + n div 10) + n mod 10) r"
      using False by (simp add: dec_of_nat.simps [of n] is_digit_of_nat unat_digit)
    moreover have "10 * (k * acc + n div 10) + n mod 10 = (10 * k) * acc + n" for acc
      by (simp add: algebra_simps)
    ultimately show ?thesis by metis
  qed
qed

lemma parse_dec_of_nat:
  assumes "r = [] \<or> \<not> is_digit (hd r)"
  shows "parse_dec 0 (dec_of_nat n @ r) = (n, r)"
proof -
  from parse_dec_digits [of n r] obtain k where
    "parse_dec 0 (dec_of_nat n @ r) = parse_dec (k * 0 + n) r" by blast
  then show ?thesis using assms by (cases r) auto
qed

lemma dec_of_nat_digits: "\<forall>b \<in> set (dec_of_nat n). is_digit b"
proof (induction n rule: dec_of_nat.induct)
  case (1 n)
  then show ?case by (subst dec_of_nat.simps) (auto simp: is_digit_of_nat)
qed

lemma dec_of_nat_nonempty [simp]: "dec_of_nat n \<noteq> []"
  by (subst dec_of_nat.simps) simp

text \<open>\<open>std::to_string\<close> and \<open>std::stoi\<close>; the latter throws when the text starts with no
  digits or the value leaves the range of \<open>int\<close>.\<close>

definition to_string :: "int \<Rightarrow> bytes" where
  "to_string i = (if i < 0 then 45 # dec_of_nat (nat (- i)) else dec_of_nat (nat i))"

fun skip_space :: "bytes \<Rightarrow> bytes" where
  "skip_space [] = []"
| "skip_space (b # bs) = (if b = 32 \<or> 9 \<le> b \<and> b \<le> 13 then skip_space bs else b # bs)"

definition stoi_nat :: "bool \<Rightarrow> bytes \<Rightarrow> int result" where
  "stoi_nat neg bs =
     (if bs = [] \<or> \<not> is_digit (hd bs) then Inl (Thrown ''invalid_argument'')
      else let v = (if neg then - int (fst (parse_dec 0 bs)) else int (fst (parse_dec 0 bs)))
           in if in_int v then Inr v else Inl (Thrown ''out_of_range''))"

definition stoi :: "bytes \<Rightarrow> int result" where
  "stoi bs = (case skip_space bs of
       [] \<Rightarrow> Inl (Thrown ''invalid_argument'')
     | b # r \<Rightarrow> if b = 45 then stoi_nat True r
                else if b = 43 then stoi_nat False r
                else stoi_nat False (b # r))"

lemma hd_dec_of_nat_digit: "is_digit (hd (dec_of_nat n))"
  using dec_of_nat_digits [of n] by (cases "dec_of_nat n") auto

lemma skip_space_digit: "is_digit b \<Longrightarrow> skip_space (b # bs) = b # bs"
  by (auto simp: is_digit_def word_le_nat_alt)

lemma stoi_nat_dec:
  "in_int (if neg then - int n else int n) \<Longrightarrow>
   stoi_nat neg (dec_of_nat n) = Inr (if neg then - int n else int n)"
  using parse_dec_of_nat [of "[]" n] by (cases neg) (simp_all add: stoi_nat_def hd_dec_of_nat_digit Let_def)

lemma stoi_to_string:
  assumes "in_int i"
  shows "stoi (to_string i) = Inr i"
proof (cases "i < 0")
  case True
  have "skip_space (45 # dec_of_nat (nat (- i))) = 45 # dec_of_nat (nat (- i))" by simp
  then show ?thesis
    using True assms stoi_nat_dec [of True "nat (- i)"] by (simp add: stoi_def to_string_def)
next
  case False
  obtain b r where br: "dec_of_nat (nat i) = b # r" by (cases "dec_of_nat (nat i)") auto
  have d: "is_digit b" using hd_dec_of_nat_digit [of "nat i"] br by simp
  then have "b \<noteq> 45" "b \<noteq> 43" by (auto simp: is_digit_def word_le_nat_alt)
  then show ?thesis
    using False assms stoi_nat_dec [of False "nat i"] br d
    by (simp add: stoi_def to_string_def skip_space_digit del: skip_space.simps)
qed

section \<open>The file system\<close>

text \<open>
  Files are byte strings under their path.  \<open>writable\<close> says which paths an output stream can
  open (a missing directory or a protected file makes \<open>open\<close> fail); nothing in the program
  changes it.
\<close>

record filesystem =
  files :: "bytes \<Rightarrow> bytes option"
  writable :: "bytes \<Rightarrow> bool"

definition fs_write :: "bytes \<Rightarrow> bytes \<Rightarrow> filesystem \<Rightarrow> filesystem option" where
  "fs_write p d fs = (if writable fs p then Some (fs\<lparr>files := (files fs)(p \<mapsto> d)\<rparr>) else None)"

definition fs_append :: "bytes \<Rightarrow> bytes \<Rightarrow> filesystem \<Rightarrow> filesystem option" where
  "fs_append p d fs =
     fs_write p ((case files fs p of None \<Rightarrow> [] | Some old \<Rightarrow> old) @ d) fs"

definition fs_remove :: "bytes \<Rightarrow> filesystem \<Rightarrow> filesystem" where
  "fs_remove p fs = fs\<lparr>files := (files fs)(p := None)\<rparr>"

lemma writable_fs_remove [simp]: "writable (fs_remove p fs) = writable fs"
  by (simp add: fs_remove_def)

lemma fs_write_Some [simp]:
  "fs_write p d fs = Some fs' \<longleftrightarrow>
   writable fs p \<and> fs' = fs\<lparr>files := (files fs)(p \<mapsto> d)\<rparr>"
  by (auto simp: fs_write_def)

end
