(* ===== verification/Data_Structure.thy ===== *)
theory Data_Structure
  imports Sim_Prelude
begin

text \<open>
  The structures of \<open>include/dataStructure.hpp\<close> and the size macros of
  \<open>include/configure.hpp\<close>.  The program writes the structures to files and databases by
  copying their memory, so each one comes with its layout (little endian, no padding between
  the fields) and the function that reads it back.  The locale \<open>fixed_layout\<close> states what a
  client of such a layout relies on; every structure interprets it.
\<close>

named_theorems size_defs

section \<open>Sizes\<close>

definition MAX_CHUNK_SIZE :: nat where
  [size_defs]: "MAX_CHUNK_SIZE = 16384"

definition CHUNK_HASH_SIZE :: nat where
  [size_defs]: "CHUNK_HASH_SIZE = 32"

definition CHUNK_ENCRYPT_KEY_SIZE :: nat where
  [size_defs]: "CHUNK_ENCRYPT_KEY_SIZE = 32"

definition FILE_NAME_HASH_SIZE :: nat where
  [size_defs]: "FILE_NAME_HASH_SIZE = 32"

definition CHUNKER_FIX_SIZE_TYPE :: int where
  [size_defs]: "CHUNKER_FIX_SIZE_TYPE = 0"

definition CHUNKER_VAR_SIZE_TYPE :: int where
  [size_defs]: "CHUNKER_VAR_SIZE_TYPE = 1"

definition DATA_TYPE_RECIPE :: int where
  [size_defs]: "DATA_TYPE_RECIPE = 1"

definition DATA_TYPE_CHUNK :: int where
  [size_defs]: "DATA_TYPE_CHUNK = 2"

definition CRYPTO_BLOCK_SZIE :: nat where
  [size_defs]: "CRYPTO_BLOCK_SZIE = 16"

section \<open>The structures\<close>

record L6 =
  L6_containerID :: int
  L6_startSegmentID :: int
  L6_endSegmentID :: int
  L6_hash :: bytes

record LP =
  LP_segmentID :: int
  LP_startChunkID :: int
  LP_endChunkID :: int
  LP_hash :: bytes

record L0 =
  L0_chunkID :: int
  L0_size :: int
  L0_unique :: int
  L0_fingerprint :: bytes

record Index =
  idx_fileNameHash :: bytes
  idx_segmentnumber :: int
  idx_containernumber :: int
  idx_chunknumber :: int
  idx_chunk :: "L0 list"
  idx_segment :: "LP list"
  idx_container :: "L6 list"

record Pair =
  newID :: int
  oldID :: int

record Chunk_t =
  chunk_ID :: u32
  chunk_type :: int
  chunk_logicDataSize :: int
  chunk_logicData :: bytes
  chunk_chunkHash :: bytes
  chunk_encryptKey :: bytes

record RecipeEntry_t =
  entry_chunkID :: u32
  entry_chunkSize :: int
  entry_chunkHash :: bytes

type_synonym ChunkList_t = "Chunk_t list"
type_synonym RecipeList_t = "RecipeEntry_t list"

record FileRecipeHead_t =
  frh_fileSize :: u64
  frh_fileNameHash :: bytes
  frh_totalChunkNumber :: u64

record KeyRecipeHead_t =
  krh_fileSize :: u64
  krh_fileNameHash :: bytes
  krh_totalChunkKeyNumber :: u64

record Recipe_t =
  fileRecipeHead :: FileRecipeHead_t
  keyRecipeHead :: KeyRecipeHead_t

record keyForChunkHashDB_t =
  key_containerName :: bytes
  key_offset :: u32
  key_length :: u32
  key_count :: u32
  key_deltaCount :: u32

section \<open>Layouts\<close>

definition L6_bytes :: "L6 \<Rightarrow> bytes" where
  "L6_bytes x = int_bytes (L6_containerID x) @ int_bytes (L6_startSegmentID x)
     @ int_bytes (L6_endSegmentID x) @ L6_hash x"

definition L6_of_bytes :: "bytes \<Rightarrow> L6" where
  "L6_of_bytes b = \<lparr>L6_containerID = int_of_bytes (slice 0 4 b),
     L6_startSegmentID = int_of_bytes (slice 4 4 b),
     L6_endSegmentID = int_of_bytes (slice 8 4 b), L6_hash = slice 12 32 b\<rparr>"

definition LP_bytes :: "LP \<Rightarrow> bytes" where
  "LP_bytes x = int_bytes (LP_segmentID x) @ int_bytes (LP_startChunkID x)
     @ int_bytes (LP_endChunkID x) @ LP_hash x"

definition LP_of_bytes :: "bytes \<Rightarrow> LP" where
  "LP_of_bytes b = \<lparr>LP_segmentID = int_of_bytes (slice 0 4 b),
     LP_startChunkID = int_of_bytes (slice 4 4 b),
     LP_endChunkID = int_of_bytes (slice 8 4 b), LP_hash = slice 12 32 b\<rparr>"

definition L0_bytes :: "L0 \<Rightarrow> bytes" where
  "L0_bytes x = int_bytes (L0_chunkID x) @ int_bytes (L0_size x)
     @ int_bytes (L0_unique x) @ L0_fingerprint x"

definition L0_of_bytes :: "bytes \<Rightarrow> L0" where
  "L0_of_bytes b = \<lparr>L0_chunkID = int_of_bytes (slice 0 4 b),
     L0_size = int_of_bytes (slice 4 4 b),
     L0_unique = int_of_bytes (slice 8 4 b), L0_fingerprint = slice 12 32 b\<rparr>"

definition RecipeEntry_bytes :: "RecipeEntry_t \<Rightarrow> bytes" where
  "RecipeEntry_bytes x = le_bytes 4 (entry_chunkID x) @ int_bytes (entry_chunkSize x)
     @ entry_chunkHash x"

definition RecipeEntry_of_bytes :: "bytes \<Rightarrow> RecipeEntry_t" where
  "RecipeEntry_of_bytes b = \<lparr>entry_chunkID = of_le (slice 0 4 b),
     entry_chunkSize = int_of_bytes (slice 4 4 b), entry_chunkHash = slice 8 32 b\<rparr>"

definition Recipe_bytes :: "Recipe_t \<Rightarrow> bytes" where
  "Recipe_bytes r = (let f = fileRecipeHead r; k = keyRecipeHead r in
     le_bytes 8 (frh_fileSize f) @ frh_fileNameHash f @ le_bytes 8 (frh_totalChunkNumber f)
     @ le_bytes 8 (krh_fileSize k) @ krh_fileNameHash k @ le_bytes 8 (krh_totalChunkKeyNumber k))"

definition Recipe_of_bytes :: "bytes \<Rightarrow> Recipe_t" where
  "Recipe_of_bytes b = \<lparr>
     fileRecipeHead = \<lparr>frh_fileSize = of_le (slice 0 8 b), frh_fileNameHash = slice 8 32 b,
       frh_totalChunkNumber = of_le (slice 40 8 b)\<rparr>,
     keyRecipeHead = \<lparr>krh_fileSize = of_le (slice 48 8 b), krh_fileNameHash = slice 56 32 b,
       krh_totalChunkKeyNumber = of_le (slice 88 8 b)\<rparr>\<rparr>"

definition key_bytes :: "keyForChunkHashDB_t \<Rightarrow> bytes" where
  "key_bytes k = key_containerName k @ le_bytes 4 (key_offset k) @ le_bytes 4 (key_length k)
     @ le_bytes 4 (key_count k) @ le_bytes 4 (key_deltaCount k)"

definition key_of_bytes :: "bytes \<Rightarrow> keyForChunkHashDB_t" where
  "key_of_bytes b = \<lparr>key_containerName = slice 0 16 b, key_offset = of_le (slice 16 4 b),
     key_length = of_le (slice 20 4 b), key_count = of_le (slice 24 4 b),
     key_deltaCount = of_le (slice 28 4 b)\<rparr>"

text \<open>Which values a structure in memory can hold: the arrays have their declared sizes and
  the \<open>int\<close> fields are in range.\<close>

definition L6_ok :: "L6 \<Rightarrow> bool" where
  "L6_ok x \<longleftrightarrow> in_int (L6_containerID x) \<and> in_int (L6_startSegmentID x)
     \<and> in_int (L6_endSegmentID x) \<and> length (L6_hash x) = CHUNK_HASH_SIZE"

definition LP_ok :: "LP \<Rightarrow> bool" where
  "LP_ok x \<longleftrightarrow> in_int (LP_segmentID x) \<and> in_int (LP_startChunkID x)
     \<and> in_int (LP_endChunkID x) \<and> length (LP_hash x) = CHUNK_HASH_SIZE"

definition L0_ok :: "L0 \<Rightarrow> bool" where
  "L0_ok x \<longleftrightarrow> in_int (L0_chunkID x) \<and> in_int (L0_size x)
     \<and> in_int (L0_unique x) \<and> length (L0_fingerprint x) = CHUNK_HASH_SIZE"

definition RecipeEntry_ok :: "RecipeEntry_t \<Rightarrow> bool" where
  "RecipeEntry_ok x \<longleftrightarrow> in_int (entry_chunkSize x) \<and> length (entry_chunkHash x) = CHUNK_HASH_SIZE"

definition Recipe_ok :: "Recipe_t \<Rightarrow> bool" where
  "Recipe_ok r \<longleftrightarrow> length (frh_fileNameHash (fileRecipeHead r)) = FILE_NAME_HASH_SIZE
     \<and> length (krh_fileNameHash (keyRecipeHead r)) = FILE_NAME_HASH_SIZE"

definition key_ok :: "keyForChunkHashDB_t \<Rightarrow> bool" where
  "key_ok k \<longleftrightarrow> length (key_containerName k) = 16"

definition sizeof_L :: nat where
  [size_defs]: "sizeof_L = 44"

definition sizeof_RecipeEntry :: nat where
  [size_defs]: "sizeof_RecipeEntry = 40"

definition sizeof_Recipe :: nat where
  [size_defs]: "sizeof_Recipe = 96"

definition sizeof_key :: nat where
  [size_defs]: "sizeof_key = 32"

text \<open>Reading \<open>n\<close> structures one after the other from a stream; a read that the stream cannot
  serve leaves the structure unwritten.\<close>

fun read_structs :: "nat \<Rightarrow> (bytes \<Rightarrow> 'a) \<Rightarrow> nat \<Rightarrow> bytes \<Rightarrow> ('a list \<times> bytes) result" where
  "read_structs w dec 0 s = Inr ([], s)"
| "read_structs w dec (Suc n) s =
     (if length s < w then Inl Uninitialised
      else and_then (read_structs w dec n (drop w s))
             (\<lambda>(xs, r). Inr (dec (take w s) # xs, r)))"

section \<open>The contract of a fixed layout\<close>

locale fixed_layout =
  fixes enc :: "'a \<Rightarrow> bytes"
    and dec :: "bytes \<Rightarrow> 'a"
    and width :: nat
    and valid :: "'a \<Rightarrow> bool"
  assumes dec_enc: "valid x \<Longrightarrow> dec (enc x) = x"
    and length_enc: "valid x \<Longrightarrow> length (enc x) = width"
begin

lemma length_concat_enc:
  "\<forall>x \<in> set xs. valid x \<Longrightarrow> length (concat (map enc xs)) = width * length xs"
  by (induction xs) (auto simp: length_enc)

lemma read_structs_concat:
  assumes "\<forall>x \<in> set xs. valid x"
  shows "read_structs width dec (length xs) (concat (map enc xs) @ r) = Inr (xs, r)"
  using assms
proof (induction xs)
  case Nil
  show ?case by simp
next
  case (Cons x xs)
  then have "length (enc x) = width" and "dec (enc x) = x" by (auto simp: length_enc dec_enc)
  with Cons show ?case by simp
qed

lemma slice_concat_enc:
  assumes "\<forall>x \<in> set xs. valid x" and "i < length xs"
  shows "slice (i * width) width (concat (map enc xs) @ r) = enc (xs ! i)"
  using assms
proof (induction xs arbitrary: i)
  case Nil
  then show ?case by simp
next
  case (Cons x xs)
  have x: "length (enc x) = width" using Cons.prems by (simp add: length_enc)
  show ?case
  proof (cases i)
    case 0
    with x show ?thesis by (simp add: slice_def)
  next
    case (Suc j)
    then have "slice (i * width) width (concat (map enc (x # xs)) @ r)
        = slice (j * width) width (concat (map enc xs) @ r)"
      using x by (simp add: slice_def)
    with Suc Cons show ?thesis by simp
  qed
qed

lemma drop_concat_enc:
  assumes "\<forall>x \<in> set xs. valid x" and "i \<le> length xs"
  shows "drop (i * width) (concat (map enc xs) @ r) = concat (map enc (drop i xs)) @ r"
  using assms
proof (induction xs arbitrary: i)
  case Nil
  then show ?case by simp
next
  case (Cons x xs)
  have x: "length (enc x) = width" using Cons.prems by (simp add: length_enc)
  show ?case
  proof (cases i)
    case 0
    then show ?thesis by simp
  next
    case (Suc j)
    then have "drop (i * width) (concat (map enc (x # xs)) @ r)
        = drop (j * width) (concat (map enc xs) @ r)"
      using x by simp
    with Suc Cons show ?thesis by simp
  qed
qed

end

lemmas struct_layout = layout_simps size_defs

interpretation L6l: fixed_layout L6_bytes L6_of_bytes sizeof_L L6_ok
  by unfold_locales (auto simp: L6_bytes_def L6_of_bytes_def L6_ok_def struct_layout)

interpretation LPl: fixed_layout LP_bytes LP_of_bytes sizeof_L LP_ok
  by unfold_locales (auto simp: LP_bytes_def LP_of_bytes_def LP_ok_def struct_layout)

interpretation L0l: fixed_layout L0_bytes L0_of_bytes sizeof_L L0_ok
  by unfold_locales (auto simp: L0_bytes_def L0_of_bytes_def L0_ok_def struct_layout)

interpretation entryl: fixed_layout RecipeEntry_bytes RecipeEntry_of_bytes
  sizeof_RecipeEntry RecipeEntry_ok
  by unfold_locales
    (auto simp: RecipeEntry_bytes_def RecipeEntry_of_bytes_def RecipeEntry_ok_def struct_layout)

interpretation recipel: fixed_layout Recipe_bytes Recipe_of_bytes sizeof_Recipe Recipe_ok
  by unfold_locales
    (auto simp: Recipe_bytes_def Recipe_of_bytes_def Recipe_ok_def struct_layout Let_def)

interpretation keyl: fixed_layout key_bytes key_of_bytes sizeof_key key_ok
  by unfold_locales (auto simp: key_bytes_def key_of_bytes_def key_ok_def struct_layout)

end
