(* ===== verification/Configure.thy ===== *)
theory Configure
  imports Data_Structure
begin

text \<open>
  \<open>Configure\<close> (\<open>src/configure.cc\<close>): the settings, read once from a JSON file.  The JSON reader
  is Boost's property tree, which is not part of the repository: the record \<open>ptree\<close> holds its
  two \<open>get\<close> instances the code calls, and \<open>ptree_of\<close> states what Boost documents of them on a
  tree with given leaves.
\<close>

named_theorems config_defs

record ptree =
  get_u64 :: "string \<Rightarrow> u64 result"
  get_string :: "string \<Rightarrow> bytes result"

record Configure =
  cfg_runningType :: u64
  cfg_chunkingType :: u64
  cfg_maxChunkSize :: u64
  cfg_minChunkSize :: u64
  cfg_slidingWinSize :: u64
  cfg_maxslidingWinSize :: u64
  cfg_minslidingWinSize :: u64
  cfg_segmentSize :: u64
  cfg_averageChunkSize :: u64
  cfg_ReadSize :: u64
  cfg_Fileindex :: u64
  cfg_SFNumber :: u64
  cfg_maxContainerSize :: u64
  cfg_RecipeRootPath :: bytes
  cfg_containerRootPath :: bytes
  cfg_fp2ChunkDBName :: bytes
  cfg_fp2MetaDBame :: bytes
  cfg_deltaChunkDBame :: bytes
  cfg_containerDBame :: bytes
  cfg_maxDeltaContainerSize :: u64
  cfg_deltacontainerRootPath :: bytes

section \<open>Reading the file\<close>

definition readConf :: "ptree \<Rightarrow> Configure result" where
  "readConf root =
     and_then (get_u64 root ''ChunkerConfig._runningType'') (\<lambda>runningType.
     and_then (get_u64 root ''ChunkerConfig._chunkingType'') (\<lambda>chunkingType.
     and_then (get_u64 root ''ChunkerConfig._maxChunkSize'') (\<lambda>maxChunkSize.
     and_then (get_u64 root ''ChunkerConfig._minChunkSize'') (\<lambda>minChunkSize.
     and_then (get_u64 root ''ChunkerConfig._slidingWinSize'') (\<lambda>slidingWinSize.
     and_then (get_u64 root ''IndexConfig._maxslidingWinSize'') (\<lambda>maxslidingWinSize.
     and_then (get_u64 root ''IndexConfig._minslidingWinSize'') (\<lambda>minslidingWinSize.
     and_then (get_u64 root ''ChunkerConfig._segmentSize'') (\<lambda>segmentSize.
     and_then (get_u64 root ''ChunkerConfig._avgChunkSize'') (\<lambda>averageChunkSize.
     and_then (get_u64 root ''ChunkerConfig._ReadSize'') (\<lambda>ReadSize.
     and_then (get_u64 root ''ChunkerConfig._Fileindex'') (\<lambda>Fileindex.
     and_then (get_u64 root ''ChunkerConfig._SFNumber'') (\<lambda>SFNumber.
     and_then (get_u64 root ''SPConfig._maxContainerSize'') (\<lambda>maxContainerSize.
     and_then (get_string root ''server._RecipeRootPath'') (\<lambda>RecipeRootPath.
     and_then (get_string root ''server._containerRootPath'') (\<lambda>containerRootPath.
     and_then (get_string root ''server._fp2ChunkDBName'') (\<lambda>fp2ChunkDBName.
     and_then (get_string root ''server._fp2MetaDBame'') (\<lambda>fp2MetaDBame.
     and_then (get_string root ''server._deltaChunkDBame'') (\<lambda>deltaChunkDBame.
     and_then (get_string root ''server._containerDBame'') (\<lambda>containerDBame.
     and_then (get_u64 root ''SPConfig._maxDeltaContainerSize'') (\<lambda>maxDeltaContainerSize.
     and_then (get_string root ''server._deltacontainerRootPath'') (\<lambda>deltacontainerRootPath.
       Inr \<lparr>cfg_runningType = runningType, cfg_chunkingType = chunkingType,
       cfg_maxChunkSize = maxChunkSize, cfg_minChunkSize = minChunkSize, cfg_slidingWinSize =
       slidingWinSize, cfg_maxslidingWinSize = maxslidingWinSize, cfg_minslidingWinSize =
       minslidingWinSize, cfg_segmentSize = segmentSize, cfg_averageChunkSize = averageChunkSize,
       cfg_ReadSize = ReadSize, cfg_Fileindex = Fileindex, cfg_SFNumber = SFNumber,
       cfg_maxContainerSize = maxContainerSize, cfg_RecipeRootPath = RecipeRootPath,
       cfg_containerRootPath = containerRootPath, cfg_fp2ChunkDBName = fp2ChunkDBName,
       cfg_fp2MetaDBame = fp2MetaDBame, cfg_deltaChunkDBame = deltaChunkDBame, cfg_containerDBame
       = containerDBame, cfg_maxDeltaContainerSize = maxDeltaContainerSize,
       cfg_deltacontainerRootPath = deltacontainerRootPath\<rparr>)))))))))))))))))))))"

section \<open>The accessors\<close>

definition getRunningType :: "Configure \<Rightarrow> u64" where
  [config_defs]: "getRunningType c = cfg_runningType c"

definition getChunkingType :: "Configure \<Rightarrow> u64" where
  [config_defs]: "getChunkingType c = cfg_chunkingType c"

definition getMaxChunkSize :: "Configure \<Rightarrow> u64" where
  [config_defs]: "getMaxChunkSize c = cfg_maxChunkSize c"

definition getMinChunkSize :: "Configure \<Rightarrow> u64" where
  [config_defs]: "getMinChunkSize c = cfg_minChunkSize c"

definition getAverageChunkSize :: "Configure \<Rightarrow> u64" where
  [config_defs]: "getAverageChunkSize c = cfg_averageChunkSize c"

definition getSlidingWinSize :: "Configure \<Rightarrow> u64" where
  [config_defs]: "getSlidingWinSize c = cfg_slidingWinSize c"

definition getMaxSlidingWinSize :: "Configure \<Rightarrow> u64" where
  [config_defs]: "getMaxSlidingWinSize c = cfg_maxslidingWinSize c"

definition getMinSlidingWinSize :: "Configure \<Rightarrow> u64" where
  [config_defs]: "getMinSlidingWinSize c = cfg_minslidingWinSize c"

definition getSegmentSize :: "Configure \<Rightarrow> u64" where
  [config_defs]: "getSegmentSize c = cfg_segmentSize c"

definition getReadSize :: "Configure \<Rightarrow> u64" where
  [config_defs]: "getReadSize c = cfg_ReadSize c"

definition getIndexflag :: "Configure \<Rightarrow> u64" where
  [config_defs]: "getIndexflag c = cfg_Fileindex c"

definition getMaxContainerSize :: "Configure \<Rightarrow> u64" where
  [config_defs]: "getMaxContainerSize c = cfg_maxContainerSize c"

definition getMaxDeltaContainerSize :: "Configure \<Rightarrow> u64" where
  [config_defs]: "getMaxDeltaContainerSize c = cfg_maxDeltaContainerSize c"

definition getSFNumber :: "Configure \<Rightarrow> u64" where
  [config_defs]: "getSFNumber c = cfg_SFNumber c"

definition getRecipeRootPath :: "Configure \<Rightarrow> bytes" where
  [config_defs]: "getRecipeRootPath c = cfg_RecipeRootPath c"

definition getContainerRootPath :: "Configure \<Rightarrow> bytes" where
  [config_defs]: "getContainerRootPath c = cfg_containerRootPath c"

definition getFp2ChunkDBName :: "Configure \<Rightarrow> bytes" where
  [config_defs]: "getFp2ChunkDBName c = cfg_fp2ChunkDBName c"

definition getFp2MetaDBame :: "Configure \<Rightarrow> bytes" where
  [config_defs]: "getFp2MetaDBame c = cfg_fp2MetaDBame c"

definition getdeltaChunkDBame :: "Configure \<Rightarrow> bytes" where
  [config_defs]: "getdeltaChunkDBame c = cfg_deltaChunkDBame c"

definition getcontainerDBame :: "Configure \<Rightarrow> bytes" where
  [config_defs]: "getcontainerDBame c = cfg_containerDBame c"

definition getDeltaContainerRootPath :: "Configure \<Rightarrow> bytes" where
  [config_defs]: "getDeltaContainerRootPath c = cfg_deltacontainerRootPath c"

section \<open>The leaves the reader asks for\<close>

definition u64_paths :: "string list" where
  "u64_paths = [''ChunkerConfig._runningType'', ''ChunkerConfig._chunkingType'',
     ''ChunkerConfig._maxChunkSize'', ''ChunkerConfig._minChunkSize'',
     ''ChunkerConfig._slidingWinSize'', ''IndexConfig._maxslidingWinSize'',
     ''IndexConfig._minslidingWinSize'', ''ChunkerConfig._segmentSize'',
     ''ChunkerConfig._avgChunkSize'', ''ChunkerConfig._ReadSize'',
     ''ChunkerConfig._Fileindex'', ''ChunkerConfig._SFNumber'',
     ''SPConfig._maxContainerSize'', ''SPConfig._maxDeltaContainerSize'']"

definition string_paths :: "string list" where
  "string_paths = [''server._RecipeRootPath'', ''server._containerRootPath'',
     ''server._fp2ChunkDBName'', ''server._fp2MetaDBame'',
     ''server._deltaChunkDBame'', ''server._containerDBame'',
     ''server._deltacontainerRootPath'']"

text \<open>What Boost documents: \<open>get\<close> returns the value of a leaf that exists and throws
  \<open>ptree_bad_path\<close> for one that does not.\<close>

definition ptree_of :: "(string \<Rightarrow> u64 option) \<Rightarrow> (string \<Rightarrow> bytes option) \<Rightarrow> ptree \<Rightarrow> bool" where
  "ptree_of nums strs root \<longleftrightarrow>
     (\<forall>p. get_u64 root p = (case nums p of None \<Rightarrow> Inl (Thrown ''ptree_bad_path'') | Some v \<Rightarrow> Inr v))
     \<and> (\<forall>p. get_string root p = (case strs p of None \<Rightarrow> Inl (Thrown ''ptree_bad_path'') | Some v \<Rightarrow> Inr v))"

text \<open>The numbers and strings of the \<open>config.json\<close> the repository ships.\<close>

definition shipped_nums :: "string \<Rightarrow> u64 option" where
  "shipped_nums = map_of
    [(''ChunkerConfig._runningType'', 0), (''ChunkerConfig._chunkingType'', 1),
     (''ChunkerConfig._minChunkSize'', 4096), (''ChunkerConfig._avgChunkSize'', 8192),
     (''ChunkerConfig._maxChunkSize'', 16384), (''ChunkerConfig._ReadSize'', 128),
     (''ChunkerConfig._segmentSize'', 0), (''ChunkerConfig._Fileindex'', 1),
     (''ChunkerConfig._SFNumber'', 4), (''IndexConfig._maxslidingWinSize'', 256),
     (''IndexConfig._minslidingWinSize'', 48), (''SPConfig._maxContainerSize'', 8388608)]"

definition shipped_strings :: "string \<Rightarrow> bytes option" where
  "shipped_strings = map_of
    [(''server._RecipeRootPath'', str ''Recipes/''), (''server._containerRootPath'', str ''Containers/''),
     (''server._fp2ChunkDBName'', str ''db1''), (''server._fp2MetaDBame'', str ''db2'')]"

definition toy_ptree :: "(string \<Rightarrow> u64 option) \<Rightarrow> (string \<Rightarrow> bytes option) \<Rightarrow> ptree" where
  "toy_ptree nums strs = \<lparr>
     get_u64 = (\<lambda>p. case nums p of None \<Rightarrow> Inl (Thrown ''ptree_bad_path'') | Some v \<Rightarrow> Inr v),
     get_string = (\<lambda>p. case strs p of None \<Rightarrow> Inl (Thrown ''ptree_bad_path'') | Some v \<Rightarrow> Inr v)\<rparr>"

lemma ptree_of_toy: "ptree_of nums strs (toy_ptree nums strs)"
  by (simp add: ptree_of_def toy_ptree_def)

section \<open>Properties\<close>

text \<open>The settings are read if and only if every leaf the reader asks for is in the file;
  a single missing leaf makes the constructor of the global \<open>config\<close> throw
  \<open>ptree_bad_path\<close>.\<close>

theorem readConf_complete:
  assumes "ptree_of nums strs root"
  shows "if (\<forall>p \<in> set u64_paths. nums p \<noteq> None) \<and> (\<forall>p \<in> set string_paths. strs p \<noteq> None)
     then (\<exists>c. readConf root = Inr c)
     else readConf root = Inl (Thrown ''ptree_bad_path'')"
proof -
  have "readConf root = Inl (Thrown ''ptree_bad_path'')
      \<or> (\<exists>c. readConf root = Inr c) \<and> (\<forall>p \<in> set u64_paths. nums p \<noteq> None)
         \<and> (\<forall>p \<in> set string_paths. strs p \<noteq> None)"
    using assms unfolding readConf_def ptree_of_def u64_paths_def string_paths_def
    by (simp split: option.split)
  moreover have "\<exists>c. readConf root = Inr c"
    if "\<forall>p \<in> set u64_paths. nums p \<noteq> None" and "\<forall>p \<in> set string_paths. strs p \<noteq> None"
    using assms that unfolding readConf_def ptree_of_def u64_paths_def string_paths_def
    by auto
  ultimately show ?thesis by auto
qed

theorem readConf_complete_witness:
  "ptree_of (\<lambda>_. Some 1) (\<lambda>_. Some []) (toy_ptree (\<lambda>_. Some 1) (\<lambda>_. Some []))
   \<and> (\<exists>c. readConf (toy_ptree (\<lambda>_. Some 1) (\<lambda>_. Some [])) = Inr c)"
  using readConf_complete [OF ptree_of_toy [of "\<lambda>_. Some 1" "\<lambda>_. Some []"]]
  by (simp add: ptree_of_toy)

text \<open>The \<open>config.json\<close> of the repository has no \<open>_slidingWinSize\<close>, so reading it ends with
  \<open>ptree_bad_path\<close> before any file is touched.\<close>

theorem shipped_config_throws:
  assumes "ptree_of shipped_nums shipped_strings root"
  shows "readConf root = Inl (Thrown ''ptree_bad_path'')"
proof -
  have "shipped_nums ''ChunkerConfig._slidingWinSize'' = None"
    by (simp add: shipped_nums_def)
  then have "get_u64 root ''ChunkerConfig._slidingWinSize'' = Inl (Thrown ''ptree_bad_path'')"
    using assms by (simp add: ptree_of_def)
  then show ?thesis
    using assms by (simp add: readConf_def ptree_of_def split: option.split)
qed

theorem shipped_config_throws_witness:
  "readConf (toy_ptree shipped_nums shipped_strings) = Inl (Thrown ''ptree_bad_path'')"
  by (rule shipped_config_throws [OF ptree_of_toy])

end
