(* ===== verification/Database.thy ===== *)
theory Database
  imports Data_Structure
begin

text \<open>
  \<open>Database\<close> (\<open>src/database.cpp\<close>) wraps a LevelDB database.  LevelDB is modelled by the
  behaviour its interface documents (\<open>include/leveldb/db.h\<close>): an ordered map from byte strings
  to byte strings, ordered by the bytewise comparator, whose iterator walks a snapshot in key
  order, and which refuses every write after a background error.  The locale \<open>kv_store\<close> is
  the contract the storage components use.
\<close>

section \<open>LevelDB\<close>

record leveldb =
  ldb_entries :: "(bytes \<times> bytes) list"
  ldb_bg_error :: bool

fun entries_put :: "bytes \<Rightarrow> bytes \<Rightarrow> (bytes \<times> bytes) list \<Rightarrow> (bytes \<times> bytes) list" where
  "entries_put k v [] = [(k, v)]"
| "entries_put k v ((a, b) # r) =
     (if k < a then (k, v) # (a, b) # r
      else if k = a then (k, v) # r
      else (a, b) # entries_put k v r)"

fun entries_delete :: "bytes \<Rightarrow> (bytes \<times> bytes) list \<Rightarrow> (bytes \<times> bytes) list" where
  "entries_delete k [] = []"
| "entries_delete k ((a, b) # r) = (if k = a then r else (a, b) # entries_delete k r)"

definition leveldb_inv :: "leveldb \<Rightarrow> bool" where
  "leveldb_inv l \<longleftrightarrow> sorted_wrt (<) (map fst (ldb_entries l))"

section \<open>The wrapper\<close>

record database =
  dbName :: bytes
  levelDBObj :: leveldb

definition query :: "database \<Rightarrow> bytes \<Rightarrow> bytes option" where
  "query db key = map_of (ldb_entries (levelDBObj db)) key"

text \<open>\<open>insert\<close> and \<open>delete_\<close> return the status of the write with the database.\<close>

definition insert_db :: "database \<Rightarrow> bytes \<Rightarrow> bytes \<Rightarrow> bool \<times> database" where
  "insert_db db key val =
     (let l = levelDBObj db in
      if ldb_bg_error l then (False, db)
      else (True, db\<lparr>levelDBObj := l\<lparr>ldb_entries := entries_put key val (ldb_entries l)\<rparr>\<rparr>))"

definition delete_db :: "database \<Rightarrow> bytes \<Rightarrow> bool \<times> database" where
  "delete_db db key =
     (let l = levelDBObj db in
      if ldb_bg_error l then (False, db)
      else (True, db\<lparr>levelDBObj := l\<lparr>ldb_entries := entries_delete key (ldb_entries l)\<rparr>\<rparr>))"

text \<open>The keys an iterator visits: those of the snapshot taken when it is made, in order.\<close>

definition iterator :: "database \<Rightarrow> bytes list" where
  "iterator db = map fst (ldb_entries (levelDBObj db))"

text \<open>
  \<open>openDB\<close>: with a lock file the database stays unopened and the call returns \<open>false\<close>;
  otherwise LevelDB opens the directory, creating it when it is missing
  (\<open>create_if_missing\<close>), and a failure to open ends the program in the \<open>assert\<close>.
  \<open>disk\<close> holds the databases on disk, \<open>opens\<close> whether LevelDB can open a directory.
\<close>

definition openDB ::
  "filesystem \<Rightarrow> (bytes \<Rightarrow> leveldb option) \<Rightarrow> (bytes \<Rightarrow> bool) \<Rightarrow> bytes \<Rightarrow> database option result" where
  "openDB fs disk opens name =
     (if files fs (str ''.'' @ name @ str ''.lock'') \<noteq> None then Inr None
      else if opens name then
        Inr (Some \<lparr>dbName = name,
          levelDBObj = (case disk name of Some l \<Rightarrow> l
                         | None \<Rightarrow> \<lparr>ldb_entries = [], ldb_bg_error = False\<rparr>)\<rparr>)
      else Inl (Thrown ''assert''))"

definition closeDB :: "filesystem \<Rightarrow> database \<Rightarrow> filesystem" where
  "closeDB fs db = fs_remove (str ''.'' @ dbName db @ str ''.lock'') fs"

section \<open>The contract of a key-value store\<close>

locale kv_store =
  fixes get :: "'d \<Rightarrow> 'k \<Rightarrow> 'v option"
    and put :: "'k \<Rightarrow> 'v \<Rightarrow> 'd \<Rightarrow> 'd"
    and del :: "'k \<Rightarrow> 'd \<Rightarrow> 'd"
    and keys :: "'d \<Rightarrow> 'k list"
    and inv :: "'d \<Rightarrow> bool"
  assumes get_put: "inv d \<Longrightarrow> get (put k v d) = (get d)(k \<mapsto> v)"
    and get_del: "inv d \<Longrightarrow> get (del k d) = (get d)(k := None)"
    and keys_dom: "inv d \<Longrightarrow> set (keys d) = dom (get d)"
    and distinct_keys: "inv d \<Longrightarrow> distinct (keys d)"
    and inv_put: "inv d \<Longrightarrow> inv (put k v d)"
    and inv_del: "inv d \<Longrightarrow> inv (del k d)"
begin

text \<open>A loop over the keys of a snapshot that deletes the entries satisfying \<open>P\<close>.\<close>

lemma get_sweep:
  assumes "inv d"
  shows "get (fold (\<lambda>k d. case get d k of None \<Rightarrow> d | Some v \<Rightarrow> if P v then del k d else d) ks d)
    = (\<lambda>k. if k \<in> set ks then (case get d k of None \<Rightarrow> None | Some v \<Rightarrow> if P v then None else Some v)
           else get d k)"
  using assms
proof (induction ks arbitrary: d)
  case Nil
  then show ?case by simp
next
  case (Cons k ks)
  let ?s = "\<lambda>k d. case get d k of None \<Rightarrow> d | Some v \<Rightarrow> if P v then del k d else d"
  have inv: "inv (?s k d)"
    using Cons.prems by (auto simp: inv_del split: option.splits)
  have get1: "get (?s k d) = (\<lambda>j. if j = k then
       (case get d k of None \<Rightarrow> None | Some v \<Rightarrow> if P v then None else Some v) else get d j)"
    using Cons.prems by (auto simp: get_del fun_eq_iff split: option.splits)
  show ?case
    by (simp add: Cons.IH [OF inv] get1 fun_eq_iff split: option.splits)
qed

lemma inv_sweep:
  "inv d \<Longrightarrow>
   inv (fold (\<lambda>k d. case get d k of None \<Rightarrow> d | Some v \<Rightarrow> if P v then del k d else d) ks d)"
proof (induction ks arbitrary: d)
  case (Cons k ks)
  have "inv (case get d k of None \<Rightarrow> d | Some v \<Rightarrow> if P v then del k d else d)"
    using Cons.prems by (auto simp: inv_del split: option.splits)
  then show ?case using Cons.IH by simp
qed simp

text \<open>Sweeping a fresh snapshot leaves exactly the entries that do not satisfy \<open>P\<close>.\<close>

lemma get_sweep_keys:
  assumes "inv d"
  shows "get (fold (\<lambda>k d. case get d k of None \<Rightarrow> d | Some v \<Rightarrow> if P v then del k d else d) (keys d) d) k
    = (case get d k of None \<Rightarrow> None | Some v \<Rightarrow> if P v then None else Some v)"
  using assms by (auto simp: get_sweep keys_dom split: option.splits)

end

section \<open>The wrapper implements the contract\<close>

definition database_inv :: "database \<Rightarrow> bool" where
  "database_inv db \<longleftrightarrow> leveldb_inv (levelDBObj db) \<and> \<not> ldb_bg_error (levelDBObj db)"

lemma map_of_entries_put: "map_of (entries_put k v es) = (map_of es)(k \<mapsto> v)"
  by (induction k v es rule: entries_put.induct) (auto simp: fun_eq_iff)

lemma keys_entries_put: "set (map fst (entries_put k v es)) = insert k (set (map fst es))"
  by (induction k v es rule: entries_put.induct) auto

lemma sorted_entries_put:
  "sorted_wrt (<) (map fst es) \<Longrightarrow> sorted_wrt (<) (map fst (entries_put k v es))"
proof (induction k v es rule: entries_put.induct)
  case (2 k v a b r)
  have "set (map fst (entries_put k v r)) = insert k (set (map fst r))"
    by (rule keys_entries_put)
  with 2 show ?case by (auto intro: less_trans)
qed simp

lemma map_of_not_key: "k \<notin> set (map fst es) \<Longrightarrow> map_of es k = None"
  by (simp add: map_of_eq_None_iff)

lemma sorted_head_not_key:
  "sorted_wrt (<) (map fst ((a, b) # r)) \<Longrightarrow> a \<notin> set (map fst (r :: (bytes \<times> bytes) list))"
  by auto

lemma map_of_entries_delete:
  "sorted_wrt (<) (map fst es) \<Longrightarrow> map_of (entries_delete k es) = (map_of es)(k := None)"
proof (induction k es rule: entries_delete.induct)
  case (2 k a b r)
  then show ?case
    using map_of_not_key [OF sorted_head_not_key [OF "2.prems"]] by (auto simp: fun_eq_iff)
qed auto

lemma keys_entries_delete: "set (map fst (entries_delete k es)) \<subseteq> set (map fst es)"
  by (induction k es rule: entries_delete.induct) auto

lemma sorted_entries_delete:
  "sorted_wrt (<) (map fst es) \<Longrightarrow> sorted_wrt (<) (map fst (entries_delete k es))"
proof (induction k es rule: entries_delete.induct)
  case (2 k a b r)
  have "set (map fst (entries_delete k r)) \<subseteq> set (map fst r)" by (rule keys_entries_delete)
  with 2 show ?case by force
qed simp

lemma database_inv_ok: "database_inv db \<Longrightarrow> fst (insert_db db k v)"
  by (simp add: database_inv_def Let_def insert_db_def)

lemma query_insert: "database_inv db \<Longrightarrow> query (snd (insert_db db k v)) = (query db)(k \<mapsto> v)"
  by (simp add: database_inv_def insert_db_def query_def map_of_entries_put fun_eq_iff Let_def)

lemma query_delete: "database_inv db \<Longrightarrow> query (snd (delete_db db k)) = (query db)(k := None)"
  by (simp add: database_inv_def delete_db_def query_def leveldb_inv_def map_of_entries_delete
      fun_eq_iff Let_def)

lemma database_inv_insert: "database_inv db \<Longrightarrow> database_inv (snd (insert_db db k v))"
  by (simp add: database_inv_def insert_db_def leveldb_inv_def sorted_entries_put Let_def)

lemma database_inv_delete: "database_inv db \<Longrightarrow> database_inv (snd (delete_db db k))"
  by (simp add: database_inv_def delete_db_def leveldb_inv_def sorted_entries_delete Let_def)

lemma iterator_dom: "set (iterator db) = dom (query db)"
  by (simp add: iterator_def query_def [abs_def] dom_map_of_conv_image_fst)

lemma iterator_distinct: "database_inv db \<Longrightarrow> distinct (iterator db)"
  unfolding database_inv_def leveldb_inv_def iterator_def
  by (metis strict_sorted_iff)

interpretation kv: kv_store query "\<lambda>k v db. snd (insert_db db k v)" "\<lambda>k db. snd (delete_db db k)"
  iterator database_inv
  by unfold_locales
    (auto simp: query_insert query_delete iterator_dom iterator_distinct
      database_inv_insert database_inv_delete)

end
