(* ===== verification/Crypto_Primitive.thy ===== *)
theory Crypto_Primitive
  imports Data_Structure
begin

text \<open>
  \<open>CryptoPrimitive\<close> (\<open>src/cryptoPrimitive.cc\<close>): the chunk fingerprint, the encryption of a
  chunk under its key, and the lock table handed to OpenSSL.  OpenSSL is not part of the
  repository: the record \<open>evp\<close> holds the functions of its EVP interface the code calls, as
  arguments of every definition, and \<open>evp_cipher_ok\<close> states what its documentation promises
  of the CFB cipher.
\<close>

record evp =
  EVP_MD_CTX_new :: bool
  EVP_DigestInit_ex :: bool
  EVP_DigestUpdate :: "bytes \<Rightarrow> bool"
  EVP_DigestFinal_ex :: "bytes \<Rightarrow> bytes option"
  EVP_CIPHER_CTX_new :: bool
  EVP_EncryptInit_ex :: "bytes \<Rightarrow> bytes \<Rightarrow> bool"
  EVP_EncryptUpdate :: "bytes \<Rightarrow> bytes \<Rightarrow> bytes \<Rightarrow> bytes option"
  EVP_EncryptFinal_ex :: "bytes \<Rightarrow> bytes \<Rightarrow> bytes \<Rightarrow> bytes option"
  EVP_DecryptInit_ex :: "bytes \<Rightarrow> bytes \<Rightarrow> bool"
  EVP_DecryptUpdate :: "bytes \<Rightarrow> bytes \<Rightarrow> bytes \<Rightarrow> bytes option"
  EVP_DecryptFinal_ex :: "bytes \<Rightarrow> bytes \<Rightarrow> bytes \<Rightarrow> bytes option"

section \<open>The lock table\<close>

text \<open>\<open>lockList\<close> holds for each mutex whether it is locked.  A callback that has to wait for a
  mutex is \<open>None\<close>.\<close>

record opensslLock_t =
  lockList :: "bool list"
  cntList :: "int list"

definition opensslLockingCallback ::
  "u32 \<Rightarrow> int \<Rightarrow> opensslLock_t \<Rightarrow> opensslLock_t option result" where
  "opensslLockingCallback mode type l =
     and_then (vec_at (lockList l) type) (\<lambda>held.
       if mode AND 1 \<noteq> 0 then
         (if held then Inr None
          else and_then (vec_at (cntList l) type) (\<lambda>c.
            Inr (Some (l\<lparr>lockList := (lockList l)[nat type := True],
                         cntList := (cntList l)[nat type := c + 1]\<rparr>))))
       else Inr (Some (l\<lparr>lockList := (lockList l)[nat type := False]\<rparr>)))"

definition opensslLockSetup :: "nat \<Rightarrow> opensslLock_t" where
  "opensslLockSetup num_locks =
     \<lparr>lockList = replicate num_locks False, cntList = replicate num_locks 0\<rparr>"

section \<open>The object\<close>

record CryptoPrimitive =
  hashSize :: nat
  blockSize :: nat
  iv :: bytes
  chunkKeyEncryptionKey :: bytes

definition newCryptoPrimitive :: CryptoPrimitive where
  "newCryptoPrimitive =
     \<lparr>hashSize = CHUNK_HASH_SIZE, blockSize = CRYPTO_BLOCK_SZIE,
      iv = replicate CRYPTO_BLOCK_SZIE 0,
      chunkKeyEncryptionKey = replicate CHUNK_ENCRYPT_KEY_SIZE 0\<rparr>"

section \<open>Hashing\<close>

text \<open>
  \<open>generateHash\<close> returns the bytes it writes from \<open>hash\<close> on, or \<open>None\<close> for \<open>false\<close>: the
  digest with every zero byte replaced by \<open>0x80\<close>, and one more zero byte at index
  \<open>CHUNK_HASH_SIZE\<close>.
\<close>

definition no_zero :: "byte \<Rightarrow> byte" where
  "no_zero b = (if b = 0 then 128 else b)"

definition generateHash :: "evp \<Rightarrow> bytes \<Rightarrow> bytes option" where
  "generateHash e data =
     (if \<not> EVP_MD_CTX_new e then None
      else if \<not> EVP_DigestInit_ex e then None
      else if \<not> EVP_DigestUpdate e data then None
      else case EVP_DigestFinal_ex e data of
             None \<Rightarrow> None
           | Some h \<Rightarrow> Some (map no_zero (take CHUNK_HASH_SIZE h) @ [0]))"

section \<open>Encryption\<close>

definition encryptWithKey :: "evp \<Rightarrow> CryptoPrimitive \<Rightarrow> bytes \<Rightarrow> bytes \<Rightarrow> bytes option" where
  "encryptWithKey e c data key =
     (if \<not> EVP_CIPHER_CTX_new e then None
      else if \<not> EVP_EncryptInit_ex e key (iv c) then None
      else case EVP_EncryptUpdate e key (iv c) data of
        None \<Rightarrow> None
      | Some out \<Rightarrow> (case EVP_EncryptFinal_ex e key (iv c) data of
          None \<Rightarrow> None
        | Some tail \<Rightarrow>
            if length out + length tail \<noteq> length data then None else Some (out @ tail)))"

definition decryptWithKey :: "evp \<Rightarrow> CryptoPrimitive \<Rightarrow> bytes \<Rightarrow> bytes \<Rightarrow> bytes option" where
  "decryptWithKey e c cipher key =
     (if \<not> EVP_CIPHER_CTX_new e then None
      else if \<not> EVP_DecryptInit_ex e key (iv c) then None
      else case EVP_DecryptUpdate e key (iv c) cipher of
        None \<Rightarrow> None
      | Some out \<Rightarrow> (case EVP_DecryptFinal_ex e key (iv c) cipher of
          None \<Rightarrow> None
        | Some tail \<Rightarrow>
            if length out + length tail \<noteq> length cipher then None else Some (out @ tail)))"

text \<open>Writing \<open>d\<close> over the front of an array, as \<open>memcpy\<close> to its address does.\<close>

definition copy_front :: "bytes \<Rightarrow> bytes \<Rightarrow> bytes" where
  "copy_front d arr = d @ drop (length d) arr"

text \<open>\<open>encryptChunk\<close> changes the chunk in place; when the second encryption fails the data
  has already been replaced.  The size of the chunk is an \<open>int\<close> the function does not check: a
  negative one is the size of the local array \<open>ciphertext\<close>, and one beyond the buffer makes the
  cipher read outside it.  Both are \<open>OutOfBounds\<close>.\<close>

definition chunk_size_bad :: "Chunk_t \<Rightarrow> bool" where
  "chunk_size_bad ch \<longleftrightarrow>
     chunk_logicDataSize ch < 0 \<or> int (length (chunk_logicData ch)) < chunk_logicDataSize ch"

definition encryptChunk :: "evp \<Rightarrow> CryptoPrimitive \<Rightarrow> Chunk_t \<Rightarrow> (bool \<times> Chunk_t) result" where
  "encryptChunk e c ch =
     (if chunk_size_bad ch then Inl OutOfBounds else
      Inr (case encryptWithKey e c (take (nat (chunk_logicDataSize ch)) (chunk_logicData ch))
             (chunk_encryptKey ch) of
        None \<Rightarrow> (False, ch)
      | Some ct \<Rightarrow>
          (let ch1 = ch\<lparr>chunk_logicData := copy_front ct (chunk_logicData ch)\<rparr> in
           case encryptWithKey e c (chunk_encryptKey ch) (chunkKeyEncryptionKey c) of
             None \<Rightarrow> (False, ch1)
           | Some ck \<Rightarrow> (True, ch1\<lparr>chunk_encryptKey := copy_front ck (chunk_encryptKey ch1)\<rparr>))))"

definition decryptChunkData :: "evp \<Rightarrow> CryptoPrimitive \<Rightarrow> bytes \<Rightarrow> bytes \<Rightarrow> bytes option" where
  "decryptChunkData e c chunkData key =
     (case decryptWithKey e c key (chunkKeyEncryptionKey c) of
        None \<Rightarrow> None
      | Some plaintKey \<Rightarrow> decryptWithKey e c chunkData plaintKey)"

definition decryptChunk :: "evp \<Rightarrow> CryptoPrimitive \<Rightarrow> Chunk_t \<Rightarrow> (bool \<times> Chunk_t) result" where
  "decryptChunk e c ch =
     (if chunk_size_bad ch then Inl OutOfBounds else
      Inr (case decryptWithKey e c (chunk_encryptKey ch) (chunkKeyEncryptionKey c) of
        None \<Rightarrow> (False, ch)
      | Some plaintKey \<Rightarrow>
          (case decryptWithKey e c (take (nat (chunk_logicDataSize ch)) (chunk_logicData ch)) plaintKey of
             None \<Rightarrow> (False, ch)
           | Some plain \<Rightarrow> (True, ch\<lparr>chunk_logicData := copy_front plain (chunk_logicData ch)\<rparr>))))"

section \<open>What is assumed of OpenSSL\<close>

text \<open>A digest call that succeeds gives 32 bytes; the calls succeed.\<close>

definition evp_digest_ok :: "evp \<Rightarrow> bool" where
  "evp_digest_ok e \<longleftrightarrow> EVP_MD_CTX_new e \<and> EVP_DigestInit_ex e
     \<and> (\<forall>d. EVP_DigestUpdate e d)
     \<and> (\<forall>d. \<exists>h. EVP_DigestFinal_ex e d = Some h \<and> length h = 32)"

text \<open>In CFB mode the cipher keeps the length, writes nothing at the end, and decryption under
  the same key and vector undoes encryption.\<close>

definition evp_cipher_ok :: "evp \<Rightarrow> bool" where
  "evp_cipher_ok e \<longleftrightarrow> EVP_CIPHER_CTX_new e
     \<and> (\<forall>k v. EVP_EncryptInit_ex e k v \<and> EVP_DecryptInit_ex e k v)
     \<and> (\<forall>k v d. EVP_EncryptFinal_ex e k v d = Some [] \<and> EVP_DecryptFinal_ex e k v d = Some [])
     \<and> (\<forall>k v d. \<exists>c. EVP_EncryptUpdate e k v d = Some c \<and> length c = length d
                     \<and> EVP_DecryptUpdate e k v c = Some d)"

section \<open>Lemmas\<close>

lemma no_zero_nonzero [simp]: "no_zero b \<noteq> 0"
  by (simp add: no_zero_def)

lemma generateHash_Some:
  assumes "evp_digest_ok e"
  shows "\<exists>h. generateHash e d = Some (h @ [0]) \<and> length h = CHUNK_HASH_SIZE \<and> 0 \<notin> set h"
proof -
  from assms obtain h where h: "EVP_DigestFinal_ex e d = Some h" "length h = 32"
    unfolding evp_digest_ok_def by blast
  have "0 \<notin> set (map no_zero (take CHUNK_HASH_SIZE h))"
    by (metis ex_map_conv no_zero_nonzero)
  with assms h show ?thesis
    by (auto simp: evp_digest_ok_def generateHash_def size_defs)
qed

lemma generateHash_shape:
  assumes "evp_digest_ok e" and "generateHash e d = Some w"
  shows "length (take CHUNK_HASH_SIZE w) = CHUNK_HASH_SIZE" and "0 \<notin> set (take CHUNK_HASH_SIZE w)"
    and "w = take CHUNK_HASH_SIZE w @ [0]"
  using generateHash_Some [OF assms(1), of d] assms(2) by auto

lemma encrypt_decrypt:
  assumes "evp_cipher_ok e"
  obtains ct where "encryptWithKey e c d k = Some ct" and "length ct = length d"
    and "decryptWithKey e c ct k = Some d"
proof -
  from assms obtain ct where "EVP_EncryptUpdate e k (iv c) d = Some ct" "length ct = length d"
    "EVP_DecryptUpdate e k (iv c) ct = Some d"
    unfolding evp_cipher_ok_def by blast
  with assms that show ?thesis
    by (auto simp: evp_cipher_ok_def encryptWithKey_def decryptWithKey_def)
qed

lemma take_copy_front: "length d = n \<Longrightarrow> take n (copy_front d arr) = d"
  by (simp add: copy_front_def)

lemma copy_front_twice:
  "length d = length d' \<Longrightarrow> copy_front d' (copy_front d arr) = copy_front d' arr"
  by (simp add: copy_front_def)

lemma copy_front_take: "n \<le> length arr \<Longrightarrow> copy_front (take n arr) arr = arr"
  by (simp add: copy_front_def)

lemma copy_front_whole: "length d = length arr \<Longrightarrow> copy_front d arr = d"
  by (simp add: copy_front_def)

section \<open>Properties\<close>

text \<open>C9: encrypting a chunk whose size is not negative and within its buffer and decrypting
  it again gives back the data of the chunk; both calls succeed, and the key stays encrypted in
  the chunk (\<open>decryptChunk\<close> does not write it back).\<close>

theorem decrypt_encrypt_chunk:
  assumes "evp_cipher_ok e" and "length (chunk_logicData ch) = MAX_CHUNK_SIZE"
    and "0 \<le> chunk_logicDataSize ch" and "chunk_logicDataSize ch \<le> int MAX_CHUNK_SIZE"
    and "length (chunk_encryptKey ch) = CHUNK_ENCRYPT_KEY_SIZE"
  shows "\<exists>ch' k. encryptChunk e c ch = Inr (True, ch')
     \<and> encryptWithKey e c (chunk_encryptKey ch) (chunkKeyEncryptionKey c) = Some k
     \<and> decryptChunk e c ch' = Inr (True, ch\<lparr>chunk_encryptKey := k\<rparr>)"
proof -
  let ?n = "nat (chunk_logicDataSize ch)"
  obtain ct where ct: "encryptWithKey e c (take ?n (chunk_logicData ch)) (chunk_encryptKey ch) = Some ct"
      and lct: "length ct = length (take ?n (chunk_logicData ch))"
      and dct: "decryptWithKey e c ct (chunk_encryptKey ch) = Some (take ?n (chunk_logicData ch))"
    by (rule encrypt_decrypt [OF assms(1)])
  have n: "?n \<le> length (chunk_logicData ch)" using assms(2,4) by simp
  then have ln: "length ct = ?n" using lct by simp
  obtain k where k: "encryptWithKey e c (chunk_encryptKey ch) (chunkKeyEncryptionKey c) = Some k"
      "length k = length (chunk_encryptKey ch)"
      "decryptWithKey e c k (chunkKeyEncryptionKey c) = Some (chunk_encryptKey ch)"
    by (rule encrypt_decrypt [OF assms(1)])
  let ?ch' = "ch\<lparr>chunk_logicData := copy_front ct (chunk_logicData ch), chunk_encryptKey := k\<rparr>"
  have "\<not> chunk_size_bad ch" and "\<not> chunk_size_bad ?ch'"
    using assms(2-4) ln by (simp_all add: chunk_size_bad_def copy_front_def)
  note sizes = this
  have enc: "encryptChunk e c ch = Inr (True, ?ch')"
    using ct k sizes by (simp add: encryptChunk_def Let_def copy_front_whole)
  have "decryptChunk e c ?ch' = Inr (True, ch\<lparr>chunk_encryptKey := k\<rparr>)"
    using ct ln dct k n sizes
    by (simp add: decryptChunk_def take_copy_front copy_front_twice copy_front_take)
  with enc k show ?thesis by blast
qed

definition xor_bytes :: "bytes \<Rightarrow> bytes" where
  "xor_bytes d = map (\<lambda>b. b XOR 90) d"

definition toy_evp :: evp where
  "toy_evp = \<lparr>EVP_MD_CTX_new = True, EVP_DigestInit_ex = True, EVP_DigestUpdate = (\<lambda>_. True),
     EVP_DigestFinal_ex = (\<lambda>d. Some (take 32 (d @ replicate 32 (of_nat (length d))))),
     EVP_CIPHER_CTX_new = True, EVP_EncryptInit_ex = (\<lambda>_ _. True),
     EVP_EncryptUpdate = (\<lambda>_ _ d. Some (xor_bytes d)), EVP_EncryptFinal_ex = (\<lambda>_ _ _. Some []),
     EVP_DecryptInit_ex = (\<lambda>_ _. True),
     EVP_DecryptUpdate = (\<lambda>_ _ d. Some (xor_bytes d)), EVP_DecryptFinal_ex = (\<lambda>_ _ _. Some [])\<rparr>"

lemma toy_evp_ok: "evp_cipher_ok toy_evp" "evp_digest_ok toy_evp"
proof -
  have "xor_bytes (xor_bytes d) = d" for d
    by (induction d) (auto simp: xor_bytes_def xor.assoc)
  then show "evp_cipher_ok toy_evp"
    by (simp add: evp_cipher_ok_def toy_evp_def xor_bytes_def)
  show "evp_digest_ok toy_evp"
    by (auto simp: evp_digest_ok_def toy_evp_def)
qed

definition toy_chunk :: Chunk_t where
  "toy_chunk = \<lparr>chunk_ID = 0, chunk_type = 0, chunk_logicDataSize = 3,
     chunk_logicData = [1, 2, 3] @ replicate 16381 0, chunk_chunkHash = replicate 32 1,
     chunk_encryptKey = replicate 32 7\<rparr>"

theorem decrypt_encrypt_chunk_witness:
  "\<exists>ch' k. encryptChunk toy_evp newCryptoPrimitive toy_chunk = Inr (True, ch')
     \<and> encryptWithKey toy_evp newCryptoPrimitive (chunk_encryptKey toy_chunk)
         (chunkKeyEncryptionKey newCryptoPrimitive) = Some k
     \<and> decryptChunk toy_evp newCryptoPrimitive ch' = Inr (True, toy_chunk\<lparr>chunk_encryptKey := k\<rparr>)"
  by (rule decrypt_encrypt_chunk [OF toy_evp_ok(1)]) (simp_all add: toy_chunk_def size_defs)

text \<open>C10: a fingerprint never contains a zero byte in its 32 bytes, so reading it as a C string
  gives all of them; the byte that ends the string is written at index 32, one past the
  \<open>u_char hash[CHUNK_HASH_SIZE]\<close> arrays every caller passes.\<close>

theorem generateHash_c_string:
  assumes "evp_digest_ok e"
  shows "\<exists>w. generateHash e d = Some w \<and> c_string w = Inr (take CHUNK_HASH_SIZE w)
     \<and> length (take CHUNK_HASH_SIZE w) = CHUNK_HASH_SIZE \<and> length w = CHUNK_HASH_SIZE + 1"
proof -
  from generateHash_Some [OF assms, of d] obtain h where
    "generateHash e d = Some (h @ [0])" "length h = CHUNK_HASH_SIZE" "0 \<notin> set h" by blast
  then show ?thesis by (auto simp: c_string_terminated)
qed

theorem generateHash_c_string_witness:
  "\<exists>w. generateHash toy_evp [1, 0, 3] = Some w \<and> c_string w = Inr (take CHUNK_HASH_SIZE w)
     \<and> length (take CHUNK_HASH_SIZE w) = CHUNK_HASH_SIZE \<and> length w = CHUNK_HASH_SIZE + 1"
  by (rule generateHash_c_string [OF toy_evp_ok(2)])

end
