(* ===== verification/Storage_Core.thy ===== *)
theory Storage_Core
  imports Configure Database Crypto_Primitive
begin

text \<open>
  \<open>StorageCore\<close> and \<open>Container\<close> (\<open>src/storageCore.cpp\<close>): chunks are appended to a container
  in memory, a full container is written to a file under a fresh name, the database
  \<open>fp2ChunkDB\<close> maps a fingerprint to the place of its chunk, and a recipe file lists the chunks
  of a stored file.  Databases and files are the shared state \<open>world\<close>; an operation takes the
  object and the world and returns them changed.  A \<open>bool\<close> result of the code is a \<open>bool\<close>;
  an out-parameter is returned beside it.
\<close>

section \<open>State\<close>

record world =
  w_fs :: filesystem
  fp2ChunkDB :: database
  fileName2metaDB :: database
  deltaChunkDB :: database
  containerDB :: database

definition BODY_SIZE :: nat where
  [size_defs]: "BODY_SIZE = 16777216"

record Container =
  c_used :: u32
  c_body :: memory

record StorageCore =
  lastContainerFileName :: bytes
  currentReadContainerFileName :: bytes
  containerNamePrefix :: bytes
  containerNameTail :: bytes
  RecipeNamePrefix :: bytes
  RecipeNameTail :: bytes
  currentContainer :: Container
  currentReadContainer :: Container
  maxContainerSize :: u64

section \<open>Container files\<close>

text \<open>\<open>Container::saveTOFile\<close>: writes \<open>used_\<close> bytes of the body and records the size.\<close>

definition Container_saveTOFile :: "Container \<Rightarrow> bytes \<Rightarrow> world \<Rightarrow> (bool \<times> world) result" where
  "Container_saveTOFile c fileName w =
     (if \<not> writable (w_fs w) fileName then Inr (False, w)
      else if unat (c_used c) > BODY_SIZE then Inl OutOfBounds
      else case fs_write fileName (mem_read (c_body c) 0 (unat (c_used c))) (w_fs w) of
             None \<Rightarrow> Inr (False, w)
           | Some fs \<Rightarrow>
               Inr (True, w\<lparr>w_fs := fs,
                 containerDB := snd (insert_db (containerDB w) fileName
                   (to_string (int (unat (c_used c)))))\<rparr>))"

text \<open>\<open>std::next_permutation\<close>: the next permutation in lexicographic order and \<open>true\<close>, or the
  first one and \<open>false\<close> after the last.\<close>

fun next_permutation :: "'a::linorder list \<Rightarrow> bool \<times> 'a list" where
  "next_permutation [] = (False, [])"
| "next_permutation (x # xs) =
     (case next_permutation xs of
        (True, ys) \<Rightarrow> (True, x # ys)
      | (False, ys) \<Rightarrow>
          (case dropWhile (\<lambda>y. y \<le> x) ys of
             [] \<Rightarrow> (False, ys @ [x])
           | y # gt \<Rightarrow> (True, y # takeWhile (\<lambda>y. y \<le> x) ys @ x # gt)))"

definition containerPath :: "StorageCore \<Rightarrow> bytes \<Rightarrow> bytes" where
  "containerPath s name = containerNamePrefix s @ name @ containerNameTail s"

section \<open>Construction and destruction\<close>

text \<open>\<open>fin >> name >> used\<close> on the configuration file the destructor writes: a token and a
  number; a number that is missing reads as 0, one that does not fit as the maximum, and one
  with a minus sign as its negation modulo \<open>2^32\<close>.\<close>

definition is_space :: "byte \<Rightarrow> bool" where
  "is_space b \<longleftrightarrow> b = 32 \<or> 9 \<le> b \<and> b \<le> 13"

definition read_token :: "bytes \<Rightarrow> bytes \<times> bytes" where
  "read_token t = (let t' = skip_space t in
     (takeWhile (\<lambda>b. \<not> is_space b) t', dropWhile (\<lambda>b. \<not> is_space b) t'))"

definition read_u32 :: "bytes \<Rightarrow> u32" where
  "read_u32 t =
     (let t' = skip_space t;
          neg = (t' \<noteq> [] \<and> hd t' = 45);
          n = fst (parse_dec 0 (if t' \<noteq> [] \<and> (hd t' = 45 \<or> hd t' = 43) then tl t' else t')) in
      if n < 2 ^ 32 then (if neg then - of_nat n else of_nat n) else - 1)"

definition initial_name :: bytes where
  "initial_name = str ''abcdefghijklmno''"

text \<open>The constructor.  \<open>b1\<close> and \<open>b2\<close> are the uninitialised bodies of the two containers.\<close>

definition blankStorageCore :: "Configure \<Rightarrow> memory \<Rightarrow> memory \<Rightarrow> StorageCore" where
  "blankStorageCore cfg b1 b2 =
     \<lparr>lastContainerFileName = initial_name, currentReadContainerFileName = [],
      containerNamePrefix = getContainerRootPath cfg, containerNameTail = str ''.container'',
      RecipeNamePrefix = getRecipeRootPath cfg, RecipeNameTail = str ''.recipe'',
      currentContainer = \<lparr>c_used = 0, c_body = b1\<rparr>,
      currentReadContainer = \<lparr>c_used = 0, c_body = b2\<rparr>,
      maxContainerSize = getMaxContainerSize cfg\<rparr>"

definition newStorageCore :: "Configure \<Rightarrow> memory \<Rightarrow> memory \<Rightarrow> world \<Rightarrow> StorageCore result" where
  "newStorageCore cfg b1 b2 w =
     (let s = blankStorageCore cfg b1 b2 in
      case files (w_fs w) (str ''.StorageConfig'') of
        None \<Rightarrow> Inr s
      | Some t \<Rightarrow>
          (let name = fst (read_token t); used = read_u32 (snd (read_token t));
               d = take (unat used)
                 (case files (w_fs w) (containerPath s name) of None \<Rightarrow> [] | Some f \<Rightarrow> f)
           in if length d > BODY_SIZE then Inl OutOfBounds
              else Inr (s\<lparr>lastContainerFileName := name,
                          currentContainer := \<lparr>c_used = used, c_body = mem_write b1 0 d\<rparr>\<rparr>)))"

definition fs_try_write :: "bytes \<Rightarrow> bytes \<Rightarrow> filesystem \<Rightarrow> filesystem" where
  "fs_try_write p d fs = (case fs_write p d fs of None \<Rightarrow> fs | Some fs' \<Rightarrow> fs')"

definition deleteStorageCore :: "StorageCore \<Rightarrow> world \<Rightarrow> world result" where
  "deleteStorageCore s w =
     (let w1 = w\<lparr>w_fs := fs_try_write (str ''.StorageConfig'')
            (lastContainerFileName s @ [10] @ dec_of_nat (unat (c_used (currentContainer s))) @ [10])
            (w_fs w)\<rparr>
      in and_then (Container_saveTOFile (currentContainer s) (containerPath s (lastContainerFileName s)) w1)
           (\<lambda>(_, w2). Inr w2))"

section \<open>Writing and reading a container\<close>

text \<open>\<open>memcpy\<close> of \<open>n\<close> bytes of \<open>data\<close> into the body at \<open>off\<close>.\<close>

definition body_write :: "Container \<Rightarrow> nat \<Rightarrow> bytes \<Rightarrow> nat \<Rightarrow> Container result" where
  "body_write c off data n =
     (if off + n > BODY_SIZE \<or> n > length data then Inl OutOfBounds
      else Inr (c\<lparr>c_body := mem_write (c_body c) off (take n data)\<rparr>))"

definition set_name :: "bytes \<Rightarrow> keyForChunkHashDB_t \<Rightarrow> keyForChunkHashDB_t result" where
  "set_name name k =
     (if length name > length (key_containerName k) then Inl OutOfBounds
      else Inr (k\<lparr>key_containerName := copy_front name (key_containerName k)\<rparr>))"

definition writeContainer ::
  "keyForChunkHashDB_t \<Rightarrow> bytes \<Rightarrow> StorageCore \<Rightarrow> world
     \<Rightarrow> (bool \<times> keyForChunkHashDB_t \<times> StorageCore \<times> world) result" where
  "writeContainer key data s w =
     and_then
       (if unat (key_length key + c_used (currentContainer s)) < unat (maxContainerSize s) then
          and_then (body_write (currentContainer s) (unat (c_used (currentContainer s))) data
                      (unat (key_length key))) (\<lambda>c.
          and_then (set_name (lastContainerFileName s) key) (\<lambda>k.
            Inr (k, s\<lparr>currentContainer := c\<rparr>, w)))
        else
          and_then (Container_saveTOFile (currentContainer s)
                      (containerPath s (lastContainerFileName s)) w) (\<lambda>(_, w1).
            (let name = snd (next_permutation (lastContainerFileName s));
                 c0 = (currentContainer s)\<lparr>c_used := 0\<rparr> in
             and_then (body_write c0 0 data (unat (key_length key))) (\<lambda>c.
             and_then (set_name name key) (\<lambda>k.
               Inr (k, s\<lparr>lastContainerFileName := name, currentContainer := c\<rparr>, w1))))))
       (\<lambda>(k, s1, w1).
          Inr (True, k\<lparr>key_offset := c_used (currentContainer s1)\<rparr>, s1, w1))"

definition body_read :: "Container \<Rightarrow> nat \<Rightarrow> nat \<Rightarrow> bytes result" where
  "body_read c off n = (if off + n > BODY_SIZE then Inl OutOfBounds else Inr (mem_read (c_body c) off n))"

text \<open>\<open>readContainer\<close>: \<open>None\<close> for \<open>false\<close>, otherwise the bytes copied to \<open>data\<close>; only the
  cached container of the object changes.\<close>

definition readContainer ::
  "keyForChunkHashDB_t \<Rightarrow> StorageCore \<Rightarrow> world \<Rightarrow> (bytes option \<times> StorageCore) result" where
  "readContainer key s w =
     (let n = length (lastContainerFileName s);
          name = take n (key_containerName key);
          off = unat (key_offset key); len = unat (key_length key) in
      if n > length (key_containerName key) then Inl OutOfBounds
      else if name = currentReadContainerFileName s then
        and_then (body_read (currentReadContainer s) off len) (\<lambda>d. Inr (Some d, s))
      else if name = lastContainerFileName s then
        and_then (body_read (currentContainer s) off len) (\<lambda>d. Inr (Some d, s))
      else case files (w_fs w) (containerPath s name) of
             None \<Rightarrow> Inr (None, s)
           | Some f \<Rightarrow>
               if length f > BODY_SIZE then Inl OutOfBounds
               else (let c = \<lparr>c_used = of_nat (length f),
                               c_body = mem_write (c_body (currentReadContainer s)) 0 f\<rparr> in
                     and_then (body_read c off len) (\<lambda>d.
                       Inr (Some d, s\<lparr>currentReadContainer := c,
                                      currentReadContainerFileName := name\<rparr>))))"

section \<open>Chunks\<close>

text \<open>\<open>memcpy(&key, &ans[0], sizeof(key))\<close>.\<close>

definition load_key :: "bytes \<Rightarrow> keyForChunkHashDB_t result" where
  "load_key ans = (if length ans < sizeof_key then Inl OutOfBounds else Inr (key_of_bytes ans))"

text \<open>The loop of \<open>saveChunk\<close> that replaces zero bytes at the indices below \<open>length - 2\<close>, an
  unsigned 32-bit difference.\<close>

definition replace_zeros :: "u32 \<Rightarrow> bytes \<Rightarrow> bytes result" where
  "replace_zeros len d =
     (let n = unat (len - 2) in
      if n > length d then Inl OutOfBounds else Inr (map no_zero (take n d) @ drop n d))"

text \<open>
  \<open>saveChunk\<close>.  \<open>key0\<close> is the indeterminate content of the local variable \<open>key\<close>: only the last
  byte of its name survives the assignments.  The result is the returned value, the caller's
  buffer after the call, the object and the world.
\<close>

definition saveChunk ::
  "keyForChunkHashDB_t \<Rightarrow> bytes \<Rightarrow> bytes \<Rightarrow> int \<Rightarrow> StorageCore \<Rightarrow> world
     \<Rightarrow> (bool \<times> bytes \<times> StorageCore \<times> world) result" where
  "saveChunk key0 chunkhash chunkData chunkSize s w =
     (let chunkHash = take CHUNK_HASH_SIZE chunkhash in
      and_then
        (case query (fp2ChunkDB w) chunkHash of
           Some ans \<Rightarrow> and_then (load_key ans) (\<lambda>t.
             Inr (key0\<lparr>key_length := key_length t, key_deltaCount := key_deltaCount t,
                       key_count := key_count t\<rparr>))
         | None \<Rightarrow> Inr (key0\<lparr>key_length := word_of_int chunkSize, key_deltaCount := 0, key_count := 1\<rparr>))
        (\<lambda>key.
      and_then (replace_zeros (key_length key) chunkData) (\<lambda>data.
      and_then (writeContainer key data s w) (\<lambda>(status, key, s1, w1).
        if \<not> status then Inr (status, data, s1, w1)
        else (let (ok, db) = insert_db (fp2ChunkDB w1) chunkHash (key_bytes key);
                  w2 = w1\<lparr>fp2ChunkDB := db\<rparr> in
              if \<not> ok then Inr (False, data, s1, w2)
              else Inr (True, data,
                s1\<lparr>currentContainer := (currentContainer s1)
                     \<lparr>c_used := c_used (currentContainer s1) + key_length key\<rparr>\<rparr>, w2))))))"

definition retriveChunk ::
  "bytes \<Rightarrow> StorageCore \<Rightarrow> world \<Rightarrow> (bytes option \<times> StorageCore) result" where
  "retriveChunk chunkhash s w =
     (case query (fp2ChunkDB w) (take CHUNK_HASH_SIZE chunkhash) of
        None \<Rightarrow> Inr (None, s)
      | Some ans \<Rightarrow> and_then (load_key ans) (\<lambda>key. readContainer key s w))"

text \<open>
  \<open>restoreChunk\<close>.  A chunk stored as a delta names its base chunk in its first bytes; the base
  is restored first, by the same function, and its result is not checked.  The outer \<open>option\<close>
  is \<open>None\<close> where the recursion never ends; \<open>delta_apply\<close> is the function of the delta library
  (\<open>libsim.a\<close>), giving the bytes it writes to its output.
\<close>

partial_function (option) restoreChunk ::
  "(bytes \<Rightarrow> bytes \<Rightarrow> bytes) \<Rightarrow> world \<Rightarrow> StorageCore \<Rightarrow> bytes
     \<Rightarrow> (bytes option \<times> StorageCore) result option" where
  "restoreChunk delta_apply w s chunkhash =
     (case query (fp2ChunkDB w) (take CHUNK_HASH_SIZE chunkhash) of
        None \<Rightarrow> Some (Inr (None, s))
      | Some ans \<Rightarrow>
          (case load_key ans of Inl e \<Rightarrow> Some (Inl e)
           | Inr key \<Rightarrow>
               (case readContainer key s w of Inl e \<Rightarrow> Some (Inl e)
                | Inr (None, s1) \<Rightarrow> Some (Inr (None, s1))
                | Inr (Some chunkData, s1) \<Rightarrow>
                    if key_deltaCount key = 0 then Some (Inr (Some chunkData, s1))
                    else (case c_string chunkData of Inl e \<Rightarrow> Some (Inl e)
                      | Inr restoredata \<Rightarrow>
                          if length chunkData < CHUNK_HASH_SIZE then Some (Inl OutOfBounds)
                          else Option.bind (restoreChunk delta_apply w s1 (take CHUNK_HASH_SIZE chunkData))
                            (\<lambda>r. case r of Inl e \<Rightarrow> Some (Inl e)
                              | Inr (base, s2) \<Rightarrow>
                                  if length restoredata < CHUNK_HASH_SIZE
                                  then Some (Inl (Thrown ''out_of_range''))
                                  else (let out = delta_apply (case base of None \<Rightarrow> [] | Some b \<Rightarrow> b)
                                              (drop CHUNK_HASH_SIZE restoredata) in
                                        if length out \<ge> MAX_CHUNK_SIZE then Some (Inl OutOfBounds)
                                        else Some (Inr (Some (takeWhile (\<lambda>b. b \<noteq> 0) out), s2))))))))"

text \<open>\<open>deleteChunk\<close>: with the chunk in the database its counter is decremented and control
  flows off the end of the function: there is no returned value (\<open>None\<close>).\<close>

definition deleteChunk :: "bytes \<Rightarrow> world \<Rightarrow> (bool option \<times> world) result" where
  "deleteChunk chunkhash w =
     (let chunkHash = take CHUNK_HASH_SIZE chunkhash in
      case query (fp2ChunkDB w) chunkHash of
        None \<Rightarrow> Inr (Some False, w)
      | Some ans \<Rightarrow> and_then (load_key ans) (\<lambda>key.
          Inr (None, w\<lparr>fp2ChunkDB := snd (insert_db (fp2ChunkDB w) chunkHash
                 (key_bytes (key\<lparr>key_count := key_count key - 1\<rparr>)))\<rparr>)))"

section \<open>A message with many chunks\<close>

text \<open>One turn of the loop of \<open>saveChunks\<close> after another: \<open>pos\<close> is \<open>readSize\<close>.  A chunk that is
  already stored makes the loop go on without moving past its bytes.\<close>

fun saveChunks_loop ::
  "(bytes \<Rightarrow> keyForChunkHashDB_t) \<Rightarrow> nat \<Rightarrow> nat \<Rightarrow> bytes \<Rightarrow> StorageCore \<Rightarrow> world
     \<Rightarrow> (bool \<times> StorageCore \<times> world) result" where
  "saveChunks_loop stack 0 pos data s w = Inr (True, s, w)"
| "saveChunks_loop stack (Suc n) pos data s w =
     (if length data < pos + CHUNK_HASH_SIZE + 4 then Inl OutOfBounds
      else let originHash = slice pos CHUNK_HASH_SIZE data;
               size = int_of_bytes (slice (pos + CHUNK_HASH_SIZE) 4 data);
               pos' = pos + CHUNK_HASH_SIZE + 4 in
        case query (fp2ChunkDB w) originHash of
          Some _ \<Rightarrow> saveChunks_loop stack n pos' data s w
        | None \<Rightarrow>
            and_then (saveChunk (stack originHash) originHash (drop pos' data) size s w)
              (\<lambda>(ok, rest, s1, w1).
                 if \<not> ok then Inr (False, s1, w1)
                 else if size < 0 then Inl OutOfBounds
                 else saveChunks_loop stack n (pos' + nat size) (take pos' data @ rest) s1 w1))"

definition saveChunks ::
  "(bytes \<Rightarrow> keyForChunkHashDB_t) \<Rightarrow> bytes \<Rightarrow> StorageCore \<Rightarrow> world
     \<Rightarrow> (bool \<times> StorageCore \<times> world) result" where
  "saveChunks stack data s w =
     (if length data < 4 then Inl OutOfBounds
      else saveChunks_loop stack (nat (int_of_bytes (take 4 data))) 4 data s w)"

section \<open>Recipes\<close>

definition hex_digit :: "byte \<Rightarrow> byte" where
  "hex_digit d = (if d < 10 then 48 + d else 55 + d)"

text \<open>\<open>sprintf(..., "%02X", b)\<close> for every byte of the file-name hash.\<close>

definition hex_name :: "bytes \<Rightarrow> bytes" where
  "hex_name h = concat (map (\<lambda>b. [hex_digit (drop_bit 4 b), hex_digit (b AND 15)]) h)"

definition recipePath :: "StorageCore \<Rightarrow> bytes \<Rightarrow> bytes" where
  "recipePath s name = RecipeNamePrefix s @ name @ RecipeNameTail s"

definition saveRecipe ::
  "bytes \<Rightarrow> Recipe_t \<Rightarrow> RecipeList_t \<Rightarrow> bool \<Rightarrow> StorageCore \<Rightarrow> world \<Rightarrow> bool \<times> world" where
  "saveRecipe recipeName recipeHead recipeList status s w =
     (let entries = concat (map RecipeEntry_bytes recipeList) in
      case fs_append (recipePath s recipeName)
             (if status then entries else Recipe_bytes recipeHead @ entries) (w_fs w) of
        None \<Rightarrow> (False, w)
      | Some fs \<Rightarrow> (True, w\<lparr>w_fs := fs\<rparr>))"

definition checkRecipeStatus ::
  "Recipe_t \<Rightarrow> RecipeList_t \<Rightarrow> StorageCore \<Rightarrow> world \<Rightarrow> bool \<times> world" where
  "checkRecipeStatus recipeHead recipeList s w =
     (let DBKey = frh_fileNameHash (fileRecipeHead recipeHead) in
      case query (fileName2metaDB w) DBKey of
        Some recipeName \<Rightarrow> saveRecipe recipeName recipeHead recipeList True s w
      | None \<Rightarrow>
          (let name = hex_name DBKey;
               w1 = w\<lparr>fileName2metaDB := snd (insert_db (fileName2metaDB w) DBKey name)\<rparr>
           in saveRecipe name recipeHead recipeList False s w1))"

text \<open>\<open>restoreRecipeHead\<close>: \<open>None\<close> for \<open>false\<close>; a file shorter than the head leaves zeros.\<close>

definition restoreRecipeHead :: "bytes \<Rightarrow> StorageCore \<Rightarrow> world \<Rightarrow> Recipe_t option" where
  "restoreRecipeHead fileNameHash s w =
     (case query (fileName2metaDB w) (take FILE_NAME_HASH_SIZE fileNameHash) of
        None \<Rightarrow> None
      | Some recipeName \<Rightarrow>
          (case files (w_fs w) (recipePath s recipeName) of
             None \<Rightarrow> None
           | Some f \<Rightarrow> Some (Recipe_of_bytes (take sizeof_Recipe (f @ replicate sizeof_Recipe 0)))))"

text \<open>Zero padding up to the size of the \<open>logicData\<close> array (\<open>memset\<close>, then \<open>memcpy\<close>).\<close>

definition pad_chunk :: "bytes \<Rightarrow> bytes" where
  "pad_chunk d = d @ replicate (MAX_CHUNK_SIZE - length d) 0"

text \<open>The loop of \<open>restoreRecipeAndChunk\<close> over the entries in the read buffer; \<open>junk\<close> gives the
  members of the local \<open>newChunk\<close> that are never written.\<close>

fun restore_entries ::
  "(bytes \<Rightarrow> bytes \<Rightarrow> bytes) \<Rightarrow> Chunk_t \<Rightarrow> nat \<Rightarrow> bytes \<Rightarrow> world \<Rightarrow> StorageCore \<Rightarrow> ChunkList_t
     \<Rightarrow> (bool \<times> ChunkList_t \<times> StorageCore) result option" where
  "restore_entries delta_apply junk 0 buf w s acc = Some (Inr (True, acc, s))"
| "restore_entries delta_apply junk (Suc n) buf w s acc =
     (if length buf < sizeof_RecipeEntry then Some (Inl Uninitialised)
      else let e = RecipeEntry_of_bytes (take sizeof_RecipeEntry buf) in
        Option.bind (restoreChunk delta_apply w s (entry_chunkHash e)) (\<lambda>r.
          case r of
            Inl a \<Rightarrow> Some (Inl a)
          | Inr (None, s1) \<Rightarrow> Some (Inr (False, acc, s1))
          | Inr (Some d, s1) \<Rightarrow>
              if length d \<noteq> u64_of_int (entry_chunkSize e) then Some (Inr (False, acc, s1))
              else if length d > MAX_CHUNK_SIZE then Some (Inl OutOfBounds)
              else restore_entries delta_apply junk n (drop sizeof_RecipeEntry buf) w s1
                     (acc @ [junk\<lparr>chunk_ID := entry_chunkID e,
                                  chunk_logicDataSize := entry_chunkSize e,
                                  chunk_logicData := pad_chunk d,
                                  chunk_chunkHash := entry_chunkHash e\<rparr>])))"

definition restoreRecipeAndChunk ::
  "(bytes \<Rightarrow> bytes \<Rightarrow> bytes) \<Rightarrow> Chunk_t \<Rightarrow> bytes \<Rightarrow> u32 \<Rightarrow> u32 \<Rightarrow> ChunkList_t \<Rightarrow> StorageCore \<Rightarrow> world
     \<Rightarrow> (bool \<times> ChunkList_t \<times> StorageCore) result option" where
  "restoreRecipeAndChunk delta_apply junk fileNameHash startID endID acc s w =
     (case query (fileName2metaDB w) (take FILE_NAME_HASH_SIZE fileNameHash) of
        None \<Rightarrow> Some (Inr (False, acc, s))
      | Some recipeName \<Rightarrow>
          (case files (w_fs w) (recipePath s recipeName) of
             None \<Rightarrow> Some (Inr (False, acc, s))
           | Some f \<Rightarrow>
               (let n = unat (endID - startID);
                    buf = take (sizeof_RecipeEntry * n)
                            (drop (sizeof_Recipe + unat startID * sizeof_RecipeEntry) f)
                in restore_entries delta_apply junk n buf w s acc)))"

fun delete_entries :: "nat \<Rightarrow> bytes \<Rightarrow> world \<Rightarrow> (bool \<times> world) result" where
  "delete_entries 0 buf w = Inr (True, w)"
| "delete_entries (Suc n) buf w =
     (if length buf < sizeof_RecipeEntry then Inl Uninitialised
      else and_then (deleteChunk (entry_chunkHash (RecipeEntry_of_bytes (take sizeof_RecipeEntry buf))) w)
        (\<lambda>(r, w1). case r of
             None \<Rightarrow> Inl NoReturn
           | Some False \<Rightarrow> Inr (False, w1)
           | Some True \<Rightarrow> delete_entries n (drop sizeof_RecipeEntry buf) w1))"

definition deleteRecipeAndChunk ::
  "bytes \<Rightarrow> u32 \<Rightarrow> u32 \<Rightarrow> StorageCore \<Rightarrow> world \<Rightarrow> (bool \<times> world) result" where
  "deleteRecipeAndChunk fileNameHash startID endID s w =
     (let DBKey = take FILE_NAME_HASH_SIZE fileNameHash in
      case query (fileName2metaDB w) DBKey of
        None \<Rightarrow> Inr (False, w)
      | Some recipeName \<Rightarrow>
          (case files (w_fs w) (recipePath s recipeName) of
             None \<Rightarrow> Inr (False, w)
           | Some f \<Rightarrow>
               (let n = unat (endID - startID);
                    buf = take (sizeof_RecipeEntry * n)
                            (drop (sizeof_Recipe + unat startID * sizeof_RecipeEntry) f)
                in and_then (delete_entries n buf w) (\<lambda>(ok, w1).
                     if \<not> ok then Inr (False, w1)
                     else Inr (True, w1\<lparr>
                            fileName2metaDB := snd (delete_db (fileName2metaDB w1) DBKey),
                            w_fs := fs_remove (recipePath s recipeName) (w_fs w1)\<rparr>)))))"

end
