(* ===== verification/Storage_Names.thy ===== *)
theory Storage_Names
  imports Storage_Core
begin

text \<open>
  The names of the containers: each rollover takes the next permutation of the last name.  The
  lemmas show that the routine gives the lexicographic successor among the permutations, so
  that names grow strictly and a new container never overwrites an old one.
\<close>

lemma list_less_Cons [simp]: "(x # xs < y # ys) = (x < y \<or> x = y \<and> xs < (ys :: 'a::linorder list))"
  by auto

lemma next_permutation_False:
  "next_permutation xs = (False, ys) \<Longrightarrow> ys = rev xs \<and> sorted ys"
proof (induction xs arbitrary: ys)
  case Nil
  then show ?case by simp
next
  case (Cons x xs)
  obtain b zs where np: "next_permutation xs = (b, zs)" by force
  with Cons.prems have b: "\<not> b" by (auto split: bool.splits)
  with np Cons.IH have zs: "zs = rev xs" "sorted zs" by auto
  from Cons.prems np b have dw: "dropWhile (\<lambda>y. y \<le> x) zs = []" and ys: "ys = zs @ [x]"
    by (auto split: list.splits)
  from dw have "\<forall>y \<in> set zs. y \<le> x" by (simp add: dropWhile_eq_Nil_conv)
  with zs ys show ?case by (auto simp: sorted_append)
qed

lemma next_permutation_cases [case_names tail pivot last]:
  assumes "next_permutation (x # xs) = (b, r)"
  obtains (tail) ys where "next_permutation xs = (True, ys)" "b" "r = x # ys"
  | (pivot) le y gt where "next_permutation xs = (False, le @ y # gt)" "b"
      "r = y # le @ x # gt" "x < y" "\<forall>z \<in> set le. z \<le> x"
  | (last) ys where "next_permutation xs = (False, ys)" "\<not> b" "r = ys @ [x]"
proof -
  obtain c ys where np: "next_permutation xs = (c, ys)" by force
  show ?thesis
  proof (cases c)
    case True
    with np assms tail show ?thesis by auto
  next
    case False
    show ?thesis
    proof (cases "dropWhile (\<lambda>y. y \<le> x) ys")
      case Nil
      with np False assms last show ?thesis by auto
    next
      case (Cons y gt)
      have "ys = takeWhile (\<lambda>y. y \<le> x) ys @ y # gt"
        using takeWhile_dropWhile_id [of "\<lambda>y. y \<le> x" ys] Cons by simp
      moreover have "x < y"
        using Cons hd_dropWhile [of "\<lambda>y. y \<le> x" ys] by (metis list.sel(1) list.simps(3) not_le)
      moreover have "\<forall>z \<in> set (takeWhile (\<lambda>y. y \<le> x) ys). z \<le> x"
        by (auto dest: set_takeWhileD)
      moreover have "b" and "r = y # takeWhile (\<lambda>y. y \<le> x) ys @ x # gt"
        using np False assms Cons by simp_all
      moreover have "next_permutation xs = (False, takeWhile (\<lambda>y. y \<le> x) ys @ y # gt)"
        using np False calculation(1) by simp
      ultimately show ?thesis by (intro pivot) simp_all
    qed
  qed
qed

lemma mset_next_permutation: "next_permutation xs = (b, ys) \<Longrightarrow> mset ys = mset xs"
proof (induction xs arbitrary: b ys)
  case (Cons x xs)
  from Cons.prems show ?case
  proof (cases rule: next_permutation_cases)
    case (tail zs)
    then show ?thesis using Cons.IH by simp
  next
    case (pivot le y gt)
    from Cons.IH [OF pivot(1)] have "mset (le @ y # gt) = mset xs" .
    then show ?thesis using pivot by simp
  next
    case (last zs)
    from Cons.IH [OF last(1)] show ?thesis using last by simp
  qed
qed simp

lemma length_next_permutation: "length (snd (next_permutation xs)) = length xs"
  by (metis mset_eq_length mset_next_permutation prod.collapse)

lemma next_permutation_less: "next_permutation xs = (True, ys) \<Longrightarrow> xs < ys"
proof (induction xs arbitrary: ys)
  case (Cons x xs)
  from Cons.prems show ?case
    by (cases rule: next_permutation_cases) (use Cons.IH in auto)
qed simp

lemma sorted_le_permutation:
  "sorted xs \<Longrightarrow> mset zs = mset xs \<Longrightarrow> xs \<le> (zs :: 'a::linorder list)"
proof (induction xs arbitrary: zs)
  case (Cons x xs)
  obtain z zs' where zs: "zs = z # zs'" using Cons.prems(2) by (cases zs) auto
  have "z \<in> set (x # xs)" using Cons.prems(2) zs by (metis list.set_intros(1) mset_eq_setD)
  then have "x \<le> z" using Cons.prems(1) by auto
  moreover have "x = z \<Longrightarrow> xs \<le> zs'" using Cons zs by auto
  ultimately show ?case using zs by (auto simp: less_le)
qed simp

lemma rev_sorted_ge_permutation:
  "sorted (rev xs) \<Longrightarrow> mset zs = mset xs \<Longrightarrow> zs \<le> (xs :: 'a::linorder list)"
proof (induction xs arbitrary: zs)
  case (Cons x xs)
  obtain z zs' where zs: "zs = z # zs'" using Cons.prems(2) by (cases zs) auto
  have "z \<in> set (x # xs)" using Cons.prems(2) zs by (metis list.set_intros(1) mset_eq_setD)
  then have "z \<le> x" using Cons.prems(1) by (auto simp: sorted_append)
  moreover have "x = z \<Longrightarrow> zs' \<le> xs" using Cons zs by (auto simp: sorted_append)
  ultimately show ?case using zs by (auto simp: less_le)
qed simp

lemma next_permutation_least:
  "next_permutation xs = (True, ys) \<Longrightarrow> mset zs = mset xs \<Longrightarrow> xs < zs \<Longrightarrow> ys \<le> zs"
proof (induction xs arbitrary: ys zs)
  case (Cons x xs)
  obtain z zs' where zs: "zs = z # zs'" using Cons.prems(2) by (cases zs) auto
  have zx: "x < z \<or> x = z \<and> xs < zs'" using Cons.prems(3) zs by simp
  from Cons.prems(1) show ?case
  proof (cases rule: next_permutation_cases)
    case (tail ys')
    then show ?thesis
    proof (cases "x < z")
      case True
      with tail zs show ?thesis by (simp add: less_le)
    next
      case False
      with zx have "x = z" "xs < zs'" by auto
      moreover have "mset zs' = mset xs" using Cons.prems(2) zs \<open>x = z\<close> by simp
      ultimately have "ys' \<le> zs'" using Cons.IH tail by blast
      with tail zs \<open>x = z\<close> show ?thesis by (auto simp: le_less)
    qed
  next
    case (pivot le y gt)
    note np = next_permutation_False [OF pivot(1)]
    have "\<not> xs < zs'" if "mset zs' = mset xs"
      using rev_sorted_ge_permutation [of xs zs'] np that by (metis leD)
    then have xz: "x < z" using zx Cons.prems(2) zs by auto
    have "set zs = set (x # xs)" using Cons.prems(2) by (rule mset_eq_setD)
    then have "z \<in> set xs" using zs xz by auto
    then have "z \<in> set (le @ y # gt)" using np by simp
    then have "z \<in> set (y # gt)" using pivot(5) xz by auto
    then have yz: "y \<le> z" using np by (auto simp: sorted_append)
    have mset_xs: "mset xs = mset (le @ y # gt)" using np by simp
    have "le @ x # gt \<le> zs'" if "y = z"
    proof (rule sorted_le_permutation)
      show "sorted (le @ x # gt)"
        using np pivot(4,5) by (auto simp: sorted_append)
      show "mset zs' = mset (le @ x # gt)"
        using Cons.prems(2) zs that mset_xs by simp
    qed
    with yz pivot zs show ?thesis by (auto simp: le_less)
  next
    case last
    then show ?thesis by simp
  qed
qed simp

text \<open>How many names are left after a given one.\<close>

definition names_left :: "'a::linorder list \<Rightarrow> nat" where
  "names_left n = card {m. mset m = mset n \<and> n < m}"

lemma finite_names: "finite {m. mset m = mset n \<and> n < m}"
  by (rule finite_subset [OF _ mset_eq_finite [of n]]) auto

lemma names_left_pos: "0 < names_left n \<longleftrightarrow> fst (next_permutation n)"
proof
  assume "0 < names_left n"
  then obtain m where m: "mset m = mset n" "n < m"
    unfolding names_left_def by (auto simp: card_gt_0_iff)
  show "fst (next_permutation n)"
  proof (rule ccontr)
    assume "\<not> fst (next_permutation n)"
    then obtain r where "next_permutation n = (False, r)" by (metis (full_types) prod.collapse)
    then have "sorted (rev n)" using next_permutation_False by metis
    then have "m \<le> n" using m(1) by (rule rev_sorted_ge_permutation)
    with m(2) show False by simp
  qed
next
  assume "fst (next_permutation n)"
  then obtain r where np: "next_permutation n = (True, r)" by (metis (full_types) prod.collapse)
  then have "r \<in> {m. mset m = mset n \<and> n < m}"
    using mset_next_permutation next_permutation_less by blast
  then show "0 < names_left n"
    unfolding names_left_def using finite_names [of n] by (auto simp: card_gt_0_iff)
qed

lemma names_left_next:
  assumes "next_permutation n = (True, n')"
  shows "names_left n = Suc (names_left n')"
proof -
  have mn: "mset n' = mset n" "n < n'"
    using assms mset_next_permutation next_permutation_less by blast+
  have "{m. mset m = mset n \<and> n < m} = insert n' {m. mset m = mset n' \<and> n' < m}"
  proof (intro set_eqI iffI)
    fix m assume "m \<in> {m. mset m = mset n \<and> n < m}"
    then have "n' \<le> m" "mset m = mset n'" using next_permutation_least [OF assms] mn by auto
    then show "m \<in> insert n' {m. mset m = mset n' \<and> n' < m}" by (auto simp: le_less)
  next
    fix m assume "m \<in> insert n' {m. mset m = mset n' \<and> n' < m}"
    then have "m = n' \<or> n' < m" "mset m = mset n" using mn by auto
    then show "m \<in> {m. mset m = mset n \<and> n < m}" using mn(2) less_trans by blast
  qed
  then show ?thesis
    unfolding names_left_def using finite_names [of n'] by simp
qed

text \<open>While it returns \<open>true\<close>, \<open>next_permutation\<close> gives the lexicographic successor of a
  container name among the permutations of its letters: a strictly larger permutation with
  none in between.  Returning \<open>false\<close> it starts again from the sorted name.\<close>

lemma next_permutation_successor:
  "case next_permutation name of
     (True, name') \<Rightarrow> mset name' = mset name \<and> name < name'
        \<and> (\<forall>n. mset n = mset name \<and> name < n \<longrightarrow> name' \<le> n)
   | (False, name') \<Rightarrow> name' = sort name \<and> (\<forall>n. mset n = mset name \<longrightarrow> n \<le> name)"
proof (cases "next_permutation name")
  case (Pair b name')
  show ?thesis
  proof (cases b)
    case True
    with Pair show ?thesis
      by (auto dest: mset_next_permutation next_permutation_less next_permutation_least)
  next
    case False
    with Pair have np: "name' = rev name" "sorted name'" by (auto dest: next_permutation_False)
    then have "name' = sort name" by (metis mset_rev properties_for_sort)
    with Pair False np show ?thesis by (auto intro: rev_sorted_ge_permutation)
  qed
qed

end
