(* ===== verification/Storage_Invariant.thy ===== *)
theory Storage_Invariant
  imports Storage_Names
begin

text \<open>
  What \<open>StorageCore\<close> promises: seen from outside it is a map from fingerprints to chunk
  contents.  \<open>storage_inv\<close> ties the database entries to the container in memory, the container
  files and the cached container; \<open>abs_store\<close> is the map.  \<open>saveChunk\<close> refines a map update
  and \<open>restoreChunk\<close> a lookup.
\<close>

lemma path_updates [simp]:
  "containerPath (s\<lparr>currentContainer := c\<rparr>) = containerPath s"
  "containerPath (s\<lparr>lastContainerFileName := n\<rparr>) = containerPath s"
  "recipePath (s\<lparr>currentContainer := c\<rparr>) = recipePath s"
  "recipePath (s\<lparr>lastContainerFileName := n\<rparr>) = recipePath s"
  by (simp_all add: containerPath_def recipePath_def fun_eq_iff)

section \<open>Invariant and abstraction\<close>

definition key_name :: "keyForChunkHashDB_t \<Rightarrow> bytes" where
  "key_name k = take 15 (key_containerName k)"

definition placed :: "world \<Rightarrow> StorageCore \<Rightarrow> keyForChunkHashDB_t \<Rightarrow> bool" where
  "placed w s k \<longleftrightarrow> length (key_containerName k) = 16 \<and>
     (if key_name k = lastContainerFileName s
      then unat (key_offset k) + unat (key_length k) \<le> unat (c_used (currentContainer s))
      else key_name k < lastContainerFileName s \<and>
        (\<exists>f. files (w_fs w) (containerPath s (key_name k)) = Some f
           \<and> unat (key_offset k) + unat (key_length k) \<le> length f \<and> length f \<le> BODY_SIZE))"

definition cache_ok :: "world \<Rightarrow> StorageCore \<Rightarrow> bool" where
  "cache_ok w s \<longleftrightarrow> currentReadContainerFileName s = [] \<or>
     currentReadContainerFileName s < lastContainerFileName s \<and>
     (\<exists>f. files (w_fs w) (containerPath s (currentReadContainerFileName s)) = Some f
        \<and> length f \<le> BODY_SIZE \<and> mem_read (c_body (currentReadContainer s)) 0 (length f) = f)"

definition storage_inv :: "world \<Rightarrow> StorageCore \<Rightarrow> bool" where
  "storage_inv w s \<longleftrightarrow>
     length (lastContainerFileName s) = 15
     \<and> unat (c_used (currentContainer s)) \<le> unat (maxContainerSize s)
     \<and> unat (maxContainerSize s) \<le> BODY_SIZE
     \<and> database_inv (fp2ChunkDB w) \<and> database_inv (containerDB w)
     \<and> (\<forall>n. writable (w_fs w) (containerPath s n))
     \<and> cache_ok w s
     \<and> (\<forall>h v. query (fp2ChunkDB w) h = Some v \<longrightarrow>
          length v = sizeof_key \<and> placed w s (key_of_bytes v))"

definition content :: "world \<Rightarrow> StorageCore \<Rightarrow> keyForChunkHashDB_t \<Rightarrow> bytes" where
  "content w s k =
     (if key_name k = lastContainerFileName s
      then mem_read (c_body (currentContainer s)) (unat (key_offset k)) (unat (key_length k))
      else case files (w_fs w) (containerPath s (key_name k)) of
             None \<Rightarrow> []
           | Some f \<Rightarrow> slice (unat (key_offset k)) (unat (key_length k)) f)"

text \<open>The abstract state: for each fingerprint the delta counter and the stored bytes.\<close>

definition abs_store :: "world \<Rightarrow> StorageCore \<Rightarrow> bytes \<Rightarrow> (u32 \<times> bytes) option" where
  "abs_store w s h =
     map_option (\<lambda>v. (key_deltaCount (key_of_bytes v), content w s (key_of_bytes v)))
       (query (fp2ChunkDB w) h)"

text \<open>Two objects that differ in the cached container only.\<close>

definition no_cache :: "StorageCore \<Rightarrow> StorageCore" where
  "no_cache s = s\<lparr>currentReadContainer := \<lparr>c_used = 0, c_body = (\<lambda>_. 0)\<rparr>,
     currentReadContainerFileName := []\<rparr>"

definition same_but_cache :: "StorageCore \<Rightarrow> StorageCore \<Rightarrow> bool" where
  "same_but_cache s s' \<longleftrightarrow> no_cache s = no_cache s'"

lemma same_but_cache_refl [simp]: "same_but_cache s s"
  by (simp add: same_but_cache_def)

lemma same_but_cache_trans:
  "same_but_cache s t \<Longrightarrow> same_but_cache t u \<Longrightarrow> same_but_cache s u"
  by (simp add: same_but_cache_def)

lemma same_but_cache_update [simp]:
  "same_but_cache s (s\<lparr>currentReadContainer := c, currentReadContainerFileName := n\<rparr>)"
  by (simp add: same_but_cache_def no_cache_def)

lemma same_but_cacheD:
  assumes "same_but_cache s s'"
  shows "lastContainerFileName s' = lastContainerFileName s" "currentContainer s' = currentContainer s"
    "containerPath s' = containerPath s" "recipePath s' = recipePath s"
    "maxContainerSize s' = maxContainerSize s"
    "containerNamePrefix s' = containerNamePrefix s" "containerNameTail s' = containerNameTail s"
    "RecipeNamePrefix s' = RecipeNamePrefix s" "RecipeNameTail s' = RecipeNameTail s"
  using assms
  by (cases s; cases s';
      simp add: same_but_cache_def no_cache_def containerPath_def recipePath_def fun_eq_iff)+

lemma content_same: "same_but_cache s s' \<Longrightarrow> content w s' = content w s"
  by (simp add: content_def fun_eq_iff same_but_cacheD cong: option.case_cong)

lemma abs_store_same: "same_but_cache s s' \<Longrightarrow> abs_store w s' = abs_store w s"
  by (simp add: abs_store_def fun_eq_iff content_same)

lemma placed_same: "same_but_cache s s' \<Longrightarrow> placed w s' = placed w s"
  by (simp add: placed_def fun_eq_iff same_but_cacheD)

lemma storage_inv_same:
  "same_but_cache s s' \<Longrightarrow> storage_inv w s \<Longrightarrow> cache_ok w s' \<Longrightarrow> storage_inv w s'"
  by (simp add: storage_inv_def same_but_cacheD placed_same)

section \<open>Reading a container\<close>

lemma key_name_length: "length (key_containerName k) = 16 \<Longrightarrow> length (key_name k) = 15"
  by (simp add: key_name_def)

lemma body_read_ok: "off + n \<le> BODY_SIZE \<Longrightarrow> body_read c off n = Inr (mem_read (c_body c) off n)"
  by (simp add: body_read_def)

lemma mem_read_slice:
  "mem_read m 0 (length f) = f \<Longrightarrow> off + n \<le> length f \<Longrightarrow> mem_read m off n = slice off n f"
  by (metis mem_read_sub slice_def)

lemma readContainer_content:
  assumes inv: "storage_inv w s" and pl: "placed w s k"
  shows "\<exists>s'. readContainer k s w = Inr (Some (content w s k), s')
    \<and> same_but_cache s s' \<and> storage_inv w s'"
proof -
  let ?n = "key_name k" and ?off = "unat (key_offset k)" and ?len = "unat (key_length k)"
  have ln: "length (key_containerName k) = 16" "length (lastContainerFileName s) = 15"
    using inv pl by (auto simp: storage_inv_def placed_def)
  have nm: "take (length (lastContainerFileName s)) (key_containerName k) = ?n"
    by (simp add: ln key_name_def)
  have max: "unat (c_used (currentContainer s)) \<le> BODY_SIZE"
    using inv by (auto simp: storage_inv_def)
  consider (cache) "?n = currentReadContainerFileName s"
    | (last) "?n \<noteq> currentReadContainerFileName s" and "?n = lastContainerFileName s"
    | (disk) "?n \<noteq> currentReadContainerFileName s" and "?n \<noteq> lastContainerFileName s" by blast
  then show ?thesis
  proof cases
    case cache
    have "?n \<noteq> []" using key_name_length [OF ln(1)] by auto
    then obtain f where f: "files (w_fs w) (containerPath s ?n) = Some f" "length f \<le> BODY_SIZE"
        "mem_read (c_body (currentReadContainer s)) 0 (length f) = f" "?n < lastContainerFileName s"
      using inv cache by (auto simp: storage_inv_def cache_ok_def)
    then have nl: "?n \<noteq> lastContainerFileName s" by auto
    with pl f have b: "?off + ?len \<le> length f" by (auto simp: placed_def)
    have "content w s k = mem_read (c_body (currentReadContainer s)) ?off ?len"
      using nl f b by (simp add: content_def mem_read_slice)
    then have "readContainer k s w = Inr (Some (content w s k), s)"
      using cache ln nm b f by (simp add: readContainer_def Let_def body_read_ok)
    with inv show ?thesis by auto
  next
    case last
    then have "?off + ?len \<le> BODY_SIZE" using pl max by (simp add: placed_def)
    then have "readContainer k s w = Inr (Some (content w s k), s)"
      using last ln nm by (simp add: readContainer_def Let_def body_read_ok content_def)
    with inv show ?thesis by auto
  next
    case disk
    then obtain f where f: "files (w_fs w) (containerPath s ?n) = Some f" "length f \<le> BODY_SIZE"
        "?off + ?len \<le> length f" "?n < lastContainerFileName s"
      using pl by (auto simp: placed_def)
    let ?c = "\<lparr>c_used = of_nat (length f), c_body = mem_write (c_body (currentReadContainer s)) 0 f\<rparr>"
    let ?s = "s\<lparr>currentReadContainer := ?c, currentReadContainerFileName := ?n\<rparr>"
    have rd: "mem_read (c_body ?c) 0 (length f) = f" by (simp add: mem_simps)
    then have "mem_read (c_body ?c) ?off ?len = content w s k"
      using disk f by (simp only: content_def mem_read_slice) simp
    then have res: "readContainer k s w = Inr (Some (content w s k), ?s)"
      using disk ln nm f by (simp add: readContainer_def Let_def body_read_ok)
    have same: "same_but_cache s ?s" by simp
    have "cache_ok w ?s"
      using f rd same_but_cacheD(3) [OF same] by (simp add: cache_ok_def)
    with res same inv show ?thesis by (blast intro: storage_inv_same)
  qed
qed

section \<open>Appending to a container\<close>

text \<open>The invariant without the database entries, and what an append keeps: every placed key
  stays placed with its content, and files outside the container directory do not change.\<close>

definition storage_base :: "world \<Rightarrow> StorageCore \<Rightarrow> bool" where
  "storage_base w s \<longleftrightarrow>
     length (lastContainerFileName s) = 15
     \<and> unat (c_used (currentContainer s)) \<le> unat (maxContainerSize s)
     \<and> unat (maxContainerSize s) \<le> BODY_SIZE
     \<and> database_inv (fp2ChunkDB w) \<and> database_inv (containerDB w)
     \<and> (\<forall>n. writable (w_fs w) (containerPath s n))
     \<and> cache_ok w s"

lemma storage_inv_alt:
  "storage_inv w s \<longleftrightarrow> storage_base w s \<and>
     (\<forall>h v. query (fp2ChunkDB w) h = Some v \<longrightarrow> length v = sizeof_key \<and> placed w s (key_of_bytes v))"
  by (auto simp: storage_inv_def storage_base_def)

definition frame :: "world \<Rightarrow> StorageCore \<Rightarrow> world \<Rightarrow> StorageCore \<Rightarrow> bool" where
  "frame w s w' s' \<longleftrightarrow>
     fileName2metaDB w' = fileName2metaDB w \<and> deltaChunkDB w' = deltaChunkDB w
     \<and> writable (w_fs w') = writable (w_fs w)
     \<and> (\<forall>p. (\<forall>n. p \<noteq> containerPath s n) \<longrightarrow> files (w_fs w') p = files (w_fs w) p)
     \<and> containerPath s' = containerPath s \<and> recipePath s' = recipePath s
     \<and> maxContainerSize s' = maxContainerSize s"

lemma frame_refl [simp]: "frame w s w s"
  by (simp add: frame_def)

lemma frame_trans: "frame w s w' s' \<Longrightarrow> frame w' s' w'' s'' \<Longrightarrow> frame w s w'' s''"
  by (simp add: frame_def)

definition keeps :: "world \<Rightarrow> StorageCore \<Rightarrow> world \<Rightarrow> StorageCore \<Rightarrow> bool" where
  "keeps w s w' s' \<longleftrightarrow> (\<forall>k. placed w s k \<longrightarrow> placed w' s' k \<and> content w' s' k = content w s k)"

lemma keepsD: "keeps w s w' s' \<Longrightarrow> placed w s k \<Longrightarrow> placed w' s' k"
  and keeps_content: "keeps w s w' s' \<Longrightarrow> placed w s k \<Longrightarrow> content w' s' k = content w s k"
  by (auto simp: keeps_def)

definition advance :: "StorageCore \<Rightarrow> u32 \<Rightarrow> StorageCore" where
  "advance s n = s\<lparr>currentContainer := (currentContainer s)\<lparr>c_used := c_used (currentContainer s) + n\<rparr>\<rparr>"

lemma set_name_ok:
  "length name = 15 \<Longrightarrow> length (key_containerName k) = 16 \<Longrightarrow>
   set_name name k = Inr (k\<lparr>key_containerName := name @ [key_containerName k ! 15]\<rparr>)"
  by (auto simp: set_name_def copy_front_def list_eq_iff_nth_eq nth_append)

lemma body_write_ok:
  "off + n \<le> BODY_SIZE \<Longrightarrow> n \<le> length d \<Longrightarrow>
   body_write c off d n = Inr (c\<lparr>c_body := mem_write (c_body c) off (take n d)\<rparr>)"
  by (simp add: body_write_def)

lemma unat_add_small:
  "unat (a :: u32) + unat b < 2 ^ 32 \<Longrightarrow> unat (a + b) = unat a + unat b"
  by (simp add: unat_word_ariths)

lemma fit_unat:
  assumes "storage_base w s" and "unat (key_length key) \<le> unat (maxContainerSize s)"
  shows "unat (key_length key + c_used (currentContainer s))
    = unat (key_length key) + unat (c_used (currentContainer s))"
    "unat (c_used (currentContainer s) + key_length key)
    = unat (key_length key) + unat (c_used (currentContainer s))"
  using assms by (auto simp: storage_base_def size_defs unat_add_small)

text \<open>The chunk fits into the current container.\<close>

lemma append_fits:
  fixes s w key data b
  defines "used \<equiv> unat (c_used (currentContainer s))" and "len \<equiv> unat (key_length key)"
  defines "c' \<equiv> (currentContainer s)\<lparr>c_body := mem_write (c_body (currentContainer s)) used (take len data),
             c_used := c_used (currentContainer s) + key_length key\<rparr>"
  defines "s' \<equiv> s\<lparr>currentContainer := c'\<rparr>"
  defines "k' \<equiv> key\<lparr>key_containerName := lastContainerFileName s @ [b],
             key_offset := c_used (currentContainer s)\<rparr>"
  assumes base: "storage_base w s" and len: "len \<le> length data" and fit: "used + len \<le> unat (maxContainerSize s)"
  shows "storage_base w s'" "keeps w s w s'" "frame w s w s'" "placed w s' k'"
    "content w s' k' = take len data"
proof -
  have used': "unat (c_used c') = used + len"
    using base fit by (simp add: c'_def used_def len_def storage_base_def size_defs unat_add_small)
  have l15: "length (lastContainerFileName s) = 15" using base by (simp add: storage_base_def)
  then have kn: "key_name k' = lastContainerFileName s" by (simp add: k'_def key_name_def)
  have path: "containerPath s' = containerPath s"
    by (simp add: s'_def containerPath_def fun_eq_iff)
  show "storage_base w s'"
    using base fit used' path by (simp add: storage_base_def s'_def cache_ok_def)
  show "frame w s w s'"
    by (simp add: frame_def path) (simp add: s'_def recipePath_def fun_eq_iff)
  show "placed w s' k'"
    using l15 kn used' by (simp add: placed_def s'_def k'_def used_def len_def)
  have ld: "length (take len data) = len" using len by simp
  show "content w s' k' = take len data"
    using kn ld by (simp add: content_def s'_def c'_def k'_def used_def len_def mem_read_write_same)
  show "keeps w s w s'"
    unfolding keeps_def
  proof (intro allI impI conjI)
    fix k assume pl: "placed w s k"
    show "placed w s' k" using pl used' by (auto simp: placed_def path s'_def used_def)
    show "content w s' k = content w s k"
    proof (cases "key_name k = lastContainerFileName s")
      case True
      then have "unat (key_offset k) + unat (key_length k) \<le> used"
        using pl by (simp add: placed_def used_def)
      with True show ?thesis by (simp add: content_def s'_def c'_def mem_read_write_disjoint)
    next
      case False
      then show ?thesis by (simp add: content_def path) (simp add: s'_def)
    qed
  qed
qed

text \<open>The container is full: it goes to its file, and the chunk starts a new one.\<close>

lemma saveTOFile_ok:
  assumes "storage_base w s"
  shows "\<exists>w1. Container_saveTOFile (currentContainer s) (containerPath s (lastContainerFileName s)) w
      = Inr (True, w1)
    \<and> w_fs w1 = (w_fs w)\<lparr>files := (files (w_fs w))(containerPath s (lastContainerFileName s) \<mapsto>
        mem_read (c_body (currentContainer s)) 0 (unat (c_used (currentContainer s))))\<rparr>
    \<and> fp2ChunkDB w1 = fp2ChunkDB w \<and> fileName2metaDB w1 = fileName2metaDB w
    \<and> deltaChunkDB w1 = deltaChunkDB w \<and> database_inv (containerDB w1)
    \<and> query (containerDB w1) = (query (containerDB w))(containerPath s (lastContainerFileName s) \<mapsto>
        to_string (int (unat (c_used (currentContainer s)))))"
  using assms
  by (auto simp: storage_base_def Container_saveTOFile_def fs_write_def database_inv_insert
      query_insert)

lemma containerPath_inject [simp]: "containerPath s a = containerPath s b \<longleftrightarrow> a = b"
  by (simp add: containerPath_def)

lemma append_rolls:
  fixes s w w1 key data b name'
  defines "lastn \<equiv> lastContainerFileName s" and "len \<equiv> unat (key_length key)"
  defines "old \<equiv> mem_read (c_body (currentContainer s)) 0 (unat (c_used (currentContainer s)))"
  defines "c' \<equiv> (currentContainer s)\<lparr>c_used := key_length key,
             c_body := mem_write (c_body (currentContainer s)) 0 (take len data)\<rparr>"
  defines "s' \<equiv> s\<lparr>lastContainerFileName := name', currentContainer := c'\<rparr>"
  defines "k' \<equiv> key\<lparr>key_containerName := name' @ [b], key_offset := 0\<rparr>"
  assumes base: "storage_base w s" and len: "len \<le> length data" "len \<le> unat (maxContainerSize s)"
    and less: "lastn < name'" and l15: "length name' = 15"
    and fs: "w_fs w1 = (w_fs w)\<lparr>files := (files (w_fs w))(containerPath s lastn \<mapsto> old)\<rparr>"
    and dbs: "fp2ChunkDB w1 = fp2ChunkDB w" "fileName2metaDB w1 = fileName2metaDB w"
      "deltaChunkDB w1 = deltaChunkDB w" "database_inv (containerDB w1)"
  shows "storage_base w1 s'" "keeps w s w1 s'" "frame w s w1 s'" "placed w1 s' k'"
    "content w1 s' k' = take len data"
proof -
  have path: "containerPath s' = containerPath s"
    by (simp add: s'_def containerPath_def fun_eq_iff)
  have cache: "cache_ok w1 s'"
  proof (cases "currentReadContainerFileName s = []")
    case True
    then show ?thesis by (simp add: cache_ok_def s'_def)
  next
    case False
    then obtain f where f: "files (w_fs w) (containerPath s (currentReadContainerFileName s)) = Some f"
        "length f \<le> BODY_SIZE" "mem_read (c_body (currentReadContainer s)) 0 (length f) = f"
        "currentReadContainerFileName s < lastn"
      using base by (auto simp: storage_base_def cache_ok_def lastn_def)
    then have "currentReadContainerFileName s < name'" using less by (auto intro: less_trans)
    with f show ?thesis by (auto simp: cache_ok_def path fs) (auto simp: s'_def)
  qed
  show "storage_base w1 s'"
    using base len less l15 cache path fs dbs by (simp add: storage_base_def) (simp add: s'_def c'_def len_def)
  show "frame w s w1 s'"
    using fs dbs by (auto simp: frame_def path) (auto simp: s'_def recipePath_def fun_eq_iff)
  have kn: "key_name k' = name'" by (simp add: k'_def key_name_def l15)
  show "placed w1 s' k'"
    using kn l15 by (simp add: placed_def s'_def k'_def c'_def)
  have "length (take len data) = len" using len by simp
  then show "content w1 s' k' = take len data"
    using kn by (simp add: content_def s'_def c'_def k'_def len_def mem_read_write_same)
  show "keeps w s w1 s'"
    unfolding keeps_def
  proof (intro allI impI)
    fix k assume pl: "placed w s k"
    have lold: "length old \<le> BODY_SIZE" using base by (auto simp: old_def storage_base_def)
    show "placed w1 s' k \<and> content w1 s' k = content w s k"
    proof (cases "key_name k = lastn")
      case True
      then have b: "unat (key_offset k) + unat (key_length k) \<le> length old"
        using pl by (simp add: placed_def old_def lastn_def)
      then have "slice (unat (key_offset k)) (unat (key_length k)) old
          = mem_read (c_body (currentContainer s)) (unat (key_offset k)) (unat (key_length k))"
        by (simp add: old_def slice_def mem_read_sub)
      then show ?thesis
        using True b pl less lold by (auto simp: placed_def content_def path fs lastn_def) (auto simp: s'_def)
    next
      case False
      then have "key_name k < lastn" using pl by (auto simp: placed_def lastn_def)
      then have "key_name k < name'" using less by (rule less_trans)
      then show ?thesis
        using False pl by (auto simp: placed_def content_def path fs lastn_def) (auto simp: s'_def)
    qed
  qed
qed

text \<open>What \<open>writeContainer\<close> and the update of \<open>used_\<close> after it achieve together.\<close>

lemma writeContainer_append:
  assumes base: "storage_base w s"
    and len: "unat (key_length key) \<le> length data" "unat (key_length key) \<le> unat (maxContainerSize s)"
    and nm: "length (key_containerName key) = 16"
    and more: "fst (next_permutation (lastContainerFileName s))"
  shows "\<exists>k' s1 w1. writeContainer key data s w = Inr (True, k', s1, w1)
    \<and> k' = key\<lparr>key_containerName := key_containerName k', key_offset := key_offset k'\<rparr>
    \<and> storage_base w1 (advance s1 (key_length key)) \<and> keeps w s w1 (advance s1 (key_length key))
    \<and> frame w s w1 (advance s1 (key_length key)) \<and> placed w1 (advance s1 (key_length key)) k'
    \<and> content w1 (advance s1 (key_length key)) k' = take (unat (key_length key)) data
    \<and> fp2ChunkDB w1 = fp2ChunkDB w
    \<and> names_left (lastContainerFileName s) \<le> Suc (names_left (lastContainerFileName s1))"
proof -
  let ?used = "c_used (currentContainer s)" and ?len = "unat (key_length key)"
  let ?b = "key_containerName key ! 15"
  have l15: "length (lastContainerFileName s) = 15" using base by (simp add: storage_base_def)
  have max: "unat (maxContainerSize s) \<le> BODY_SIZE" using base by (simp add: storage_base_def)
  show ?thesis
  proof (cases "?len + unat ?used < unat (maxContainerSize s)")
    case True
    then have fit: "unat ?used + ?len \<le> unat (maxContainerSize s)" by simp
    let ?s = "s\<lparr>currentContainer := (currentContainer s)
      \<lparr>c_body := mem_write (c_body (currentContainer s)) (unat ?used) (take ?len data)\<rparr>\<rparr>"
    let ?k = "key\<lparr>key_containerName := lastContainerFileName s @ [?b], key_offset := ?used\<rparr>"
    have "writeContainer key data s w = Inr (True, ?k, ?s, w)"
      using True max len nm l15 fit_unat [OF base len(2)]
      by (simp add: writeContainer_def body_write_ok set_name_ok)
    moreover have "advance ?s (key_length key) = s\<lparr>currentContainer := (currentContainer s)
      \<lparr>c_body := mem_write (c_body (currentContainer s)) (unat ?used) (take ?len data),
       c_used := ?used + key_length key\<rparr>\<rparr>"
      by (simp add: advance_def)
    ultimately show ?thesis
      using append_fits(1-3) [OF base len(1) fit] append_fits(4,5) [OF base len(1) fit, of ?b]
      by simp
  next
    case False
    obtain w1 where w1: "Container_saveTOFile (currentContainer s)
          (containerPath s (lastContainerFileName s)) w = Inr (True, w1)"
        "w_fs w1 = (w_fs w)\<lparr>files := (files (w_fs w))(containerPath s (lastContainerFileName s) \<mapsto>
          mem_read (c_body (currentContainer s)) 0 (unat ?used))\<rparr>"
        "fp2ChunkDB w1 = fp2ChunkDB w" "fileName2metaDB w1 = fileName2metaDB w"
        "deltaChunkDB w1 = deltaChunkDB w" "database_inv (containerDB w1)"
      using saveTOFile_ok [OF base] by blast
    obtain name' where np: "next_permutation (lastContainerFileName s) = (True, name')"
      using more by (metis (full_types) prod.collapse)
    have less: "lastContainerFileName s < name'" using np by (rule next_permutation_less)
    have l15': "length name' = 15" using length_next_permutation [of "lastContainerFileName s"] np l15 by simp
    let ?s = "s\<lparr>lastContainerFileName := name', currentContainer := (currentContainer s)
      \<lparr>c_used := 0, c_body := mem_write (c_body (currentContainer s)) 0 (take ?len data)\<rparr>\<rparr>"
    let ?k = "key\<lparr>key_containerName := name' @ [?b], key_offset := 0\<rparr>"
    have "writeContainer key data s w = Inr (True, ?k, ?s, w1)"
      using False max len nm l15' np w1(1) fit_unat [OF base len(2)]
      by (simp add: writeContainer_def body_write_ok set_name_ok)
    moreover have "advance ?s (key_length key) = s\<lparr>lastContainerFileName := name',
      currentContainer := (currentContainer s)\<lparr>c_used := key_length key,
         c_body := mem_write (c_body (currentContainer s)) 0 (take ?len data)\<rparr>\<rparr>"
      by (simp add: advance_def)
    ultimately show ?thesis
      using append_rolls(1-3) [OF base len less l15' w1(2-6)]
        append_rolls(4,5) [OF base len less l15' w1(2-6), of ?b] w1(3) names_left_next [OF np]
      by simp
  qed
qed

section \<open>Saving a chunk\<close>

text \<open>The bytes a chunk is stored as: zero bytes become \<open>0x80\<close>, but for the last two places.\<close>

definition stored_form :: "bytes \<Rightarrow> bytes" where
  "stored_form d = map no_zero (take (length d - 2) d) @ drop (length d - 2) d"

lemma length_stored_form [simp]: "length (stored_form d) = length d"
  by (simp add: stored_form_def)

lemma stored_form_no_zeros: "0 \<notin> set d \<Longrightarrow> stored_form d = d"
  unfolding stored_form_def
  by (metis append_take_drop_id in_set_takeD map_idI no_zero_def)

lemma stored_form_idem: "stored_form (stored_form d) = stored_form d"
  by (simp add: stored_form_def no_zero_def comp_def)

lemma unat_minus_two: "2 \<le> unat (len :: u32) \<Longrightarrow> unat (len - 2) = unat len - 2"
  by (simp add: unat_sub word_le_nat_alt)

lemma replace_zeros_ok:
  assumes "2 \<le> unat len" and "unat len \<le> length data"
  shows "\<exists>d'. replace_zeros len data = Inr d' \<and> length d' = length data
    \<and> take (unat len) d' = stored_form (take (unat len) data) \<and> drop (unat len) d' = drop (unat len) data"
proof -
  let ?n = "unat len - 2"
  let ?d = "map no_zero (take ?n data) @ drop ?n data"
  have "replace_zeros len data = Inr ?d"
    using assms by (simp add: replace_zeros_def unat_minus_two Let_def)
  moreover have "take (unat len) ?d = stored_form (take (unat len) data)"
    using assms by (auto simp: stored_form_def take_map [symmetric] min_def drop_take)
  moreover have "Suc (Suc ?n) = unat len" using assms(1) by simp
  ultimately show ?thesis using assms by (intro exI [of _ ?d]) simp
qed

lemma placed_key_ok: "placed w s k \<Longrightarrow> key_ok k"
  by (simp add: placed_def key_ok_def)

lemma key_of_key_bytes: "placed w s k \<Longrightarrow> key_of_bytes (key_bytes k) = k"
  by (simp add: keyl.dec_enc placed_key_ok)

lemma storage_fp2_update:
  "storage_base (w\<lparr>fp2ChunkDB := db\<rparr>) s \<longleftrightarrow>
     storage_base (w\<lparr>fp2ChunkDB := fp2ChunkDB w\<rparr>) s \<and> database_inv db"
  if "database_inv (fp2ChunkDB w)"
  using that by (auto simp: storage_base_def cache_ok_def)

lemma placed_fp2_update [simp]: "placed (w\<lparr>fp2ChunkDB := db\<rparr>) s k = placed w s k"
  by (simp add: placed_def)

lemma content_fp2_update [simp]: "content (w\<lparr>fp2ChunkDB := db\<rparr>) s k = content w s k"
  by (simp add: content_def)

lemma frame_fp2_update [simp]: "frame w s (w'\<lparr>fp2ChunkDB := db\<rparr>) s' = frame w s w' s'"
  by (simp add: frame_def)

text \<open>Writing a chunk and entering its key into the database.\<close>

lemma store_key:
  assumes inv: "storage_inv w s"
    and len: "unat (key_length key) \<le> length data" "unat (key_length key) \<le> unat (maxContainerSize s)"
    and nm: "length (key_containerName key) = 16"
    and more: "fst (next_permutation (lastContainerFileName s))"
  obtains k' s1 w1 where "writeContainer key data s w = Inr (True, k', s1, w1)"
    and "fst (insert_db (fp2ChunkDB w1) h (key_bytes k'))"
    and "k' = key\<lparr>key_containerName := key_containerName k', key_offset := key_offset k'\<rparr>"
    and "storage_inv (w1\<lparr>fp2ChunkDB := snd (insert_db (fp2ChunkDB w1) h (key_bytes k'))\<rparr>)
           (advance s1 (key_length key))"
    and "abs_store (w1\<lparr>fp2ChunkDB := snd (insert_db (fp2ChunkDB w1) h (key_bytes k'))\<rparr>)
           (advance s1 (key_length key))
         = (abs_store w s)(h \<mapsto> (key_deltaCount key, take (unat (key_length key)) data))"
    and "query (snd (insert_db (fp2ChunkDB w1) h (key_bytes k'))) = (query (fp2ChunkDB w))(h \<mapsto> key_bytes k')"
    and "frame w s w1 (advance s1 (key_length key))" and "key_of_bytes (key_bytes k') = k'"
    and "names_left (lastContainerFileName s) \<le> Suc (names_left (lastContainerFileName s1))"
proof -
  have base: "storage_base w s" using inv by (simp add: storage_inv_alt)
  obtain k' s1 w1 where wc: "writeContainer key data s w = Inr (True, k', s1, w1)"
    and k': "k' = key\<lparr>key_containerName := key_containerName k', key_offset := key_offset k'\<rparr>"
    and base1: "storage_base w1 (advance s1 (key_length key))"
    and keeps: "keeps w s w1 (advance s1 (key_length key))"
    and frame: "frame w s w1 (advance s1 (key_length key))"
    and pl: "placed w1 (advance s1 (key_length key)) k'"
    and con: "content w1 (advance s1 (key_length key)) k' = take (unat (key_length key)) data"
    and fp: "fp2ChunkDB w1 = fp2ChunkDB w"
    and nl: "names_left (lastContainerFileName s) \<le> Suc (names_left (lastContainerFileName s1))"
    using writeContainer_append [OF base len nm more] by blast
  let ?s = "advance s1 (key_length key)"
  let ?db = "snd (insert_db (fp2ChunkDB w1) h (key_bytes k'))"
  have dbinv: "database_inv (fp2ChunkDB w1)" using base1 by (simp add: storage_base_def)
  have q: "query ?db = (query (fp2ChunkDB w))(h \<mapsto> key_bytes k')"
    using query_insert [OF dbinv] fp by simp
  have kb: "key_of_bytes (key_bytes k') = k'" using pl by (rule key_of_key_bytes)
  have lk: "length (key_bytes k') = sizeof_key" using pl by (simp add: keyl.length_enc placed_key_ok)
  have old: "\<And>g v. query (fp2ChunkDB w) g = Some v \<Longrightarrow> length v = sizeof_key \<and> placed w s (key_of_bytes v)"
    using inv by (simp add: storage_inv_alt)
  have inv': "storage_inv (w1\<lparr>fp2ChunkDB := ?db\<rparr>) ?s"
    using base1 dbinv pl kb lk old keepsD [OF keeps]
    by (simp add: storage_inv_alt storage_fp2_update database_inv_insert q)
  have "abs_store (w1\<lparr>fp2ChunkDB := ?db\<rparr>) ?s
      = (abs_store w s)(h \<mapsto> (key_deltaCount key, take (unat (key_length key)) data))"
  proof
    fix g
    have "key_deltaCount k' = key_deltaCount key" by (subst k') simp
    then show "abs_store (w1\<lparr>fp2ChunkDB := ?db\<rparr>) ?s g
        = ((abs_store w s)(h \<mapsto> (key_deltaCount key, take (unat (key_length key)) data))) g"
      using old keeps_content [OF keeps]
      by (cases "query (fp2ChunkDB w) g") (auto simp: abs_store_def q kb con)
  qed
  then show ?thesis
    using that wc database_inv_ok [OF dbinv] k' inv' q frame kb nl by blast
qed

text \<open>A saved chunk lies in the container that is current afterwards.\<close>

lemma take_copy_name:
  "length n = 15 \<Longrightarrow> length (key_containerName k) = 16 \<Longrightarrow> set_name n k = Inr k' \<Longrightarrow>
   key_name k' = n \<and> length (key_containerName k') = 16"
  by (auto simp: set_name_ok key_name_def)

lemma writeContainer_name:
  assumes "writeContainer key data s w = Inr (ok, k', s', w')" and "length (lastContainerFileName s) = 15"
    and "length (key_containerName key) = 16" and "fst (next_permutation (lastContainerFileName s))"
  shows "key_name k' = lastContainerFileName s'" and "lastContainerFileName s \<le> lastContainerFileName s'"
    and "key_ok k'" and "fp2ChunkDB w' = fp2ChunkDB w"
proof -
  have n: "length (snd (next_permutation (lastContainerFileName s))) = 15"
    "lastContainerFileName s \<le> snd (next_permutation (lastContainerFileName s))"
    using assms(2,4) length_next_permutation [of "lastContainerFileName s"] next_permutation_less [of "lastContainerFileName s"]
    by (metis prod.collapse, metis less_imp_le prod.collapse)
  have db: "Container_saveTOFile c p w = Inr (b, w1) \<Longrightarrow> fp2ChunkDB w1 = fp2ChunkDB w" for c p b w1
    by (auto simp: Container_saveTOFile_def split: if_splits option.splits)
  have nm: "key_name (k\<lparr>key_offset := x\<rparr>) = key_name k" "key_ok (k\<lparr>key_offset := x\<rparr>) = key_ok k" for k x
    by (simp_all add: key_name_def key_ok_def)
  show "key_name k' = lastContainerFileName s'" "lastContainerFileName s \<le> lastContainerFileName s'"
    "key_ok k'" "fp2ChunkDB w' = fp2ChunkDB w"
    using assms n take_copy_name [OF assms(2,3)] take_copy_name [OF n(1) assms(3)]
    by (auto simp: writeContainer_def res_simps Let_def nm key_ok_def dest: db split: if_splits)
qed

text \<open>The key \<open>saveChunk\<close> starts from: the caller's size for a new chunk, the recorded length and
  counters for one that is in the database.\<close>

definition chosen_key :: "world \<Rightarrow> bytes \<Rightarrow> nat \<Rightarrow> keyForChunkHashDB_t \<Rightarrow> keyForChunkHashDB_t" where
  "chosen_key w h n key0 = (case query (fp2ChunkDB w) h of
      None \<Rightarrow> key0\<lparr>key_length := of_nat n, key_deltaCount := 0, key_count := 1\<rparr>
    | Some v \<Rightarrow> (let t = key_of_bytes v in key0\<lparr>key_length := key_length t,
        key_deltaCount := key_deltaCount t, key_count := key_count t\<rparr>))"

text \<open>Saving is a map update of the abstract store.\<close>

lemma saveChunk_update:
  fixes w s h key0 n
  defines "key \<equiv> chosen_key w h n key0"
  assumes inv: "storage_inv w s" and h: "length h = CHUNK_HASH_SIZE"
    and key0: "length (key_containerName key0) = 16"
    and n: "2 \<le> unat (key_length key)" "unat (key_length key) \<le> length data"
      "unat (key_length key) \<le> unat (maxContainerSize s)"
    and more: "0 < names_left (lastContainerFileName s)"
  obtains d' s' w' k where "saveChunk key0 h data (int n) s w = Inr (True, d', s', w')"
    and "length d' = length data"
    and "take (unat (key_length key)) d' = stored_form (take (unat (key_length key)) data)"
    and "drop (unat (key_length key)) d' = drop (unat (key_length key)) data"
    and "storage_inv w' s'"
    and "abs_store w' s' = (abs_store w s)(h \<mapsto>
      (key_deltaCount key, stored_form (take (unat (key_length key)) data)))"
    and "query (fp2ChunkDB w') = (query (fp2ChunkDB w))(h \<mapsto> key_bytes k)"
    and "key_of_bytes (key_bytes k) = k" and "key_count k = key_count key"
    and "key_deltaCount k = key_deltaCount key"
    and "key_length k = key_length key" and "frame w s w' s'"
    and "names_left (lastContainerFileName s) \<le> Suc (names_left (lastContainerFileName s'))"
    and "key_name k = lastContainerFileName s'" and "lastContainerFileName s \<le> lastContainerFileName s'"
proof -
  obtain d' where d': "replace_zeros (key_length key) data = Inr d'" "length d' = length data"
      "take (unat (key_length key)) d' = stored_form (take (unat (key_length key)) data)"
      "drop (unat (key_length key)) d' = drop (unat (key_length key)) data"
    using replace_zeros_ok [OF n(1,2)] by auto
  have len: "unat (key_length key) \<le> length d'" using n(2) d'(2) by simp
  have nm: "length (key_containerName key) = 16"
    using key0 by (simp add: key_def chosen_key_def Let_def split: option.split)
  have np: "fst (next_permutation (lastContainerFileName s))" using more names_left_pos by blast
  obtain k' s1 w1 where st: "writeContainer key d' s w = Inr (True, k', s1, w1)"
    "fst (insert_db (fp2ChunkDB w1) h (key_bytes k'))"
    "k' = key\<lparr>key_containerName := key_containerName k', key_offset := key_offset k'\<rparr>"
    "storage_inv (w1\<lparr>fp2ChunkDB := snd (insert_db (fp2ChunkDB w1) h (key_bytes k'))\<rparr>)
           (advance s1 (key_length key))"
    "abs_store (w1\<lparr>fp2ChunkDB := snd (insert_db (fp2ChunkDB w1) h (key_bytes k'))\<rparr>)
           (advance s1 (key_length key))
         = (abs_store w s)(h \<mapsto> (key_deltaCount key, take (unat (key_length key)) d'))"
    "query (snd (insert_db (fp2ChunkDB w1) h (key_bytes k'))) = (query (fp2ChunkDB w))(h \<mapsto> key_bytes k')"
    "frame w s w1 (advance s1 (key_length key))" "key_of_bytes (key_bytes k') = k'"
    "names_left (lastContainerFileName s) \<le> Suc (names_left (lastContainerFileName s1))"
    by (rule store_key [OF inv len n(3) nm np, of h])
  let ?w = "w1\<lparr>fp2ChunkDB := snd (insert_db (fp2ChunkDB w1) h (key_bytes k'))\<rparr>"
  have kf: "key_length k' = key_length key" "key_count k' = key_count key"
      "key_deltaCount k' = key_deltaCount key"
    by (subst st(3), simp)+
  have old: "query (fp2ChunkDB w) h = Some v \<Longrightarrow> load_key v = Inr (key_of_bytes v)" for v
    using inv by (auto simp: storage_inv_def load_key_def)
  have "saveChunk key0 h data (int n) s w = and_then (replace_zeros (key_length key) data) (\<lambda>data.
      and_then (writeContainer key data s w) (\<lambda>(status, key, s1, w1).
        if \<not> status then Inr (status, data, s1, w1)
        else (let (ok, db) = insert_db (fp2ChunkDB w1) h (key_bytes key);
                  w2 = w1\<lparr>fp2ChunkDB := db\<rparr> in
              if \<not> ok then Inr (False, data, s1, w2)
              else Inr (True, data, advance s1 (key_length key), w2))))"
    unfolding advance_def
    using h old by (auto simp: saveChunk_def key_def chosen_key_def Let_def split: option.split)
  then have "saveChunk key0 h data (int n) s w = Inr (True, d', advance s1 (key_length key), ?w)"
    using d'(1) st(1,2) kf(1) by (simp add: Let_def case_prod_unfold)
  moreover have "key_name k' = lastContainerFileName s1" "lastContainerFileName s \<le> lastContainerFileName s1"
    using writeContainer_name [OF st(1) _ nm np] inv by (simp_all add: storage_inv_def)
  ultimately show ?thesis
    using that d' st kf by (simp add: advance_def)
qed

text \<open>A chunk whose fingerprint is not in the database.\<close>

lemma saveChunk_new:
  assumes inv: "storage_inv w s" and h: "length h = CHUNK_HASH_SIZE"
    and new: "query (fp2ChunkDB w) h = None"
    and key0: "length (key_containerName key0) = 16"
    and n: "2 \<le> n" "n \<le> length data" "n \<le> unat (maxContainerSize s)"
    and more: "0 < names_left (lastContainerFileName s)"
  obtains d' s' w' k where "saveChunk key0 h data (int n) s w = Inr (True, d', s', w')"
    and "length d' = length data" and "take n d' = stored_form (take n data)"
    and "drop n d' = drop n data" and "storage_inv w' s'"
    and "abs_store w' s' = (abs_store w s)(h \<mapsto> (0, stored_form (take n data)))"
    and "query (fp2ChunkDB w') = (query (fp2ChunkDB w))(h \<mapsto> key_bytes k)"
    and "key_of_bytes (key_bytes k) = k" and "key_count k = 1" and "key_deltaCount k = 0"
    and "key_length k = of_nat n" and "frame w s w' s'"
    and "names_left (lastContainerFileName s) \<le> Suc (names_left (lastContainerFileName s'))"
proof -
  have "unat (maxContainerSize s) \<le> BODY_SIZE" using inv by (simp add: storage_inv_def)
  then have un: "unat (of_nat n :: u32) = n" using n by (simp add: unat_of_nat size_defs)
  let ?key = "chosen_key w h n key0"
  have key: "?key = key0\<lparr>key_length := of_nat n, key_deltaCount := 0, key_count := 1\<rparr>"
    using new by (simp add: chosen_key_def)
  have len: "2 \<le> unat (key_length ?key)" "unat (key_length ?key) \<le> length data"
    "unat (key_length ?key) \<le> unat (maxContainerSize s)" using n un by (simp_all add: key)
  show ?thesis
    by (rule saveChunk_update [OF inv h key0 len more]) (auto simp: key un intro: that)
qed

end
