(* ===== verification/Storage_Properties.thy ===== *)
theory Storage_Properties
  imports Storage_Invariant
begin

text \<open>
  The properties of \<open>StorageCore\<close>: saving and restoring, the behaviour across a shutdown,
  recipes, deletion, and the multi-chunk message.
\<close>

section \<open>Restoring a chunk\<close>

lemma restoreChunk_missing:
  "query (fp2ChunkDB w) (take CHUNK_HASH_SIZE h) = None \<Longrightarrow>
   restoreChunk da w s h = Some (Inr (None, s))"
  by (simp add: restoreChunk.simps)

lemma load_key_ok: "length v = sizeof_key \<Longrightarrow> load_key v = Inr (key_of_bytes v)"
  by (simp add: load_key_def)

lemma restoreChunk_plain:
  assumes inv: "storage_inv w s" and h: "length h = CHUNK_HASH_SIZE"
    and abs: "abs_store w s h = Some (0, d)"
  shows "\<exists>s'. restoreChunk da w s h = Some (Inr (Some d, s')) \<and> same_but_cache s s' \<and> storage_inv w s'"
proof -
  from abs obtain v where v: "query (fp2ChunkDB w) h = Some v"
      "key_deltaCount (key_of_bytes v) = 0" "content w s (key_of_bytes v) = d"
    by (auto simp: abs_store_def)
  have pl: "placed w s (key_of_bytes v)" and lv: "length v = sizeof_key"
    using inv v(1) by (auto simp: storage_inv_def)
  obtain s' where "readContainer (key_of_bytes v) s w = Inr (Some d, s')"
      "same_but_cache s s'" "storage_inv w s'"
    using readContainer_content [OF inv pl] v(3) by auto
  with v h lv show ?thesis by (simp add: restoreChunk.simps [of da w s h] load_key_ok)
qed

lemma retriveChunk_content:
  assumes inv: "storage_inv w s" and h: "length h = CHUNK_HASH_SIZE"
    and abs: "abs_store w s h = Some (dc, d)"
  shows "\<exists>s'. retriveChunk h s w = Inr (Some d, s') \<and> same_but_cache s s' \<and> storage_inv w s'"
proof -
  from abs obtain v where v: "query (fp2ChunkDB w) h = Some v" "content w s (key_of_bytes v) = d"
    by (auto simp: abs_store_def)
  have pl: "placed w s (key_of_bytes v)" and lv: "length v = sizeof_key"
    using inv v(1) by (auto simp: storage_inv_def)
  show ?thesis
    using readContainer_content [OF inv pl] v h lv by (simp add: retriveChunk_def load_key_ok)
qed

text \<open>The bound of the loop in \<open>saveChunk\<close> wraps around for a short chunk.\<close>

lemma replace_zeros_short:
  assumes "n < 2" and "length data < 2 ^ 32 - 2"
  shows "replace_zeros (word_of_int (int n)) data = Inl OutOfBounds"
proof -
  have "n = 0 \<or> n = 1" using assms(1) by auto
  then have "2 ^ 32 - 2 \<le> unat (word_of_int (int n) - 2 :: u32)"
    by (auto simp: unsigned_minus_1_eq_mask mask_eq_exp_minus_1)
  then show ?thesis using assms(2) by (simp add: replace_zeros_def Let_def)
qed

section \<open>Concrete states for the witnesses\<close>

definition toy_config :: Configure where
  "toy_config = \<lparr>cfg_runningType = 0, cfg_chunkingType = 1, cfg_maxChunkSize = 8, cfg_minChunkSize = 3,
     cfg_slidingWinSize = 2, cfg_maxslidingWinSize = 4, cfg_minslidingWinSize = 2, cfg_segmentSize = 0,
     cfg_averageChunkSize = 4, cfg_ReadSize = 1, cfg_Fileindex = 1, cfg_SFNumber = 2,
     cfg_maxContainerSize = 10, cfg_RecipeRootPath = str ''R/'', cfg_containerRootPath = str ''C/'',
     cfg_fp2ChunkDBName = str ''db1'', cfg_fp2MetaDBame = str ''db2'', cfg_deltaChunkDBame = str ''db3'',
     cfg_containerDBame = str ''db4'', cfg_maxDeltaContainerSize = 10,
     cfg_deltacontainerRootPath = str ''D/''\<rparr>"

definition empty_db :: "bytes \<Rightarrow> database" where
  "empty_db n = \<lparr>dbName = n, levelDBObj = \<lparr>ldb_entries = [], ldb_bg_error = False\<rparr>\<rparr>"

definition toy_world :: world where
  "toy_world = \<lparr>w_fs = \<lparr>files = (\<lambda>_. None), writable = (\<lambda>_. True)\<rparr>, fp2ChunkDB = empty_db (str ''db1''),
     fileName2metaDB = empty_db (str ''db2''), deltaChunkDB = empty_db (str ''db3''),
     containerDB = empty_db (str ''db4'')\<rparr>"

definition toy_storage :: StorageCore where
  "toy_storage = (case newStorageCore toy_config (\<lambda>_. 0) (\<lambda>_. 0) toy_world of Inr s \<Rightarrow> s)"

definition toy_key :: keyForChunkHashDB_t where
  "toy_key = \<lparr>key_containerName = replicate 16 0, key_offset = 0, key_length = 0, key_count = 0,
     key_deltaCount = 0\<rparr>"

lemma toy_storage_eq: "toy_storage = \<lparr>lastContainerFileName = initial_name,
     currentReadContainerFileName = [], containerNamePrefix = str ''C/'',
     containerNameTail = str ''.container'', RecipeNamePrefix = str ''R/'', RecipeNameTail = str ''.recipe'',
     currentContainer = \<lparr>c_used = 0, c_body = (\<lambda>_. 0)\<rparr>,
     currentReadContainer = \<lparr>c_used = 0, c_body = (\<lambda>_. 0)\<rparr>, maxContainerSize = 10\<rparr>"
  by (simp add: toy_storage_def newStorageCore_def blankStorageCore_def toy_world_def toy_config_def config_defs)

lemma empty_db_simps [simp]: "query (empty_db n) k = None" "database_inv (empty_db n)"
  by (simp_all add: empty_db_def query_def database_inv_def leveldb_inv_def)

lemma initial_name_facts: "length initial_name = 15" "fst (next_permutation initial_name)"
  by (simp add: initial_name_def str_def, code_simp)

lemma toy_storage_inv: "storage_inv toy_world toy_storage"
  by (simp add: storage_inv_def toy_storage_eq toy_world_def cache_ok_def initial_name_facts size_defs)

lemma toy_names: "0 < names_left (lastContainerFileName toy_storage)"
  using initial_name_facts by (simp add: names_left_pos toy_storage_eq)

section \<open>Properties\<close>

text \<open>C2: saving a chunk whose fingerprint is new and restoring it returns the chunk with its
  zero bytes before the last two places replaced by \<open>0x80\<close>; a chunk without zero bytes comes
  back as it was.  The save returns \<open>true\<close>, keeps the invariant, whether or not the container
  had to be written to its file, and every chunk stored before is restored as before.\<close>

theorem save_then_restore:
  assumes "storage_inv w s" and "length h = CHUNK_HASH_SIZE"
    and "query (fp2ChunkDB w) h = None" and "length (key_containerName key0) = 16"
    and "2 \<le> length d" and "length d \<le> unat (maxContainerSize s)"
    and "0 < names_left (lastContainerFileName s)"
  shows "\<exists>d' s' w'. saveChunk key0 h d (int (length d)) s w = Inr (True, d', s', w')
     \<and> storage_inv w' s'
     \<and> (\<exists>s''. restoreChunk da w' s' h = Some (Inr (Some (stored_form d), s'')) \<and> storage_inv w' s'')
     \<and> (0 \<notin> set d \<longrightarrow> stored_form d = d)
     \<and> (\<forall>g e. length g = CHUNK_HASH_SIZE \<and> abs_store w s g = Some (0, e) \<longrightarrow>
          (\<exists>s''. restoreChunk da w' s' g = Some (Inr (Some e, s''))))"
proof -
  have l: "length d \<le> length d" by simp
  obtain d' s' w' k where sv: "saveChunk key0 h d (int (length d)) s w = Inr (True, d', s', w')"
    "storage_inv w' s'" "abs_store w' s' = (abs_store w s)(h \<mapsto> (0, stored_form (take (length d) d)))"
    by (rule saveChunk_new [OF assms(1-5) l assms(6,7)])
  have "abs_store w s h = None" using assms(3) by (simp add: abs_store_def)
  then have others: "abs_store w' s' g = abs_store w s g" if "abs_store w s g = Some x" for g x
    using sv(3) that by (auto split: if_splits)
  have here: "abs_store w' s' h = Some (0, stored_form d)" using sv(3) by simp
  show ?thesis
    using sv restoreChunk_plain [OF sv(2) assms(2) here] stored_form_no_zeros
      restoreChunk_plain [OF sv(2)] others by metis
qed

theorem save_then_restore_witness:
  "\<exists>d' s' w'. saveChunk toy_key (replicate 32 1) [5, 0, 7, 0] 4 toy_storage toy_world
       = Inr (True, d', s', w')
     \<and> (\<exists>s''. restoreChunk (\<lambda>_ _. []) w' s' (replicate 32 1)
           = Some (Inr (Some (stored_form [5, 0, 7, 0]), s'')))
     \<and> stored_form [5, 0, 7, 0] = [5, 128, 7, 0]"
proof -
  have h: "length (replicate 32 (1 :: byte)) = CHUNK_HASH_SIZE" by (simp add: size_defs)
  have q: "query (fp2ChunkDB toy_world) (replicate 32 1) = None" by (simp add: toy_world_def)
  have k: "length (key_containerName toy_key) = 16" by (simp add: toy_key_def)
  have m: "length [5, 0, 7, 0 :: byte] \<le> unat (maxContainerSize toy_storage)"
    by (simp add: toy_storage_eq)
  have sf: "stored_form [5, 0, 7, 0] = [5, 128, 7, 0]" by (simp add: stored_form_def no_zero_def)
  show ?thesis
    using save_then_restore [OF toy_storage_inv h q k _ m toy_names, of "\<lambda>_ _. []"] sf by simp blast
qed

text \<open>C6: restoring is a lookup.  For a fingerprint that is stored and is not a delta,
  \<open>restoreChunk\<close> returns \<open>true\<close> with the stored bytes, whichever of the three places
  (cached container, current container, container file) they are read from, and changes
  nothing but the cache; for one that is not stored it returns \<open>false\<close>.\<close>

theorem restoreChunk_lookup:
  assumes "storage_inv w s" and "length h = CHUNK_HASH_SIZE"
  shows "case abs_store w s h of
      None \<Rightarrow> restoreChunk da w s h = Some (Inr (None, s))
    | Some (dc, d) \<Rightarrow> dc = 0 \<longrightarrow> (\<exists>s'. restoreChunk da w s h = Some (Inr (Some d, s'))
        \<and> storage_inv w s' \<and> abs_store w s' = abs_store w s)"
proof (cases "abs_store w s h")
  case None
  then have "query (fp2ChunkDB w) h = None" by (simp add: abs_store_def)
  with None assms(2) show ?thesis by (simp add: restoreChunk_missing)
next
  case (Some x)
  then show ?thesis
    using restoreChunk_plain [OF assms] abs_store_same by (cases x) fastforce
qed

lemma toy_chunk_saved:
  obtains d s w where "saveChunk toy_key (replicate 32 1) [5, 0, 7, 0] 4 toy_storage toy_world = Inr (True, d, s, w)"
    and "storage_inv w s" and "frame toy_world toy_storage w s"
    and "abs_store w s = [replicate 32 1 \<mapsto> (0, [5, 128, 7, 0])]"
proof -
  have h: "length (replicate 32 (1 :: byte)) = CHUNK_HASH_SIZE" by (simp add: size_defs)
  have q: "query (fp2ChunkDB toy_world) (replicate 32 1) = None" by (simp add: toy_world_def)
  have k: "length (key_containerName toy_key) = 16" by (simp add: toy_key_def)
  have m: "(4 :: nat) \<le> unat (maxContainerSize toy_storage)" by (simp add: toy_storage_eq)
  have sf: "stored_form [5, 0, 7, 0] = [5, 128, 7, 0]" by (simp add: stored_form_def no_zero_def)
  have "abs_store toy_world toy_storage = Map.empty"
    by (simp add: fun_eq_iff abs_store_def toy_world_def)
  then show ?thesis
    by (rule_tac saveChunk_new [OF toy_storage_inv h q k _ _ m toy_names, of "[5, 0, 7, 0]"])
       (auto simp: sf intro: that)
qed

theorem restoreChunk_lookup_witness:
  "\<exists>d s w s'. saveChunk toy_key (replicate 32 1) [5, 0, 7, 0] 4 toy_storage toy_world = Inr (True, d, s, w)
     \<and> restoreChunk (\<lambda>_ _. []) w s (replicate 32 1) = Some (Inr (Some [5, 128, 7, 0], s'))
     \<and> restoreChunk (\<lambda>_ _. []) w s (replicate 32 2) = Some (Inr (None, s))"
proof (rule toy_chunk_saved)
  fix d s w
  assume saved: "saveChunk toy_key (replicate 32 1) [5, 0, 7, 0] 4 toy_storage toy_world = Inr (True, d, s, w)"
    and inv: "storage_inv w s" and abs: "abs_store w s = [replicate 32 1 \<mapsto> (0, [5, 128, 7, 0])]"
  have "length (replicate 32 (1 :: byte)) = CHUNK_HASH_SIZE" "length (replicate 32 (2 :: byte)) = CHUNK_HASH_SIZE"
    by (simp_all add: size_defs)
  then show ?thesis
    using saved abs restoreChunk_lookup [OF inv, of "replicate 32 1" "\<lambda>_ _. []"]
      restoreChunk_lookup [OF inv, of "replicate 32 2" "\<lambda>_ _. []"] by auto
qed





text \<open>A new chunk of fewer than two bytes makes \<open>saveChunk\<close> run outside the buffer: the
  bound \<open>key.length - 2\<close> of its loop is an unsigned difference and wraps around.\<close>

theorem save_short_chunk_out_of_bounds:
  assumes "query (fp2ChunkDB w) (take CHUNK_HASH_SIZE h) = None" and "n < 2"
    and "length data < 2 ^ 32 - 2"
  shows "saveChunk key0 h data (int n) s w = Inl OutOfBounds"
proof -
  have "replace_zeros (word_of_int (int n)) data = Inl OutOfBounds"
    using assms(2,3) by (rule replace_zeros_short)
  then show ?thesis using assms(1) by (simp add: saveChunk_def Let_def)
qed

theorem save_short_chunk_out_of_bounds_witness:
  "saveChunk toy_key (replicate 32 1) [65] 1 toy_storage toy_world = Inl OutOfBounds"
  using save_short_chunk_out_of_bounds [of toy_world "replicate 32 1" 1 "[65]" toy_key toy_storage]
  by (simp add: toy_world_def)

section \<open>Shutdown and start\<close>

lemma skip_space_not_space: "b # r = t \<Longrightarrow> \<not> is_space b \<Longrightarrow> skip_space t = t"
  by (auto simp: is_space_def)

lemma read_token_word:
  assumes "name \<noteq> []" and "\<forall>b \<in> set name. \<not> is_space b" and "is_space c"
  shows "read_token (name @ c # r) = (name, c # r)"
proof -
  obtain b n where n: "name = b # n" using assms(1) by (cases name) auto
  then have "skip_space (name @ c # r) = name @ c # r"
    using assms(2) by (intro skip_space_not_space [of b "n @ c # r"]) auto
  then show ?thesis
    using assms(2,3) by (simp add: read_token_def takeWhile_tail dropWhile_append3)
qed

lemma read_u32_dec:
  assumes "n < 2 ^ 32"
  shows "read_u32 (10 # dec_of_nat n @ [10]) = of_nat n"
proof -
  obtain b r where br: "dec_of_nat n = b # r" by (cases "dec_of_nat n") auto
  then have d: "is_digit b" using hd_dec_of_nat_digit [of n] by simp
  have "skip_space (10 # dec_of_nat n @ [10]) = skip_space (dec_of_nat n @ [10])" by simp
  also have "\<dots> = dec_of_nat n @ [10]"
    using br skip_space_digit [OF d] by simp
  finally have t: "skip_space (10 # dec_of_nat n @ [10]) = dec_of_nat n @ [10]" .
  have "fst (parse_dec 0 (dec_of_nat n @ [10])) = n"
    using parse_dec_of_nat [of "[10]" n] by (simp add: is_digit_def)
  moreover have "hd (dec_of_nat n @ [10]) \<noteq> 45" and "hd (dec_of_nat n @ [10]) \<noteq> 43"
    using br d by (auto simp: is_digit_def)
  ultimately show ?thesis using assms unfolding read_u32_def t by (simp add: Let_def del: hd_append)
qed

lemma config_path_not_container:
  "containerNameTail s = str ''.container'' \<Longrightarrow> str ''.StorageConfig'' \<noteq> containerPath s n"
proof
  assume t: "containerNameTail s = str ''.container''" and e: "str ''.StorageConfig'' = containerPath s n"
  have "List.last (str ''.StorageConfig'') = List.last (containerPath s n)" using e by simp
  then show False using t by (simp add: containerPath_def str_def)
qed

text \<open>The invariant and the abstract store read two databases and the container files only.\<close>

lemma storage_world_cong:
  assumes "fp2ChunkDB w' = fp2ChunkDB w" and "database_inv (containerDB w') = database_inv (containerDB w)"
    and "writable (w_fs w') = writable (w_fs w)"
    and "\<And>n. files (w_fs w') (containerPath s n) = files (w_fs w) (containerPath s n)"
  shows "storage_inv w' s = storage_inv w s" and "abs_store w' s = abs_store w s"
proof -
  have c: "content w' s k = content w s k" for k
    by (simp add: content_def assms(4))
  show "storage_inv w' s = storage_inv w s"
    by (simp add: storage_inv_def placed_def cache_ok_def assms)
  show "abs_store w' s = abs_store w s"
    by (simp add: abs_store_def fun_eq_iff c assms(1))
qed

lemma storage_inv_other_file:
  fixes w s p c
  assumes "storage_inv w s" and "\<forall>n. p \<noteq> containerPath s n"
  defines "w' \<equiv> w\<lparr>w_fs := (w_fs w)\<lparr>files := (files (w_fs w))(p := c)\<rparr>\<rparr>"
  shows "storage_inv w' s" and "abs_store w' s = abs_store w s"
proof -
  have f: "files (w_fs w') (containerPath s n) = files (w_fs w) (containerPath s n)" for n
    using assms(2) [rule_format, of n] by (simp add: w'_def)
  note c = storage_world_cong [of w' w s, OF _ _ _ f]
  show "storage_inv w' s" "abs_store w' s = abs_store w s"
    using c assms(1) by (simp_all add: w'_def)
qed

lemma restart_body:
  assumes pl: "placed w s k" and inv: "storage_inv w s"
    and last: "key_name k = lastContainerFileName s"
  shows "mem_read (mem_write b 0 (mem_read (c_body (currentContainer s)) 0 (unat (c_used (currentContainer s)))))
      (unat (key_offset k)) (unat (key_length k))
    = mem_read (c_body (currentContainer s)) (unat (key_offset k)) (unat (key_length k))"
proof -
  let ?old = "mem_read (c_body (currentContainer s)) 0 (unat (c_used (currentContainer s)))"
  have b: "unat (key_offset k) + unat (key_length k) \<le> length ?old"
    using pl last by (simp add: placed_def)
  have "mem_read (mem_write b 0 ?old) 0 (length ?old) = ?old" by (simp add: mem_simps)
  then have "mem_read (mem_write b 0 ?old) (unat (key_offset k)) (unat (key_length k))
      = slice (unat (key_offset k)) (unat (key_length k)) ?old"
    using b by (rule mem_read_slice)
  also have "\<dots> = mem_read (c_body (currentContainer s)) (unat (key_offset k)) (unat (key_length k))"
    using b by (simp add: slice_def mem_read_sub)
  finally show ?thesis .
qed

text \<open>An object as the constructor makes it from a configuration.\<close>

definition made_with :: "Configure \<Rightarrow> StorageCore \<Rightarrow> bool" where
  "made_with cfg s \<longleftrightarrow> containerNamePrefix s = getContainerRootPath cfg
     \<and> containerNameTail s = str ''.container'' \<and> RecipeNamePrefix s = getRecipeRootPath cfg
     \<and> RecipeNameTail s = str ''.recipe'' \<and> maxContainerSize s = getMaxContainerSize cfg
     \<and> (\<forall>b \<in> set (lastContainerFileName s). \<not> is_space b)"

lemma made_with_roll:
  "made_with cfg s \<Longrightarrow>
   made_with cfg (s\<lparr>lastContainerFileName := snd (next_permutation (lastContainerFileName s)), currentContainer := c\<rparr>)"
  using mset_eq_setD [OF mset_next_permutation [of "lastContainerFileName s" "fst (next_permutation (lastContainerFileName s))"
        "snd (next_permutation (lastContainerFileName s))"]]
  by (simp add: made_with_def)

lemma made_with_saveChunk:
  assumes "saveChunk key0 h data n s w = Inr (ok, d', s', w')" and "made_with cfg s"
  shows "made_with cfg s'"
proof -
  have wc: "made_with cfg s1" if "writeContainer k d s w = Inr (b, k', s1, w1)" for k d b k' s1 w1
    using that assms(2)
    by (auto simp: writeContainer_def res_simps Let_def made_with_roll split: if_splits)
      (simp add: made_with_def)
  show ?thesis
    using assms(1)
    by (auto simp: saveChunk_def res_simps Let_def dest!: wc split: if_splits prod.splits)
      (simp_all add: made_with_def)
qed

lemma made_with_same: "same_but_cache s s' \<Longrightarrow> made_with cfg s' = made_with cfg s"
  by (simp add: made_with_def same_but_cacheD)

lemma delete_then_new:
  assumes inv: "storage_inv w s" and made: "made_with cfg s"
    and wr: "writable (w_fs w) (str ''.StorageConfig'')"
  obtains w' where "deleteStorageCore s w = Inr w'"
    and "files (w_fs w') (containerPath s (lastContainerFileName s))
      = Some (mem_read (c_body (currentContainer s)) 0 (unat (c_used (currentContainer s))))"
    and "files (w_fs w') (str ''.StorageConfig'') = Some (lastContainerFileName s @ 10 #
      dec_of_nat (unat (c_used (currentContainer s))) @ [10])"
    and "\<forall>p. p \<noteq> containerPath s (lastContainerFileName s) \<longrightarrow> p \<noteq> str ''.StorageConfig'' \<longrightarrow>
      files (w_fs w') p = files (w_fs w) p"
    and "fp2ChunkDB w' = fp2ChunkDB w" "fileName2metaDB w' = fileName2metaDB w"
    and "deltaChunkDB w' = deltaChunkDB w" "database_inv (containerDB w')"
    and "writable (w_fs w') = writable (w_fs w)"
proof -
  let ?cfgtext = "lastContainerFileName s @ 10 # dec_of_nat (unat (c_used (currentContainer s))) @ [10]"
  let ?w1 = "w\<lparr>w_fs := (w_fs w)\<lparr>files := (files (w_fs w))(str ''.StorageConfig'' := Some ?cfgtext)\<rparr>\<rparr>"
  have np: "\<forall>n. str ''.StorageConfig'' \<noteq> containerPath s n"
    using made config_path_not_container by (simp add: made_with_def)
  have "storage_inv ?w1 s" using storage_inv_other_file(1) [OF inv np] by simp
  then have base: "storage_base ?w1 s" by (simp add: storage_inv_alt)
  have w1: "w\<lparr>w_fs := fs_try_write (str ''.StorageConfig'')
        (lastContainerFileName s @ [10] @ dec_of_nat (unat (c_used (currentContainer s))) @ [10]) (w_fs w)\<rparr> = ?w1"
    using wr by (simp add: fs_try_write_def fs_write_def)
  obtain w' where w': "Container_saveTOFile (currentContainer s)
        (containerPath s (lastContainerFileName s)) ?w1 = Inr (True, w')"
      "w_fs w' = (w_fs ?w1)\<lparr>files := (files (w_fs ?w1))(containerPath s (lastContainerFileName s) \<mapsto>
        mem_read (c_body (currentContainer s)) 0 (unat (c_used (currentContainer s))))\<rparr>"
      "fp2ChunkDB w' = fp2ChunkDB ?w1" "fileName2metaDB w' = fileName2metaDB ?w1"
      "deltaChunkDB w' = deltaChunkDB ?w1" "database_inv (containerDB w')"
    using saveTOFile_ok [OF base] by blast
  have "deleteStorageCore s w = Inr w'"
    by (simp add: deleteStorageCore_def Let_def w1 [simplified] w'(1))
  then show ?thesis
    using that w'(2-6) np by simp
qed

lemma newStorageCore_cong:
  assumes "files (w_fs w') (str ''.StorageConfig'') = files (w_fs w) (str ''.StorageConfig'')"
    and "\<And>n. files (w_fs w') (containerPath (blankStorageCore cfg b1 b2) n)
      = files (w_fs w) (containerPath (blankStorageCore cfg b1 b2) n)"
  shows "newStorageCore cfg b1 b2 w' = newStorageCore cfg b1 b2 w"
  unfolding newStorageCore_def Let_def assms ..

lemma made_with_path: "made_with cfg s \<Longrightarrow> containerPath (blankStorageCore cfg b1 b2) = containerPath s"
  by (simp add: containerPath_def blankStorageCore_def made_with_def fun_eq_iff)

lemma restart_ok:
  assumes inv: "storage_inv w s" and made: "made_with cfg s"
    and wr: "writable (w_fs w) (str ''.StorageConfig'')"
  obtains w' s' where "deleteStorageCore s w = Inr w'" and "newStorageCore cfg b1 b2 w' = Inr s'"
    and "storage_inv w' s'" and "made_with cfg s'" and "abs_store w' s' = abs_store w s"
    and "lastContainerFileName s' = lastContainerFileName s"
    and "\<forall>p. (\<forall>n. p \<noteq> containerPath s n) \<longrightarrow> p \<noteq> str ''.StorageConfig'' \<longrightarrow> files (w_fs w') p = files (w_fs w) p"
    and "fileName2metaDB w' = fileName2metaDB w" and "writable (w_fs w') = writable (w_fs w)"
    and "containerPath s' = containerPath s" and "recipePath s' = recipePath s"
proof -
  let ?used = "c_used (currentContainer s)" and ?last = "lastContainerFileName s"
  let ?old = "mem_read (c_body (currentContainer s)) 0 (unat ?used)"
  obtain w' where d: "deleteStorageCore s w = Inr w'"
    and fl: "files (w_fs w') (containerPath s ?last) = Some ?old"
    and fc: "files (w_fs w') (str ''.StorageConfig'') = Some (?last @ 10 # dec_of_nat (unat ?used) @ [10])"
    and fo: "\<forall>p. p \<noteq> containerPath s ?last \<longrightarrow> p \<noteq> str ''.StorageConfig'' \<longrightarrow>
      files (w_fs w') p = files (w_fs w) p"
    and dbs: "fp2ChunkDB w' = fp2ChunkDB w" "fileName2metaDB w' = fileName2metaDB w"
      "deltaChunkDB w' = deltaChunkDB w" "database_inv (containerDB w')"
      "writable (w_fs w') = writable (w_fs w)"
    by (rule delete_then_new [OF inv made wr])
  let ?s' = "s\<lparr>currentReadContainerFileName := [],
    currentContainer := \<lparr>c_used = ?used, c_body = mem_write b1 0 ?old\<rparr>,
    currentReadContainer := \<lparr>c_used = 0, c_body = b2\<rparr>\<rparr>"
  have l15: "length ?last = 15" and used: "unat ?used \<le> BODY_SIZE"
    using inv by (auto simp: storage_inv_def)
  then have nn: "?last \<noteq> []" by auto
  have ns: "\<forall>b \<in> set ?last. \<not> is_space b" using made by (simp add: made_with_def)
  have tok: "read_token (?last @ 10 # dec_of_nat (unat ?used) @ [10])
      = (?last, 10 # dec_of_nat (unat ?used) @ [10])"
    by (rule read_token_word [OF nn ns]) (simp add: is_space_def)
  have ru: "read_u32 (10 # dec_of_nat (unat ?used) @ [10]) = ?used"
    using read_u32_dec [of "unat ?used"] unsigned_less [of ?used] by simp
  have blank: "containerPath (blankStorageCore cfg b1 b2) ?last = containerPath s ?last"
    using made by (simp add: containerPath_def blankStorageCore_def made_with_def)
  have s': "(blankStorageCore cfg b1 b2)\<lparr>lastContainerFileName := ?last,
      currentContainer := \<lparr>c_used = ?used, c_body = mem_write b1 0 ?old\<rparr>\<rparr> = ?s'"
    using made by (cases s) (simp add: made_with_def blankStorageCore_def)
  have new: "newStorageCore cfg b1 b2 w' = Inr ?s'"
    using fc tok ru fl used by (simp add: newStorageCore_def Let_def blank s')
  have path': "containerPath ?s' = containerPath s"
    by (simp add: containerPath_def fun_eq_iff)
  have np: "\<And>n. containerPath s n \<noteq> str ''.StorageConfig''"
    using made by (intro not_sym [OF config_path_not_container]) (simp add: made_with_def)
  have pl: "placed w' ?s' k" if "placed w s k" for k
    using that fo [rule_format, OF _ np] by (auto simp: placed_def path')
  have con: "content w' ?s' k = content w s k" if "placed w s k" for k
    using that fo [rule_format, OF _ np] restart_body [OF that inv] by (auto simp: content_def path')
  have inv': "storage_inv w' ?s'"
    using inv pl dbs by (simp add: storage_inv_def path' cache_ok_def)
  have "abs_store w' ?s' = abs_store w s"
  proof
    fix h
    show "abs_store w' ?s' h = abs_store w s h"
      using inv con dbs by (cases "query (fp2ChunkDB w) h") (auto simp: abs_store_def storage_inv_def)
  qed
  then show ?thesis
    using that [OF d new inv'] made fo dbs path' by (simp add: made_with_def recipePath_def fun_eq_iff)
qed

text \<open>C4: deleting the \<open>StorageCore\<close> and making a new one, as each command of the program does,
  loses nothing: the new object satisfies the invariant, holds the same chunks and goes on with
  the same container name.\<close>

theorem restart_keeps_chunks:
  assumes inv: "storage_inv w s" and made: "made_with cfg s"
    and wr: "writable (w_fs w) (str ''.StorageConfig'')"
  shows "\<exists>w' s'. deleteStorageCore s w = Inr w' \<and> newStorageCore cfg b1 b2 w' = Inr s'
     \<and> storage_inv w' s' \<and> made_with cfg s' \<and> abs_store w' s' = abs_store w s
     \<and> lastContainerFileName s' = lastContainerFileName s"
proof -
  obtain w' s' where "deleteStorageCore s w = Inr w'" "newStorageCore cfg b1 b2 w' = Inr s'"
    "storage_inv w' s'" "made_with cfg s'" "abs_store w' s' = abs_store w s"
    "lastContainerFileName s' = lastContainerFileName s"
    by (rule restart_ok [OF assms])
  then show ?thesis by blast
qed

lemma toy_made: "made_with toy_config toy_storage"
  by (simp add: made_with_def toy_storage_eq toy_config_def config_defs initial_name_def str_def
      is_space_def)

theorem restart_keeps_chunks_witness:
  "\<exists>d s w w' s'. saveChunk toy_key (replicate 32 1) [5, 0, 7, 0] 4 toy_storage toy_world = Inr (True, d, s, w)
     \<and> deleteStorageCore s w = Inr w' \<and> newStorageCore toy_config (\<lambda>_. 1) (\<lambda>_. 2) w' = Inr s'
     \<and> abs_store w' s' (replicate 32 1) = Some (0, [5, 128, 7, 0])"
proof (rule toy_chunk_saved)
  fix d s w
  assume saved: "saveChunk toy_key (replicate 32 1) [5, 0, 7, 0] 4 toy_storage toy_world = Inr (True, d, s, w)"
    and inv: "storage_inv w s" and fr: "frame toy_world toy_storage w s"
    and abs: "abs_store w s = [replicate 32 1 \<mapsto> (0, [5, 128, 7, 0])]"
  have "made_with toy_config s" by (rule made_with_saveChunk [OF saved toy_made])
  moreover have "writable (w_fs w) (str ''.StorageConfig'')" using fr by (simp add: frame_def toy_world_def)
  ultimately show ?thesis
    using saved abs restart_keeps_chunks [OF inv, of toy_config "\<lambda>_. 1" "\<lambda>_. 2"] by fastforce
qed

end
