(* ===== verification/Storage_Recipes.thy ===== *)
theory Storage_Recipes
  imports Storage_Properties
begin

text \<open>
  Recipes: what \<open>checkRecipeStatus\<close> writes, \<open>restoreRecipeHead\<close> and
  \<open>restoreRecipeAndChunk\<close> read back; deletion; and the message of \<open>saveChunks\<close>.
\<close>

section \<open>Restoring the chunks of a recipe\<close>

definition restored_chunk :: "Chunk_t \<Rightarrow> RecipeEntry_t \<Rightarrow> bytes \<Rightarrow> Chunk_t" where
  "restored_chunk junk e d = junk\<lparr>chunk_ID := entry_chunkID e, chunk_logicDataSize := entry_chunkSize e,
     chunk_logicData := pad_chunk d, chunk_chunkHash := entry_chunkHash e\<rparr>"

text \<open>An entry whose chunk is stored in full, with contents \<open>d\<close> of the recorded size.\<close>

definition entry_stored :: "world \<Rightarrow> StorageCore \<Rightarrow> RecipeEntry_t \<Rightarrow> bytes \<Rightarrow> bool" where
  "entry_stored w s e d \<longleftrightarrow> RecipeEntry_ok e \<and> abs_store w s (entry_chunkHash e) = Some (0, d)
     \<and> entry_chunkSize e = int (length d) \<and> length d \<le> MAX_CHUNK_SIZE"

lemma entry_stored_same: "same_but_cache s s' \<Longrightarrow> entry_stored w s' = entry_stored w s"
  by (simp add: entry_stored_def fun_eq_iff abs_store_same)

lemma entries_stored_ok: "list_all2 (entry_stored w s) es ds \<Longrightarrow> \<forall>e \<in> set es. RecipeEntry_ok e"
  by (auto simp: list_all2_conv_all_nth in_set_conv_nth entry_stored_def)

lemma entry_stored_cong: "abs_store w' s = abs_store w s \<Longrightarrow> entry_stored w' s = entry_stored w s"
  by (simp add: entry_stored_def fun_eq_iff)

lemma restore_entries_stored:
  assumes "storage_inv w s" and "list_all2 (entry_stored w s) es ds"
  shows "\<exists>s'. restore_entries da junk (length es) (concat (map RecipeEntry_bytes es) @ r) w s acc
      = Some (Inr (True, acc @ map2 (restored_chunk junk) es ds, s'))
    \<and> same_but_cache s s' \<and> storage_inv w s'"
  using assms
proof (induction es arbitrary: ds s acc)
  case Nil
  then show ?case by auto
next
  case (Cons e es ds0)
  then obtain d ds where ds0: "ds0 = d # ds" and e: "entry_stored w s e d"
      and es: "list_all2 (entry_stored w s) es ds" by (auto simp: list_all2_Cons1)
  have ok: "RecipeEntry_ok e" and abs: "abs_store w s (entry_chunkHash e) = Some (0, d)"
    and sz: "entry_chunkSize e = int (length d)" and mx: "length d \<le> MAX_CHUNK_SIZE"
    using e by (auto simp: entry_stored_def)
  have h: "length (entry_chunkHash e) = CHUNK_HASH_SIZE" using ok by (simp add: RecipeEntry_ok_def)
  obtain s1 where r1: "restoreChunk da w s (entry_chunkHash e) = Some (Inr (Some d, s1))"
      "same_but_cache s s1" "storage_inv w s1"
    using restoreChunk_plain [OF Cons.prems(1) h abs] by blast
  have "list_all2 (entry_stored w s1) es ds"
    using es r1(2) by (simp add: entry_stored_same)
  then obtain s2 where r2: "restore_entries da junk (length es) (concat (map RecipeEntry_bytes es) @ r) w s1
        (acc @ [restored_chunk junk e d])
      = Some (Inr (True, (acc @ [restored_chunk junk e d]) @ map2 (restored_chunk junk) es ds, s2))"
      "same_but_cache s1 s2" "storage_inv w s2"
    using Cons.IH [OF r1(3)] by blast
  have le: "length (RecipeEntry_bytes e) = sizeof_RecipeEntry" using ok by (rule entryl.length_enc)
  have de: "RecipeEntry_of_bytes (RecipeEntry_bytes e) = e" using ok by (rule entryl.dec_enc)
  have u: "length d = u64_of_int (entry_chunkSize e)"
    using mx by (simp add: sz u64_of_int_small size_defs)
  have "restore_entries da junk (length (e # es)) (concat (map RecipeEntry_bytes (e # es)) @ r) w s acc
      = Some (Inr (True, acc @ map2 (restored_chunk junk) (e # es) (d # ds), s2))"
    using r1(1) r2(1) le u [symmetric] mx by (simp add: de Let_def restored_chunk_def)
  then show ?case using ds0 r1(2) r2(2,3) same_but_cache_trans by blast
qed

text \<open>The recipe file of a stored file name.\<close>

definition has_recipe :: "world \<Rightarrow> StorageCore \<Rightarrow> bytes \<Rightarrow> Recipe_t \<Rightarrow> RecipeEntry_t list \<Rightarrow> bool" where
  "has_recipe w s fh head es \<longleftrightarrow> length fh = FILE_NAME_HASH_SIZE \<and> Recipe_ok head
     \<and> (\<forall>e \<in> set es. RecipeEntry_ok e)
     \<and> (\<exists>name. query (fileName2metaDB w) fh = Some name
          \<and> files (w_fs w) (recipePath s name) = Some (Recipe_bytes head @ concat (map RecipeEntry_bytes es)))"

lemma recipe_buffer:
  assumes "Recipe_ok head" and "\<forall>e \<in> set es. RecipeEntry_ok e" and "a \<le> length es"
  shows "drop (sizeof_Recipe + a * sizeof_RecipeEntry) (Recipe_bytes head @ concat (map RecipeEntry_bytes es))
    = concat (map RecipeEntry_bytes (drop a es))"
  using recipel.length_enc [OF assms(1)] entryl.drop_concat_enc [OF assms(2,3), of "[]"]
  by simp

lemma take_buffer:
  assumes "\<forall>e \<in> set es. RecipeEntry_ok e" and "n \<le> length es"
  shows "take (sizeof_RecipeEntry * n) (concat (map RecipeEntry_bytes es))
    = concat (map RecipeEntry_bytes (take n es))"
proof -
  have t: "\<forall>e \<in> set (take n es). RecipeEntry_ok e" using assms(1) by (meson in_set_takeD)
  have "concat (map RecipeEntry_bytes es)
      = concat (map RecipeEntry_bytes (take n es)) @ concat (map RecipeEntry_bytes (drop n es))"
    by (metis append_take_drop_id concat_append map_append)
  moreover have "length (concat (map RecipeEntry_bytes (take n es))) = sizeof_RecipeEntry * n"
    using entryl.length_concat_enc [OF t] assms(2) by simp
  ultimately show ?thesis by simp
qed

lemma restoreRecipeAndChunk_range:
  assumes inv: "storage_inv w s" and rec: "has_recipe w s fh head es"
    and rng: "unat a \<le> unat b" "unat b \<le> length es"
    and st: "list_all2 (entry_stored w s) (take (unat b - unat a) (drop (unat a) es)) ds"
  shows "\<exists>s'. restoreRecipeAndChunk da junk fh a b acc s w
      = Some (Inr (True, acc @ map2 (restored_chunk junk) (take (unat b - unat a) (drop (unat a) es)) ds, s'))
    \<and> same_but_cache s s' \<and> storage_inv w s'"
proof -
  let ?es = "take (unat b - unat a) (drop (unat a) es)"
  obtain name where nm: "query (fileName2metaDB w) fh = Some name"
      "files (w_fs w) (recipePath s name) = Some (Recipe_bytes head @ concat (map RecipeEntry_bytes es))"
    and ok: "length fh = FILE_NAME_HASH_SIZE" "Recipe_ok head" "\<forall>e \<in> set es. RecipeEntry_ok e"
    using rec by (auto simp: has_recipe_def)
  have n: "unat (b - a) = unat b - unat a" using rng(1) by (simp add: unat_sub word_le_nat_alt)
  have okd: "\<forall>e \<in> set (drop (unat a) es). RecipeEntry_ok e" using ok(3) by (meson in_set_dropD)
  have ln: "length ?es = unat b - unat a" using rng by simp
  have buf: "take (sizeof_RecipeEntry * (unat b - unat a)) (drop (sizeof_Recipe + unat a * sizeof_RecipeEntry)
        (Recipe_bytes head @ concat (map RecipeEntry_bytes es))) = concat (map RecipeEntry_bytes ?es)"
    using recipe_buffer [OF ok(2,3), of "unat a"] take_buffer [OF okd, of "unat b - unat a"] rng by simp
  have "restoreRecipeAndChunk da junk fh a b acc s w
      = restore_entries da junk (length ?es) (concat (map RecipeEntry_bytes ?es) @ []) w s acc"
    using nm ok(1) n ln buf by (simp add: restoreRecipeAndChunk_def Let_def)
  then show ?thesis using restore_entries_stored [OF inv st, of da junk "[]" acc] by simp
qed

lemma restoreRecipeAndChunk_all:
  assumes "storage_inv w s" and "has_recipe w s fh head es" and "length es < 2 ^ 32"
    and "list_all2 (entry_stored w s) es ds"
  shows "\<exists>s'. restoreRecipeAndChunk da junk fh 0 (of_nat (length es)) acc s w
      = Some (Inr (True, acc @ map2 (restored_chunk junk) es ds, s'))
    \<and> same_but_cache s s' \<and> storage_inv w s'"
proof -
  have "unat (of_nat (length es) :: u32) = length es" using assms(3) by (simp add: unat_of_nat)
  then show ?thesis
    using restoreRecipeAndChunk_range [OF assms(1,2), of 0 "of_nat (length es)" ds da junk acc] assms(4)
    by simp
qed

section \<open>Writing a recipe\<close>

lemma recipePath_inject [simp]: "recipePath s a = recipePath s b \<longleftrightarrow> a = b"
  by (simp add: recipePath_def)

lemma recipe_path_not_container:
  assumes "made_with cfg s"
  shows "recipePath s n \<noteq> containerPath s m"
proof
  assume "recipePath s n = containerPath s m"
  then have "List.last (recipePath s n) = List.last (containerPath s m)" by simp
  then show False
    using assms by (simp add: made_with_def recipePath_def containerPath_def str_def)
qed

lemma checkRecipeStatus_new:
  assumes new: "query (fileName2metaDB w) (frh_fileNameHash (fileRecipeHead head)) = None"
    and db: "database_inv (fileName2metaDB w)"
    and wr: "writable (w_fs w) (recipePath s (hex_name (frh_fileNameHash (fileRecipeHead head))))"
    and nf: "files (w_fs w) (recipePath s (hex_name (frh_fileNameHash (fileRecipeHead head)))) = None"
    and ok: "Recipe_ok head" "\<forall>e \<in> set es. RecipeEntry_ok e"
  shows "\<exists>w'. checkRecipeStatus head es s w = (True, w')
    \<and> has_recipe w' s (frh_fileNameHash (fileRecipeHead head)) head es
    \<and> w_fs w' = (w_fs w)\<lparr>files := (files (w_fs w))(recipePath s (hex_name (frh_fileNameHash (fileRecipeHead head)))
         \<mapsto> Recipe_bytes head @ concat (map RecipeEntry_bytes es))\<rparr>
    \<and> fp2ChunkDB w' = fp2ChunkDB w \<and> deltaChunkDB w' = deltaChunkDB w \<and> containerDB w' = containerDB w
    \<and> database_inv (fileName2metaDB w')"
  using assms
  by (auto simp: checkRecipeStatus_def saveRecipe_def fs_append_def fs_write_def has_recipe_def
      query_insert database_inv_insert Recipe_ok_def Let_def)

lemma storage_recipe_file:
  assumes "storage_inv w s" and "made_with cfg s" and "fp2ChunkDB w' = fp2ChunkDB w"
    and "containerDB w' = containerDB w"
    and "w_fs w' = (w_fs w)\<lparr>files := (files (w_fs w))(recipePath s n := d)\<rparr>"
  shows "storage_inv w' s" "abs_store w' s = abs_store w s"
proof -
  have f: "files (w_fs w') (containerPath s m) = files (w_fs w) (containerPath s m)" for m
    using recipe_path_not_container [OF assms(2), of n m] by (simp add: assms(5))
  note c = storage_world_cong [of w' w s, OF _ _ _ f]
  show "storage_inv w' s" "abs_store w' s = abs_store w s"
    using c assms by simp_all
qed

section \<open>Properties\<close>

text \<open>C3: the recipe of a file that is stored for the first time is written so that its head
  can be read back and any range of its chunks restored, in order, with their IDs, sizes,
  fingerprints and contents.\<close>

theorem recipe_round_trip:
  assumes inv: "storage_inv w s" and made: "made_with cfg s"
    and new: "query (fileName2metaDB w) (frh_fileNameHash (fileRecipeHead head)) = None"
    and db: "database_inv (fileName2metaDB w)"
    and wr: "\<forall>p. writable (w_fs w) p" and nf: "\<forall>n. files (w_fs w) (recipePath s n) = None"
    and ok: "Recipe_ok head" and st: "list_all2 (entry_stored w s) es ds"
    and rng: "unat a \<le> unat b" "unat b \<le> length es"
  shows "\<exists>w'. checkRecipeStatus head es s w = (True, w') \<and> storage_inv w' s
     \<and> abs_store w' s = abs_store w s
     \<and> restoreRecipeHead (frh_fileNameHash (fileRecipeHead head)) s w' = Some head
     \<and> (\<exists>s'. restoreRecipeAndChunk da junk (frh_fileNameHash (fileRecipeHead head)) a b [] s w'
          = Some (Inr (True, take (unat b - unat a) (drop (unat a) (map2 (restored_chunk junk) es ds)), s')))"
proof -
  let ?fh = "frh_fileNameHash (fileRecipeHead head)"
  have es_ok: "\<forall>e \<in> set es. RecipeEntry_ok e"
    using st by (rule entries_stored_ok)
  have wr1: "writable (w_fs w) (recipePath s (hex_name ?fh))"
    and nf1: "files (w_fs w) (recipePath s (hex_name ?fh)) = None" using wr nf by auto
  obtain w' where w': "checkRecipeStatus head es s w = (True, w')" "has_recipe w' s ?fh head es"
      "w_fs w' = (w_fs w)\<lparr>files := (files (w_fs w))(recipePath s (hex_name ?fh)
         \<mapsto> Recipe_bytes head @ concat (map RecipeEntry_bytes es))\<rparr>"
      "fp2ChunkDB w' = fp2ChunkDB w" "containerDB w' = containerDB w"
    using checkRecipeStatus_new [OF new db wr1 nf1 ok es_ok] by blast
  note keep = storage_recipe_file [OF inv made w'(4,5,3)]
  have head: "restoreRecipeHead ?fh s w' = Some head"
    using w'(2) recipel.length_enc [OF ok] recipel.dec_enc [OF ok]
    by (auto simp: restoreRecipeHead_def has_recipe_def)
  have st': "list_all2 (entry_stored w' s) (take (unat b - unat a) (drop (unat a) es))
      (take (unat b - unat a) (drop (unat a) ds))"
    using st by (simp add: entry_stored_cong [OF keep(2)])
  show ?thesis
    using w'(1) keep head restoreRecipeAndChunk_range [OF keep(1) w'(2) rng st', of da junk "[]"]
    by (auto simp: take_zip drop_zip take_map drop_map)
qed

text \<open>A store with one chunk, for the witnesses.\<close>

definition toy_hash :: bytes where
  "toy_hash = replicate 32 1"

definition toy_entry :: RecipeEntry_t where
  "toy_entry = \<lparr>entry_chunkID = 0, entry_chunkSize = 4, entry_chunkHash = toy_hash\<rparr>"

definition toy_recipe :: Recipe_t where
  "toy_recipe = \<lparr>fileRecipeHead = \<lparr>frh_fileSize = 4, frh_fileNameHash = replicate 32 2,
     frh_totalChunkNumber = 1\<rparr>, keyRecipeHead = \<lparr>krh_fileSize = 4, krh_fileNameHash = replicate 32 2,
     krh_totalChunkKeyNumber = 1\<rparr>\<rparr>"

lemma toy_saved:
  obtains d' s w where "saveChunk toy_key toy_hash [5, 6, 7, 8] 4 toy_storage toy_world = Inr (True, d', s, w)"
    and "storage_inv w s" "made_with toy_config s" "entry_stored w s toy_entry [5, 6, 7, 8]"
    and "query (fileName2metaDB w) x = None" "database_inv (fileName2metaDB w)"
    and "\<forall>p. writable (w_fs w) p" "\<forall>n. files (w_fs w) (recipePath s n) = None"
proof -
  have h: "length toy_hash = CHUNK_HASH_SIZE" by (simp add: toy_hash_def size_defs)
  have q: "query (fp2ChunkDB toy_world) toy_hash = None" by (simp add: toy_world_def)
  have k: "length (key_containerName toy_key) = 16" by (simp add: toy_key_def)
  have n: "2 \<le> (4 :: nat)" "4 \<le> length [5, 6, 7, 8 :: byte]" "4 \<le> unat (maxContainerSize toy_storage)"
    by (simp_all add: toy_storage_eq)
  obtain d' s w where sv: "saveChunk toy_key toy_hash [5, 6, 7, 8] (int 4) toy_storage toy_world = Inr (True, d', s, w)"
      "storage_inv w s"
      "abs_store w s = (abs_store toy_world toy_storage)(toy_hash \<mapsto> (0, stored_form (take 4 [5, 6, 7, 8])))"
      "frame toy_world toy_storage w s"
    by (rule saveChunk_new [OF toy_storage_inv h q k n toy_names])
  have made: "made_with toy_config s" using made_with_saveChunk [OF sv(1) toy_made] .
  have st: "entry_stored w s toy_entry [5, 6, 7, 8]"
    by (simp add: entry_stored_def sv(3) toy_entry_def RecipeEntry_ok_def h in_int_def size_defs
        stored_form_no_zeros)
  have p: "recipePath toy_storage n \<noteq> containerPath toy_storage m" for n m
    by (rule recipe_path_not_container [OF toy_made])
  show ?thesis
    by (rule that [OF sv(1) [simplified] sv(2) made st])
      (use sv(4) p in \<open>auto simp: frame_def toy_world_def\<close>)
qed

definition toy_restored :: Chunk_t where
  "toy_restored = \<lparr>chunk_ID = 0, chunk_type = 0, chunk_logicDataSize = 0, chunk_logicData = [],
     chunk_chunkHash = [], chunk_encryptKey = []\<rparr>"

theorem recipe_round_trip_witness:
  "\<exists>d' s w w' s'. saveChunk toy_key toy_hash [5, 6, 7, 8] 4 toy_storage toy_world = Inr (True, d', s, w)
     \<and> checkRecipeStatus toy_recipe [toy_entry] s w = (True, w')
     \<and> restoreRecipeHead (replicate 32 2) s w' = Some toy_recipe
     \<and> restoreRecipeAndChunk (\<lambda>_ _. []) toy_restored (replicate 32 2) 0 1 [] s w'
         = Some (Inr (True, [restored_chunk toy_restored toy_entry [5, 6, 7, 8]], s'))"
proof -
  let ?h = "frh_fileNameHash (fileRecipeHead toy_recipe)"
  obtain d' s w where sv: "saveChunk toy_key toy_hash [5, 6, 7, 8] 4 toy_storage toy_world = Inr (True, d', s, w)"
    "storage_inv w s" "made_with toy_config s" "entry_stored w s toy_entry [5, 6, 7, 8]"
    "query (fileName2metaDB w) ?h = None" "database_inv (fileName2metaDB w)"
    "\<forall>p. writable (w_fs w) p" "\<forall>n. files (w_fs w) (recipePath s n) = None"
    by (rule toy_saved)
  have ok: "Recipe_ok toy_recipe" by (simp add: toy_recipe_def Recipe_ok_def size_defs)
  have st: "list_all2 (entry_stored w s) [toy_entry] [[5, 6, 7, 8]]" using sv(4) by simp
  have h: "?h = replicate 32 2" by (simp add: toy_recipe_def)
  show ?thesis
    using recipe_round_trip [OF sv(2,3,5-8) ok st, of 0 1 "\<lambda>_ _. []" toy_restored] sv(1)
    unfolding h by simp blast
qed

lemma toy_has_recipe:
  obtains s w where "storage_inv w s" and "made_with toy_config s" and "\<forall>p. writable (w_fs w) p"
    and "entry_stored w s toy_entry [5, 6, 7, 8]"
    and "has_recipe w s (frh_fileNameHash (fileRecipeHead toy_recipe)) toy_recipe [toy_entry]"
proof -
  let ?h = "frh_fileNameHash (fileRecipeHead toy_recipe)"
  obtain s w where sv: "storage_inv w s" "made_with toy_config s" "entry_stored w s toy_entry [5, 6, 7, 8]"
    "query (fileName2metaDB w) ?h = None" "database_inv (fileName2metaDB w)"
    "\<forall>p. writable (w_fs w) p" "\<forall>n. files (w_fs w) (recipePath s n) = None"
    by (rule toy_saved)
  have ok: "Recipe_ok toy_recipe" by (simp add: toy_recipe_def Recipe_ok_def size_defs)
  have e1: "\<forall>e \<in> set [toy_entry]. RecipeEntry_ok e" using sv(3) by (simp add: entry_stored_def)
  have wn: "writable (w_fs w) (recipePath s (hex_name ?h))" "files (w_fs w) (recipePath s (hex_name ?h)) = None"
    using sv(6,7) by blast+
  obtain w1 where w1: "has_recipe w1 s ?h toy_recipe [toy_entry]"
      "w_fs w1 = (w_fs w)\<lparr>files := (files (w_fs w))(recipePath s (hex_name ?h)
         \<mapsto> Recipe_bytes toy_recipe @ concat (map RecipeEntry_bytes [toy_entry]))\<rparr>"
      "fp2ChunkDB w1 = fp2ChunkDB w" "containerDB w1 = containerDB w"
    using checkRecipeStatus_new [OF sv(4,5) wn ok e1] by blast
  note keep = storage_recipe_file [OF sv(1,2) w1(3,4,2)]
  show ?thesis
    by (rule that [OF keep(1) sv(2) _ _ w1(1)])
      (use sv(3,6) w1(2) entry_stored_cong [OF keep(2)] in simp_all)
qed

text \<open>C7: storing more entries under a file name that has a recipe appends them: the head on
  disk stays the first one (its totals are not updated), the old entries are restored as before,
  and the new ones under the positions that follow.\<close>

theorem recipe_append:
  assumes inv: "storage_inv w s" and made: "made_with cfg s"
    and old: "has_recipe w s (frh_fileNameHash (fileRecipeHead head)) head0 es0"
    and wr: "\<forall>p. writable (w_fs w) p"
    and st: "list_all2 (entry_stored w s) (es0 @ es) ds"
    and len: "length (es0 @ es) < 2 ^ 32"
  shows "\<exists>w'. checkRecipeStatus head es s w = (True, w') \<and> storage_inv w' s
     \<and> restoreRecipeHead (frh_fileNameHash (fileRecipeHead head)) s w' = Some head0
     \<and> (\<exists>s'. restoreRecipeAndChunk da junk (frh_fileNameHash (fileRecipeHead head)) 0 (of_nat (length (es0 @ es))) [] s w'
          = Some (Inr (True, map2 (restored_chunk junk) (es0 @ es) ds, s')))"
proof -
  let ?fh = "frh_fileNameHash (fileRecipeHead head)"
  obtain name where nm: "query (fileName2metaDB w) ?fh = Some name"
      "files (w_fs w) (recipePath s name) = Some (Recipe_bytes head0 @ concat (map RecipeEntry_bytes es0))"
    and ok: "length ?fh = FILE_NAME_HASH_SIZE" "Recipe_ok head0"
    using old by (auto simp: has_recipe_def)
  have es_ok: "\<forall>e \<in> set (es0 @ es). RecipeEntry_ok e"
    using st by (rule entries_stored_ok)
  let ?w = "w\<lparr>w_fs := (w_fs w)\<lparr>files := (files (w_fs w))(recipePath s name :=
    Some (Recipe_bytes head0 @ concat (map RecipeEntry_bytes (es0 @ es))))\<rparr>\<rparr>"
  have cs: "checkRecipeStatus head es s w = (True, ?w)"
    using nm wr by (simp add: checkRecipeStatus_def saveRecipe_def fs_append_def fs_write_def)
  have keep: "storage_inv ?w s" "abs_store ?w s = abs_store w s"
    by (rule storage_recipe_file [OF inv made]; simp)+
  have rec: "has_recipe ?w s ?fh head0 (es0 @ es)"
    using nm(1) ok es_ok by (simp add: has_recipe_def)
  have st': "list_all2 (entry_stored ?w s) (es0 @ es) ds"
    unfolding entry_stored_cong [OF keep(2)] by (rule st)
  have rest: "\<exists>s'. restoreRecipeAndChunk da junk ?fh 0 (of_nat (length (es0 @ es))) [] s ?w
      = Some (Inr (True, map2 (restored_chunk junk) (es0 @ es) ds, s'))"
    using restoreRecipeAndChunk_all [OF keep(1) rec len st', of da junk "[]"]
    by (simp only: append_Nil) blast
  have "restoreRecipeHead ?fh s ?w = Some head0"
    using nm ok recipel.length_enc [OF ok(2)] recipel.dec_enc [OF ok(2)]
    by (simp add: restoreRecipeHead_def)
  then show ?thesis using cs keep rest by blast
qed

theorem recipe_append_witness:
  "\<exists>s w w' s'. checkRecipeStatus toy_recipe [toy_entry] s w = (True, w')
     \<and> restoreRecipeHead (replicate 32 2) s w' = Some toy_recipe
     \<and> restoreRecipeAndChunk (\<lambda>_ _. []) toy_restored (replicate 32 2) 0 2 [] s w'
         = Some (Inr (True, [restored_chunk toy_restored toy_entry [5, 6, 7, 8],
                             restored_chunk toy_restored toy_entry [5, 6, 7, 8]], s'))"
proof -
  obtain s w where sv: "storage_inv w s" "made_with toy_config s" "\<forall>p. writable (w_fs w) p"
    "entry_stored w s toy_entry [5, 6, 7, 8]"
    "has_recipe w s (frh_fileNameHash (fileRecipeHead toy_recipe)) toy_recipe [toy_entry]"
    by (rule toy_has_recipe)
  have st: "list_all2 (entry_stored w s) ([toy_entry] @ [toy_entry]) [[5, 6, 7, 8], [5, 6, 7, 8]]"
    using sv(4) by simp
  have h: "frh_fileNameHash (fileRecipeHead toy_recipe) = replicate 32 2" by (simp add: toy_recipe_def)
  show ?thesis
    using recipe_append [OF sv(1,2,5,3) st, of "\<lambda>_ _. []" toy_restored]
    unfolding h by simp blast
qed

section \<open>Deletion\<close>

text \<open>The counter of a stored chunk may change: the abstract store does not show it.\<close>

lemma storage_recount:
  fixes w s h v c
  assumes inv: "storage_inv w s" and q: "query (fp2ChunkDB w) h = Some v"
  defines "w' \<equiv> w\<lparr>fp2ChunkDB := snd (insert_db (fp2ChunkDB w) h
      (key_bytes ((key_of_bytes v)\<lparr>key_count := c\<rparr>)))\<rparr>"
  shows "storage_inv w' s" and "abs_store w' s = abs_store w s" and "frame w s w' s"
    and "query (fp2ChunkDB w') = (query (fp2ChunkDB w))(h \<mapsto> key_bytes ((key_of_bytes v)\<lparr>key_count := c\<rparr>))"
    and "key_of_bytes (key_bytes ((key_of_bytes v)\<lparr>key_count := c\<rparr>)) = (key_of_bytes v)\<lparr>key_count := c\<rparr>"
proof -
  let ?k = "(key_of_bytes v)\<lparr>key_count := c\<rparr>"
  have v: "placed w s (key_of_bytes v)" "database_inv (fp2ChunkDB w)"
    using inv q by (auto simp: storage_inv_def)
  have nm: "key_name ?k = key_name (key_of_bytes v)" by (simp add: key_name_def)
  have pl: "placed w s ?k" using v(1) by (simp add: placed_def nm)
  show kb: "key_of_bytes (key_bytes ?k) = ?k" using pl by (rule key_of_key_bytes)
  have lk: "length (key_bytes ?k) = sizeof_key" using pl by (simp add: keyl.length_enc placed_key_ok)
  show qq: "query (fp2ChunkDB w') = (query (fp2ChunkDB w))(h \<mapsto> key_bytes ?k)"
    by (simp add: w'_def query_insert [OF v(2)])
  have P: "placed w' s = placed w s" and C: "content w' s = content w s"
    by (simp_all add: w'_def fun_eq_iff)
  have ck: "content w s ?k = content w s (key_of_bytes v)" by (simp add: content_def nm cong: option.case_cong)
  have "storage_base w' s"
    using inv v(2) by (simp add: w'_def storage_inv_alt storage_fp2_update database_inv_insert)
  then show "storage_inv w' s" using inv pl kb lk by (simp add: storage_inv_alt qq P)
  show "abs_store w' s = abs_store w s" using q kb ck by (auto simp: abs_store_def fun_eq_iff qq C)
  show "frame w s w' s" by (simp add: w'_def)
qed

text \<open>C8: \<open>deleteChunk\<close> on a stored chunk takes one from its reference counter and leaves its
  place, its bytes and all other chunks alone; it then reaches the end of the function without a
  \<open>return\<close>.\<close>

theorem deleteChunk_counts:
  assumes inv: "storage_inv w s" and h: "length h = CHUNK_HASH_SIZE"
    and q: "query (fp2ChunkDB w) h = Some v"
  shows "\<exists>w'. deleteChunk h w = Inr (None, w') \<and> storage_inv w' s \<and> abs_store w' s = abs_store w s
     \<and> (\<exists>v'. query (fp2ChunkDB w') h = Some v'
          \<and> key_count (key_of_bytes v') = key_count (key_of_bytes v) - 1)
     \<and> (\<forall>g. g \<noteq> h \<longrightarrow> query (fp2ChunkDB w') g = query (fp2ChunkDB w) g)"
proof -
  let ?c = "key_count (key_of_bytes v) - 1"
  have v: "length v = sizeof_key" using inv q by (auto simp: storage_inv_def)
  note rc = storage_recount [OF inv q, of ?c]
  show ?thesis
    using rc h q v by (simp add: deleteChunk_def load_key_ok Let_def)
qed

theorem deleteChunk_counts_witness:
  "\<exists>s w w' v. query (fp2ChunkDB w) toy_hash = Some v \<and> deleteChunk toy_hash w = Inr (None, w')
     \<and> storage_inv w' s \<and> abs_store w' s = abs_store w s"
proof -
  obtain s w where sv: "storage_inv w s" "entry_stored w s toy_entry [5, 6, 7, 8]"
    by (rule toy_saved)
  have h: "length toy_hash = CHUNK_HASH_SIZE" by (simp add: toy_hash_def size_defs)
  obtain v where v: "query (fp2ChunkDB w) toy_hash = Some v"
    using sv(2) by (auto simp: entry_stored_def abs_store_def toy_entry_def)
  then show ?thesis using deleteChunk_counts [OF sv(1) h v] by blast
qed

text \<open>\<open>deleteRecipeAndChunk\<close> on a non-empty range whose first chunk is stored uses the value
  \<open>deleteChunk\<close> never returned: the program has no defined behaviour after the first chunk, and
  the recipe is never removed.\<close>

theorem delete_recipe_no_return:
  assumes inv: "storage_inv w s" and rec: "has_recipe w s fh head es"
    and rng: "unat a < unat b" "unat b \<le> length es"
    and st: "query (fp2ChunkDB w) (entry_chunkHash (es ! unat a)) \<noteq> None"
  shows "deleteRecipeAndChunk fh a b s w = Inl NoReturn"
proof -
  obtain name where nm: "query (fileName2metaDB w) fh = Some name"
      "files (w_fs w) (recipePath s name) = Some (Recipe_bytes head @ concat (map RecipeEntry_bytes es))"
    and ok: "length fh = FILE_NAME_HASH_SIZE" "Recipe_ok head" "\<forall>e \<in> set es. RecipeEntry_ok e"
    using rec by (auto simp: has_recipe_def)
  have n: "unat (b - a) = Suc (unat b - unat a - 1)"
    using rng(1) by (simp add: unat_sub word_le_nat_alt)
  let ?e = "es ! unat a"
  have eok: "RecipeEntry_ok ?e" using ok(3) rng by simp
  have dr: "drop (unat a) es = ?e # drop (Suc (unat a)) es" using rng by (simp add: Cons_nth_drop_Suc)
  have buf: "drop (sizeof_Recipe + unat a * sizeof_RecipeEntry) (Recipe_bytes head @ concat (map RecipeEntry_bytes es))
      = RecipeEntry_bytes ?e @ concat (map RecipeEntry_bytes (drop (Suc (unat a)) es))"
    using recipe_buffer [OF ok(2,3), of "unat a"] rng dr by simp
  have le: "length (RecipeEntry_bytes ?e) = sizeof_RecipeEntry" using eok by (rule entryl.length_enc)
  have de: "RecipeEntry_of_bytes (RecipeEntry_bytes ?e) = ?e" using eok by (rule entryl.dec_enc)
  have h: "length (entry_chunkHash ?e) = CHUNK_HASH_SIZE" using eok by (simp add: RecipeEntry_ok_def)
  obtain v where v: "query (fp2ChunkDB w) (entry_chunkHash ?e) = Some v" using st by auto
  have "length v = sizeof_key" using inv v by (auto simp: storage_inv_def)
  then obtain w1 where "deleteChunk (entry_chunkHash ?e) w = Inr (None, w1)"
    using h v by (simp add: deleteChunk_def load_key_ok)
  then have "delete_entries (Suc m) (RecipeEntry_bytes ?e @ r) w = Inl NoReturn" for m r
    using le de by simp
  then show ?thesis
    using nm ok(1) n buf le by (simp add: deleteRecipeAndChunk_def Let_def)
qed

theorem delete_recipe_no_return_witness:
  "\<exists>s w. storage_inv w s
     \<and> deleteRecipeAndChunk (frh_fileNameHash (fileRecipeHead toy_recipe)) 0 1 s w = Inl NoReturn"
proof -
  obtain s w where sv: "storage_inv w s"
    "entry_stored w s toy_entry [5, 6, 7, 8]"
    "has_recipe w s (frh_fileNameHash (fileRecipeHead toy_recipe)) toy_recipe [toy_entry]"
    by (rule toy_has_recipe)
  have "query (fp2ChunkDB w) (entry_chunkHash ([toy_entry] ! unat (0 :: u32))) \<noteq> None"
    using sv(2) by (auto simp: entry_stored_def abs_store_def)
  then show ?thesis
    using delete_recipe_no_return [OF sv(1,3), of 0 1] sv(1) by auto
qed

end
