(* ===== verification/Chunker.thy ===== *)
theory Chunker
  imports Storage_Core
begin

text \<open>
  \<open>Chunker\<close> (\<open>src/chunker.cc\<close>, \<open>include/chunker.hpp\<close>): a file is cut into chunks, by a rolling
  hash over a sliding window or at a fixed size; each chunk is stored once, entered into the
  recipe of the file and into its index of chunks, segments and containers.  The object is the
  record \<open>Chunker\<close>; the local variables of \<open>varSizeChunking\<close> are the record \<open>chunk_state\<close>.
  \<open>evp\<close> and \<open>MD5\<close> stand for OpenSSL.  \<open>cryptoObj\<close> is only used to call \<open>generateHash\<close>, which
  reads no member of its object.
\<close>

section \<open>The object\<close>

record Chunker =
  recipeList :: RecipeList_t
  ChunkerType :: int
  avgChunkSize :: int
  minChunkSize :: int
  maxChunkSize :: int
  slidingWinSize :: int
  ReadSize :: u64
  polyBase :: u32
  polyMOD :: u32
  powerLUT :: "u32 list"
  removeLUT :: "u32 list"
  anchorMask :: u32
  anchorValue :: u32
  recipe :: Recipe_t
  fileindex :: Index
  chunkingFile :: bytes
  fileindex_flag :: int

text \<open>How a loop body ends: the loop goes on, or the function returns from inside it.\<close>

datatype 'a flow = Go 'a | Ret 'a

primrec flow_state :: "'a flow \<Rightarrow> 'a" where
  "flow_state (Go s) = s"
| "flow_state (Ret s) = s"

fun go_on :: "'a flow result \<Rightarrow> ('a \<Rightarrow> 'a flow result) \<Rightarrow> 'a flow result" where
  "go_on (Inl e) f = Inl e"
| "go_on (Inr (Ret s)) f = Inr (Ret s)"
| "go_on (Inr (Go s)) f = f s"

section \<open>Constants\<close>

definition MIN_SEGMENT_SIZE :: int where
  [size_defs]: "MIN_SEGMENT_SIZE = 2 * 2 ^ 19"

definition AVG_SEGMENT_SIZE :: int where
  [size_defs]: "AVG_SEGMENT_SIZE = 2 * 2 ^ 20"

definition MAX_SEGMENT_SIZE :: int where
  [size_defs]: "MAX_SEGMENT_SIZE = 2 * 2 ^ 21"

definition MIN_CONTAINER_SIZE :: int where
  [size_defs]: "MIN_CONTAINER_SIZE = 2 * 2 ^ 28"

definition AVG_CONTAINER_SIZE :: int where
  [size_defs]: "AVG_CONTAINER_SIZE = 2 * 2 ^ 29"

text \<open>\<open>2 << 30\<close> does not fit into an \<open>int\<close>; its 32 bits read as \<open>- 2 ^ 31\<close>.\<close>

definition MAX_CONTAINER_SIZE :: int where
  [size_defs]: "MAX_CONTAINER_SIZE = sint (push_bit 30 (2 :: u32))"

definition SEDIVISOR :: int where
  [size_defs]: "SEDIVISOR = (AVG_SEGMENT_SIZE - MIN_SEGMENT_SIZE) div (8 * (2 * 2 ^ 10))"

definition SEPATTERN :: int where
  [size_defs]: "SEPATTERN = (AVG_SEGMENT_SIZE - MIN_SEGMENT_SIZE) div (8 * (2 * 2 ^ 10)) - 1"

definition CODIVISOR :: int where
  [size_defs]: "CODIVISOR = (AVG_CONTAINER_SIZE - MIN_CONTAINER_SIZE) div AVG_SEGMENT_SIZE"

definition COPATTERN :: int where
  [size_defs]: "COPATTERN = (AVG_CONTAINER_SIZE - MIN_CONTAINER_SIZE) div AVG_SEGMENT_SIZE - 1"

section \<open>Initialisation\<close>

text \<open>\<open>powerLUT\<close>, entry after entry.\<close>

fun power_table :: "u32 \<Rightarrow> u32 \<Rightarrow> u32 \<Rightarrow> nat \<Rightarrow> u32 list" where
  "power_table base m p 0 = []"
| "power_table base m p (Suc n) = p # power_table base m ((p * base) AND m) n"

definition remove_entry :: "u32 \<Rightarrow> u32 \<Rightarrow> nat \<Rightarrow> u32" where
  "remove_entry m p i =
     (let r = (of_nat i * p) AND m in if r \<noteq> 0 then (m - r + 1) AND m else r)"

text \<open>\<open>while ((avgChunkSize >> numOfMaskBits) != 1) numOfMaskBits++\<close>.\<close>

function mask_bits :: "int \<Rightarrow> nat \<Rightarrow> nat result" where
  "mask_bits avg n =
     (if 32 \<le> n then Inl BadShift
      else if drop_bit n avg = 1 then Inr n else mask_bits avg (Suc n))"
  by auto
termination by (relation "measure (\<lambda>(_, n). 32 - n)") auto

declare mask_bits.simps [simp del]

text \<open>The hash of the path, which names the recipe; a failed hash leaves the zeros.\<close>

definition path_hash :: "evp \<Rightarrow> bytes \<Rightarrow> bytes" where
  "path_hash e path = (case generateHash e path of
       None \<Rightarrow> replicate FILE_NAME_HASH_SIZE 0
     | Some h \<Rightarrow> take FILE_NAME_HASH_SIZE h)"

text \<open>\<open>new u_char[n]\<close>: a size beyond the largest object throws.\<close>

definition new_array :: "nat \<Rightarrow> unit result" where
  "new_array n = (if n < 2 ^ 63 then Inr () else Inl (Thrown ''bad_array_new_length''))"

definition init_var_size :: "Configure \<Rightarrow> Chunker \<Rightarrow> Chunker result" where
  "init_var_size cfg c =
     (let avg = int_of_u64 (getAverageChunkSize cfg); mn = int_of_u64 (getMinChunkSize cfg);
          mx = int_of_u64 (getMaxChunkSize cfg); win = int_of_u64 (getSlidingWinSize cfg);
          rs = getReadSize cfg * 1024 * 1024; base = 257; md = push_bit 23 1 - 1 in
      and_then (new_array (unat rs)) (\<lambda>_.
      and_then (new_array (u64_of_int mx)) (\<lambda>_.
      if mn \<ge> avg then Inl (Exit 1)
      else if mx \<le> avg then Inl (Exit 1)
      else if win \<le> 0 then Inl OutOfBounds
      else let pl = power_table base md 1 (nat win) in
        and_then (mask_bits avg 1) (\<lambda>bits.
          Inr (c\<lparr>avgChunkSize := avg, minChunkSize := mn, maxChunkSize := mx,
                 slidingWinSize := win, ReadSize := rs, polyBase := base, polyMOD := md,
                 powerLUT := pl,
                 removeLUT := map (remove_entry md (pl ! nat (win - 1))) [0..<256],
                 anchorMask := push_bit bits 1 - 1, anchorValue := 0\<rparr>)))))"

definition init_fix_size :: "Configure \<Rightarrow> Chunker \<Rightarrow> Chunker result" where
  "init_fix_size cfg c =
     (let avg = int_of_u64 (getAverageChunkSize cfg); mn = int_of_u64 (getMinChunkSize cfg);
          mx = int_of_u64 (getMaxChunkSize cfg); rs = getReadSize cfg * 1024 * 1024 in
      and_then (new_array (unat rs)) (\<lambda>_.
      and_then (new_array (u64_of_int avg)) (\<lambda>_.
      if mn \<noteq> avg \<or> mx \<noteq> avg then Inl (Exit 1)
      else if avg = 0 then Inl DivByZero
      else Inr (c\<lparr>avgChunkSize := avg, minChunkSize := mn, maxChunkSize := mx, ReadSize := rs\<rparr>))))"

definition ChunkerInit :: "evp \<Rightarrow> Configure \<Rightarrow> bytes \<Rightarrow> int \<Rightarrow> Chunker \<Rightarrow> Chunker result" where
  "ChunkerInit e cfg path index_flag c =
     (let h = path_hash e path; t = int_of_u64 (getChunkingType cfg);
          r = recipe c;
          c1 = c\<lparr>fileindex_flag := index_flag,
                 recipe := r\<lparr>fileRecipeHead := (fileRecipeHead r)\<lparr>frh_fileNameHash := h\<rparr>,
                             keyRecipeHead := (keyRecipeHead r)\<lparr>krh_fileNameHash := h\<rparr>\<rparr>,
                 fileindex := (fileindex c)\<lparr>idx_fileNameHash := h\<rparr>,
                 ChunkerType := t\<rparr> in
      if t = CHUNKER_VAR_SIZE_TYPE then init_var_size cfg c1
      else if t = CHUNKER_FIX_SIZE_TYPE then init_fix_size cfg c1
      else Inr c1)"

definition loadChunkFile :: "filesystem \<Rightarrow> bytes \<Rightarrow> Chunker \<Rightarrow> Chunker result" where
  "loadChunkFile fs path c = (case files fs path of
       None \<Rightarrow> Inl (Exit 1)
     | Some f \<Rightarrow> Inr (c\<lparr>chunkingFile := f\<rparr>))"

text \<open>The constructor.  \<open>c0\<close> holds the indeterminate members of the new object; its vectors are
  empty.\<close>

definition newChunker ::
  "evp \<Rightarrow> Configure \<Rightarrow> filesystem \<Rightarrow> Chunker \<Rightarrow> bytes \<Rightarrow> int \<Rightarrow> Chunker result" where
  "newChunker e cfg fs c0 path index_flag =
     and_then (loadChunkFile fs path
         (c0\<lparr>recipeList := [], fileindex := (fileindex c0)\<lparr>idx_chunk := [], idx_segment := [],
              idx_container := []\<rparr>\<rparr>))
       (ChunkerInit e cfg path index_flag)"

section \<open>The index file\<close>

definition indexPath :: "bytes \<Rightarrow> bytes" where
  "indexPath fileName = str ''./Index/'' @ fileName"

text \<open>\<open>for (i = 0; i < n; i++) write(v[i])\<close>: \<open>n\<close> is a member, not the size of the vector.\<close>

definition write_items :: "('a \<Rightarrow> bytes) \<Rightarrow> 'a list \<Rightarrow> int \<Rightarrow> bytes result" where
  "write_items enc xs n =
     (if n > int (length xs) then Inl OutOfBounds else Inr (concat (map enc (take (nat n) xs))))"

definition saveToFile :: "bytes \<Rightarrow> Chunker \<Rightarrow> filesystem \<Rightarrow> (bool \<times> filesystem) result" where
  "saveToFile fileName c fs =
     (let x = fileindex c in
      if \<not> writable fs (indexPath fileName) then Inr (False, fs)
      else and_then (write_items L6_bytes (idx_container x) (idx_containernumber x)) (\<lambda>cb.
           and_then (write_items LP_bytes (idx_segment x) (idx_segmentnumber x)) (\<lambda>sb.
           and_then (write_items L0_bytes (idx_chunk x) (idx_chunknumber x)) (\<lambda>kb.
             (case fs_write (indexPath fileName)
                 (int_bytes (idx_containernumber x) @ int_bytes (idx_segmentnumber x)
                  @ int_bytes (idx_chunknumber x) @ idx_fileNameHash x @ cb @ sb @ kb) fs of
                None \<Rightarrow> Inr (False, fs)
              | Some fs' \<Rightarrow> Inr (True, fs'))))))"

text \<open>\<open>loadIndex\<close> (its \<open>fstream\<close> is opened for reading and writing): with a missing or short
  file members of the result stay unwritten.\<close>

definition loadIndex :: "filesystem \<Rightarrow> bytes \<Rightarrow> Index result" where
  "loadIndex fs fileName = (case files fs (indexPath fileName) of
       None \<Rightarrow> Inl Uninitialised
     | Some f \<Rightarrow>
         if \<not> writable fs (indexPath fileName) \<or> length f < 12 + FILE_NAME_HASH_SIZE
         then Inl Uninitialised
         else let nc = int_of_bytes (slice 0 4 f); ns = int_of_bytes (slice 4 4 f);
                  nk = int_of_bytes (slice 8 4 f) in
           and_then (read_structs sizeof_L L6_of_bytes (nat nc) (drop (12 + FILE_NAME_HASH_SIZE) f))
             (\<lambda>(cs, f1).
           and_then (read_structs sizeof_L LP_of_bytes (nat ns) f1) (\<lambda>(ss, f2).
           and_then (read_structs sizeof_L L0_of_bytes (nat nk) f2) (\<lambda>(ks, _).
             Inr \<lparr>idx_fileNameHash = slice 12 FILE_NAME_HASH_SIZE f, idx_segmentnumber = ns,
                  idx_containernumber = nc, idx_chunknumber = nk,
                  idx_chunk = ks, idx_segment = ss, idx_container = cs\<rparr>))))"

section \<open>Segment boundaries\<close>

definition boundary :: "int \<Rightarrow> int \<Rightarrow> int \<Rightarrow> int \<Rightarrow> bytes \<Rightarrow> int \<Rightarrow> bool" where
  "boundary mn mx divisor pattern hash sz =
     (if sz < mn then False
      else if sz > mx then True
      else let remainder = int_of_bytes (take 4 hash) AND (divisor - 1);
               ret_flag = (remainder = pattern);
               unknownCodeRet = (slice (CHUNK_HASH_SIZE - 9) 9 hash = replicate 9 48) in
        ret_flag \<and> sz \<ge> mn \<or> unknownCodeRet)"

text \<open>\<open>EndOfSegment\<close>; for a \<open>flag\<close> other than 0 and 1 the function returns nothing.\<close>

definition EndOfSegment :: "bytes \<Rightarrow> int \<Rightarrow> int \<Rightarrow> bool result" where
  "EndOfSegment hash sz flag =
     (if flag = 0 then Inr (boundary MIN_SEGMENT_SIZE MAX_SEGMENT_SIZE SEDIVISOR SEPATTERN hash sz)
      else if flag = 1 then
        Inr (boundary MIN_CONTAINER_SIZE MAX_CONTAINER_SIZE CODIVISOR COPATTERN hash sz)
      else Inl NoReturn)"

section \<open>The state of \<open>varSizeChunking\<close>\<close>

text \<open>\<open>cs_buf\<close> are the first \<open>chunkBufferCnt\<close> bytes of \<open>chunkBuffer\<close>.\<close>

record chunk_state =
  cs_buf :: bytes
  winFp :: u16
  chunkIDCnt :: u64
  fileSize :: u64
  totalSize :: u64
  segmenthash :: bytes
  containerhash :: bytes
  segmentsize :: int
  containersize :: int
  chunkIndex :: L0
  segmentIndex :: LP
  containerIndex :: L6
  ck :: Chunker
  cs_storage :: StorageCore
  cs_world :: world

definition upd_index :: "(Index \<Rightarrow> Index) \<Rightarrow> chunk_state \<Rightarrow> chunk_state" where
  "upd_index f st = st\<lparr>ck := (ck st)\<lparr>fileindex := f (fileindex (ck st))\<rparr>\<rparr>"

text \<open>An \<open>int\<close> that a \<open>uint64_t\<close> is added to.\<close>

definition add_size :: "int \<Rightarrow> nat \<Rightarrow> int" where
  "add_size i n = int_of_u64 (word_of_int i + of_nat n)"

section \<open>A chunk is complete\<close>

text \<open>Entering it into the recipe and the store.  \<open>hash\<close> are the bytes \<open>generateHash\<close> wrote, with
  the terminating zero; \<open>stack\<close> gives the indeterminate local of \<open>saveChunk\<close>.\<close>

definition recipe_chunk :: "bytes \<Rightarrow> chunk_state \<Rightarrow> chunk_state" where
  "recipe_chunk hash st =
     st\<lparr>ck := (ck st)\<lparr>recipeList := recipeList (ck st)
          @ [\<lparr>entry_chunkID = ucast (chunkIDCnt st), entry_chunkSize = int (length (cs_buf st)),
              entry_chunkHash = take CHUNK_HASH_SIZE hash\<rparr>]\<rparr>\<rparr>"

text \<open>The look-up of the fingerprint, read as a C string, and what follows: a new chunk is saved, a
  known one gets its counter increased.  The result says whether the function goes on and whether
  the chunk was new.\<close>

definition dedup_store ::
  "(bytes \<Rightarrow> keyForChunkHashDB_t) \<Rightarrow> bytes \<Rightarrow> bytes \<Rightarrow> StorageCore \<Rightarrow> world
     \<Rightarrow> (bool \<times> bool \<times> StorageCore \<times> world) result" where
  "dedup_store stack hash buf s w =
     and_then (c_string hash) (\<lambda>name.
       (case query (fp2ChunkDB w) name of
          None \<Rightarrow>
            and_then (saveChunk (stack (take CHUNK_HASH_SIZE hash)) hash (pad_chunk buf)
                        (int (length buf)) s w)
              (\<lambda>(ok, _, s1, w1). Inr (ok, True, s1, w1))
        | Some ans \<Rightarrow>
            and_then (load_key ans) (\<lambda>key.
              Inr (True, False, s, w\<lparr>fp2ChunkDB := snd (insert_db (fp2ChunkDB w) name
                (key_bytes (key\<lparr>key_count := key_count key + 1\<rparr>)))\<rparr>))))"

definition dedup_chunk ::
  "(bytes \<Rightarrow> keyForChunkHashDB_t) \<Rightarrow> bytes \<Rightarrow> chunk_state \<Rightarrow> chunk_state flow result" where
  "dedup_chunk stack hash st =
     and_then (dedup_store stack hash (cs_buf st) (cs_storage st) (cs_world st))
       (\<lambda>(ok, new, s, w).
         (let st1 = st\<lparr>chunkIndex := (chunkIndex st)\<lparr>L0_unique := (if new then 1 else 0)\<rparr>,
                       totalSize := (if new then totalSize st + of_nat (length (cs_buf st)) else totalSize st),
                       cs_storage := s, cs_world := w\<rparr> in
          if ok then Inr (Go st1) else Inr (Ret st1)))"

text \<open>\<open>chunkIndex\<close> is filled and appended to the index.\<close>

definition push_chunk :: "bytes \<Rightarrow> chunk_state \<Rightarrow> chunk_state" where
  "push_chunk hash st =
     (let x = (chunkIndex st)\<lparr>L0_chunkID := idx_chunknumber (fileindex (ck st)),
                L0_size := int CHUNK_HASH_SIZE, L0_fingerprint := take CHUNK_HASH_SIZE hash\<rparr> in
      upd_index (\<lambda>i. i\<lparr>idx_chunk := idx_chunk i @ [x]\<rparr>) (st\<lparr>chunkIndex := x\<rparr>))"

text \<open>The counters of the index are of type \<open>int\<close>: counting past \<open>2 ^ 31 - 1\<close> wraps around.\<close>

definition count_up :: "int \<Rightarrow> int" where
  "count_up n = int_of_u64 (word_of_int (n + 1))"

definition count_chunk :: "chunk_state \<Rightarrow> chunk_state" where
  "count_chunk st = upd_index (\<lambda>i. i\<lparr>idx_chunknumber := count_up (idx_chunknumber i)\<rparr>) st"

definition count_segment :: "chunk_state \<Rightarrow> chunk_state" where
  "count_segment st = upd_index (\<lambda>i. i\<lparr>idx_segmentnumber := count_up (idx_segmentnumber i)\<rparr>) st"

definition push_segment :: "bytes \<Rightarrow> chunk_state \<Rightarrow> chunk_state" where
  "push_segment h st =
     (let x = (segmentIndex st)\<lparr>LP_hash := h\<rparr> in
      upd_index (\<lambda>i. i\<lparr>idx_segment := idx_segment i @ [x]\<rparr>) (st\<lparr>segmentIndex := x\<rparr>))"

definition push_container :: "bytes \<Rightarrow> chunk_state \<Rightarrow> chunk_state" where
  "push_container h st =
     (let x = (containerIndex st)\<lparr>L6_hash := h\<rparr> in
      upd_index (\<lambda>i. i\<lparr>idx_container := idx_container i @ [x],
                      idx_containernumber := count_up (idx_containernumber i)\<rparr>) (st\<lparr>containerIndex := x\<rparr>))"

text \<open>The end of a container: \<open>tempsegmenthash\<close> closed its last segment.\<close>

definition close_container :: "evp \<Rightarrow> bytes \<Rightarrow> chunk_state \<Rightarrow> chunk_state flow result" where
  "close_container e tempsegmenthash st =
     and_then (c_string tempsegmenthash) (\<lambda>seg.
       (let ch = containerhash st @ seg;
            st1 = st\<lparr>containerhash := ch, segmentsize := 0, containersize := 0,
                     containerIndex := (containerIndex st)
                       \<lparr>L6_containerID := idx_containernumber (fileindex (ck st)),
                        L6_endSegmentID := idx_segmentnumber (fileindex (ck st))\<rparr>\<rparr> in
        case generateHash e ch of
          None \<Rightarrow> Inr (Ret st1)
        | Some h \<Rightarrow>
            (let st2 = count_chunk (count_segment
                         (push_container (take CHUNK_HASH_SIZE h) (st1\<lparr>containerhash := []\<rparr>))) in
             Inr (Go (st2\<lparr>containerIndex := (containerIndex st2)
                            \<lparr>L6_startSegmentID := idx_segmentnumber (fileindex (ck st2))\<rparr>,
                          segmentIndex := (segmentIndex st2)
                            \<lparr>LP_startChunkID := idx_chunknumber (fileindex (ck st2))\<rparr>\<rparr>)))))"

text \<open>The end of a segment, which may be the end of a container.\<close>

definition close_segment :: "evp \<Rightarrow> bytes \<Rightarrow> chunk_state \<Rightarrow> chunk_state flow result" where
  "close_segment e hash st =
     and_then (c_string hash) (\<lambda>name.
       (let sh = segmenthash st @ name;
            st1 = st\<lparr>segmenthash := sh, segmentIndex := (segmentIndex st)
                       \<lparr>LP_segmentID := idx_segmentnumber (fileindex (ck st)),
                        LP_endChunkID := idx_chunknumber (fileindex (ck st))\<rparr>\<rparr> in
        case generateHash e sh of
          None \<Rightarrow> Inr (Ret st1)
        | Some h \<Rightarrow>
            (let st2 = push_segment (take CHUNK_HASH_SIZE h) (st1\<lparr>segmenthash := []\<rparr>) in
             and_then (vec_at (idx_segment (fileindex (ck st2))) (idx_segmentnumber (fileindex (ck st2))))
               (\<lambda>seg.
             and_then (EndOfSegment (LP_hash seg) (containersize st2) 1) (\<lambda>stop.
               if stop then close_container e h st2
               else and_then (c_string h) (\<lambda>segname.
                 (let st3 = count_chunk (count_segment st2) in
                  Inr (Go (st3\<lparr>segmentIndex := (segmentIndex st3)
                                 \<lparr>LP_startChunkID := idx_chunknumber (fileindex (ck st3))\<rparr>,
                               containerhash := containerhash st3 @ segname,
                               containersize := containersize st3 + segmentsize st3,
                               segmentsize := 0\<rparr>)))))))))"

definition index_chunk :: "evp \<Rightarrow> bytes \<Rightarrow> chunk_state \<Rightarrow> chunk_state flow result" where
  "index_chunk e hash st =
     (if fileindex_flag (ck st) = 0 then Inr (Go (count_chunk (push_chunk hash st)))
      else if fileindex_flag (ck st) = 1 then
        (let st1 = push_chunk hash st in
         and_then (EndOfSegment (take CHUNK_HASH_SIZE hash) (segmentsize st1) 0) (\<lambda>stop.
           if stop then close_segment e hash st1
           else and_then (c_string hash) (\<lambda>name.
             Inr (Go (count_chunk (st1\<lparr>segmenthash := segmenthash st1 @ name,
                        segmentsize := add_size (segmentsize st1) (length (cs_buf st1))\<rparr>))))))
      else Inr (Go st))"

text \<open>Hash, recipe entry, store, index, and the reset of the buffer: the code that stands twice
  in the loop.\<close>

definition complete_chunk ::
  "evp \<Rightarrow> (bytes \<Rightarrow> keyForChunkHashDB_t) \<Rightarrow> chunk_state \<Rightarrow> chunk_state flow result" where
  "complete_chunk e stack st = (case generateHash e (cs_buf st) of
       None \<Rightarrow> Inr (Ret st)
     | Some hash \<Rightarrow>
         if length (cs_buf st) > MAX_CHUNK_SIZE then Inl OutOfBounds
         else go_on (dedup_chunk stack hash (recipe_chunk hash st)) (\<lambda>st1.
              go_on (index_chunk e hash st1) (\<lambda>st2.
                Inr (Go (st2\<lparr>chunkIDCnt := chunkIDCnt st2 + 1, cs_buf := [], winFp := 0\<rparr>)))))"

definition anchor_chunk ::
  "evp \<Rightarrow> (bytes \<Rightarrow> keyForChunkHashDB_t) \<Rightarrow> chunk_state \<Rightarrow> chunk_state flow result" where
  "anchor_chunk e stack st =
     (if ucast (winFp st) AND anchorMask (ck st) = anchorValue (ck st) then complete_chunk e stack st
      else Inr (Go st))"

definition max_chunk ::
  "evp \<Rightarrow> (bytes \<Rightarrow> keyForChunkHashDB_t) \<Rightarrow> chunk_state \<Rightarrow> chunk_state flow result" where
  "max_chunk e stack st =
     (if length (cs_buf st) \<ge> u64_of_int (maxChunkSize (ck st)) then complete_chunk e stack st
      else Inr (Go st))"

section \<open>The rolling hash\<close>

text \<open>The window fills: \<open>winFp + (b * powerLUT[slidingWinSize - cnt - 1]) & polyMOD\<close>, where \<open>+\<close>
  binds before \<open>&\<close>; the result is stored in 16 bits.\<close>

definition fill_window :: "Chunker \<Rightarrow> nat \<Rightarrow> u16 \<Rightarrow> byte \<Rightarrow> u16 result" where
  "fill_window c cnt fp b =
     and_then (vec_at (powerLUT c) (slidingWinSize c - int cnt - 1)) (\<lambda>p.
       Inr (ucast (((ucast fp + ucast b * p) :: u32) AND polyMOD c)))"

text \<open>The window slides: the byte that leaves is removed, the new one added.\<close>

definition slide_window :: "Chunker \<Rightarrow> bytes \<Rightarrow> u16 \<Rightarrow> byte \<Rightarrow> u16 result" where
  "slide_window c buf fp b =
     and_then (vec_at (buf @ [b]) (int (length buf) - slidingWinSize c)) (\<lambda>v.
     and_then (vec_at (removeLUT c) (int (unat v))) (\<lambda>r.
       Inr (ucast (((ucast (ucast fp AND polyMOD c) + r) * polyBase c + ucast b) AND polyMOD c))))"

section \<open>The loops\<close>

definition byte_step ::
  "evp \<Rightarrow> (bytes \<Rightarrow> keyForChunkHashDB_t) \<Rightarrow> byte \<Rightarrow> chunk_state \<Rightarrow> chunk_state flow result" where
  "byte_step e stack b st =
     (let c = ck st; cnt = length (cs_buf st) in
      if cnt \<ge> u64_of_int (maxChunkSize c) then Inl OutOfBounds
      else if cnt < u64_of_int (slidingWinSize c) then
        and_then (fill_window c cnt (winFp st) b) (\<lambda>fp.
          Inr (Go (st\<lparr>cs_buf := cs_buf st @ [b], winFp := fp\<rparr>)))
      else
        and_then (slide_window c (cs_buf st) (winFp st) b) (\<lambda>fp.
          (let st1 = st\<lparr>cs_buf := cs_buf st @ [b], winFp := fp\<rparr> in
           if cnt + 1 < u64_of_int (minChunkSize c) then Inr (Go st1)
           else go_on (anchor_chunk e stack st1) (max_chunk e stack))))"

primrec bytes_loop ::
  "evp \<Rightarrow> (bytes \<Rightarrow> keyForChunkHashDB_t) \<Rightarrow> bytes \<Rightarrow> chunk_state \<Rightarrow> chunk_state flow result" where
  "bytes_loop e stack [] st = Inr (Go st)"
| "bytes_loop e stack (b # bs) st = go_on (byte_step e stack b st) (bytes_loop e stack bs)"

text \<open>The read loop: a block of \<open>ReadSize\<close> bytes, or what is left of the file and then the end of
  the file is known.  \<open>len\<close> is an \<open>int\<close>.\<close>

partial_function (option) read_loop ::
  "evp \<Rightarrow> (bytes \<Rightarrow> keyForChunkHashDB_t) \<Rightarrow> bytes \<Rightarrow> chunk_state \<Rightarrow> chunk_state flow result option" where
  "read_loop e stack file st =
     (let n = unat (ReadSize (ck st)); block = take n file;
          len = int_of_u64 (of_nat (length block)) in
      case bytes_loop e stack (take (nat len) block) (st\<lparr>fileSize := fileSize st + word_of_int len\<rparr>) of
        Inl a \<Rightarrow> Some (Inl a)
      | Inr f \<Rightarrow> (case f of
            Ret st1 \<Rightarrow> Some (Inr (Ret st1))
          | Go st1 \<Rightarrow> if length block < n then Some (Inr (Go st1))
                      else read_loop e stack (drop n file) st1))"

section \<open>The last chunk\<close>

text \<open>\<open>MD5\<close> writes 16 bytes over the front of an array of 32 indeterminate ones.\<close>

definition final_index ::
  "(bytes \<Rightarrow> bytes) \<Rightarrow> bytes \<Rightarrow> bytes \<Rightarrow> bytes \<Rightarrow> chunk_state \<Rightarrow> chunk_state flow result" where
  "final_index md5 junk1 junk2 hash st =
     (if fileindex_flag (ck st) = 0 then Inr (Go (count_chunk (push_chunk hash st)))
      else if fileindex_flag (ck st) = 1 then
        and_then (c_string hash) (\<lambda>name.
          (let st1 = count_chunk (push_chunk hash st);
               sh = segmenthash st1 @ name;
               tempsegmenthash = copy_front (md5 sh) junk1;
               st2 = count_segment (push_segment tempsegmenthash
                       (st1\<lparr>segmenthash := [], segmentIndex := (segmentIndex st1)
                          \<lparr>LP_segmentID := idx_segmentnumber (fileindex (ck st1)),
                           LP_endChunkID := idx_chunknumber (fileindex (ck st1))\<rparr>\<rparr>)) in
           and_then (c_string tempsegmenthash) (\<lambda>seg.
             (let ch = containerhash st2 @ seg in
              Inr (Go (push_container (copy_front (md5 ch) junk2)
                (st2\<lparr>containerhash := [], containerIndex := (containerIndex st2)
                   \<lparr>L6_containerID := idx_containernumber (fileindex (ck st2)),
                    L6_endSegmentID := idx_segmentnumber (fileindex (ck st2)) - 1\<rparr>\<rparr>)))))))
      else Inr (Go st))"

definition final_chunk ::
  "evp \<Rightarrow> (bytes \<Rightarrow> bytes) \<Rightarrow> bytes \<Rightarrow> bytes \<Rightarrow> (bytes \<Rightarrow> keyForChunkHashDB_t) \<Rightarrow> chunk_state
     \<Rightarrow> chunk_state flow result" where
  "final_chunk e md5 junk1 junk2 stack st =
     (if cs_buf st = [] then Inr (Go st)
      else case generateHash e (cs_buf st) of
        None \<Rightarrow> Inr (Ret st)
      | Some hash \<Rightarrow>
          if length (cs_buf st) > MAX_CHUNK_SIZE then Inl OutOfBounds
          else go_on (dedup_chunk stack hash (recipe_chunk hash st)) (\<lambda>st1.
               go_on (final_index md5 junk1 junk2 hash st1) (\<lambda>st2.
                 Inr (Go (st2\<lparr>chunkIDCnt := chunkIDCnt st2 + 1, cs_buf := [], winFp := 0\<rparr>)))))"

section \<open>Variable-size chunking\<close>

text \<open>What the function finds in its uninitialised local variables.\<close>

record var_locals =
  v_winFp :: u16
  v_chunkIndex :: L0
  v_segmentIndex :: LP
  v_containerIndex :: L6
  v_tempsegmenthash :: bytes
  v_tempcontainerhash :: bytes
  v_stack :: "bytes \<Rightarrow> keyForChunkHashDB_t"

definition var_start :: "var_locals \<Rightarrow> Chunker \<Rightarrow> StorageCore \<Rightarrow> world \<Rightarrow> chunk_state" where
  "var_start v c s w =
     \<lparr>cs_buf = [], winFp = v_winFp v, chunkIDCnt = 0, fileSize = 0, totalSize = 0,
      segmenthash = [], containerhash = [], segmentsize = 0, containersize = 0,
      chunkIndex = v_chunkIndex v,
      segmentIndex = (v_segmentIndex v)\<lparr>LP_startChunkID := 0\<rparr>,
      containerIndex = (v_containerIndex v)\<lparr>L6_startSegmentID := 0\<rparr>,
      ck = c\<lparr>fileindex := (fileindex c)\<lparr>idx_segmentnumber := 0, idx_containernumber := 0,
                                         idx_chunknumber := 0\<rparr>\<rparr>,
      cs_storage = s, cs_world = w\<rparr>"

text \<open>The recipe head is filled and the recipe written; the result of \<open>checkRecipeStatus\<close> is only
  reported.\<close>

definition finish_recipe :: "chunk_state \<Rightarrow> Chunker \<times> StorageCore \<times> world" where
  "finish_recipe st =
     (let r = recipe (ck st);
          r' = r\<lparr>fileRecipeHead := (fileRecipeHead r)\<lparr>frh_totalChunkNumber := chunkIDCnt st,
                                                       frh_fileSize := fileSize st\<rparr>,
                 keyRecipeHead := (keyRecipeHead r)\<lparr>krh_fileSize := fileSize st\<rparr>\<rparr>
      in ((ck st)\<lparr>recipe := r'\<rparr>, cs_storage st,
          snd (checkRecipeStatus r' (recipeList (ck st)) (cs_storage st) (cs_world st))))"

definition leave_chunking :: "chunk_state \<Rightarrow> Chunker \<times> StorageCore \<times> world" where
  "leave_chunking st = (ck st, cs_storage st, cs_world st)"

definition varSizeChunking ::
  "evp \<Rightarrow> (bytes \<Rightarrow> bytes) \<Rightarrow> var_locals \<Rightarrow> Chunker \<Rightarrow> StorageCore \<Rightarrow> world
     \<Rightarrow> (Chunker \<times> StorageCore \<times> world) result option" where
  "varSizeChunking e md5 v c s w =
     map_option (\<lambda>r. and_then r (\<lambda>f. case f of
         Ret st \<Rightarrow> Inr (leave_chunking st)
       | Go st \<Rightarrow>
           and_then (final_chunk e md5 (v_tempsegmenthash v) (v_tempcontainerhash v) (v_stack v) st)
             (\<lambda>f'. Inr (case f' of Ret st1 \<Rightarrow> leave_chunking st1 | Go st1 \<Rightarrow> finish_recipe st1))))
       (read_loop e (v_stack v) (chunkingFile c) (var_start v c s w))"

section \<open>Fixed-size chunking\<close>

text \<open>The chunks are built and dropped; the second component lists them as sizes and contents.
  \<open>buf\<close> is the read buffer: the bytes read and zeros up to \<open>ReadSize\<close>.\<close>

definition fix_copy :: "bytes \<Rightarrow> nat \<Rightarrow> nat \<Rightarrow> bytes result" where
  "fix_copy buf off n =
     (if off + n > length buf \<or> n > MAX_CHUNK_SIZE then Inl OutOfBounds else Inr (slice off n buf))"

partial_function (option) fix_full ::
  "nat \<Rightarrow> bytes \<Rightarrow> nat \<Rightarrow> (nat \<times> bytes) list \<Rightarrow> (nat \<times> bytes) list result option" where
  "fix_full avg buf chunkedSize acc =
     (if chunkedSize < length buf then
        (case fix_copy buf chunkedSize avg of
           Inl a \<Rightarrow> Some (Inl a)
         | Inr d \<Rightarrow> fix_full avg buf (chunkedSize + avg) (acc @ [(avg, d)]))
      else Some (Inr acc))"

partial_function (option) fix_tail ::
  "nat \<Rightarrow> bytes \<Rightarrow> nat \<Rightarrow> nat \<Rightarrow> nat \<Rightarrow> (nat \<times> bytes) list \<Rightarrow> (nat \<times> bytes) list result option" where
  "fix_tail avg buf tot chunkedSize retSize acc =
     (if chunkedSize < tot then
        (let n = (if retSize > avg then avg else retSize) in
         case fix_copy buf chunkedSize n of
           Inl a \<Rightarrow> Some (Inl a)
         | Inr d \<Rightarrow> fix_tail avg buf tot (chunkedSize + avg) (tot - chunkedSize) (acc @ [(n, d)]))
      else Some (Inr acc))"

partial_function (option) fix_loop ::
  "nat \<Rightarrow> nat \<Rightarrow> bytes \<Rightarrow> u64 \<Rightarrow> (nat \<times> bytes) list \<Rightarrow> (u64 \<times> (nat \<times> bytes) list) result option" where
  "fix_loop avg n file fsize acc =
     (let block = take n file; tot = length block; fsize' = fsize + of_nat tot in
      Option.bind
        (if tot = n then fix_full avg block 0 acc
         else fix_tail avg (block @ replicate (n - tot) 0) tot 0 0 acc)
        (\<lambda>r. case r of
           Inl a \<Rightarrow> Some (Inl a)
         | Inr acc' \<Rightarrow> if tot < n then Some (Inr (fsize', acc'))
                       else fix_loop avg n (drop n file) fsize' acc'))"

definition fixSizeChunking :: "Chunker \<Rightarrow> (Chunker \<times> (nat \<times> bytes) list) result option" where
  "fixSizeChunking c =
     map_option (\<lambda>r. and_then r (\<lambda>(fsize, chunks).
       (let h = recipe c; n = of_nat (length chunks) in
        Inr (c\<lparr>recipe := h\<lparr>fileRecipeHead := (fileRecipeHead h)\<lparr>frh_totalChunkNumber := n,
                                                               frh_fileSize := fsize\<rparr>,
                            keyRecipeHead := (keyRecipeHead h)\<lparr>krh_totalChunkKeyNumber := n,
                                                               krh_fileSize := fsize\<rparr>\<rparr>\<rparr>, chunks))))
       (fix_loop (u64_of_int (avgChunkSize c)) (unat (ReadSize c)) (chunkingFile c) 0 [])"

definition chunking ::
  "evp \<Rightarrow> (bytes \<Rightarrow> bytes) \<Rightarrow> var_locals \<Rightarrow> Chunker \<Rightarrow> StorageCore \<Rightarrow> world
     \<Rightarrow> (Chunker \<times> StorageCore \<times> world) result option" where
  "chunking e md5 v c s w =
     (if ChunkerType c = CHUNKER_FIX_SIZE_TYPE then
        map_option (\<lambda>r. and_then r (\<lambda>(c', _). Inr (c', s, w))) (fixSizeChunking c)
      else if ChunkerType c = CHUNKER_VAR_SIZE_TYPE then varSizeChunking e md5 v c s w
      else Some (Inr (c, s, w)))"

definition returnindex :: "Chunker \<Rightarrow> Index" where
  "returnindex c = fileindex c"

end
