(* ===== verification/Chunk_Store.thy ===== *)
theory Chunk_Store
  imports Storage_Recipes Chunker
begin

text \<open>
  What the chunking code relies on when it stores a chunk, as an interface: storing under a new
  fingerprint adds one entry, storing under a known one changes no entry, and either way the
  store stays usable.  A list of chunks whose fingerprints do not collide is then held by the store
  after they have been put one by one.  \<open>saveChunk\<close>, as the chunker and as \<open>saveChunks\<close> call it,
  provides the interface.
\<close>

section \<open>The interface\<close>

locale chunk_store =
  fixes inv :: "'st \<Rightarrow> bool"
    and contents :: "'st \<Rightarrow> bytes \<Rightarrow> 'v option"
    and room :: "'st \<Rightarrow> nat"
    and fits :: "'st \<Rightarrow> bytes \<Rightarrow> bool"
    and form :: "bytes \<Rightarrow> 'v"
    and put :: "bytes \<Rightarrow> bytes \<Rightarrow> 'st \<Rightarrow> 'st option"
  assumes put_law: "inv st \<Longrightarrow> length h = CHUNK_HASH_SIZE \<Longrightarrow> 0 \<notin> set h \<Longrightarrow> fits st d \<Longrightarrow> 0 < room st \<Longrightarrow>
      \<exists>st'. put h d st = Some st' \<and> inv st' \<and> fits st' = fits st \<and> room st \<le> Suc (room st')
        \<and> contents st' = (if contents st h = None then (contents st)(h \<mapsto> form d) else contents st)"
begin

definition holds :: "'st \<Rightarrow> (bytes \<times> bytes) list \<Rightarrow> bool" where
  "holds st cs \<longleftrightarrow> (\<forall>(h, d) \<in> set cs. contents st h = Some (form d))"

lemma holds_nil: "holds st []"
  by (simp add: holds_def)

lemma put_holds:
  assumes "inv st" and "length h = CHUNK_HASH_SIZE" and "0 \<notin> set h" and "fits st d" and "0 < room st"
    and "holds st cs" and "contents st h = None \<or> contents st h = Some (form d)"
  obtains st' where "put h d st = Some st'" and "inv st'" and "fits st' = fits st"
    and "room st \<le> Suc (room st')" and "holds st' (cs @ [(h, d)])"
    and "\<forall>g x. contents st g = Some x \<longrightarrow> contents st' g = Some x"
    and "\<forall>g. g \<noteq> h \<longrightarrow> contents st' g = contents st g"
proof -
  obtain st' where st': "put h d st = Some st'" "inv st'" "fits st' = fits st" "room st \<le> Suc (room st')"
      "contents st' = (if contents st h = None then (contents st)(h \<mapsto> form d) else contents st)"
    using put_law [OF assms(1-5)] by blast
  have mono: "contents st' g = Some x" if "contents st g = Some x" for g x
    using st'(5) that by (auto split: if_splits)
  have here: "contents st' h = Some (form d)" using st'(5) assms(7) by (auto split: if_splits)
  have "holds st' (cs @ [(h, d)])"
    using assms(6) mono here by (auto simp: holds_def)
  then show ?thesis using that st' mono by (auto split: if_splits)
qed

end

section \<open>The store behind the chunker\<close>

text \<open>The two databases the chunks need, the object, and what must not change beside them.\<close>

definition store_inv :: "Configure \<Rightarrow> StorageCore \<times> world \<Rightarrow> StorageCore \<times> world \<Rightarrow> bool" where
  "store_inv cfg = (\<lambda>(s0, w0) (s, w). storage_inv w s \<and> made_with cfg s \<and> frame w0 s0 w s)"

definition store_contents :: "StorageCore \<times> world \<Rightarrow> bytes \<Rightarrow> (u32 \<times> bytes) option" where
  "store_contents = (\<lambda>(s, w). abs_store w s)"

definition store_room :: "StorageCore \<times> world \<Rightarrow> nat" where
  "store_room = (\<lambda>(s, w). names_left (lastContainerFileName s))"

text \<open>Indeterminate keys of the right shape.\<close>

definition stack_ok :: "(bytes \<Rightarrow> keyForChunkHashDB_t) \<Rightarrow> bool" where
  "stack_ok stack \<longleftrightarrow> (\<forall>h. length (key_containerName (stack h)) = 16)"

definition store_fits :: "(bytes \<Rightarrow> keyForChunkHashDB_t) \<Rightarrow> StorageCore \<times> world \<Rightarrow> bytes \<Rightarrow> bool" where
  "store_fits stack = (\<lambda>(s, w) d. stack_ok stack \<and> 2 \<le> length d \<and> length d \<le> MAX_CHUNK_SIZE
     \<and> length d \<le> unat (maxContainerSize s))"

definition store_form :: "bytes \<Rightarrow> u32 \<times> bytes" where
  "store_form d = (0, stored_form d)"

definition dedup_put ::
  "(bytes \<Rightarrow> keyForChunkHashDB_t) \<Rightarrow> bytes \<Rightarrow> bytes \<Rightarrow> StorageCore \<times> world \<Rightarrow> (StorageCore \<times> world) option" where
  "dedup_put stack h d = (\<lambda>(s, w). case dedup_store stack (h @ [0]) d s w of
      Inr (True, _, s', w') \<Rightarrow> Some (s', w')
    | _ \<Rightarrow> None)"

lemmas store_defs = store_inv_def store_contents_def store_room_def store_fits_def store_form_def

lemma pad_chunk_facts:
  assumes "length d \<le> MAX_CHUNK_SIZE"
  shows "length (pad_chunk d) = MAX_CHUNK_SIZE" and "take (length d) (pad_chunk d) = d"
  using assms by (simp_all add: pad_chunk_def)

lemma saveChunk_take_hash:
  "length h = CHUNK_HASH_SIZE \<Longrightarrow> saveChunk k (h @ r) d n s w = saveChunk k h d n s w"
  by (simp add: saveChunk_def)

lemma dedup_put_law:
  assumes inv: "store_inv cfg st0 st" and h: "length h = CHUNK_HASH_SIZE" "0 \<notin> set h"
    and fits: "store_fits stack st d" and room: "0 < store_room st"
  shows "\<exists>st'. dedup_put stack h d st = Some st' \<and> store_inv cfg st0 st' \<and> store_fits stack st' = store_fits stack st
    \<and> store_room st \<le> Suc (store_room st')
    \<and> store_contents st' = (if store_contents st h = None then (store_contents st)(h \<mapsto> store_form d)
        else store_contents st)"
proof -
  obtain s w where st: "st = (s, w)" by (cases st)
  obtain s0 w0 where st0: "st0 = (s0, w0)" by (cases st0)
  have si: "storage_inv w s" and made: "made_with cfg s" and fr: "frame w0 s0 w s"
    using inv by (auto simp: st st0 store_inv_def)
  have key0: "length (key_containerName (stack h)) = 16" and d: "2 \<le> length d" "length d \<le> MAX_CHUNK_SIZE"
      "length d \<le> unat (maxContainerSize s)"
    using fits by (auto simp: st store_fits_def stack_ok_def)
  have cs: "c_string (h @ [0]) = Inr h" using h(2) by (simp add: c_string_terminated)
  show ?thesis
  proof (cases "query (fp2ChunkDB w) h")
    case None
    have pd: "length d \<le> length (pad_chunk d)" using pad_chunk_facts [OF d(2)] d(2) by simp
    have nm: "0 < names_left (lastContainerFileName s)" using room by (simp add: st store_room_def)
    obtain d' s' w' where sv: "saveChunk (stack h) h (pad_chunk d) (int (length d)) s w = Inr (True, d', s', w')"
      "storage_inv w' s'" "abs_store w' s' = (abs_store w s)(h \<mapsto> (0, stored_form (take (length d) (pad_chunk d))))"
      "frame w s w' s'" "names_left (lastContainerFileName s) \<le> Suc (names_left (lastContainerFileName s'))"
      by (rule saveChunk_new [OF si h(1) None key0 d(1) pd d(3) nm])
    have "dedup_put stack h d st = Some (s', w')"
      using h(1) cs None sv(1) by (simp add: dedup_put_def st dedup_store_def saveChunk_take_hash)
    moreover have "store_inv cfg st0 (s', w')"
      using sv(2,4) fr made_with_saveChunk [OF sv(1) made] frame_trans by (auto simp: store_inv_def st0)
    moreover have "abs_store w s h = None" using None by (simp add: abs_store_def)
    ultimately show ?thesis
      using sv(3-5) pad_chunk_facts [OF d(2)] by (auto simp: st store_defs frame_def fun_eq_iff)
  next
    case (Some v)
    let ?k = "(key_of_bytes v)\<lparr>key_count := key_count (key_of_bytes v) + 1\<rparr>"
    let ?w = "w\<lparr>fp2ChunkDB := snd (insert_db (fp2ChunkDB w) h (key_bytes ?k))\<rparr>"
    note rc = storage_recount [OF si Some, of "key_count (key_of_bytes v) + 1"]
    have "length v = sizeof_key" using si Some by (simp add: storage_inv_def)
    then have "dedup_put stack h d st = Some (s, ?w)"
      using cs Some by (simp add: dedup_put_def st dedup_store_def load_key_ok)
    moreover have "abs_store w s h \<noteq> None" using Some by (simp add: abs_store_def)
    ultimately show ?thesis
      using rc(1-3) made fr frame_trans by (auto simp: st st0 store_defs)
  qed
qed

interpretation dedup: chunk_store "store_inv cfg st0" store_contents store_room "store_fits stack"
    store_form "dedup_put stack"
  for cfg st0 stack
  by unfold_locales (rule dedup_put_law)

end
