(* ===== verification/Chunker_Index.thy ===== *)
theory Chunker_Index
  imports Chunker
begin

text \<open>
  The index a chunker builds: one entry per chunk with its number and fingerprint, and over the
  chunks a sequence of segments, over the segments a sequence of containers.  \<open>index_inv\<close> says
  that both sequences are numbered and cover what lies before the open segment and the open
  container without gaps.
\<close>

section \<open>Intervals without gaps\<close>

fun spans :: "int \<Rightarrow> (int \<times> int) list \<Rightarrow> int \<Rightarrow> bool" where
  "spans a [] b \<longleftrightarrow> a = b"
| "spans a ((s, e) # xs) b \<longleftrightarrow> s = a \<and> a \<le> e \<and> spans (e + 1) xs b"

lemma spans_snoc: "spans a xs s \<Longrightarrow> s \<le> e \<Longrightarrow> spans a (xs @ [(s, e)]) (e + 1)"
  by (induction a xs s rule: spans.induct) auto

lemma spans_length: "spans a xs b \<Longrightarrow> int (length xs) \<le> b - a"
  by (induction a xs b rule: spans.induct) auto

text \<open>Every number below the end lies in exactly one of the intervals.\<close>

lemma spans_le: "spans a xs b \<Longrightarrow> a \<le> b"
proof (induction a xs b rule: spans.induct)
  case (2 a s e xs b)
  then have "e + 1 \<le> b" by simp
  then show ?case using 2 by simp
qed simp

lemma spans_low: "spans a xs b \<Longrightarrow> i < length xs \<Longrightarrow> a \<le> fst (xs ! i)"
  by (induction a xs b arbitrary: i rule: spans.induct) (force simp: nth_Cons split: nat.splits)+

lemma spans_cover:
  "spans a xs b \<Longrightarrow> a \<le> k \<Longrightarrow> k < b \<Longrightarrow> \<exists>!i. i < length xs \<and> fst (xs ! i) \<le> k \<and> k \<le> snd (xs ! i)"
proof (induction a xs b rule: spans.induct)
  case (1 a b)
  then show ?case by simp
next
  case (2 a s e xs b)
  have low: "e + 1 \<le> fst (xs ! i)" if "i < length xs" for i
    using spans_low [of "e + 1" xs b i] "2.prems"(1) that by simp
  show ?case
  proof (cases "k \<le> e")
    case True
    show ?thesis
    proof (rule ex1I [of _ 0])
      show "0 < length ((s, e) # xs) \<and> fst (((s, e) # xs) ! 0) \<le> k \<and> k \<le> snd (((s, e) # xs) ! 0)"
        using True "2.prems" by simp
    next
      fix i assume "i < length ((s, e) # xs) \<and> fst (((s, e) # xs) ! i) \<le> k \<and> k \<le> snd (((s, e) # xs) ! i)"
      then show "i = 0" using True low [of "i - 1"] by (cases i) auto
    qed
  next
    case False
    then have "\<exists>!i. i < length xs \<and> fst (xs ! i) \<le> k \<and> k \<le> snd (xs ! i)"
      using 2 by simp
    then obtain i where i: "i < length xs \<and> fst (xs ! i) \<le> k \<and> k \<le> snd (xs ! i)"
        "\<And>j. j < length xs \<and> fst (xs ! j) \<le> k \<and> k \<le> snd (xs ! j) \<Longrightarrow> j = i"
      by blast
    show ?thesis
    proof (rule ex1I [of _ "Suc i"])
      show "Suc i < length ((s, e) # xs) \<and> fst (((s, e) # xs) ! Suc i) \<le> k \<and> k \<le> snd (((s, e) # xs) ! Suc i)"
        using i(1) by simp
    next
      fix j assume j: "j < length ((s, e) # xs) \<and> fst (((s, e) # xs) ! j) \<le> k \<and> k \<le> snd (((s, e) # xs) ! j)"
      then show "j = Suc i" using False i(2) [of "j - 1"] by (cases j) auto
    qed
  qed
qed

section \<open>The invariant\<close>

definition segment_spans :: "Index \<Rightarrow> (int \<times> int) list" where
  "segment_spans x = map (\<lambda>s. (LP_startChunkID s, LP_endChunkID s)) (idx_segment x)"

definition container_spans :: "Index \<Rightarrow> (int \<times> int) list" where
  "container_spans x = map (\<lambda>c. (L6_startSegmentID c, L6_endSegmentID c)) (idx_container x)"

definition numbered :: "('a \<Rightarrow> int) \<Rightarrow> 'a list \<Rightarrow> int \<Rightarrow> bool" where
  "numbered f xs n \<longleftrightarrow> n = int (length xs) \<and> map f xs = map int [0..<length xs]"

definition chunks_inv :: "bytes list \<Rightarrow> Index \<Rightarrow> bool" where
  "chunks_inv fps x \<longleftrightarrow> numbered L0_chunkID (idx_chunk x) (idx_chunknumber x)
     \<and> map L0_fingerprint (idx_chunk x) = fps"

definition levels_inv :: "int \<Rightarrow> int \<Rightarrow> Index \<Rightarrow> bool" where
  "levels_inv seg con x \<longleftrightarrow>
     numbered LP_segmentID (idx_segment x) (idx_segmentnumber x)
     \<and> numbered L6_containerID (idx_container x) (idx_containernumber x)
     \<and> spans 0 (segment_spans x) seg \<and> seg \<le> idx_chunknumber x
     \<and> spans 0 (container_spans x) con \<and> con \<le> idx_segmentnumber x"

text \<open>In the flat mode there are no segments and no containers.\<close>

definition flat_index :: "Index \<Rightarrow> bool" where
  "flat_index x \<longleftrightarrow> idx_segmentnumber x = 0 \<and> idx_containernumber x = 0"

definition index_inv :: "bytes list \<Rightarrow> chunk_state \<Rightarrow> bool" where
  "index_inv fps st \<longleftrightarrow> (fileindex_flag (ck st) = 0 \<or> fileindex_flag (ck st) = 1)
     \<and> chunks_inv fps (fileindex (ck st))
     \<and> (fileindex_flag (ck st) = 0 \<longrightarrow> flat_index (fileindex (ck st)))
     \<and> (fileindex_flag (ck st) = 1 \<longrightarrow>
          levels_inv (LP_startChunkID (segmentIndex st)) (L6_startSegmentID (containerIndex st))
            (fileindex (ck st)))"

text \<open>What the index code leaves alone.\<close>

definition index_frame :: "chunk_state \<Rightarrow> chunk_state \<Rightarrow> bool" where
  "index_frame st st' \<longleftrightarrow> cs_buf st' = cs_buf st \<and> winFp st' = winFp st \<and> chunkIDCnt st' = chunkIDCnt st
     \<and> fileSize st' = fileSize st \<and> totalSize st' = totalSize st
     \<and> cs_storage st' = cs_storage st \<and> cs_world st' = cs_world st
     \<and> ck st' = (ck st)\<lparr>fileindex := fileindex (ck st')\<rparr>
     \<and> idx_fileNameHash (fileindex (ck st')) = idx_fileNameHash (fileindex (ck st))"

lemma index_frame_trans: "index_frame a b \<Longrightarrow> index_frame b c \<Longrightarrow> index_frame a c"
  by (cases "ck a"; cases "ck b"; cases "ck c") (auto simp: index_frame_def)

lemma index_frame_settings:
  "index_frame a b \<Longrightarrow> fileindex_flag (ck b) = fileindex_flag (ck a) \<and> recipeList (ck b) = recipeList (ck a)
     \<and> recipe (ck b) = recipe (ck a)"
  by (cases "ck a"; cases "ck b") (auto simp: index_frame_def)

lemma numbered_snoc: "numbered f xs n \<Longrightarrow> f x = n \<Longrightarrow> numbered f (xs @ [x]) (n + 1)"
  by (simp add: numbered_def)

lemma count_up_small: "0 \<le> n \<Longrightarrow> n + 1 < 2 ^ 31 \<Longrightarrow> count_up n = n + 1"
proof -
  assume n: "0 \<le> n" "n + 1 < 2 ^ 31"
  then obtain k where k: "n + 1 = int k" "k < 2 ^ 31" using zero_le_imp_eq_int [of "n + 1"] by auto
  then have "unat (of_nat k :: u64) = k" by (simp add: unat_of_nat)
  then show ?thesis using int_of_u64_small [of "of_nat k"] k by (simp add: count_up_def)
qed

text \<open>There are at most as many containers as segments and as many segments as chunks.\<close>

lemma levels_small:
  assumes "levels_inv seg con x"
  shows "0 \<le> idx_segmentnumber x" "idx_segmentnumber x \<le> idx_chunknumber x" "0 \<le> idx_containernumber x"
    "idx_containernumber x \<le> idx_segmentnumber x"
  using assms spans_length [of 0 "segment_spans x" seg] spans_length [of 0 "container_spans x" con]
  by (auto simp: levels_inv_def numbered_def segment_spans_def container_spans_def)

lemmas index_defs = push_chunk_def count_chunk_def count_segment_def push_segment_def
  push_container_def upd_index_def Let_def

lemma chunk_counted:
  assumes "chunks_inv fps (fileindex (ck st))" and "length h = CHUNK_HASH_SIZE" and "length fps + 1 < 2 ^ 31"
  shows "chunks_inv (fps @ [h]) (fileindex (ck (count_chunk (push_chunk (h @ [0]) st))))"
proof -
  have "length (idx_chunk (fileindex (ck st))) = length fps" "idx_chunknumber (fileindex (ck st)) = int (length fps)"
    using assms(1) by (auto simp: chunks_inv_def numbered_def)
  then show ?thesis using assms by (simp add: index_defs chunks_inv_def count_up_small numbered_snoc)
qed

lemma index_chunk_flat:
  assumes "index_inv fps st" and "fileindex_flag (ck st) = 0" and "length h = CHUNK_HASH_SIZE" and "length fps + 1 < 2 ^ 31"
  shows "\<exists>st'. index_chunk e (h @ [0]) st = Inr (Go st') \<and> index_inv (fps @ [h]) st' \<and> index_frame st st'"
  using assms chunk_counted [of fps st h]
  by (simp add: index_chunk_def index_inv_def index_frame_def index_defs flat_index_def)

text \<open>The three-level index.\<close>

lemma hash_text:
  assumes "evp_digest_ok e"
  obtains h where "generateHash e d = Some (h @ [0])" and "length h = CHUNK_HASH_SIZE"
    and "c_string (h @ [0]) = Inr h" and "0 \<notin> set h"
  using generateHash_Some [OF assms, of d] by (auto simp: c_string_terminated)

lemma close_container_ok:
  assumes dig: "evp_digest_ok e" and seg: "c_string t = Inr g"
    and inv: "numbered L6_containerID (idx_container (fileindex (ck st))) (idx_containernumber (fileindex (ck st)))"
      "spans 0 (container_spans (fileindex (ck st))) (L6_startSegmentID (containerIndex st))"
      "L6_startSegmentID (containerIndex st) \<le> idx_segmentnumber (fileindex (ck st))"
    and small: "0 \<le> idx_chunknumber (fileindex (ck st))" "idx_chunknumber (fileindex (ck st)) + 1 < 2 ^ 31"
      "0 \<le> idx_segmentnumber (fileindex (ck st))" "idx_segmentnumber (fileindex (ck st)) + 1 < 2 ^ 31"
      "0 \<le> idx_containernumber (fileindex (ck st))" "idx_containernumber (fileindex (ck st)) + 1 < 2 ^ 31"
  shows "\<exists>st'. close_container e t st = Inr (Go st') \<and> index_frame st st'
    \<and> (let x = fileindex (ck st); x' = fileindex (ck st') in
         idx_chunk x' = idx_chunk x \<and> idx_chunknumber x' = idx_chunknumber x + 1
         \<and> idx_segment x' = idx_segment x \<and> idx_segmentnumber x' = idx_segmentnumber x + 1
         \<and> numbered L6_containerID (idx_container x') (idx_containernumber x')
         \<and> spans 0 (container_spans x') (L6_startSegmentID (containerIndex st'))
         \<and> L6_startSegmentID (containerIndex st') \<le> idx_segmentnumber x'
         \<and> LP_startChunkID (segmentIndex st') = idx_chunknumber x')"
proof -
  obtain h where h: "generateHash e (containerhash st @ g) = Some (h @ [0])" "length h = CHUNK_HASH_SIZE"
    using hash_text [OF dig] by blast
  show ?thesis
    using seg h inv small
    by (simp add: close_container_def index_defs index_frame_def count_up_small numbered_snoc container_spans_def spans_snoc)
qed

lemma close_segment_ok:
  assumes dig: "evp_digest_ok e" and h: "0 \<notin> set h"
    and inv: "levels_inv (LP_startChunkID (segmentIndex st)) (L6_startSegmentID (containerIndex st)) (fileindex (ck st))"
    and few: "idx_chunknumber (fileindex (ck st)) + 1 < 2 ^ 31"
  shows "\<exists>st'. close_segment e (h @ [0]) st = Inr (Go st') \<and> index_frame st st'
    \<and> idx_chunk (fileindex (ck st')) = idx_chunk (fileindex (ck st))
    \<and> idx_chunknumber (fileindex (ck st')) = idx_chunknumber (fileindex (ck st)) + 1
    \<and> levels_inv (LP_startChunkID (segmentIndex st')) (L6_startSegmentID (containerIndex st')) (fileindex (ck st'))"
proof -
  have cs: "c_string (h @ [0]) = Inr h" using h by (simp add: c_string_terminated)
  obtain t where t: "generateHash e (segmenthash st @ h) = Some (t @ [0])" "length t = CHUNK_HASH_SIZE"
      "c_string (t @ [0]) = Inr t"
    using hash_text [OF dig] by blast
  let ?x = "fileindex (ck st)"
  define sg where "sg = (segmentIndex st)\<lparr>LP_segmentID := idx_segmentnumber ?x,
    LP_endChunkID := idx_chunknumber ?x, LP_hash := t\<rparr>"
  define st2 where "st2 = st\<lparr>segmenthash := [], segmentIndex := sg,
    ck := (ck st)\<lparr>fileindex := ?x\<lparr>idx_segment := idx_segment ?x @ [sg]\<rparr>\<rparr>\<rparr>"
  have num: "numbered LP_segmentID (idx_segment ?x) (idx_segmentnumber ?x)"
    and sp: "spans 0 (segment_spans ?x) (LP_startChunkID (segmentIndex st))"
    and le: "LP_startChunkID (segmentIndex st) \<le> idx_chunknumber ?x"
    using inv by (simp_all add: levels_inv_def)
  have at: "vec_at (idx_segment (fileindex (ck st2))) (idx_segmentnumber (fileindex (ck st2))) = Inr sg"
    using num by (simp add: st2_def numbered_def vec_at_def)
  have sg1: "LP_hash sg = t" "LP_segmentID sg = idx_segmentnumber ?x" "LP_endChunkID sg = idx_chunknumber ?x"
    "LP_startChunkID sg = LP_startChunkID (segmentIndex st)" by (simp_all add: sg_def)
  have push: "push_segment t (st\<lparr>segmentIndex := (segmentIndex st)
        \<lparr>LP_segmentID := idx_segmentnumber ?x, LP_endChunkID := idx_chunknumber ?x\<rparr>, segmenthash := []\<rparr>) = st2"
    by (simp add: index_defs st2_def sg_def)
  have num': "numbered LP_segmentID (idx_segment ?x @ [sg]) (idx_segmentnumber ?x + 1)"
    using num sg1 by (simp add: numbered_snoc)
  have sp': "spans 0 (segment_spans ?x @ [(LP_startChunkID (segmentIndex st), idx_chunknumber ?x)])
      (idx_chunknumber ?x + 1)"
    using sp le by (rule spans_snoc)
  note small = levels_small [OF inv]
  have up: "count_up (idx_chunknumber ?x) = idx_chunknumber ?x + 1" "count_up (idx_segmentnumber ?x) = idx_segmentnumber ?x + 1"
    using small few by (simp_all add: count_up_small)
  define stop where "stop = boundary MIN_CONTAINER_SIZE MAX_CONTAINER_SIZE CODIVISOR COPATTERN t (containersize st2)"
  have unf: "close_segment e (h @ [0]) st = (if stop then close_container e (t @ [0]) st2
      else (let st3 = count_chunk (count_segment st2) in
         Inr (Go (st3\<lparr>segmentIndex := (segmentIndex st3)\<lparr>LP_startChunkID := idx_chunknumber (fileindex (ck st3))\<rparr>,
              containerhash := containerhash st3 @ t,
              containersize := containersize st3 + segmentsize st3, segmentsize := 0\<rparr>))))"
    using cs t push at by (simp add: close_segment_def Let_def EndOfSegment_def sg1(1) stop_def)
  show ?thesis
  proof (cases stop)
    case True
    have c: "numbered L6_containerID (idx_container (fileindex (ck st2))) (idx_containernumber (fileindex (ck st2)))"
      "spans 0 (container_spans (fileindex (ck st2))) (L6_startSegmentID (containerIndex st2))"
      "L6_startSegmentID (containerIndex st2) \<le> idx_segmentnumber (fileindex (ck st2))"
      using inv by (simp_all add: levels_inv_def st2_def container_spans_def)
    have sm: "0 \<le> idx_chunknumber (fileindex (ck st2))" "idx_chunknumber (fileindex (ck st2)) + 1 < 2 ^ 31"
      "0 \<le> idx_segmentnumber (fileindex (ck st2))" "idx_segmentnumber (fileindex (ck st2)) + 1 < 2 ^ 31"
      "0 \<le> idx_containernumber (fileindex (ck st2))" "idx_containernumber (fileindex (ck st2)) + 1 < 2 ^ 31"
      using small few by (simp_all add: st2_def)
    show ?thesis
      using close_container_ok [OF dig t(3) c sm] True unf num' sp' sg1
      by (auto simp: Let_def levels_inv_def index_frame_def st2_def segment_spans_def)
  next
    case False
    then show ?thesis
      using unf inv num' sp' sg1 up
      by (simp add: index_defs levels_inv_def index_frame_def st2_def segment_spans_def container_spans_def)
  qed
qed

lemma index_chunk_ok:
  assumes dig: "evp_digest_ok e" and inv: "index_inv fps st"
    and h: "length h = CHUNK_HASH_SIZE" "0 \<notin> set h" and few: "length fps + 1 < 2 ^ 31"
  shows "\<exists>st'. index_chunk e (h @ [0]) st = Inr (Go st') \<and> index_inv (fps @ [h]) st' \<and> index_frame st st'"
proof (cases "fileindex_flag (ck st) = 0")
  case True
  then show ?thesis using index_chunk_flat [OF inv _ h(1) few] by blast
next
  case False
  then have flag: "fileindex_flag (ck st) = 1" using inv by (simp add: index_inv_def)
  have cs: "c_string (h @ [0]) = Inr h" using h(2) by (simp add: c_string_terminated)
  let ?st1 = "push_chunk (h @ [0]) st"
  have lv: "levels_inv (LP_startChunkID (segmentIndex ?st1)) (L6_startSegmentID (containerIndex ?st1))
      (fileindex (ck ?st1))"
    using inv flag
    by (simp add: index_inv_def levels_inv_def index_defs segment_spans_def container_spans_def)
  have cc: "chunks_inv fps (fileindex (ck st))" using inv by (simp add: index_inv_def)
  note counted = chunk_counted [OF cc h(1) few]
  have nr: "idx_chunknumber (fileindex (ck ?st1)) = int (length fps)"
    using cc by (auto simp: chunks_inv_def numbered_def index_defs)
  then have up: "idx_chunknumber (fileindex (ck ?st1)) + 1 < 2 ^ 31"
    "count_up (idx_chunknumber (fileindex (ck ?st1))) = idx_chunknumber (fileindex (ck ?st1)) + 1"
    using few by (simp_all add: count_up_small)
  define stop where "stop = boundary MIN_SEGMENT_SIZE MAX_SEGMENT_SIZE SEDIVISOR SEPATTERN h (segmentsize ?st1)"
  have unf: "index_chunk e (h @ [0]) st = (if stop then close_segment e (h @ [0]) ?st1
      else Inr (Go (count_chunk (?st1\<lparr>segmenthash := segmenthash ?st1 @ h,
             segmentsize := add_size (segmentsize ?st1) (length (cs_buf ?st1))\<rparr>))))"
    using flag h(1) cs by (simp add: index_chunk_def EndOfSegment_def Let_def stop_def)
  have f1: "index_frame st ?st1" by (simp add: index_frame_def index_defs)
  show ?thesis
  proof (cases stop)
    case True
    obtain st' where st': "close_segment e (h @ [0]) ?st1 = Inr (Go st')" "index_frame ?st1 st'"
      "idx_chunk (fileindex (ck st')) = idx_chunk (fileindex (ck ?st1))"
      "idx_chunknumber (fileindex (ck st')) = idx_chunknumber (fileindex (ck ?st1)) + 1"
      "levels_inv (LP_startChunkID (segmentIndex st')) (L6_startSegmentID (containerIndex st')) (fileindex (ck st'))"
      using close_segment_ok [OF dig h(2) lv up(1)] by blast
    have "chunks_inv (fps @ [h]) (fileindex (ck st'))"
      using counted st'(3,4) up(2) by (simp add: chunks_inv_def count_chunk_def upd_index_def)
    moreover have fr: "index_frame st st'" using f1 st'(2) by (rule index_frame_trans)
    moreover have "fileindex_flag (ck st') = 1" using index_frame_settings [OF fr] flag by simp
    ultimately show ?thesis using st'(1,5) True unf by (auto simp: index_inv_def)
  next
    case False
    let ?st' = "count_chunk (?st1\<lparr>segmenthash := segmenthash ?st1 @ h,
             segmentsize := add_size (segmentsize ?st1) (length (cs_buf ?st1))\<rparr>)"
    have "index_frame ?st1 ?st'" by (simp add: index_frame_def count_chunk_def upd_index_def)
    with f1 have fr: "index_frame st ?st'" by (rule index_frame_trans)
    have "index_inv (fps @ [h]) ?st'"
      using counted lv flag index_frame_settings [OF fr] up(2)
      by (simp add: index_inv_def count_chunk_def upd_index_def levels_inv_def chunks_inv_def
          segment_spans_def container_spans_def)
    then show ?thesis using unf False fr by simp
  qed
qed

section \<open>The last chunk\<close>

text \<open>The index of a file whose last chunk was not cut by the loop: the containers cover all
  segments; the last segment ends at the number of chunks, one past the last chunk, where the
  segments before it end at a chunk.\<close>

definition final_levels :: "Index \<Rightarrow> bool" where
  "final_levels x \<longleftrightarrow>
     numbered LP_segmentID (idx_segment x) (idx_segmentnumber x)
     \<and> numbered L6_containerID (idx_container x) (idx_containernumber x)
     \<and> spans 0 (container_spans x) (idx_segmentnumber x)
     \<and> (\<exists>xs a. segment_spans x = xs @ [(a, idx_chunknumber x)] \<and> spans 0 xs a \<and> a < idx_chunknumber x)"

text \<open>The arrays the last hashes are written to: \<open>MD5\<close> gives 16 bytes, the array has 32, and
  among the bytes it does not write there is a zero.\<close>

definition md5_ok :: "(bytes \<Rightarrow> bytes) \<Rightarrow> bytes \<Rightarrow> bool" where
  "md5_ok md5 junk \<longleftrightarrow> (\<forall>d. length (md5 d) = 16) \<and> 0 \<in> set (drop 16 junk)"

lemma md5_text: "md5_ok md5 junk \<Longrightarrow> \<exists>g. c_string (copy_front (md5 d) junk) = Inr g"
  by (simp add: md5_ok_def c_string_def copy_front_def)

lemma final_index_ok:
  assumes inv: "index_inv fps st" and h: "length h = CHUNK_HASH_SIZE" "0 \<notin> set h" and md5: "md5_ok md5 junk1"
    and few: "length fps + 1 < 2 ^ 31"
  shows "\<exists>st'. final_index md5 junk1 junk2 (h @ [0]) st = Inr (Go st')
    \<and> chunks_inv (fps @ [h]) (fileindex (ck st')) \<and> index_frame st st'
    \<and> (fileindex_flag (ck st) = 0 \<longrightarrow> flat_index (fileindex (ck st')))
    \<and> (fileindex_flag (ck st) = 1 \<longrightarrow> final_levels (fileindex (ck st')))"
proof (cases "fileindex_flag (ck st) = 0")
  case True
  then show ?thesis
    using chunk_counted [of fps st h] inv h(1) few
    by (simp add: final_index_def index_inv_def index_frame_def index_defs flat_index_def)
next
  case False
  then have flag: "fileindex_flag (ck st) = 1" using inv by (simp add: index_inv_def)
  have cs: "c_string (h @ [0]) = Inr h" using h(2) by (simp add: c_string_terminated)
  let ?x = "fileindex (ck st)"
  have lv: "levels_inv (LP_startChunkID (segmentIndex st)) (L6_startSegmentID (containerIndex st)) ?x"
    and ch: "chunks_inv fps ?x" using inv flag by (simp_all add: index_inv_def)
  obtain g where g: "c_string (copy_front (md5 (segmenthash st @ h)) junk1) = Inr g"
    using md5_text [OF md5] by blast
  have sp: "spans 0 (container_spans ?x @ [(L6_startSegmentID (containerIndex st), idx_segmentnumber ?x)])
      (idx_segmentnumber ?x + 1)"
    using lv by (intro spans_snoc) (simp_all add: levels_inv_def)
  have "idx_chunknumber ?x = int (length fps)" using ch by (auto simp: chunks_inv_def numbered_def)
  then have up: "count_up (idx_chunknumber ?x) = idx_chunknumber ?x + 1"
    "count_up (idx_segmentnumber ?x) = idx_segmentnumber ?x + 1"
    "count_up (idx_containernumber ?x) = idx_containernumber ?x + 1"
    using few levels_small [OF lv] by (simp_all add: count_up_small)
  show ?thesis
    using flag cs g lv sp chunk_counted [OF ch h(1) few] up
    by (auto simp: final_index_def index_defs index_frame_def final_levels_def levels_inv_def
        numbered_snoc segment_spans_def container_spans_def chunks_inv_def)
qed

end
