(* ===== verification/Chunker_Window.thy ===== *)
theory Chunker_Window
  imports Chunker
begin

text \<open>
  The rolling hash.  The tables of \<open>ChunkerInit\<close> work modulo \<open>2 ^ 23\<close>, the fingerprint is kept in
  16 bits, and the two updates of the loop compute the value of the bytes in the window as a
  polynomial in 257, modulo \<open>2 ^ 16\<close>; a value the fingerprint starts with is carried along.
\<close>

section \<open>Narrowing to 16 bits\<close>

lemma cut_bits:
  fixes x y :: int
  shows "take_bit 16 (take_bit 32 x + take_bit 32 y) = take_bit 16 (x + y)"
    and "take_bit 16 (take_bit 32 x * take_bit 32 y) = take_bit 16 (x * y)"
    and "take_bit 16 (- take_bit 32 x) = take_bit 16 (- x)"
proof -
  have t: "take_bit 16 (take_bit 32 z) = take_bit 16 z" for z :: int by simp
  show "take_bit 16 (take_bit 32 x + take_bit 32 y) = take_bit 16 (x + y)"
    by (metis t take_bit_add)
  show "take_bit 16 (take_bit 32 x * take_bit 32 y) = take_bit 16 (x * y)"
    by (metis t take_bit_mult)
  show "take_bit 16 (- take_bit 32 x) = take_bit 16 (- x)"
    by (metis t take_bit_minus)
qed

lemma down_add: "(ucast (x + y :: u32) :: u16) = ucast x + ucast y"
  by transfer (simp add: cut_bits)

lemma down_mult: "(ucast (x * y :: u32) :: u16) = ucast x * ucast y"
  by transfer (simp add: cut_bits)

lemma down_minus: "(ucast (- x :: u32) :: u16) = - ucast x"
  by transfer (simp add: cut_bits)

lemma down_up: "(ucast (ucast (x :: 'a::len word) :: u32) :: u16) = ucast x" if "LENGTH('a) \<le> 16"
  using that by transfer (simp add: min_def)

lemma down_of_nat: "(ucast (of_nat n :: u32) :: u16) = of_nat n"
  by transfer simp

definition MOD23 :: u32 where
  "MOD23 = push_bit 23 1 - 1"

lemma MOD23_mask: "MOD23 = mask 23"
  by (simp add: MOD23_def mask_eq_exp_minus_1 push_bit_eq_mult)

lemma MOD23_num: "MOD23 = 8388607"
  by (simp add: MOD23_def)

lemma and_MOD23: "x AND MOD23 = take_bit 23 x"
  by (simp add: MOD23_mask take_bit_eq_mask)

lemma down_take_bit: "(ucast (take_bit 23 x :: u32) :: u16) = ucast x"
  by transfer (simp add: take_bit_take_bit)

lemmas narrow_simps = down_add down_mult down_minus down_of_nat down_take_bit and_MOD23

section \<open>The tables\<close>

lemma length_power_table [simp]: "length (power_table b m p n) = n"
  by (induction n arbitrary: p) auto

lemma power_table_nth:
  "i < n \<Longrightarrow> (ucast (power_table 257 MOD23 p n ! i) :: u16) = ucast p * 257 ^ i"
proof (induction n arbitrary: p i)
  case 0
  then show ?case by simp
next
  case (Suc n)
  show ?case
  proof (cases i)
    case (Suc j)
    then have "(ucast (power_table 257 MOD23 p (Suc n) ! i) :: u16)
        = ucast ((p * 257) AND MOD23) * 257 ^ j"
      using Suc.IH [of j] Suc.prems by simp
    then show ?thesis using Suc by (simp add: narrow_simps)
  qed simp
qed

lemma remove_entry_narrow: "(ucast (remove_entry MOD23 p i) :: u16) = - (of_nat i * ucast p)"
proof -
  let ?r = "(of_nat i * p) AND MOD23"
  have r: "(ucast ?r :: u16) = of_nat i * ucast p"
    by (simp add: narrow_simps)
  have neg: "(ucast ((MOD23 - ?r + 1) AND MOD23) :: u16) = - ucast ?r"
  proof -
    have m: "(ucast MOD23 :: u16) = - 1"
      unfolding MOD23_mask by transfer simp
    have "(ucast (MOD23 + - ?r + 1) :: u16) = - ucast ?r"
      by (simp only: down_add down_minus m) simp
    then show ?thesis by (simp add: and_MOD23 down_take_bit)
  qed
  show ?thesis
    using r neg by (auto simp: remove_entry_def Let_def)
qed

section \<open>The window\<close>

text \<open>The value of a word over the bytes, first byte first.\<close>

definition win_poly :: "bytes \<Rightarrow> u16" where
  "win_poly ws = foldl (\<lambda>a b. a * 257 + ucast b) 0 ws"

lemma win_poly_nil [simp]: "win_poly [] = 0"
  by (simp add: win_poly_def)

lemma win_poly_snoc [simp]: "win_poly (ws @ [b]) = win_poly ws * 257 + ucast b"
  by (simp add: win_poly_def)

lemma win_poly_Cons: "win_poly (a # ws) = ucast a * 257 ^ length ws + win_poly ws"
proof (induction ws rule: rev_induct)
  case Nil
  show ?case by (simp add: win_poly_def)
next
  case (snoc b ws)
  have "win_poly (a # ws @ [b]) = win_poly (a # ws) * 257 + ucast b"
    using win_poly_snoc [of "a # ws" b] by simp
  then show ?case using snoc by (simp add: algebra_simps)
qed

text \<open>What \<open>winFp\<close> holds after the bytes \<open>buf\<close> of a chunk when it held \<open>fp0\<close> at its start.\<close>

definition fp_spec :: "nat \<Rightarrow> u16 \<Rightarrow> bytes \<Rightarrow> u16" where
  "fp_spec win fp0 buf =
     (if length buf < win then fp0 + win_poly buf * 257 ^ (win - length buf)
      else fp0 * 257 ^ (length buf - win) + win_poly (drop (length buf - win) buf))"

lemma fp_spec_nil [simp]: "fp_spec win fp0 [] = fp0"
  by (simp add: fp_spec_def)

lemma fp_spec_fill:
  assumes "length buf < win"
  shows "fp_spec win fp0 (buf @ [b]) = fp_spec win fp0 buf + ucast b * 257 ^ (win - length buf - 1)"
proof -
  obtain k where k: "win - length buf = Suc k" using assms by (cases "win - length buf") auto
  show ?thesis
  proof (cases "k = 0")
    case True
    then have "win = Suc (length buf)" using k assms by simp
    then show ?thesis by (simp add: fp_spec_def)
  next
    case False
    then have "length (buf @ [b]) < win" "win - length (buf @ [b]) = k" using k by simp_all
    then show ?thesis using assms k by (simp add: fp_spec_def algebra_simps)
  qed
qed

lemma fp_spec_slide:
  assumes "0 < win" and "win \<le> length buf"
  shows "fp_spec win fp0 (buf @ [b])
    = (fp_spec win fp0 buf - ucast (buf ! (length buf - win)) * 257 ^ (win - 1)) * 257 + ucast b"
proof -
  let ?n = "length buf - win"
  have dr: "drop ?n buf = buf ! ?n # drop (Suc ?n) buf"
    using assms by (simp add: Cons_nth_drop_Suc)
  have d2: "drop (length (buf @ [b]) - win) (buf @ [b]) = drop (Suc ?n) buf @ [b]"
    using assms by (simp add: Suc_diff_le)
  have len: "length (drop (Suc ?n) buf) = win - 1" using assms by simp
  have pw: "(257 :: u16) ^ (length (buf @ [b]) - win) = 257 * 257 ^ ?n"
    using assms by (simp add: Suc_diff_le)
  have "win_poly (drop ?n buf) = ucast (buf ! ?n) * 257 ^ (win - 1) + win_poly (drop (Suc ?n) buf)"
    using win_poly_Cons [of "buf ! ?n" "drop (Suc ?n) buf"] dr len by simp
  then have "fp_spec win fp0 buf - ucast (buf ! ?n) * 257 ^ (win - 1)
      = fp0 * 257 ^ ?n + win_poly (drop (Suc ?n) buf)"
    using assms by (simp add: fp_spec_def)
  then show ?thesis
    using assms d2 pw by (simp add: fp_spec_def algebra_simps)
qed

text \<open>The rolling part of an object that \<open>ChunkerInit\<close> has set up.\<close>

definition rolling_ok :: "Chunker \<Rightarrow> bool" where
  "rolling_ok c \<longleftrightarrow> 0 < slidingWinSize c \<and> slidingWinSize c < 2 ^ 31 \<and> polyBase c = 257 \<and> polyMOD c = MOD23
     \<and> powerLUT c = power_table 257 MOD23 1 (nat (slidingWinSize c))
     \<and> removeLUT c = map (remove_entry MOD23 (powerLUT c ! nat (slidingWinSize c - 1))) [0..<256]"

lemma fill_window_spec:
  assumes ok: "rolling_ok c" and cnt: "int (length buf) < slidingWinSize c"
    and fp: "fp = fp_spec (nat (slidingWinSize c)) fp0 buf"
  shows "fill_window c (length buf) fp b = Inr (fp_spec (nat (slidingWinSize c)) fp0 (buf @ [b]))"
proof -
  let ?win = "nat (slidingWinSize c)"
  have lt: "length buf < ?win" using cnt by simp
  have i: "slidingWinSize c - int (length buf) - 1 = int (?win - length buf - 1)" using lt by simp
  have v: "vec_at (powerLUT c) (slidingWinSize c - int (length buf) - 1)
      = Inr (power_table 257 MOD23 1 ?win ! (?win - length buf - 1))"
  proof -
    have pw: "powerLUT c = power_table 257 MOD23 1 ?win" using ok by (simp add: rolling_ok_def)
    show ?thesis unfolding i pw by (rule vec_at_nat) (use lt in simp)
  qed
  have p: "(ucast (power_table 257 MOD23 1 ?win ! (?win - length buf - 1)) :: u16) = 257 ^ (?win - length buf - 1)"
    using lt by (simp add: power_table_nth)
  have "(ucast (((ucast fp + ucast b * power_table 257 MOD23 1 ?win ! (?win - length buf - 1)) :: u32) AND MOD23) :: u16)
      = fp + ucast b * 257 ^ (?win - length buf - 1)"
    using p by (simp add: narrow_simps down_up)
  then show ?thesis
    using ok v fp fp_spec_fill [OF lt, of fp0 b] by (simp add: fill_window_def rolling_ok_def)
qed

lemma slide_window_spec:
  assumes ok: "rolling_ok c" and cnt: "slidingWinSize c \<le> int (length buf)"
    and fp: "fp = fp_spec (nat (slidingWinSize c)) fp0 buf"
  shows "slide_window c buf fp b = Inr (fp_spec (nat (slidingWinSize c)) fp0 (buf @ [b]))"
proof -
  let ?win = "nat (slidingWinSize c)"
  have win: "0 < ?win" "?win \<le> length buf" using ok cnt by (simp_all add: rolling_ok_def)
  have i: "int (length buf) - slidingWinSize c = int (length buf - ?win)"
    using ok win by (simp add: rolling_ok_def)
  have lt: "length buf - ?win < length buf" using win by simp
  let ?v = "buf ! (length buf - ?win)"
  have v: "vec_at (buf @ [b]) (int (length buf) - slidingWinSize c) = Inr ?v"
    unfolding i using lt by (simp add: vec_at_nat nth_append)
  have u: "unat ?v < 256" using unsigned_less [of ?v] by simp
  have r: "vec_at (removeLUT c) (int (unat ?v)) = Inr (remove_entry MOD23 (powerLUT c ! nat (slidingWinSize c - 1)) (unat ?v))"
  proof -
    have rm: "removeLUT c = map (remove_entry MOD23 (powerLUT c ! nat (slidingWinSize c - 1))) [0..<256]"
      using ok by (simp add: rolling_ok_def)
    have "vec_at (map f [0..<256]) (int n) = Inr (f n)" if "n < 256" for f :: "nat \<Rightarrow> u32" and n
      using vec_at_nat [of n "map f [0..<256]"] that by simp
    then show ?thesis unfolding rm using u by blast
  qed
  have j: "nat (slidingWinSize c - 1) = ?win - 1" using ok by (simp add: rolling_ok_def)
  have p: "(ucast (powerLUT c ! (?win - 1)) :: u16) = 257 ^ (?win - 1)"
    using ok win by (simp add: rolling_ok_def power_table_nth)
  have n: "(of_nat (unat ?v) :: u16) = ucast ?v" by transfer simp
  have "(ucast (((ucast (ucast fp AND MOD23 :: u32) + remove_entry MOD23 (powerLUT c ! (?win - 1)) (unat ?v)) * 257
        + ucast b :: u32) AND MOD23) :: u16)
      = (fp - ucast ?v * 257 ^ (?win - 1)) * 257 + ucast b"
    using p by (simp add: narrow_simps down_up remove_entry_narrow n)
  then show ?thesis
    using ok v r j fp fp_spec_slide [OF win, of fp0 b] by (simp add: slide_window_def rolling_ok_def)
qed

end
