(* ===== verification/Chunker_Run.thy ===== *)
theory Chunker_Run
  imports Chunk_Store Chunker_Index Chunker_Window
begin

text \<open>
  A run of \<open>varSizeChunking\<close> against a reference: \<open>ref_run\<close> cuts a list of bytes into chunks by
  the definition of a cut, with no buffers, tables or blocks.  \<open>run_inv\<close> ties the state of the
  loop to the chunks cut so far: the recipe and the index list them, the store holds them.
\<close>

section \<open>The reference\<close>

definition chunk_end :: "Chunker \<Rightarrow> u16 \<Rightarrow> bytes \<Rightarrow> bool" where
  "chunk_end c fp0 buf \<longleftrightarrow> slidingWinSize c < int (length buf) \<and> minChunkSize c \<le> int (length buf)
     \<and> (ucast (fp_spec (nat (slidingWinSize c)) fp0 buf) AND anchorMask c = 0
        \<or> maxChunkSize c \<le> int (length buf))"

text \<open>The complete chunks and the bytes left over; after the first chunk the fingerprint starts
  at 0.\<close>

fun ref_run :: "Chunker \<Rightarrow> u16 \<Rightarrow> bytes \<Rightarrow> bytes \<Rightarrow> bytes list \<times> bytes" where
  "ref_run c fp0 buf [] = ([], buf)"
| "ref_run c fp0 buf (b # bs) =
     (if chunk_end c fp0 (buf @ [b])
      then (let (ds, r) = ref_run c 0 [] bs in ((buf @ [b]) # ds, r))
      else ref_run c fp0 (buf @ [b]) bs)"

definition ref_chunks :: "Chunker \<Rightarrow> u16 \<Rightarrow> bytes \<Rightarrow> bytes list" where
  "ref_chunks c fp0 file = (case ref_run c fp0 [] file of (ds, r) \<Rightarrow> if r = [] then ds else ds @ [r])"

text \<open>The settings under which the buffers are large enough.\<close>

definition chunker_ok :: "Chunker \<Rightarrow> bool" where
  "chunker_ok c \<longleftrightarrow> rolling_ok c \<and> anchorValue c = 0 \<and> 0 \<le> minChunkSize c \<and> minChunkSize c \<le> maxChunkSize c
     \<and> slidingWinSize c < maxChunkSize c \<and> maxChunkSize c \<le> int MAX_CHUNK_SIZE
     \<and> 0 < unat (ReadSize c) \<and> unat (ReadSize c) < 2 ^ 31"

lemma ref_run_concat: "ref_run c fp0 buf bs = (ds, r) \<Longrightarrow> concat ds @ r = buf @ bs"
  by (induction c fp0 buf bs arbitrary: ds r rule: ref_run.induct)
    (auto split: if_splits prod.splits)

lemma ref_run_append:
  "ref_run c fp0 buf (xs @ ys) = (case ref_run c fp0 buf xs of (ds, r) \<Rightarrow>
     case ref_run c (if ds = [] then fp0 else 0) r ys of (es, q) \<Rightarrow> (ds @ es, q))"
  by (induction c fp0 buf xs rule: ref_run.induct) (auto split: prod.splits if_splits)

text \<open>Sizes of the chunks.\<close>

lemma ref_run_sizes:
  assumes "chunker_ok c" and "int (length buf) < maxChunkSize c" and "ref_run c fp0 buf bs = (ds, r)"
  shows "(\<forall>d \<in> set ds. slidingWinSize c < int (length d) \<and> minChunkSize c \<le> int (length d)
      \<and> int (length d) \<le> maxChunkSize c) \<and> int (length r) < maxChunkSize c"
  using assms
proof (induction c fp0 buf bs arbitrary: ds r rule: ref_run.induct)
  case (1 c fp0 buf)
  then show ?case by simp
next
  case (2 c fp0 buf b bs)
  show ?case
  proof (cases "chunk_end c fp0 (buf @ [b])")
    case True
    have m: "0 < maxChunkSize c" using "2.prems"(1) by (simp add: chunker_ok_def rolling_ok_def)
    obtain es q where e: "ref_run c 0 [] bs = (es, q)" by fastforce
    then have "ds = (buf @ [b]) # es" "r = q" using "2.prems"(3) True by auto
    then show ?thesis
      using "2.IH"(1) [OF True "2.prems"(1) _ e] m "2.prems"(2) True by (auto simp: chunk_end_def)
  next
    case False
    have w: "slidingWinSize c < maxChunkSize c" "minChunkSize c \<le> maxChunkSize c"
      using "2.prems"(1) by (simp_all add: chunker_ok_def)
    have "int (length (buf @ [b])) < maxChunkSize c"
      using False w "2.prems"(2) by (auto simp: chunk_end_def)
    then show ?thesis using "2.IH"(2) [OF False "2.prems"(1)] "2.prems"(3) False by simp
  qed
qed

section \<open>One byte\<close>

definition same_settings :: "Chunker \<Rightarrow> Chunker \<Rightarrow> bool" where
  "same_settings c c' \<longleftrightarrow> c' = c\<lparr>recipeList := recipeList c', fileindex := fileindex c'\<rparr>"

lemma same_settings_refl [simp]: "same_settings c c"
  by (simp add: same_settings_def)

lemma same_settingsD:
  assumes "same_settings c c'"
  shows "maxChunkSize c' = maxChunkSize c" "minChunkSize c' = minChunkSize c"
    "slidingWinSize c' = slidingWinSize c" "anchorMask c' = anchorMask c" "anchorValue c' = anchorValue c"
    "ReadSize c' = ReadSize c" "fileindex_flag c' = fileindex_flag c" "recipe c' = recipe c"
    "chunker_ok c' = chunker_ok c" "rolling_ok c' = rolling_ok c"
    "chunk_end c' = chunk_end c"
  using assms
  by (cases c; cases c'; simp add: same_settings_def chunker_ok_def rolling_ok_def chunk_end_def fun_eq_iff)+

lemma same_settings_trans: "same_settings a b \<Longrightarrow> same_settings b c \<Longrightarrow> same_settings a c"
  by (cases a; cases b; cases c) (simp add: same_settings_def)

lemma settings_index [simp]: "same_settings (ck st) (ck (upd_index f st))"
  by (simp add: upd_index_def same_settings_def)

lemma go_on_Go: "go_on r f = Inr (Go t) \<longleftrightarrow> (\<exists>s. r = Inr (Go s) \<and> f s = Inr (Go t))"
  by (cases "(r, f)" rule: go_on.cases) auto

lemma dedup_chunk_settings: "dedup_chunk stack h st = Inr (Go t) \<Longrightarrow> ck t = ck st"
  by (auto simp: dedup_chunk_def res_simps Let_def split: if_splits)

lemma close_container_settings: "close_container e h st = Inr (Go t) \<Longrightarrow> same_settings (ck st) (ck t)"
  by (auto simp: close_container_def res_simps index_defs same_settings_def split: option.splits)

lemma close_segment_settings:
  assumes "close_segment e h st = Inr (Go t)"
  shows "same_settings (ck st) (ck t)"
proof -
  have p: "same_settings (ck st) (ck (push_segment k (st\<lparr>segmentIndex := x, segmenthash := y\<rparr>)))" for k x y
    by (simp add: index_defs same_settings_def)
  have q: "same_settings (ck u) (ck (count_chunk (count_segment u)))" for u
    by (simp add: index_defs same_settings_def)
  show ?thesis
    using assms
    by (auto simp: close_segment_def res_simps Let_def split: option.splits if_splits
        intro: same_settings_trans [OF p close_container_settings] same_settings_trans [OF p q])
qed

lemma index_chunk_settings:
  assumes "index_chunk e h st = Inr (Go t)"
  shows "same_settings (ck st) (ck t)"
proof -
  have p: "same_settings (ck st) (ck (push_chunk h st))" by (simp add: index_defs same_settings_def)
  show ?thesis
    using assms
    by (auto simp: index_chunk_def res_simps Let_def split: if_splits
        intro: same_settings_trans [OF p close_segment_settings])
      (simp_all add: index_defs same_settings_def)
qed

lemma complete_chunk_reset:
  assumes "complete_chunk e stack s = Inr (Go t)"
  shows "cs_buf t = []" and "winFp t = 0" and "same_settings (ck s) (ck t)"
proof -
  obtain h s1 s2 where c: "dedup_chunk stack h (recipe_chunk h s) = Inr (Go s1)" "index_chunk e h s1 = Inr (Go s2)"
      "t = s2\<lparr>chunkIDCnt := chunkIDCnt s2 + 1, cs_buf := [], winFp := 0\<rparr>"
    using assms by (auto simp: complete_chunk_def go_on_Go split: option.splits if_splits)
  then show "cs_buf t = []" "winFp t = 0" by simp_all
  have "same_settings (ck s) (ck s1)"
    using dedup_chunk_settings [OF c(1)] by (simp add: recipe_chunk_def same_settings_def)
  then show "same_settings (ck s) (ck t)"
    using index_chunk_settings [OF c(2)] c(3) same_settings_trans by auto
qed

lemma u64_of_size: "0 \<le> i \<Longrightarrow> i < 2 ^ 31 \<Longrightarrow> u64_of_int i = nat i"
  by (simp add: u64_of_int_small)

lemma byte_step_cut:
  fixes e stack b st fp0
  assumes ok: "chunker_ok (ck st)" and len: "int (length (cs_buf st)) < maxChunkSize (ck st)"
    and fp: "winFp st = fp_spec (nat (slidingWinSize (ck st))) fp0 (cs_buf st)"
  defines "st1 \<equiv> st\<lparr>cs_buf := cs_buf st @ [b],
      winFp := fp_spec (nat (slidingWinSize (ck st))) fp0 (cs_buf st @ [b])\<rparr>"
  shows "byte_step e stack b st =
    (if chunk_end (ck st) fp0 (cs_buf st @ [b]) then complete_chunk e stack st1 else Inr (Go st1))"
proof -
  let ?c = "ck st" and ?buf = "cs_buf st"
  have rl: "rolling_ok ?c" and av: "anchorValue ?c = 0" and mn: "0 \<le> minChunkSize ?c"
    and mx: "minChunkSize ?c \<le> maxChunkSize ?c" "maxChunkSize ?c \<le> 16384"
    and win: "0 < slidingWinSize ?c" "slidingWinSize ?c < maxChunkSize ?c"
    using ok by (simp_all add: chunker_ok_def rolling_ok_def size_defs)
  have u: "u64_of_int (maxChunkSize ?c) = nat (maxChunkSize ?c)" "u64_of_int (slidingWinSize ?c) = nat (slidingWinSize ?c)"
    "u64_of_int (minChunkSize ?c) = nat (minChunkSize ?c)"
    using mn mx win by (simp_all add: u64_of_size)
  have lt: "\<not> nat (maxChunkSize ?c) \<le> length ?buf" using len by simp
  show ?thesis
  proof (cases "int (length ?buf) < slidingWinSize ?c")
    case True
    then have "\<not> chunk_end ?c fp0 (?buf @ [b])" "length ?buf < nat (slidingWinSize ?c)"
      by (simp_all add: chunk_end_def)
    then show ?thesis
      using lt fill_window_spec [OF rl True fp, of b] by (simp add: byte_step_def Let_def u st1_def)
  next
    case False
    then have sw: "slide_window ?c ?buf (winFp st) b = Inr (fp_spec (nat (slidingWinSize ?c)) fp0 (?buf @ [b]))"
      using slide_window_spec [OF rl _ fp, of b] by simp
    have unf: "byte_step e stack b st = (if length ?buf + 1 < nat (minChunkSize ?c) then Inr (Go st1)
        else go_on (anchor_chunk e stack st1) (max_chunk e stack))"
    proof -
      have "\<not> length ?buf < nat (slidingWinSize ?c)" using False by simp
      then show ?thesis using lt sw by (simp add: byte_step_def Let_def u st1_def)
    qed
    have ck1: "ck st1 = ?c" "cs_buf st1 = ?buf @ [b]" "winFp st1 = fp_spec (nat (slidingWinSize ?c)) fp0 (?buf @ [b])"
      by (simp_all add: st1_def)
    have max1: "max_chunk e stack st1 = (if maxChunkSize ?c \<le> int (length (?buf @ [b])) then complete_chunk e stack st1
        else Inr (Go st1))"
      using u(1) by (simp add: max_chunk_def ck1 nat_le_iff)
    have fin: "go_on (complete_chunk e stack st1) (max_chunk e stack) = complete_chunk e stack st1"
    proof (cases "complete_chunk e stack st1")
      case (Inr f)
      then show ?thesis
      proof (cases f)
        case (Go t)
        then have "cs_buf t = []" "maxChunkSize (ck t) = maxChunkSize ?c"
          using complete_chunk_reset [of e stack st1 t] Inr ck1 by (auto simp: same_settingsD)
        then show ?thesis using Inr Go u(1) win by (simp add: max_chunk_def)
      qed simp
    qed simp
    show ?thesis
      using False unf max1 fin av
      by (auto simp: anchor_chunk_def chunk_end_def ck1 not_less)
  qed
qed

section \<open>The invariant of a run\<close>

definition fpr :: "evp \<Rightarrow> bytes \<Rightarrow> bytes" where
  "fpr e d = take CHUNK_HASH_SIZE (the (generateHash e d))"

lemma fpr_facts:
  assumes "evp_digest_ok e"
  shows "generateHash e d = Some (fpr e d @ [0])" and "length (fpr e d) = CHUNK_HASH_SIZE" and "0 \<notin> set (fpr e d)"
  using generateHash_Some [OF assms, of d] by (auto simp: fpr_def)

definition chunk_entry :: "evp \<Rightarrow> nat \<Rightarrow> bytes \<Rightarrow> RecipeEntry_t" where
  "chunk_entry e k d = \<lparr>entry_chunkID = of_nat k, entry_chunkSize = int (length d), entry_chunkHash = fpr e d\<rparr>"

definition chunk_entries :: "evp \<Rightarrow> bytes list \<Rightarrow> RecipeList_t" where
  "chunk_entries e ds = map2 (chunk_entry e) [0..<length ds] ds"

lemma chunk_entries_snoc: "chunk_entries e (ds @ [d]) = chunk_entries e ds @ [chunk_entry e (length ds) d]"
  by (simp add: chunk_entries_def)

text \<open>Chunks the run can take: of a size the store accepts, with container names left, with no
  two different chunks of one fingerprint, among themselves or with the chunks stored before, and
  few enough for the \<open>int\<close> counters of the index.\<close>

definition storable :: "evp \<Rightarrow> (bytes \<Rightarrow> keyForChunkHashDB_t) \<Rightarrow> StorageCore \<times> world \<Rightarrow> bytes list \<Rightarrow> bool" where
  "storable e stack st0 ds \<longleftrightarrow> (\<forall>d \<in> set ds. store_fits stack st0 d)
     \<and> (\<forall>d \<in> set ds. store_contents st0 (fpr e d) = None \<or> store_contents st0 (fpr e d) = Some (store_form d))
     \<and> (\<forall>d \<in> set ds. \<forall>d' \<in> set ds. fpr e d = fpr e d' \<longrightarrow> store_form d = store_form d')
     \<and> length ds \<le> store_room st0 \<and> length ds < 2 ^ 31"

definition stored_inv :: "evp \<Rightarrow> Configure \<Rightarrow> StorageCore \<times> world \<Rightarrow> bytes list \<Rightarrow> StorageCore \<times> world \<Rightarrow> bool" where
  "stored_inv e cfg st0 ds st \<longleftrightarrow> store_inv cfg st0 st
     \<and> dedup.holds st (map (\<lambda>d. (fpr e d, d)) ds)
     \<and> (\<forall>g x. store_contents st0 g = Some x \<longrightarrow> store_contents st g = Some x)
     \<and> (\<forall>g. g \<notin> fpr e ` set ds \<longrightarrow> store_contents st g = store_contents st0 g)
     \<and> (\<forall>stack. store_fits stack st = store_fits stack st0)
     \<and> store_room st0 \<le> store_room st + length ds"

definition run_inv ::
  "evp \<Rightarrow> Configure \<Rightarrow> Chunker \<Rightarrow> StorageCore \<times> world \<Rightarrow> bytes list \<Rightarrow> chunk_state \<Rightarrow> bool" where
  "run_inv e cfg c0 st0 ds st \<longleftrightarrow> same_settings c0 (ck st)
     \<and> recipeList (ck st) = recipeList c0 @ chunk_entries e ds
     \<and> idx_fileNameHash (fileindex (ck st)) = idx_fileNameHash (fileindex c0)
     \<and> chunkIDCnt st = of_nat (length ds)
     \<and> index_inv (map (fpr e) ds) st
     \<and> stored_inv e cfg st0 ds (cs_storage st, cs_world st)"

lemma stored_step:
  assumes dig: "evp_digest_ok e" and inv: "stored_inv e cfg st0 ds st" and ok: "storable e stack st0 (ds @ d # rest)"
  obtains st' where "dedup_put stack (fpr e d) d st = Some st'" and "stored_inv e cfg st0 (ds @ [d]) st'"
proof -
  note f = fpr_facts [OF dig, of d]
  have si: "store_inv cfg st0 st" and hold: "dedup.holds st (map (\<lambda>d. (fpr e d, d)) ds)"
    and old: "\<And>g x. store_contents st0 g = Some x \<Longrightarrow> store_contents st g = Some x"
    and new: "\<And>g. g \<notin> fpr e ` set ds \<Longrightarrow> store_contents st g = store_contents st0 g"
    and fit: "store_fits stack st = store_fits stack st0" and room: "store_room st0 \<le> store_room st + length ds"
    and fit_all: "\<And>stack. store_fits stack st = store_fits stack st0"
    using inv by (auto simp: stored_inv_def)
  have fd: "store_fits stack st d" using ok fit by (simp add: storable_def)
  have rm: "0 < store_room st" using ok room by (simp add: storable_def)
  have con: "store_contents st (fpr e d) = None \<or> store_contents st (fpr e d) = Some (store_form d)"
  proof (cases "fpr e d \<in> fpr e ` set ds")
    case True
    then obtain d' where d': "d' \<in> set ds" "fpr e d' = fpr e d" by auto
    then have "store_form d' = store_form d" using ok by (auto simp: storable_def)
    moreover have "store_contents st (fpr e d') = Some (store_form d')"
      using hold d'(1) by (auto simp: dedup.holds_def)
    ultimately show ?thesis using d'(2) by simp
  next
    case False
    then show ?thesis using new ok by (simp add: storable_def)
  qed
  obtain st' where st': "dedup_put stack (fpr e d) d st = Some st'" "store_inv cfg st0 st'"
    "store_fits stack st' = store_fits stack st" "store_room st \<le> Suc (store_room st')"
    "dedup.holds st' (map (\<lambda>d. (fpr e d, d)) ds @ [(fpr e d, d)])"
    "\<forall>g x. store_contents st g = Some x \<longrightarrow> store_contents st' g = Some x"
    "\<forall>g. g \<noteq> fpr e d \<longrightarrow> store_contents st' g = store_contents st g"
    by (rule dedup.put_holds [OF si f(2,3) fd rm hold con])
  have fits': "store_fits k st' = store_fits k st0" for k
  proof -
    have "maxContainerSize (fst st') = maxContainerSize (fst st0)"
      using st'(2) by (cases st'; cases st0) (simp add: store_inv_def frame_def)
    then show ?thesis by (cases st'; cases st0) (simp add: store_fits_def fun_eq_iff)
  qed
  have "stored_inv e cfg st0 (ds @ [d]) st'"
    using st' old new room fits' by (auto simp: stored_inv_def)
  then show ?thesis using that st'(1) by blast
qed

text \<open>Storing leaves the index alone and is visible in the recipe.\<close>

lemma dedup_chunk_ok:
  assumes "dedup_put stack h (cs_buf st) (cs_storage st, cs_world st) = Some (s', w')"
  shows "\<exists>x n. dedup_chunk stack (h @ [0]) st
    = Inr (Go (st\<lparr>chunkIndex := x, totalSize := n, cs_storage := s', cs_world := w'\<rparr>))"
proof -
  obtain new where "dedup_store stack (h @ [0]) (cs_buf st) (cs_storage st) (cs_world st) = Inr (True, new, s', w')"
    using assms by (auto simp: dedup_put_def split: sum.splits bool.splits)
  then show ?thesis
    by (intro exI [of _ "(chunkIndex st)\<lparr>L0_unique := (if new then 1 else 0)\<rparr>"]
        exI [of _ "if new then totalSize st + of_nat (length (cs_buf st)) else totalSize st"])
      (simp add: dedup_chunk_def Let_def)
qed

text \<open>A chunk up to the point where the index is extended, in the loop and at the end.\<close>

lemma store_chunk_ok:
  assumes dig: "evp_digest_ok e" and inv: "run_inv e cfg c0 st0 ds st"
    and ok: "storable e stack st0 (ds @ cs_buf st # rest)"
  obtains st1 where "dedup_chunk stack (fpr e (cs_buf st) @ [0]) (recipe_chunk (fpr e (cs_buf st) @ [0]) st) = Inr (Go st1)"
    and "index_inv (map (fpr e) ds) st1" and "same_settings c0 (ck st1)"
    and "recipeList (ck st1) = recipeList c0 @ chunk_entries e (ds @ [cs_buf st])"
    and "idx_fileNameHash (fileindex (ck st1)) = idx_fileNameHash (fileindex c0)"
    and "chunkIDCnt st1 = of_nat (length ds)" and "fileSize st1 = fileSize st"
    and "stored_inv e cfg st0 (ds @ [cs_buf st]) (cs_storage st1, cs_world st1)"
    and "length (cs_buf st) \<le> MAX_CHUNK_SIZE"
proof -
  let ?d = "cs_buf st" and ?h = "fpr e (cs_buf st)"
  let ?st = "recipe_chunk (?h @ [0]) st"
  have r: "same_settings c0 (ck st)" "recipeList (ck st) = recipeList c0 @ chunk_entries e ds"
    "idx_fileNameHash (fileindex (ck st)) = idx_fileNameHash (fileindex c0)" "chunkIDCnt st = of_nat (length ds)"
    "index_inv (map (fpr e) ds) st" "stored_inv e cfg st0 ds (cs_storage st, cs_world st)"
    using inv by (auto simp: run_inv_def)
  have rs: "cs_buf ?st = ?d" "cs_storage ?st = cs_storage st" "cs_world ?st = cs_world st"
    by (simp_all add: recipe_chunk_def)
  obtain s' w' where sw: "dedup_put stack ?h ?d (cs_storage st, cs_world st) = Some (s', w')"
      "stored_inv e cfg st0 (ds @ [?d]) (s', w')"
    using stored_step [OF dig r(6) ok] by (metis prod.collapse)
  obtain x n where d: "dedup_chunk stack (?h @ [0]) ?st
      = Inr (Go (?st\<lparr>chunkIndex := x, totalSize := n, cs_storage := s', cs_world := w'\<rparr>))"
    using dedup_chunk_ok [of stack ?h ?st s' w'] sw(1) rs by auto
  have "ucast (of_nat (length ds) :: u64) = (of_nat (length ds) :: u32)"
    by transfer simp
  then have rl: "recipeList (ck ?st) = recipeList c0 @ chunk_entries e (ds @ [?d])"
    using r(2,4) fpr_facts(2) [OF dig, of ?d]
    by (simp add: recipe_chunk_def chunk_entries_snoc chunk_entry_def)
  have ss: "same_settings c0 (ck ?st)"
    using r(1) by (cases c0; cases "ck st") (simp add: same_settings_def recipe_chunk_def)
  have mx: "length ?d \<le> MAX_CHUNK_SIZE"
    using ok by (cases st0) (simp add: storable_def store_fits_def)
  show ?thesis
    by (rule that [OF d])
      (use r rl ss sw(2) mx in \<open>simp_all add: recipe_chunk_def index_inv_def\<close>)
qed

lemma complete_chunk_ok:
  assumes dig: "evp_digest_ok e" and inv: "run_inv e cfg c0 st0 ds st"
    and ok: "storable e stack st0 (ds @ cs_buf st # rest)"
  obtains st' where "complete_chunk e stack st = Inr (Go st')" and "run_inv e cfg c0 st0 (ds @ [cs_buf st]) st'"
    and "cs_buf st' = []" and "winFp st' = 0" and "fileSize st' = fileSize st"
proof -
  let ?h = "fpr e (cs_buf st)"
  note f = fpr_facts [OF dig, of "cs_buf st"]
  obtain st1 where st1: "dedup_chunk stack (?h @ [0]) (recipe_chunk (?h @ [0]) st) = Inr (Go st1)"
    "index_inv (map (fpr e) ds) st1" "same_settings c0 (ck st1)"
    "recipeList (ck st1) = recipeList c0 @ chunk_entries e (ds @ [cs_buf st])"
    "idx_fileNameHash (fileindex (ck st1)) = idx_fileNameHash (fileindex c0)"
    "chunkIDCnt st1 = of_nat (length ds)" "fileSize st1 = fileSize st"
    "stored_inv e cfg st0 (ds @ [cs_buf st]) (cs_storage st1, cs_world st1)"
    "length (cs_buf st) \<le> MAX_CHUNK_SIZE"
    by (rule store_chunk_ok [OF dig inv ok])
  have few: "length (map (fpr e) ds) + 1 < 2 ^ 31" using ok by (simp add: storable_def)
  obtain st2 where st2: "index_chunk e (?h @ [0]) st1 = Inr (Go st2)"
      "index_inv (map (fpr e) ds @ [?h]) st2" "index_frame st1 st2"
    using index_chunk_ok [OF dig st1(2) f(2,3) few] by blast
  have ss: "same_settings c0 (ck st2)"
    using same_settings_trans [OF st1(3) index_chunk_settings [OF st2(1)]] .
  have cc: "complete_chunk e stack st
      = Inr (Go (st2\<lparr>chunkIDCnt := chunkIDCnt st2 + 1, cs_buf := [], winFp := 0\<rparr>))"
    using f(1) st1(1,9) st2(1) by (simp add: complete_chunk_def)
  show ?thesis
    by (rule that [OF cc])
      (use st1(4-8) st2(2,3) ss index_frame_settings [OF st2(3)]
        in \<open>simp_all add: run_inv_def index_inv_def index_frame_def\<close>)
qed

lemma bytes_loop_ok:
  assumes dig: "evp_digest_ok e" and ok: "chunker_ok c0"
  shows "run_inv e cfg c0 st0 ds st \<Longrightarrow> int (length (cs_buf st)) < maxChunkSize c0 \<Longrightarrow>
    winFp st = fp_spec (nat (slidingWinSize c0)) fp0 (cs_buf st) \<Longrightarrow>
    ref_run c0 fp0 (cs_buf st) bs = (es, r) \<Longrightarrow> storable e stack st0 (ds @ es @ rest) \<Longrightarrow>
    \<exists>st'. bytes_loop e stack bs st = Inr (Go st') \<and> run_inv e cfg c0 st0 (ds @ es) st' \<and> cs_buf st' = r
      \<and> winFp st' = fp_spec (nat (slidingWinSize c0)) (if es = [] then fp0 else 0) r
      \<and> fileSize st' = fileSize st"
proof (induction bs arbitrary: ds st fp0 es)
  case Nil
  then show ?case by simp
next
  case (Cons b bs)
  let ?st1 = "st\<lparr>cs_buf := cs_buf st @ [b], winFp := fp_spec (nat (slidingWinSize c0)) fp0 (cs_buf st @ [b])\<rparr>"
  have ss: "same_settings c0 (ck st)" using Cons.prems(1) by (simp add: run_inv_def)
  note S = same_settingsD [OF ss]
  have inv1: "run_inv e cfg c0 st0 ds ?st1" using Cons.prems(1) by (simp add: run_inv_def index_inv_def)
  have step: "byte_step e stack b st = (if chunk_end c0 fp0 (cs_buf st @ [b]) then complete_chunk e stack ?st1
      else Inr (Go ?st1))"
    using byte_step_cut [of st fp0 e stack b] ok Cons.prems(2,3) by (simp add: S)
  show ?case
  proof (cases "chunk_end c0 fp0 (cs_buf st @ [b])")
    case True
    obtain fs where fs: "ref_run c0 0 [] bs = (fs, r)" "es = (cs_buf st @ [b]) # fs"
      using Cons.prems(4) True by (auto split: prod.splits)
    have st_ok: "storable e stack st0 (ds @ cs_buf ?st1 # (fs @ rest))"
      using Cons.prems(5) fs(2) by simp
    obtain st2 where st2: "complete_chunk e stack ?st1 = Inr (Go st2)"
        "run_inv e cfg c0 st0 (ds @ [cs_buf ?st1]) st2" "cs_buf st2 = []" "winFp st2 = 0"
        "fileSize st2 = fileSize ?st1"
      by (rule complete_chunk_ok [OF dig inv1 st_ok])
    have m: "0 < maxChunkSize c0" using ok by (simp add: chunker_ok_def rolling_ok_def)
    have "\<exists>st'. bytes_loop e stack bs st2 = Inr (Go st') \<and> run_inv e cfg c0 st0 ((ds @ [cs_buf ?st1]) @ fs) st'
        \<and> cs_buf st' = r \<and> winFp st' = fp_spec (nat (slidingWinSize c0)) (if fs = [] then 0 else 0) r
        \<and> fileSize st' = fileSize st2"
      by (rule Cons.IH [OF st2(2)]) (use st2 m fs(1) st_ok in simp_all)
    then show ?thesis using step True st2 fs(2) by simp
  next
    case False
    have "int (length (cs_buf ?st1)) < maxChunkSize c0"
      using False Cons.prems(2) ok by (auto simp: chunk_end_def chunker_ok_def)
    then have "\<exists>st'. bytes_loop e stack bs ?st1 = Inr (Go st') \<and> run_inv e cfg c0 st0 (ds @ es) st'
        \<and> cs_buf st' = r \<and> winFp st' = fp_spec (nat (slidingWinSize c0)) (if es = [] then fp0 else 0) r
        \<and> fileSize st' = fileSize ?st1"
      by (rule Cons.IH [OF inv1]) (use False Cons.prems(4,5) in simp_all)
    then show ?thesis using step False by simp
  qed
qed

lemma run_inv_fileSize [simp]: "run_inv e cfg c0 st0 ds (st\<lparr>fileSize := n\<rparr>) = run_inv e cfg c0 st0 ds st"
  by (simp add: run_inv_def index_inv_def)

lemma read_loop_ok:
  assumes dig: "evp_digest_ok e" and ok: "chunker_ok c0"
  shows "run_inv e cfg c0 st0 ds st \<Longrightarrow> int (length (cs_buf st)) < maxChunkSize c0 \<Longrightarrow>
    winFp st = fp_spec (nat (slidingWinSize c0)) fp0 (cs_buf st) \<Longrightarrow>
    ref_run c0 fp0 (cs_buf st) data = (es, r) \<Longrightarrow> storable e stack st0 (ds @ es @ rest) \<Longrightarrow>
    \<exists>st'. read_loop e stack data st = Some (Inr (Go st')) \<and> run_inv e cfg c0 st0 (ds @ es) st' \<and> cs_buf st' = r
      \<and> fileSize st' = fileSize st + of_nat (length data)"
proof (induction "length data" arbitrary: data ds st fp0 es rule: less_induct)
  case less
  let ?n = "unat (ReadSize c0)"
  have n: "0 < ?n" "?n < 2 ^ 31" using ok by (simp_all add: chunker_ok_def)
  define block where "block = take ?n data"
  have rs: "ReadSize (ck st) = ReadSize c0" using less.prems(1) by (simp add: run_inv_def same_settingsD)
  have lb: "length block < 2 ^ 31" using n by (simp add: block_def)
  have split: "block @ drop ?n data = data" by (simp add: block_def)
  have "unat (of_nat (length block) :: u64) = length block" using lb by (simp add: unat_of_nat)
  then have len: "int_of_u64 (of_nat (length block)) = int (length block)"
    using int_of_u64_small [of "of_nat (length block)"] lb by simp
  let ?st = "st\<lparr>fileSize := fileSize st + of_nat (length block)\<rparr>"
  obtain es1 r1 where e1: "ref_run c0 fp0 (cs_buf st) block = (es1, r1)" by fastforce
  obtain es2 r2 where e2: "ref_run c0 (if es1 = [] then fp0 else 0) r1 (drop ?n data) = (es2, r2)" by fastforce
  have es: "es = es1 @ es2" "r = r2"
    using less.prems(4) ref_run_append [of c0 fp0 "cs_buf st" block "drop ?n data"] e1 e2 by (auto simp: split)
  have so: "storable e stack st0 (ds @ es1 @ (es2 @ rest))" using less.prems(5) es(1) by simp
  obtain st1 where st1: "bytes_loop e stack block ?st = Inr (Go st1)" "run_inv e cfg c0 st0 (ds @ es1) st1"
      "cs_buf st1 = r1" "winFp st1 = fp_spec (nat (slidingWinSize c0)) (if es1 = [] then fp0 else 0) r1"
      "fileSize st1 = fileSize ?st"
    using bytes_loop_ok [OF dig ok, of cfg st0 ds ?st fp0 block es1 r1 stack "es2 @ rest"] less.prems(1-3) e1 so
    by auto
  have unf: "read_loop e stack data st = (if length block < ?n then Some (Inr (Go st1))
      else read_loop e stack (drop ?n data) st1)"
    unfolding read_loop.simps [of e stack data st] Let_def rs block_def [symmetric]
    using st1(1) len by simp
  show ?case
  proof (cases "length block < ?n")
    case True
    then have "drop ?n data = []" "block = data" by (auto simp: block_def)
    then show ?thesis using unf True e2 es st1 by auto
  next
    case False
    then have shorter: "length (drop ?n data) < length data" using n(1) by (auto simp: block_def)
    have r1: "int (length (cs_buf st1)) < maxChunkSize c0"
      using ref_run_sizes [OF ok less.prems(2) e1] st1(3) by simp
    have "\<exists>st'. read_loop e stack (drop ?n data) st1 = Some (Inr (Go st'))
        \<and> run_inv e cfg c0 st0 ((ds @ es1) @ es2) st' \<and> cs_buf st' = r
        \<and> fileSize st' = fileSize st1 + of_nat (length (drop ?n data))"
      by (rule less.hyps [OF shorter st1(2) r1, of "if es1 = [] then fp0 else 0"])
        (use st1 e2 so es(2) in simp_all)
    moreover have "(of_nat (length data) :: u64) = of_nat (length block) + of_nat (length (drop ?n data))"
      using split by (metis length_append of_nat_add)
    ultimately show ?thesis
      using unf False es(1) st1(5) by (auto simp: add.assoc)
  qed
qed

section \<open>The end of the file\<close>

text \<open>What a run leaves behind: chunks \<open>ds\<close> in the recipe, the index and the store.\<close>

definition done_inv ::
  "evp \<Rightarrow> Configure \<Rightarrow> Chunker \<Rightarrow> StorageCore \<times> world \<Rightarrow> bytes list \<Rightarrow> chunk_state \<Rightarrow> bool" where
  "done_inv e cfg c0 st0 ds st \<longleftrightarrow> same_settings c0 (ck st)
     \<and> recipeList (ck st) = recipeList c0 @ chunk_entries e ds
     \<and> idx_fileNameHash (fileindex (ck st)) = idx_fileNameHash (fileindex c0)
     \<and> chunkIDCnt st = of_nat (length ds)
     \<and> chunks_inv (map (fpr e) ds) (fileindex (ck st))
     \<and> (fileindex_flag (ck st) = 0 \<longrightarrow> flat_index (fileindex (ck st)))
     \<and> stored_inv e cfg st0 ds (cs_storage st, cs_world st)"

lemma run_done: "run_inv e cfg c0 st0 ds st \<Longrightarrow> done_inv e cfg c0 st0 ds st"
  by (simp add: run_inv_def done_inv_def index_inv_def)

lemma final_chunk_ok:
  assumes dig: "evp_digest_ok e" and inv: "run_inv e cfg c0 st0 ds st" and md5: "md5_ok md5 junk1"
    and ok: "storable e stack st0 (if cs_buf st = [] then ds else ds @ [cs_buf st])"
  obtains st' where "final_chunk e md5 junk1 junk2 stack st = Inr (Go st')"
    and "done_inv e cfg c0 st0 (if cs_buf st = [] then ds else ds @ [cs_buf st]) st'"
    and "fileSize st' = fileSize st"
    and "cs_buf st \<noteq> [] \<longrightarrow> fileindex_flag c0 = 1 \<longrightarrow> final_levels (fileindex (ck st'))"
    and "cs_buf st = [] \<longrightarrow> fileindex_flag c0 = 1 \<longrightarrow> (\<exists>seg con. levels_inv seg con (fileindex (ck st')))"
proof (cases "cs_buf st = []")
  case True
  moreover have "\<exists>seg con. levels_inv seg con (fileindex (ck st))" if "fileindex_flag c0 = 1"
    using inv that same_settingsD(7) by (fastforce simp: run_inv_def index_inv_def)
  ultimately show ?thesis using that [of st] run_done [OF inv] by (simp add: final_chunk_def)
next
  case False
  let ?h = "fpr e (cs_buf st)"
  note f = fpr_facts [OF dig, of "cs_buf st"]
  have ok1: "storable e stack st0 (ds @ cs_buf st # [])" using ok False by simp
  obtain st1 where st1: "dedup_chunk stack (?h @ [0]) (recipe_chunk (?h @ [0]) st) = Inr (Go st1)"
    "index_inv (map (fpr e) ds) st1" "same_settings c0 (ck st1)"
    "recipeList (ck st1) = recipeList c0 @ chunk_entries e (ds @ [cs_buf st])"
    "idx_fileNameHash (fileindex (ck st1)) = idx_fileNameHash (fileindex c0)"
    "chunkIDCnt st1 = of_nat (length ds)" "fileSize st1 = fileSize st"
    "stored_inv e cfg st0 (ds @ [cs_buf st]) (cs_storage st1, cs_world st1)"
    "length (cs_buf st) \<le> MAX_CHUNK_SIZE"
    by (rule store_chunk_ok [OF dig inv ok1])
  have few: "length (map (fpr e) ds) + 1 < 2 ^ 31" using ok1 by (simp add: storable_def)
  obtain st2 where st2: "final_index md5 junk1 junk2 (?h @ [0]) st1 = Inr (Go st2)"
      "chunks_inv (map (fpr e) ds @ [?h]) (fileindex (ck st2))" "index_frame st1 st2"
      "fileindex_flag (ck st1) = 1 \<longrightarrow> final_levels (fileindex (ck st2))"
      "fileindex_flag (ck st1) = 0 \<longrightarrow> flat_index (fileindex (ck st2))"
    using final_index_ok [OF st1(2) f(2,3) md5 few] by blast
  have ss: "same_settings c0 (ck st2)"
    using st1(3) st2(3)
    by (cases c0; cases "ck st1"; cases "ck st2") (simp add: same_settings_def index_frame_def)
  have fc: "final_chunk e md5 junk1 junk2 stack st
      = Inr (Go (st2\<lparr>chunkIDCnt := chunkIDCnt st2 + 1, cs_buf := [], winFp := 0\<rparr>))"
    using False f(1) st1(1,9) st2(1) by (simp add: final_chunk_def)
  have rl: "recipeList (ck st2) = recipeList (ck st1)" using index_frame_settings [OF st2(3)] by simp
  show ?thesis
    by (rule that [OF fc])
      (use False st1 st2 ss rl in \<open>simp_all add: done_inv_def index_frame_def same_settingsD\<close>)
qed

end
