(* ===== verification/Chunker_Properties.thy ===== *)
theory Chunker_Properties
  imports Chunker_Run
begin

text \<open>
  The properties of the chunker: what the initialisation sets up, that a run cuts the file into
  chunks of the configured sizes without losing a byte, records and stores them, and that the file
  comes back from the recipe.
\<close>

section \<open>Initialisation\<close>

lemma mask_bits_from:
  assumes "0 < k" and "2 ^ k \<le> avg" and "avg < 2 ^ 31"
  shows "\<exists>n. mask_bits avg k = Inr n \<and> k \<le> n \<and> n \<le> 30 \<and> 2 ^ n \<le> avg \<and> avg < 2 ^ Suc n"
  using assms
proof (induction "31 - k" arbitrary: k rule: less_induct)
  case less
  have k: "k < 31"
  proof (rule ccontr)
    assume "\<not> k < 31"
    then have "(2 :: int) ^ 31 \<le> 2 ^ k" by (intro power_increasing) simp_all
    then show False using less.prems by linarith
  qed
  define q where "q = avg div 2 ^ k"
  have div: "drop_bit k avg = q" by (simp add: drop_bit_eq_div q_def)
  have eq: "avg = q * 2 ^ k + avg mod 2 ^ k"
    unfolding q_def by (rule div_mult_mod_eq [symmetric])
  have r: "0 \<le> avg mod 2 ^ k" "avg mod 2 ^ k < 2 ^ k" by simp_all
  have "2 ^ k div 2 ^ k \<le> q" unfolding q_def using less.prems(2) by (rule zdiv_mono1) simp
  then have ge: "1 \<le> q" by simp
  show ?case
  proof (cases "q = 1")
    case True
    then have "avg = 2 ^ k + avg mod 2 ^ k" using eq by simp
    then have "avg < 2 ^ k + 2 ^ k" using r(2) by linarith
    then have "avg < 2 ^ Suc k" by simp
    then show ?thesis using True k less.prems div by (subst mask_bits.simps) auto
  next
    case False
    then have "2 * 2 ^ k \<le> q * 2 ^ k" using ge by (intro mult_right_mono) simp_all
    then have "2 * 2 ^ k \<le> avg" using eq r(1) by linarith
    then have "2 ^ Suc k \<le> avg" by simp
    then have "\<exists>n. mask_bits avg (Suc k) = Inr n \<and> Suc k \<le> n \<and> n \<le> 30 \<and> 2 ^ n \<le> avg \<and> avg < 2 ^ Suc n"
      using k less.prems(3) by (intro less.hyps) simp_all
    moreover have "mask_bits avg k = mask_bits avg (Suc k)"
      using False k div by (subst mask_bits.simps) simp
    ultimately show ?thesis by auto
  qed
qed

lemma mask_bits_nat:
  assumes "2 \<le> a" and "a < 2 ^ 31"
  shows "\<exists>n. mask_bits (int a) 1 = Inr n \<and> 2 ^ n \<le> a \<and> a < 2 ^ Suc n"
proof -
  have "\<exists>n. mask_bits (int a) 1 = Inr n \<and> 1 \<le> n \<and> n \<le> 30 \<and> 2 ^ n \<le> int a \<and> int a < 2 ^ Suc n"
    using assms by (intro mask_bits_from) simp_all
  then obtain n where n: "mask_bits (int a) 1 = Inr n" "2 ^ n \<le> int a" "int a < 2 ^ Suc n" by blast
  have "int (2 ^ n) \<le> int a" "int a < int (2 ^ Suc n)" using n(2,3) by simp_all
  then show ?thesis using n(1) unfolding of_nat_le_iff of_nat_less_iff by blast
qed

text \<open>A configuration for variable-size chunking that fits the buffers of the program.\<close>

definition var_config_ok :: "Configure \<Rightarrow> bool" where
  "var_config_ok cfg \<longleftrightarrow> getChunkingType cfg = 1
     \<and> 2 \<le> unat (getAverageChunkSize cfg)
     \<and> unat (getMinChunkSize cfg) < unat (getAverageChunkSize cfg)
     \<and> unat (getAverageChunkSize cfg) < unat (getMaxChunkSize cfg)
     \<and> unat (getMaxChunkSize cfg) \<le> MAX_CHUNK_SIZE
     \<and> 0 < unat (getSlidingWinSize cfg) \<and> unat (getSlidingWinSize cfg) < unat (getMaxChunkSize cfg)
     \<and> 0 < unat (getReadSize cfg) \<and> unat (getReadSize cfg) < 2048"

lemma init_var_size_ok:
  assumes "var_config_ok cfg"
  obtains c' n where "init_var_size cfg c = Inr c'" and "chunker_ok c'"
    and "minChunkSize c' = int (unat (getMinChunkSize cfg))" and "maxChunkSize c' = int (unat (getMaxChunkSize cfg))"
    and "slidingWinSize c' = int (unat (getSlidingWinSize cfg))"
    and "anchorMask c' = push_bit n 1 - 1" and "2 ^ n \<le> unat (getAverageChunkSize cfg)"
    and "unat (getAverageChunkSize cfg) < 2 ^ Suc n"
    and "recipeList c' = recipeList c" and "fileindex c' = fileindex c" and "recipe c' = recipe c"
    and "chunkingFile c' = chunkingFile c" and "fileindex_flag c' = fileindex_flag c"
    and "ChunkerType c' = ChunkerType c"
proof -
  define avg mn mx win where u: "avg = unat (getAverageChunkSize cfg)" "mn = unat (getMinChunkSize cfg)"
    "mx = unat (getMaxChunkSize cfg)" "win = unat (getSlidingWinSize cfg)"
  have b: "2 \<le> avg" "mn < avg" "avg < mx" "mx \<le> 16384" "0 < win" "win < mx"
    "0 < unat (getReadSize cfg)" "unat (getReadSize cfg) < 2048"
    using assms by (simp_all add: var_config_ok_def size_defs u)
  have i: "int_of_u64 (getAverageChunkSize cfg) = int avg" "int_of_u64 (getMinChunkSize cfg) = int mn"
    "int_of_u64 (getMaxChunkSize cfg) = int mx" "int_of_u64 (getSlidingWinSize cfg) = int win"
    using b unfolding u by (intro int_of_u64_small; simp)+
  define rs where "rs = getReadSize cfg * 1024 * 1024"
  have rs: "unat rs = unat (getReadSize cfg) * 1048576"
    using b(8) by (simp add: rs_def unat_word_ariths)
  have avg: "2 \<le> avg" "avg < 2 ^ 31" using b by simp_all
  obtain n where n: "mask_bits (int avg) 1 = Inr n" "2 ^ n \<le> avg" "avg < 2 ^ Suc n"
    using mask_bits_nat [OF avg] by blast
  have arr: "new_array (unat rs) = Inr ()" "new_array (u64_of_int (int mx)) = Inr ()"
    using b rs by (simp_all add: new_array_def u64_of_int_small)
  let ?c = "c\<lparr>avgChunkSize := int avg, minChunkSize := int mn, maxChunkSize := int mx,
     slidingWinSize := int win, ReadSize := rs, polyBase := 257, polyMOD := MOD23,
     powerLUT := power_table 257 MOD23 1 win,
     removeLUT := map (remove_entry MOD23 (power_table 257 MOD23 1 win ! nat (int win - 1))) [0..<256],
     anchorMask := push_bit n 1 - 1, anchorValue := 0\<rparr>"
  have init: "init_var_size cfg c = Inr ?c"
    using b n(1) arr
    by (simp add: init_var_size_def Let_def i MOD23_num flip: rs_def)
  have "chunker_ok ?c"
    using b rs by (simp add: chunker_ok_def rolling_ok_def size_defs)
  then show ?thesis using that [OF init] n(2,3) unfolding u by simp
qed

text \<open>An object as the constructor leaves it, before a run.\<close>

definition fresh_chunker :: "Chunker \<Rightarrow> bool" where
  "fresh_chunker c \<longleftrightarrow> chunker_ok c \<and> ChunkerType c = CHUNKER_VAR_SIZE_TYPE \<and> recipeList c = []
     \<and> idx_chunk (fileindex c) = [] \<and> idx_segment (fileindex c) = [] \<and> idx_container (fileindex c) = []
     \<and> (fileindex_flag c = 0 \<or> fileindex_flag c = 1)"

lemma length_path_hash: "evp_digest_ok e \<Longrightarrow> length (path_hash e p) = FILE_NAME_HASH_SIZE"
  using generateHash_Some [of e p] by (auto simp: path_hash_def size_defs)

lemma newChunker_ok:
  assumes "var_config_ok cfg" and "files fs path = Some f" and "flag = 0 \<or> flag = 1"
  obtains c n where "newChunker e cfg fs c0 path flag = Inr c" and "fresh_chunker c" and "chunkingFile c = f"
    and "fileindex_flag c = flag"
    and "minChunkSize c = int (unat (getMinChunkSize cfg))" and "maxChunkSize c = int (unat (getMaxChunkSize cfg))"
    and "slidingWinSize c = int (unat (getSlidingWinSize cfg))"
    and "anchorMask c = push_bit n 1 - 1" and "2 ^ n \<le> unat (getAverageChunkSize cfg)"
    and "unat (getAverageChunkSize cfg) < 2 ^ Suc n"
    and "frh_fileNameHash (fileRecipeHead (recipe c)) = path_hash e path"
    and "krh_fileNameHash (keyRecipeHead (recipe c)) = path_hash e path"
    and "idx_fileNameHash (fileindex c) = path_hash e path"
proof -
  let ?h = "path_hash e path"
  let ?c1 = "c0\<lparr>recipeList := [], chunkingFile := f, fileindex_flag := flag,
      recipe := (recipe c0)\<lparr>fileRecipeHead := (fileRecipeHead (recipe c0))\<lparr>frh_fileNameHash := ?h\<rparr>,
        keyRecipeHead := (keyRecipeHead (recipe c0))\<lparr>krh_fileNameHash := ?h\<rparr>\<rparr>,
      fileindex := (fileindex c0)\<lparr>idx_chunk := [], idx_segment := [], idx_container := [],
        idx_fileNameHash := ?h\<rparr>, ChunkerType := 1\<rparr>"
  obtain c n where c: "init_var_size cfg ?c1 = Inr c" "chunker_ok c"
    "minChunkSize c = int (unat (getMinChunkSize cfg))" "maxChunkSize c = int (unat (getMaxChunkSize cfg))"
    "slidingWinSize c = int (unat (getSlidingWinSize cfg))"
    "anchorMask c = push_bit n 1 - 1" "2 ^ n \<le> unat (getAverageChunkSize cfg)"
    "unat (getAverageChunkSize cfg) < 2 ^ Suc n"
    "recipeList c = recipeList ?c1" "fileindex c = fileindex ?c1" "recipe c = recipe ?c1"
    "chunkingFile c = chunkingFile ?c1" "fileindex_flag c = fileindex_flag ?c1"
    "ChunkerType c = ChunkerType ?c1"
    by (rule init_var_size_ok [OF assms(1)])
  have t: "int_of_u64 (getChunkingType cfg) = 1"
    using assms(1) int_of_u64_small [of 1] by (simp add: var_config_ok_def)
  have new: "newChunker e cfg fs c0 path flag = Inr c"
    using assms(2) c(1) t
    by (simp add: newChunker_def loadChunkFile_def ChunkerInit_def Let_def CHUNKER_VAR_SIZE_TYPE_def)
  show ?thesis
    by (rule that [OF new]) (use c assms(3) in \<open>simp_all add: fresh_chunker_def CHUNKER_VAR_SIZE_TYPE_def\<close>)
qed

section \<open>A run\<close>

lemma ref_run_chunk_end: "chunk_end c' = chunk_end c \<Longrightarrow> ref_run c' fp0 buf bs = ref_run c fp0 buf bs"
  by (induction c fp0 buf bs rule: ref_run.induct) simp_all

lemma ref_chunks_chunk_end:
  assumes "chunk_end c' = chunk_end c"
  shows "ref_chunks c' = ref_chunks c"
  by (intro ext) (simp only: ref_chunks_def ref_run_chunk_end [OF assms])

lemmas ref_run_cong = ref_run_chunk_end [OF same_settingsD(11)]

text \<open>The hypotheses of a run: OpenSSL behaves, the object is fresh, the store is in order, and the
  chunks of the file can be stored.\<close>

definition run_ready ::
  "evp \<Rightarrow> (bytes \<Rightarrow> bytes) \<Rightarrow> var_locals \<Rightarrow> Configure \<Rightarrow> Chunker \<Rightarrow> StorageCore \<Rightarrow> world \<Rightarrow> bool" where
  "run_ready e md5 v cfg c s w \<longleftrightarrow> evp_digest_ok e \<and> fresh_chunker c \<and> md5_ok md5 (v_tempsegmenthash v)
     \<and> storage_inv w s \<and> made_with cfg s
     \<and> storable e (v_stack v) (s, w) (ref_chunks c (v_winFp v) (chunkingFile c))"

lemma start_inv:
  assumes "run_ready e md5 v cfg c s w"
  shows "run_inv e cfg (ck (var_start v c s w)) (s, w) [] (var_start v c s w)"
  using assms
  by (simp add: run_ready_def run_inv_def var_start_def chunk_entries_def stored_inv_def store_inv_def
      dedup.holds_nil index_inv_def flat_index_def chunks_inv_def levels_inv_def numbered_def segment_spans_def
      container_spans_def fresh_chunker_def)

lemma varSize_done:
  assumes rdy: "run_ready e md5 v cfg c s w"
  obtains st where "chunking e md5 v c s w = Some (Inr (finish_recipe st))"
    and "done_inv e cfg c (s, w) (ref_chunks c (v_winFp v) (chunkingFile c)) st"
    and "fileSize st = of_nat (length (chunkingFile c))"
    and "fileindex_flag c = 1 \<longrightarrow> (if snd (ref_run c (v_winFp v) [] (chunkingFile c)) \<noteq> []
      then final_levels (fileindex (ck st)) else \<exists>seg con. levels_inv seg con (fileindex (ck st)))"
proof -
  let ?st = "var_start v c s w" and ?file = "chunkingFile c" and ?fp = "v_winFp v"
  let ?c0 = "ck (var_start v c s w)"
  have dig: "evp_digest_ok e" and fr: "fresh_chunker c" and md5: "md5_ok md5 (v_tempsegmenthash v)"
    and sto: "storable e (v_stack v) (s, w) (ref_chunks c ?fp ?file)"
    using rdy by (auto simp: run_ready_def)
  have ss: "same_settings c ?c0" by (cases c) (simp add: var_start_def same_settings_def)
  have ok: "chunker_ok ?c0" using fr same_settingsD(9) [OF ss] by (simp add: fresh_chunker_def)
  obtain es r where er: "ref_run c ?fp [] ?file = (es, r)" by fastforce
  then have er0: "ref_run ?c0 ?fp [] ?file = (es, r)" by (simp add: ref_run_cong [OF ss])
  have rc: "ref_chunks c ?fp ?file = (if r = [] then es else es @ [r])" using er by (simp add: ref_chunks_def)
  define rest where "rest = (if r = [] then [] else [r])"
  have sto1: "storable e (v_stack v) (s, w) ([] @ es @ rest)" using sto rc by (simp add: rest_def split: if_splits)
  have buf: "cs_buf ?st = []" "winFp ?st = ?fp" "fileSize ?st = 0" by (simp_all add: var_start_def)
  have m: "int (length (cs_buf ?st)) < maxChunkSize ?c0"
    using ok buf by (simp add: chunker_ok_def rolling_ok_def)
  have fp: "winFp ?st = fp_spec (nat (slidingWinSize ?c0)) ?fp (cs_buf ?st)" by (simp add: buf)
  have er1: "ref_run ?c0 ?fp (cs_buf ?st) ?file = (es, r)" using er0 buf by simp
  obtain st1 where st1: "read_loop e (v_stack v) ?file ?st = Some (Inr (Go st1))"
      "run_inv e cfg ?c0 (s, w) ([] @ es) st1" "cs_buf st1 = r"
      "fileSize st1 = fileSize ?st + of_nat (length ?file)"
    using read_loop_ok [OF dig ok start_inv [OF rdy] m fp er1 sto1] by blast
  have sto2: "storable e (v_stack v) (s, w) (if cs_buf st1 = [] then [] @ es else ([] @ es) @ [cs_buf st1])"
    using sto rc st1(3) by (simp split: if_splits)
  obtain st2 where st2: "final_chunk e md5 (v_tempsegmenthash v) (v_tempcontainerhash v) (v_stack v) st1 = Inr (Go st2)"
      "done_inv e cfg ?c0 (s, w) (if cs_buf st1 = [] then [] @ es else ([] @ es) @ [cs_buf st1]) st2"
      "fileSize st2 = fileSize st1"
      "cs_buf st1 \<noteq> [] \<longrightarrow> fileindex_flag ?c0 = 1 \<longrightarrow> final_levels (fileindex (ck st2))"
      "cs_buf st1 = [] \<longrightarrow> fileindex_flag ?c0 = 1 \<longrightarrow> (\<exists>seg con. levels_inv seg con (fileindex (ck st2)))"
    by (rule final_chunk_ok [OF dig st1(2) md5 sto2])
  have run: "chunking e md5 v c s w = Some (Inr (finish_recipe st2))"
    using fr st1(1) st2(1) by (simp add: chunking_def varSizeChunking_def fresh_chunker_def size_defs)
  have "same_settings c (ck st2)" using st2(2) same_settings_trans [OF ss] by (auto simp: done_inv_def)
  then have dn: "done_inv e cfg c (s, w) (ref_chunks c ?fp ?file) st2"
    using st2(2) st1(3) rc by (simp add: done_inv_def var_start_def split: if_splits)
  show ?thesis
    by (rule that [OF run dn]) (use st1(3,4) st2(3-5) buf er same_settingsD(7) [OF ss] in simp_all)
qed

lemma ref_chunks_concat: "concat (ref_chunks c fp0 f) = f"
proof -
  obtain ds r where "ref_run c fp0 [] f = (ds, r)" by fastforce
  then show ?thesis using ref_run_concat [of c fp0 "[]" f ds r] by (auto simp: ref_chunks_def)
qed

lemma ref_chunks_sizes:
  assumes "chunker_ok c"
  shows "\<forall>d \<in> set (butlast (ref_chunks c fp0 f)). slidingWinSize c < int (length d) \<and> minChunkSize c \<le> int (length d)"
    and "\<forall>d \<in> set (ref_chunks c fp0 f). d \<noteq> [] \<and> int (length d) \<le> maxChunkSize c"
proof -
  obtain ds r where r: "ref_run c fp0 [] f = (ds, r)" by fastforce
  have w: "0 < slidingWinSize c" "0 < maxChunkSize c" using assms by (simp_all add: chunker_ok_def rolling_ok_def)
  then have m: "int (length []) < maxChunkSize c" by simp
  note sz = ref_run_sizes [OF assms m r]
  show "\<forall>d \<in> set (butlast (ref_chunks c fp0 f)). slidingWinSize c < int (length d) \<and> minChunkSize c \<le> int (length d)"
    using sz r by (auto simp: ref_chunks_def dest: in_set_butlastD)
  show "\<forall>d \<in> set (ref_chunks c fp0 f). d \<noteq> [] \<and> int (length d) \<le> maxChunkSize c"
    using sz r w by (auto simp: ref_chunks_def)
qed

lemma finish_recipe_facts:
  assumes "finish_recipe st = (c', s', w')"
  shows "recipeList c' = recipeList (ck st)" "fileindex c' = fileindex (ck st)" "s' = cs_storage st"
    "frh_totalChunkNumber (fileRecipeHead (recipe c')) = chunkIDCnt st"
    "frh_fileSize (fileRecipeHead (recipe c')) = fileSize st"
    "w' = snd (checkRecipeStatus (recipe c') (recipeList (ck st)) (cs_storage st) (cs_world st))"
    "frh_fileNameHash (fileRecipeHead (recipe c')) = frh_fileNameHash (fileRecipeHead (recipe (ck st)))"
    "krh_fileNameHash (keyRecipeHead (recipe c')) = krh_fileNameHash (keyRecipeHead (recipe (ck st)))"
  using assms by (auto simp: finish_recipe_def Let_def)

text \<open>Whatever happens to the recipe, the chunks stay where they are.\<close>

lemma saveRecipe_world:
  "fp2ChunkDB (snd (saveRecipe n r es b s w)) = fp2ChunkDB w \<and> containerDB (snd (saveRecipe n r es b s w)) = containerDB w
    \<and> (\<exists>d. w_fs (snd (saveRecipe n r es b s w)) = (w_fs w)\<lparr>files := (files (w_fs w))(recipePath s n := d)\<rparr>)"
proof (cases "writable (w_fs w) (recipePath s n)")
  case True
  then show ?thesis by (auto simp: saveRecipe_def Let_def fs_append_def fs_write_def)
next
  case False
  then show ?thesis
    by (auto simp: saveRecipe_def Let_def fs_append_def fs_write_def intro: exI [of _ "files (w_fs w) (recipePath s n)"])
qed

lemma checkRecipeStatus_keeps:
  assumes "storage_inv w s" and "made_with cfg s"
  shows "storage_inv (snd (checkRecipeStatus r es s w)) s \<and> abs_store (snd (checkRecipeStatus r es s w)) s = abs_store w s"
proof -
  let ?w = "snd (checkRecipeStatus r es s w)"
  obtain n b w1 where w: "?w = snd (saveRecipe n r es b s w1)"
      "fp2ChunkDB w1 = fp2ChunkDB w" "containerDB w1 = containerDB w" "w_fs w1 = w_fs w"
    by (cases "query (fileName2metaDB w) (frh_fileNameHash (fileRecipeHead r))") (auto simp: checkRecipeStatus_def Let_def)
  then obtain d where "fp2ChunkDB ?w = fp2ChunkDB w" "containerDB ?w = containerDB w"
      "w_fs ?w = (w_fs w)\<lparr>files := (files (w_fs w))(recipePath s n := d)\<rparr>"
    using saveRecipe_world [of n r es b s w1] by auto
  from storage_recipe_file [OF assms this] show ?thesis by blast
qed

section \<open>Properties\<close>

text \<open>C12: variable-size chunking loses nothing.  A run ends, and the recipe it has built lists, in
  order and with their sizes and fingerprints, chunks whose concatenation is the file; the store
  holds every one of them under its fingerprint, as \<open>saveChunk\<close> writes it, and all it held before;
  every chunk
  but the last is longer than the window and has at least the minimum size, every chunk has at most
  the maximum size; the head of the recipe has the number of chunks and the size of the file.  The
  buffers are never overrun, and no step reads outside the tables.\<close>

theorem chunking_lossless:
  assumes "run_ready e md5 v cfg c s w"
  shows "\<exists>c' s' w' ds. chunking e md5 v c s w = Some (Inr (c', s', w'))
     \<and> concat ds = chunkingFile c \<and> recipeList c' = chunk_entries e ds
     \<and> storage_inv w' s' \<and> (\<forall>d \<in> set ds. abs_store w' s' (fpr e d) = Some (0, stored_form d))
     \<and> (\<forall>g x. abs_store w s g = Some x \<longrightarrow> abs_store w' s' g = Some x)
     \<and> (\<forall>d \<in> set (butlast ds). slidingWinSize c < int (length d) \<and> minChunkSize c \<le> int (length d))
     \<and> (\<forall>d \<in> set ds. d \<noteq> [] \<and> int (length d) \<le> maxChunkSize c)
     \<and> frh_totalChunkNumber (fileRecipeHead (recipe c')) = of_nat (length ds)
     \<and> frh_fileSize (fileRecipeHead (recipe c')) = of_nat (length (chunkingFile c))"
proof -
  let ?ds = "ref_chunks c (v_winFp v) (chunkingFile c)"
  have fr: "fresh_chunker c" using assms by (simp add: run_ready_def)
  then have ok: "chunker_ok c" by (simp add: fresh_chunker_def)
  obtain st where st: "chunking e md5 v c s w = Some (Inr (finish_recipe st))"
      "done_inv e cfg c (s, w) ?ds st" "fileSize st = of_nat (length (chunkingFile c))"
    by (rule varSize_done [OF assms])
  obtain c' s' w' where f: "finish_recipe st = (c', s', w')" using prod_cases3 by blast
  note ff = finish_recipe_facts [OF f]
  have sti: "stored_inv e cfg (s, w) ?ds (cs_storage st, cs_world st)" using st(2) by (simp add: done_inv_def)
  then have "storage_inv (cs_world st) (cs_storage st)" "made_with cfg (cs_storage st)"
    by (auto simp: stored_inv_def store_inv_def)
  from checkRecipeStatus_keeps [OF this, of "recipe c'" "recipeList (ck st)"]
  have keep: "storage_inv w' s'" "abs_store w' s' = abs_store (cs_world st) (cs_storage st)"
    using ff(3,6) by simp_all
  have "abs_store w' s' (fpr e d) = Some (0, stored_form d)" if "d \<in> set ?ds" for d
  proof -
    have "store_contents (cs_storage st, cs_world st) (fpr e d) = Some (store_form d)"
      using sti that by (auto simp: stored_inv_def dedup.holds_def)
    then show ?thesis by (simp add: keep(2) store_contents_def store_form_def)
  qed
  moreover have "abs_store w' s' g = Some x" if "abs_store w s g = Some x" for g x
    using sti that by (cases x) (simp add: keep(2) stored_inv_def store_contents_def)
  ultimately show ?thesis
    using st f ff fr keep(1) ref_chunks_concat ref_chunks_sizes [OF ok]
    by (intro exI [of _ c'] exI [of _ s'] exI [of _ w'] exI [of _ ?ds]) (simp add: done_inv_def fresh_chunker_def)
qed


section \<open>The way back\<close>

text \<open>The bytes of a list of restored chunks.\<close>

definition chunk_bytes :: "ChunkList_t \<Rightarrow> bytes" where
  "chunk_bytes cs = concat (map (\<lambda>x. take (nat (chunk_logicDataSize x)) (chunk_logicData x)) cs)"

lemma chunk_bytes_restored:
  assumes "\<forall>d \<in> set ds. length d \<le> MAX_CHUNK_SIZE"
  shows "chunk_bytes (map2 (restored_chunk junk) (chunk_entries e ds) (map stored_form ds)) = concat (map stored_form ds)"
  using assms
proof (induction ds rule: rev_induct)
  case Nil
  show ?case by (simp add: chunk_entries_def chunk_bytes_def)
next
  case (snoc d ds)
  have l: "length (chunk_entries e ds) = length ds" by (simp add: chunk_entries_def)
  have "take (length d) (pad_chunk (stored_form d)) = stored_form d" by (simp add: pad_chunk_def)
  then show ?case
    using snoc l by (simp add: chunk_entries_snoc chunk_bytes_def restored_chunk_def chunk_entry_def)
qed

lemma chunk_entries_stored:
  assumes dig: "evp_digest_ok e" and st: "stored_inv e cfg st0 ds (s, w)"
    and len: "\<forall>d \<in> set ds. length d \<le> MAX_CHUNK_SIZE"
  shows "list_all2 (entry_stored w s) (chunk_entries e ds) (map stored_form ds)"
proof -
  have "abs_store w s (fpr e d) = Some (0, stored_form d)" if "d \<in> set ds" for d
  proof -
    have "store_contents (s, w) (fpr e d) = Some (store_form d)"
      using st that by (auto simp: stored_inv_def dedup.holds_def)
    then show ?thesis by (simp add: store_contents_def store_form_def)
  qed
  then have "entry_stored w s (chunk_entry e k d) (stored_form d)" if "d \<in> set ds" for d k
    using that len fpr_facts(2) [OF dig]
    by (fastforce simp: entry_stored_def chunk_entry_def RecipeEntry_ok_def in_int_def size_defs)
  then show ?thesis
    by (simp add: list_all2_conv_all_nth chunk_entries_def)
qed

lemma stored_form_concat_id:
  assumes "0 \<notin> set (concat ds)"
  shows "concat (map stored_form ds) = concat ds"
  using assms by (induction ds) (auto simp: stored_form_no_zeros)

text \<open>The recipe of the run is new and can be written.\<close>

definition recipe_free :: "Chunker \<Rightarrow> StorageCore \<Rightarrow> world \<Rightarrow> bool" where
  "recipe_free c s w \<longleftrightarrow> Recipe_ok (recipe c) \<and> database_inv (fileName2metaDB w)
     \<and> query (fileName2metaDB w) (frh_fileNameHash (fileRecipeHead (recipe c))) = None
     \<and> writable (w_fs w) (recipePath s (hex_name (frh_fileNameHash (fileRecipeHead (recipe c)))))
     \<and> files (w_fs w) (recipePath s (hex_name (frh_fileNameHash (fileRecipeHead (recipe c))))) = None"

lemma run_restores:
  assumes rdy: "run_ready e md5 v cfg c s w" and free: "recipe_free c s w"
    and few: "length (ref_chunks c (v_winFp v) (chunkingFile c)) < 2 ^ 32"
  defines "ds \<equiv> ref_chunks c (v_winFp v) (chunkingFile c)"
  obtains c' s' w' where "chunking e md5 v c s w = Some (Inr (c', s', w'))"
    and "storage_inv w' s'" and "made_with cfg s'"
    and "has_recipe w' s' (frh_fileNameHash (fileRecipeHead (recipe c))) (recipe c') (chunk_entries e ds)"
    and "list_all2 (entry_stored w' s') (chunk_entries e ds) (map stored_form ds)"
    and "recipeList c' = chunk_entries e ds"
    and "\<forall>g x. abs_store w s g = Some x \<longrightarrow> abs_store w' s' g = Some x"
    and "frh_totalChunkNumber (fileRecipeHead (recipe c')) = of_nat (length ds)"
    and "chunks_inv (map (fpr e) ds) (fileindex c')"
    and "idx_fileNameHash (fileindex c') = idx_fileNameHash (fileindex c)"
    and "fileindex_flag c = 0 \<longrightarrow> flat_index (fileindex c')"
    and "writable (w_fs w') = writable (w_fs w)"
    and "\<forall>p. (\<forall>n. p \<noteq> containerPath s n \<and> p \<noteq> recipePath s n) \<longrightarrow> files (w_fs w') p = files (w_fs w) p"
    and "containerPath s' = containerPath s" and "recipePath s' = recipePath s"
proof -
  have dig: "evp_digest_ok e" and fr: "fresh_chunker c" using rdy by (simp_all add: run_ready_def)
  obtain st where st: "chunking e md5 v c s w = Some (Inr (finish_recipe st))"
      "done_inv e cfg c (s, w) ds st"
    unfolding ds_def by (rule varSize_done [OF rdy])
  obtain c' s' w' where f: "finish_recipe st = (c', s', w')" using prod_cases3 by blast
  note ff = finish_recipe_facts [OF f]
  let ?s = "cs_storage st" and ?w = "cs_world st" and ?h = "frh_fileNameHash (fileRecipeHead (recipe c))"
  have d: "same_settings c (ck st)" "recipeList (ck st) = chunk_entries e ds" "stored_inv e cfg (s, w) ds (?s, ?w)"
    "chunkIDCnt st = of_nat (length ds)"
    using st(2) fr by (auto simp: done_inv_def fresh_chunker_def)
  have x: "chunks_inv (map (fpr e) ds) (fileindex (ck st))"
    "idx_fileNameHash (fileindex (ck st)) = idx_fileNameHash (fileindex c)"
    "fileindex_flag c = 0 \<longrightarrow> flat_index (fileindex (ck st))"
    using st(2) same_settingsD [OF d(1)] by (auto simp: done_inv_def)
  have rc: "recipe (ck st) = recipe c" using same_settingsD [OF d(1)] by simp
  have si: "storage_inv ?w ?s" "made_with cfg ?s" and fm: "frame w s ?w ?s"
    using d(3) by (auto simp: stored_inv_def store_inv_def)
  have len: "\<forall>x \<in> set ds. length x \<le> MAX_CHUNK_SIZE"
  proof -
    have "chunker_ok c" using fr by (simp add: fresh_chunker_def)
    then show ?thesis using ref_chunks_sizes(2) [of c] unfolding ds_def chunker_ok_def by fastforce
  qed
  note es = chunk_entries_stored [OF dig d(3) len]
  have np: "recipePath s n \<noteq> containerPath s m" for n m
    using rdy recipe_path_not_container by (auto simp: run_ready_def)
  have pre: "query (fileName2metaDB ?w) ?h = None" "database_inv (fileName2metaDB ?w)"
      "writable (w_fs ?w) (recipePath ?s (hex_name ?h))" "files (w_fs ?w) (recipePath ?s (hex_name ?h)) = None"
    using free fm np by (auto simp: recipe_free_def frame_def)
  have rok: "Recipe_ok (recipe c')" and h: "frh_fileNameHash (fileRecipeHead (recipe c')) = ?h"
    using free ff(7,8) rc by (simp_all add: recipe_free_def Recipe_ok_def)
  obtain w2 where w2: "checkRecipeStatus (recipe c') (chunk_entries e ds) ?s ?w = (True, w2)"
      "has_recipe w2 ?s ?h (recipe c') (chunk_entries e ds)"
      "w_fs w2 = (w_fs ?w)\<lparr>files := (files (w_fs ?w))(recipePath ?s (hex_name ?h)
         \<mapsto> Recipe_bytes (recipe c') @ concat (map RecipeEntry_bytes (chunk_entries e ds)))\<rparr>"
      "fp2ChunkDB w2 = fp2ChunkDB ?w" "containerDB w2 = containerDB ?w"
    using checkRecipeStatus_new [of ?w "recipe c'" ?s "chunk_entries e ds"] pre rok entries_stored_ok [OF es]
    unfolding h by blast
  note keep = storage_recipe_file [OF si w2(4,5,3)]
  have ww: "w' = w2" "s' = ?s" using ff(3,6) w2(1) d(2) by simp_all
  have old: "\<forall>g x. abs_store w s g = Some x \<longrightarrow> abs_store ?w ?s g = Some x"
    using d(3) by (simp add: stored_inv_def store_contents_def)
  show ?thesis
  proof (rule that)
    show "chunking e md5 v c s w = Some (Inr (c', s', w'))" using st(1) f by simp
    show "list_all2 (entry_stored w' s') (chunk_entries e ds) (map stored_form ds)"
      using es unfolding ww entry_stored_cong [OF keep(2)] .
  qed (use keep w2(2,3) si(2) ww old ff(1,2,4) d(2,4) x fm in \<open>simp_all add: frame_def\<close>)
qed

text \<open>C11: a file comes back.  After a run on a file whose recipe is new, the head of its recipe can
  be read, the chunks from 0 to the number of chunks in the head are restored, and their bytes in
  order are the file, with the zero bytes of each chunk before its last two places replaced by
  \<open>0x80\<close>; a file without zero bytes comes back as it was.  Chunks stored before the run are
  still there.\<close>

theorem chunked_file_restored:
  assumes "run_ready e md5 v cfg c s w" and "recipe_free c s w"
    and "length (ref_chunks c (v_winFp v) (chunkingFile c)) < 2 ^ 32"
  shows "\<exists>c' s' w' head cs s''. chunking e md5 v c s w = Some (Inr (c', s', w'))
     \<and> restoreRecipeHead (frh_fileNameHash (fileRecipeHead (recipe c))) s' w' = Some head
     \<and> restoreRecipeAndChunk da junk (frh_fileNameHash (fileRecipeHead (recipe c))) 0
          (ucast (frh_totalChunkNumber (fileRecipeHead head))) [] s' w' = Some (Inr (True, cs, s''))
     \<and> chunk_bytes cs = concat (map stored_form (ref_chunks c (v_winFp v) (chunkingFile c)))
     \<and> (0 \<notin> set (chunkingFile c) \<longrightarrow> chunk_bytes cs = chunkingFile c)
     \<and> (\<forall>g x. abs_store w s g = Some x \<longrightarrow> abs_store w' s' g = Some x)"
proof -
  let ?ds = "ref_chunks c (v_winFp v) (chunkingFile c)" and ?h = "frh_fileNameHash (fileRecipeHead (recipe c))"
  obtain c' s' w' where r: "chunking e md5 v c s w = Some (Inr (c', s', w'))"
    "storage_inv w' s'" "made_with cfg s'" "has_recipe w' s' ?h (recipe c') (chunk_entries e ?ds)"
    "list_all2 (entry_stored w' s') (chunk_entries e ?ds) (map stored_form ?ds)"
    "recipeList c' = chunk_entries e ?ds"
    "\<forall>g x. abs_store w s g = Some x \<longrightarrow> abs_store w' s' g = Some x"
    "frh_totalChunkNumber (fileRecipeHead (recipe c')) = of_nat (length ?ds)"
    by (rule run_restores [OF assms])
  have hd: "restoreRecipeHead ?h s' w' = Some (recipe c')"
    using r(4) recipel.length_enc [of "recipe c'"] recipel.dec_enc [of "recipe c'"]
    by (auto simp: restoreRecipeHead_def has_recipe_def)
  have l: "length (chunk_entries e ?ds) = length ?ds" by (simp add: chunk_entries_def)
  have n: "ucast (of_nat (length ?ds) :: u64) = (of_nat (length ?ds) :: u32)" by transfer simp
  obtain s'' where s'': "restoreRecipeAndChunk da junk ?h 0 (of_nat (length ?ds)) [] s' w'
      = Some (Inr (True, map2 (restored_chunk junk) (chunk_entries e ?ds) (map stored_form ?ds), s''))"
    using restoreRecipeAndChunk_all [OF r(2,4) _ r(5), of da junk "[]"] assms(3) l by auto
  have len: "\<forall>x \<in> set ?ds. length x \<le> MAX_CHUNK_SIZE"
    using assms(1) ref_chunks_sizes(2) [of c "v_winFp v" "chunkingFile c"]
    by (fastforce simp: run_ready_def fresh_chunker_def chunker_ok_def)
  note cb = chunk_bytes_restored [OF len, of junk e]
  have id: "0 \<notin> set (chunkingFile c) \<longrightarrow> concat (map stored_form ?ds) = chunkingFile c"
    using stored_form_concat_id [of ?ds] ref_chunks_concat [of c "v_winFp v" "chunkingFile c"] by simp
  show ?thesis
    using r(1,7,8) hd s'' n cb id
    by (intro exI [of _ c'] exI [of _ s'] exI [of _ w'] exI [of _ "recipe c'"]
        exI [of _ "map2 (restored_chunk junk) (chunk_entries e ?ds) (map stored_form ?ds)"] exI [of _ s'']) simp
qed

section \<open>A concrete run\<close>

definition toy_locals :: var_locals where
  "toy_locals = \<lparr>v_winFp = 0, v_chunkIndex = \<lparr>L0_chunkID = 0, L0_size = 0, L0_unique = 0, L0_fingerprint = []\<rparr>,
     v_segmentIndex = \<lparr>LP_segmentID = 0, LP_startChunkID = 0, LP_endChunkID = 0, LP_hash = []\<rparr>,
     v_containerIndex = \<lparr>L6_containerID = 0, L6_startSegmentID = 0, L6_endSegmentID = 0, L6_hash = []\<rparr>,
     v_tempsegmenthash = replicate 32 0, v_tempcontainerhash = replicate 32 0, v_stack = (\<lambda>_. toy_key)\<rparr>"

definition toy_file :: bytes where
  "toy_file = [1, 2, 3, 4, 5, 6, 7, 8, 9, 10, 11, 12]"

definition toy_md5 :: "bytes \<Rightarrow> bytes" where
  "toy_md5 d = replicate 16 7"

definition toy_blank :: Chunker where
  "toy_blank = \<lparr>recipeList = [], ChunkerType = 0, avgChunkSize = 0, minChunkSize = 0, maxChunkSize = 0,
     slidingWinSize = 0, ReadSize = 0, polyBase = 0, polyMOD = 0, powerLUT = [], removeLUT = [],
     anchorMask = 0, anchorValue = 0, recipe = toy_recipe,
     fileindex = \<lparr>idx_fileNameHash = [], idx_segmentnumber = 0, idx_containernumber = 0,
       idx_chunknumber = 0, idx_chunk = [], idx_segment = [], idx_container = []\<rparr>,
     chunkingFile = [], fileindex_flag = 0\<rparr>"

definition toy_path :: bytes where
  "toy_path = str ''f''"

definition toy_settings :: Chunker where
  "toy_settings = toy_blank\<lparr>minChunkSize := 3, maxChunkSize := 8, slidingWinSize := 2, anchorMask := 3\<rparr>"

definition toy_disk :: world where
  "toy_disk = toy_world\<lparr>w_fs := (w_fs toy_world)\<lparr>files := [toy_path \<mapsto> toy_file]\<rparr>\<rparr>"

definition toy_chunker :: Chunker where
  "toy_chunker = (case newChunker toy_evp toy_config (w_fs toy_disk) toy_blank toy_path 1 of Inr c \<Rightarrow> c)"

lemma toy_config_ok: "var_config_ok toy_config"
  by (simp add: var_config_ok_def toy_config_def config_defs size_defs)

text \<open>A chunker made for any file with the contents \<open>toy_file\<close>.\<close>

lemma toy_new_chunker:
  assumes "files fs path = Some toy_file" and "flag = 0 \<or> flag = 1"
  obtains c where "newChunker toy_evp toy_config fs toy_blank path flag = Inr c"
    and "fresh_chunker c" and "chunkingFile c = toy_file" and "chunk_end c = chunk_end toy_settings"
    and "Recipe_ok (recipe c)" and "fileindex_flag c = flag"
    and "frh_fileNameHash (fileRecipeHead (recipe c)) = path_hash toy_evp path"
proof -
  obtain c n where c: "newChunker toy_evp toy_config fs toy_blank path flag = Inr c"
    "fresh_chunker c" "chunkingFile c = toy_file" "fileindex_flag c = flag"
    "minChunkSize c = int (unat (getMinChunkSize toy_config))" "maxChunkSize c = int (unat (getMaxChunkSize toy_config))"
    "slidingWinSize c = int (unat (getSlidingWinSize toy_config))"
    "anchorMask c = push_bit n 1 - 1" "2 ^ n \<le> unat (getAverageChunkSize toy_config)"
    "unat (getAverageChunkSize toy_config) < 2 ^ Suc n"
    "frh_fileNameHash (fileRecipeHead (recipe c)) = path_hash toy_evp path"
    "krh_fileNameHash (keyRecipeHead (recipe c)) = path_hash toy_evp path"
    by (rule newChunker_ok [OF toy_config_ok assms, of toy_evp toy_blank])
  have pw: "2 ^ n \<le> (4 :: nat)" "(4 :: nat) < 2 ^ Suc n"
    using c(9,10) by (simp_all add: toy_config_def config_defs)
  have "n = 2"
  proof (rule ccontr)
    assume "n \<noteq> 2"
    then consider "n \<le> 1" | "3 \<le> n" by linarith
    then show False
    proof cases
      case 1
      then have "(2 :: nat) ^ Suc n \<le> 2 ^ 2" by (intro power_increasing) simp_all
      then show False using pw(2) by simp
    next
      case 2
      then have "(2 :: nat) ^ 3 \<le> 2 ^ n" by (intro power_increasing) simp_all
      then show False using pw(1) by simp
    qed
  qed
  then have "chunk_end c = chunk_end toy_settings"
    using c(5-8) by (simp add: fun_eq_iff chunk_end_def toy_settings_def toy_blank_def toy_config_def config_defs)
  then show ?thesis
    using that c length_path_hash [OF toy_evp_ok(2), of path] by (simp add: Recipe_ok_def)
qed

lemma toy_chunker_facts:
  shows "newChunker toy_evp toy_config (w_fs toy_disk) toy_blank toy_path 1 = Inr toy_chunker"
    and "fresh_chunker toy_chunker" and "chunkingFile toy_chunker = toy_file"
    and "chunk_end toy_chunker = chunk_end toy_settings" and "Recipe_ok (recipe toy_chunker)"
    and "fileindex_flag toy_chunker = 1"
proof -
  have f: "files (w_fs toy_disk) toy_path = Some toy_file" by (simp add: toy_disk_def)
  have flag: "(1 :: int) = 0 \<or> (1 :: int) = 1" by simp
  obtain c where c: "newChunker toy_evp toy_config (w_fs toy_disk) toy_blank toy_path 1 = Inr c"
    "fresh_chunker c" "chunkingFile c = toy_file" "chunk_end c = chunk_end toy_settings" "Recipe_ok (recipe c)"
    "fileindex_flag c = 1"
    by (rule toy_new_chunker [OF f flag])
  moreover have "toy_chunker = c" using c(1) by (simp add: toy_chunker_def)
  ultimately show "newChunker toy_evp toy_config (w_fs toy_disk) toy_blank toy_path 1 = Inr toy_chunker"
    "fresh_chunker toy_chunker" "chunkingFile toy_chunker = toy_file"
    "chunk_end toy_chunker = chunk_end toy_settings" "Recipe_ok (recipe toy_chunker)"
    "fileindex_flag toy_chunker = 1" by simp_all
qed

lemma toy_settings_chunks:
  "ref_chunks toy_settings 0 toy_file = [[1, 2, 3, 4, 5, 6, 7, 8], [9, 10, 11, 12]]"
  "ref_chunks toy_settings 1 toy_file = [[1, 2, 3, 4], [5, 6, 7, 8, 9, 10, 11, 12]]"
  "snd (ref_run toy_settings 0 [] toy_file) = [9, 10, 11, 12]"
  by code_simp+

lemma toy_chunks:
  "ref_chunks toy_chunker 0 toy_file = [[1, 2, 3, 4, 5, 6, 7, 8], [9, 10, 11, 12]]"
  "ref_chunks toy_chunker 1 toy_file = [[1, 2, 3, 4], [5, 6, 7, 8, 9, 10, 11, 12]]"
  "snd (ref_run toy_chunker 0 [] toy_file) = [9, 10, 11, 12]"
  unfolding ref_chunks_chunk_end [OF toy_chunker_facts(4)] ref_run_chunk_end [OF toy_chunker_facts(4)]
  by (rule toy_settings_chunks)+

lemma toy_disk_facts:
  "storage_inv toy_disk toy_storage" "abs_store toy_disk toy_storage = Map.empty"
  "fileName2metaDB toy_disk = empty_db (str ''db2'')" "writable (w_fs toy_disk) p"
  "files (w_fs toy_disk) (recipePath toy_storage n) = None"
proof -
  have np: "\<forall>n. toy_path \<noteq> containerPath toy_storage n"
    by (simp add: toy_path_def containerPath_def toy_storage_eq str_def)
  note o = storage_inv_other_file [OF toy_storage_inv np, of "Some toy_file"]
  have w: "toy_disk = toy_world\<lparr>w_fs := (w_fs toy_world)\<lparr>files := (files (w_fs toy_world))(toy_path := Some toy_file)\<rparr>\<rparr>"
    by (simp add: toy_disk_def toy_world_def)
  show "storage_inv toy_disk toy_storage" unfolding w by (rule o(1))
  have "abs_store toy_world toy_storage = Map.empty"
    by (simp add: abs_store_def toy_world_def fun_eq_iff)
  then show "abs_store toy_disk toy_storage = Map.empty" unfolding w o(2) .
  show "fileName2metaDB toy_disk = empty_db (str ''db2'')" "writable (w_fs toy_disk) p"
    by (simp_all add: toy_disk_def toy_world_def)
  show "files (w_fs toy_disk) (recipePath toy_storage n) = None"
    by (simp add: toy_disk_def toy_world_def recipePath_def toy_storage_eq toy_path_def str_def)
qed

lemma toy_room: "2 \<le> names_left (lastContainerFileName toy_storage)"
proof -
  let ?n = "lastContainerFileName toy_storage"
  have a: "next_permutation ?n = (True, snd (next_permutation ?n))"
    using initial_name_facts(2) by (simp add: toy_storage_eq prod_eq_iff)
  have b: "fst (next_permutation (snd (next_permutation initial_name)))" by code_simp
  have "0 < names_left (snd (next_permutation ?n))" using names_left_pos [THEN iffD2, OF b] by (simp add: toy_storage_eq)
  then show ?thesis using names_left_next [OF a] by simp
qed

lemma toy_storable:
  assumes "ds = [[1, 2, 3, 4, 5, 6, 7, 8], [9, 10, 11, 12]] \<or> ds = [[1, 2, 3, 4], [5, 6, 7, 8, 9, 10, 11, 12]]"
    and empty: "abs_store w toy_storage = Map.empty"
  shows "storable toy_evp (\<lambda>_. toy_key) (toy_storage, w) ds"
proof -
  have k: "stack_ok (\<lambda>_. toy_key)" by (simp add: stack_ok_def toy_key_def)
  have n: "fpr toy_evp [1, 2, 3, 4, 5, 6, 7, 8] \<noteq> fpr toy_evp [9, 10, 11, 12]"
    "fpr toy_evp [1, 2, 3, 4] \<noteq> fpr toy_evp [5, 6, 7, 8, 9, 10, 11, 12]"
    by code_simp+
  have c: "store_contents (toy_storage, w) g = None" for g
    by (simp add: store_contents_def empty)
  have f: "store_fits (\<lambda>_. toy_key) (toy_storage, w) d \<longleftrightarrow> 2 \<le> length d \<and> length d \<le> 10" for d
    using k by (auto simp: store_fits_def toy_storage_eq size_defs)
  have r: "2 \<le> store_room (toy_storage, w)" using toy_room by (simp add: store_room_def)
  show ?thesis
    using assms(1) n n [symmetric] r by (elim disjE) (auto simp: storable_def c f)
qed

lemma toy_ready:
  assumes "x = 0 \<or> x = 1"
  shows "run_ready toy_evp toy_md5 (toy_locals\<lparr>v_winFp := x\<rparr>) toy_config toy_chunker toy_storage toy_disk"
  using assms toy_chunks toy_evp_ok(2) toy_chunker_facts(2,3) toy_disk_facts(1) toy_made
    toy_storable [OF disjI1 [OF refl] toy_disk_facts(2)] toy_storable [OF disjI2 [OF refl] toy_disk_facts(2)]
  by (auto simp: run_ready_def toy_locals_def md5_ok_def toy_md5_def)

lemma toy_free: "recipe_free toy_chunker toy_storage toy_disk"
  using toy_chunker_facts(5) by (simp add: recipe_free_def toy_disk_facts)

theorem chunking_lossless_witness:
  "\<exists>c' s' w' ds. chunking toy_evp toy_md5 (toy_locals\<lparr>v_winFp := 0\<rparr>) toy_chunker toy_storage toy_disk
       = Some (Inr (c', s', w'))
     \<and> concat ds = toy_file \<and> recipeList c' = chunk_entries toy_evp ds
     \<and> (\<forall>d \<in> set ds. abs_store w' s' (fpr toy_evp d) = Some (0, stored_form d))"
proof -
  obtain c' s' w' ds where "chunking toy_evp toy_md5 (toy_locals\<lparr>v_winFp := 0\<rparr>) toy_chunker toy_storage toy_disk
      = Some (Inr (c', s', w'))" "concat ds = chunkingFile toy_chunker" "recipeList c' = chunk_entries toy_evp ds"
      "\<forall>d \<in> set ds. abs_store w' s' (fpr toy_evp d) = Some (0, stored_form d)"
    using chunking_lossless [OF toy_ready [OF disjI1 [OF refl]]] by (elim exE conjE) (rule that)
  then show ?thesis unfolding toy_chunker_facts(3) by blast
qed


theorem chunked_file_restored_witness:
  "\<exists>c' s' w' cs s''. chunking toy_evp toy_md5 (toy_locals\<lparr>v_winFp := 0\<rparr>) toy_chunker toy_storage toy_disk
       = Some (Inr (c', s', w'))
     \<and> restoreRecipeAndChunk (\<lambda>_ _. []) toy_restored
          (frh_fileNameHash (fileRecipeHead (recipe toy_chunker))) 0 2 [] s' w' = Some (Inr (True, cs, s''))
     \<and> chunk_bytes cs = toy_file"
proof -
  let ?v = "toy_locals\<lparr>v_winFp := 0\<rparr>"
  have n: "length (ref_chunks toy_chunker (v_winFp ?v) (chunkingFile toy_chunker)) < 2 ^ 32"
    by (simp add: toy_chunks toy_chunker_facts(3))
  have z: "0 \<notin> set toy_file" by (simp add: toy_file_def)
  obtain c' s' w' head cs s'' where r: "chunking toy_evp toy_md5 ?v toy_chunker toy_storage toy_disk = Some (Inr (c', s', w'))"
      "restoreRecipeHead (frh_fileNameHash (fileRecipeHead (recipe toy_chunker))) s' w' = Some head"
      "restoreRecipeAndChunk (\<lambda>_ _. []) toy_restored (frh_fileNameHash (fileRecipeHead (recipe toy_chunker))) 0
         (ucast (frh_totalChunkNumber (fileRecipeHead head))) [] s' w' = Some (Inr (True, cs, s''))"
      "chunk_bytes cs = toy_file"
    using chunked_file_restored [OF toy_ready [OF disjI1 [OF refl]] toy_free n, of "\<lambda>_ _. []" toy_restored] z
      toy_chunker_facts(3) by auto
  obtain c2 s2 w2 where d: "chunking toy_evp toy_md5 ?v toy_chunker toy_storage toy_disk = Some (Inr (c2, s2, w2))"
      "has_recipe w2 s2 (frh_fileNameHash (fileRecipeHead (recipe toy_chunker))) (recipe c2)
         (chunk_entries toy_evp (ref_chunks toy_chunker (v_winFp ?v) (chunkingFile toy_chunker)))"
      "frh_totalChunkNumber (fileRecipeHead (recipe c2))
         = of_nat (length (ref_chunks toy_chunker (v_winFp ?v) (chunkingFile toy_chunker)))"
    by (rule run_restores [OF toy_ready [OF disjI1 [OF refl]] toy_free n])
  have "head = recipe c'"
    using r(1,2) d(1,2) recipel.length_enc [of "recipe c'"] recipel.dec_enc [of "recipe c'"]
    by (auto simp: restoreRecipeHead_def has_recipe_def)
  then have "frh_totalChunkNumber (fileRecipeHead head) = 2"
    using d r(1) by (simp add: toy_chunks toy_chunker_facts(3))
  then show ?thesis using r by auto
qed

end
