(* ===== verification/Chunker_Details.thy ===== *)
theory Chunker_Details
  imports Chunker_Properties
begin

text \<open>
  More about the chunker: one step of the loop against the reference, the uninitialised window
  value, files of one byte, the index file, and fixed-size chunking.
\<close>

section \<open>One step\<close>

text \<open>C14: one turn of the byte loop, with its tables and its two conditions, does what the
  reference says: \<open>winFp\<close> becomes the polynomial of the bytes in the window (with what it held at
  the start of the chunk carried along), and the chunk is completed exactly when it is longer than
  the window, has the minimum size, and either the masked value is zero or the maximum size is
  reached.  The chunk buffer and the tables are never read or written outside their bounds.\<close>

theorem byte_step_reference:
  assumes "chunker_ok (ck st)" and "int (length (cs_buf st)) < maxChunkSize (ck st)"
    and "winFp st = fp_spec (nat (slidingWinSize (ck st))) fp0 (cs_buf st)"
  shows "byte_step e stack b st =
    (let st1 = st\<lparr>cs_buf := cs_buf st @ [b],
                  winFp := fp_spec (nat (slidingWinSize (ck st))) fp0 (cs_buf st @ [b])\<rparr>
     in if chunk_end (ck st) fp0 (cs_buf st @ [b]) then complete_chunk e stack st1 else Inr (Go st1))"
  unfolding Let_def by (rule byte_step_cut [OF assms])

lemma toy_start:
  "ck (var_start toy_locals toy_chunker toy_storage toy_disk) = toy_chunker
     \<lparr>fileindex := (fileindex toy_chunker)\<lparr>idx_segmentnumber := 0, idx_containernumber := 0, idx_chunknumber := 0\<rparr>\<rparr>"
  "cs_buf (var_start toy_locals toy_chunker toy_storage toy_disk) = []"
  "winFp (var_start toy_locals toy_chunker toy_storage toy_disk) = 0"
  by (simp_all add: var_start_def toy_locals_def)

theorem byte_step_reference_witness:
  "\<exists>st'. byte_step toy_evp (\<lambda>_. toy_key) 7 (var_start toy_locals toy_chunker toy_storage toy_disk) = Inr (Go st')
     \<and> cs_buf st' = [7]"
proof -
  let ?st = "var_start toy_locals toy_chunker toy_storage toy_disk"
  have ss: "same_settings toy_chunker (ck ?st)" by (cases toy_chunker) (simp add: toy_start same_settings_def)
  have ok: "chunker_ok (ck ?st)"
    using toy_chunker_facts(2) same_settingsD(9) [OF ss] by (simp add: fresh_chunker_def)
  have m: "int (length (cs_buf ?st)) < maxChunkSize (ck ?st)" and win: "0 < slidingWinSize (ck ?st)"
    using ok by (simp_all add: toy_start chunker_ok_def rolling_ok_def)
  have fp: "winFp ?st = fp_spec (nat (slidingWinSize (ck ?st))) 0 (cs_buf ?st)" by (simp add: toy_start(2,3))
  have "\<not> chunk_end (ck ?st) 0 (cs_buf ?st @ [7])" using win by (simp add: chunk_end_def toy_start(2))
  then show ?thesis
    using byte_step_reference [OF ok m fp, of toy_evp "\<lambda>_. toy_key" 7] by (simp add: Let_def toy_start(2))
qed

section \<open>The uninitialised window value\<close>

lemma entry_sizes: "map entry_chunkSize (chunk_entries e ds) = map (int \<circ> length) ds"
  by (rule nth_equalityI) (simp_all add: chunk_entries_def chunk_entry_def)

lemma toy_run_sizes:
  assumes "x = 0 \<or> x = 1"
  shows "\<exists>c' s' w'. chunking toy_evp toy_md5 (toy_locals\<lparr>v_winFp := x\<rparr>) toy_chunker toy_storage toy_disk
      = Some (Inr (c', s', w'))
    \<and> map entry_chunkSize (recipeList c') = map (int \<circ> length) (ref_chunks toy_chunker x toy_file)"
proof -
  let ?v = "toy_locals\<lparr>v_winFp := x\<rparr>"
  obtain st where st: "chunking toy_evp toy_md5 ?v toy_chunker toy_storage toy_disk = Some (Inr (finish_recipe st))"
      "done_inv toy_evp toy_config toy_chunker (toy_storage, toy_disk)
        (ref_chunks toy_chunker (v_winFp ?v) (chunkingFile toy_chunker)) st"
    by (rule varSize_done [OF toy_ready [OF assms]])
  obtain c' s' w' where f: "finish_recipe st = (c', s', w')" using prod_cases3 by blast
  show ?thesis
    using st f finish_recipe_facts(1) [OF f] toy_chunker_facts(2,3)
    by (auto simp: done_inv_def fresh_chunker_def entry_sizes)
qed

text \<open>The first chunk of a file depends on the value that the uninitialised variable
  \<open>winFp\<close> happens to hold: one file, chunked twice with the same settings into the same store, is cut
  into chunks of 8 and 4 bytes in one run and of 4 and 8 bytes in the other.\<close>

lemma uninitialised_window_matters:
  "\<exists>c1 s1 w1 c2 s2 w2.
     chunking toy_evp toy_md5 (toy_locals\<lparr>v_winFp := 0\<rparr>) toy_chunker toy_storage toy_disk = Some (Inr (c1, s1, w1))
     \<and> chunking toy_evp toy_md5 (toy_locals\<lparr>v_winFp := 1\<rparr>) toy_chunker toy_storage toy_disk = Some (Inr (c2, s2, w2))
     \<and> map entry_chunkSize (recipeList c1) = [8, 4] \<and> map entry_chunkSize (recipeList c2) = [4, 8]"
  using toy_run_sizes [of 0] toy_run_sizes [of 1] by (auto simp: toy_chunks)

section \<open>A file of one byte\<close>

lemma final_short:
  assumes dig: "evp_digest_ok e" and buf: "cs_buf st = [b]"
    and new: "query (fp2ChunkDB (cs_world st)) (fpr e [b]) = None"
  shows "final_chunk e md5 junk1 junk2 stack st = Inl OutOfBounds"
proof -
  note f = fpr_facts [OF dig, of "[b]"]
  have z: "replace_zeros 1 (pad_chunk [b]) = Inl OutOfBounds"
    using replace_zeros_short [of 1 "pad_chunk [b]"] by (simp add: pad_chunk_def size_defs)
  have "dedup_store stack (fpr e [b] @ [0]) [b] (cs_storage st) (cs_world st) = Inl OutOfBounds"
    using f new z by (simp add: dedup_store_def c_string_terminated saveChunk_def Let_def)
  then have "dedup_chunk stack (fpr e [b] @ [0]) (recipe_chunk (fpr e [b] @ [0]) st) = Inl OutOfBounds"
    using buf by (simp add: dedup_chunk_def recipe_chunk_def)
  then show ?thesis using buf f(1) by (simp add: final_chunk_def size_defs)
qed

text \<open>C16: chunking a file that ends in a chunk of one byte not seen before, such as a file of one
  byte, runs outside the chunk: the last chunk is stored whatever its size, and \<open>saveChunk\<close> cannot
  take fewer than two bytes.\<close>

theorem one_byte_file_out_of_bounds:
  assumes dig: "evp_digest_ok e" and fr: "fresh_chunker c" and f: "chunkingFile c = [b]"
    and inv: "storage_inv w s" and made: "made_with cfg s"
    and new: "query (fp2ChunkDB w) (fpr e [b]) = None"
  shows "chunking e md5 v c s w = Some (Inl OutOfBounds)"
proof -
  let ?st = "var_start v c s w"
  let ?c0 = "ck (var_start v c s w)"
  have ss: "same_settings c ?c0" by (cases c) (simp add: var_start_def same_settings_def)
  have ok: "chunker_ok ?c0" using fr same_settingsD(9) [OF ss] by (simp add: fresh_chunker_def)
  have buf: "cs_buf ?st = []" "winFp ?st = v_winFp v" by (simp_all add: var_start_def)
  have start: "run_inv e cfg ?c0 (s, w) [] ?st"
    using fr inv made
    by (simp add: run_inv_def var_start_def chunk_entries_def stored_inv_def store_inv_def
        dedup.holds_nil index_inv_def flat_index_def chunks_inv_def levels_inv_def numbered_def segment_spans_def
        container_spans_def fresh_chunker_def)
  have m: "int (length (cs_buf ?st)) < maxChunkSize ?c0"
    using ok buf by (simp add: chunker_ok_def rolling_ok_def)
  have fp: "winFp ?st = fp_spec (nat (slidingWinSize ?c0)) (v_winFp v) (cs_buf ?st)" by (simp add: buf)
  have rr: "ref_run ?c0 (v_winFp v) (cs_buf ?st) (chunkingFile c) = ([], [b])"
    using ok buf f by (simp add: chunk_end_def chunker_ok_def rolling_ok_def)
  have so: "storable e (v_stack v) (s, w) ([] @ [] @ [])" by (simp add: storable_def)
  obtain st1 where st1: "read_loop e (v_stack v) (chunkingFile c) ?st = Some (Inr (Go st1))"
      "run_inv e cfg ?c0 (s, w) ([] @ []) st1" "cs_buf st1 = [b]"
    using read_loop_ok [OF dig ok start m fp rr so] by blast
  have "abs_store (cs_world st1) (cs_storage st1) (fpr e [b]) = abs_store w s (fpr e [b])"
    using st1(2) by (simp add: run_inv_def stored_inv_def store_contents_def)
  then have "query (fp2ChunkDB (cs_world st1)) (fpr e [b]) = None" using new by (simp add: abs_store_def)
  then show ?thesis
    using final_short [OF dig st1(3)] st1(1) fr
    by (simp add: chunking_def varSizeChunking_def fresh_chunker_def size_defs)
qed

lemma toy_one_byte: "fresh_chunker (toy_chunker\<lparr>chunkingFile := [7]\<rparr>)"
  using toy_chunker_facts(2) by (cases toy_chunker) (simp add: fresh_chunker_def chunker_ok_def rolling_ok_def)

theorem one_byte_file_out_of_bounds_witness:
  "chunking toy_evp toy_md5 toy_locals (toy_chunker\<lparr>chunkingFile := [7]\<rparr>) toy_storage toy_disk = Some (Inl OutOfBounds)"
proof -
  have "query (fp2ChunkDB toy_disk) (fpr toy_evp [7]) = None" by (simp add: toy_disk_def toy_world_def)
  then show ?thesis
    by (intro one_byte_file_out_of_bounds [OF toy_evp_ok(2) toy_one_byte _ toy_disk_facts(1) toy_made]) simp_all
qed

end
