(* ===== verification/Dector.thy ===== *)
theory Dector
  imports Chunker
begin

text \<open>
  \<open>Dector\<close> (\<open>src/dector.cc\<close>): walks the chunk lists of the indexes of two versions of a file,
  pairs the regions that differ, logs the fingerprints at their ends to \<open>similar.log\<close> and enters
  the unique chunks inside them, with their super features, into a MongoDB collection.  The
  MongoDB client and the feature extraction of \<open>libsim.a\<close> are parameters.
\<close>

section \<open>The document store\<close>

text \<open>The documents the program builds, and the operations of the collection \<open>test.restaurants\<close>
  it uses, on a state of type \<open>'m\<close>: inserting a document, the values of \<open>group_number\<close> of the
  documents matching \<open>{group_number: "0"}\<close>, the groups of \<open>{group: "-1"}\<close> by a super feature with
  their sizes (a document without the field falls in the group \<open>None\<close>), the fingerprints of the
  documents with a given super feature, and setting \<open>group\<close> to \<open>"1"\<close> in them.\<close>

datatype bson = BString bytes | BArray "bson list" | BDocument "(string \<times> bson) list"

record 'm mongo =
  insert_one :: "(string \<times> bson) list \<Rightarrow> 'm \<Rightarrow> 'm"
  find_group_number :: "'m \<Rightarrow> bytes list"
  aggregate_group :: "string \<Rightarrow> 'm \<Rightarrow> (bytes option \<times> int) list"
  find_hash :: "string \<Rightarrow> bytes \<Rightarrow> 'm \<Rightarrow> bytes list"
  update_group :: "string \<Rightarrow> bytes \<Rightarrow> 'm \<Rightarrow> 'm"

section \<open>The object\<close>

record Dector =
  d_log :: bytes
  d_containerPair :: "Pair list"
  d_segmentPair :: "Pair list"
  d_transferPair :: "Pair list"
  d_containerpairnumber :: int
  d_segmentpairnumber :: int
  d_transferpairnumber :: int

definition gettransfers :: "Dector \<Rightarrow> Pair list" where
  "gettransfers d = d_transferPair d"

definition gettransfercount :: "Dector \<Rightarrow> int" where
  "gettransfercount d = d_transferpairnumber d"

text \<open>The three detectors that are stubs.\<close>

definition ContainerDector :: "Index \<Rightarrow> Index \<Rightarrow> Dector \<Rightarrow> Pair list" where
  "ContainerDector fileindex_1 fileindex_2 d = d_containerPair d"

definition SegmentDector :: "Index \<Rightarrow> Index \<Rightarrow> Dector \<Rightarrow> Pair list" where
  "SegmentDector fileindex_1 fileindex_2 d = d_segmentPair d"

definition transferDector :: "Index \<Rightarrow> Index \<Rightarrow> Dector \<Rightarrow> Pair list" where
  "transferDector fileindex_1 fileindex_2 d = d_transferPair d"

section \<open>The state of the search\<close>

text \<open>The local variables of \<open>truetransferDector\<close> that live across turns of its loop, with the
  members it changes.\<close>

record search =
  s_flag :: int
  s_before :: int
  s_after :: int
  s_size :: int
  s_i1 :: int
  s_i2 :: int
  s_pairs :: "Pair list"
  s_pairnumber :: int
  s_log :: bytes
  s_new :: ChunkList_t
  s_old :: ChunkList_t
  s_equalSizes :: u64
  s_storage :: StorageCore

definition chunk_hash :: "Index \<Rightarrow> int \<Rightarrow> bytes result" where
  "chunk_hash idx i = and_then (vec_at (idx_chunk idx) i) (\<lambda>c. Inr (L0_fingerprint c))"

definition chunk_unique :: "Index \<Rightarrow> int \<Rightarrow> bool result" where
  "chunk_unique idx i = and_then (vec_at (idx_chunk idx) i) (\<lambda>c. Inr (L0_unique c \<noteq> 0))"

text \<open>\<open>log.write\<close> of the fingerprint of a chunk of the first and of one of the second file.\<close>

definition log_pair :: "Index \<Rightarrow> Index \<Rightarrow> int \<Rightarrow> int \<Rightarrow> bytes \<Rightarrow> bytes result" where
  "log_pair f1 f2 i j lg =
     and_then (chunk_hash f1 i) (\<lambda>h1. and_then (chunk_hash f2 j) (\<lambda>h2. Inr (lg @ h1 @ h2)))"

text \<open>The chunks strictly inside a region that starts at \<open>stand\<close> and ends before \<open>i\<close>, appended to
  \<open>acc\<close>; the returned \<open>bool\<close> is ignored.\<close>

definition restore_region ::
  "(bytes \<Rightarrow> bytes \<Rightarrow> bytes) \<Rightarrow> Chunk_t \<Rightarrow> world \<Rightarrow> Index \<Rightarrow> int \<Rightarrow> int \<Rightarrow> ChunkList_t \<Rightarrow> StorageCore
     \<Rightarrow> (ChunkList_t \<times> StorageCore) result option" where
  "restore_region da junk w idx stand i acc s =
     (if stand < i - 2 then
        opt_then (restoreRecipeAndChunk da junk (idx_fileNameHash idx) (word_of_int (stand + 1))
                    (word_of_int (i - 1)) acc s w)
          (\<lambda>(_, acc', s'). Some (Inr (acc', s')))
      else Some (Inr (acc, s)))"

definition push_pair :: "int \<Rightarrow> int \<Rightarrow> search \<Rightarrow> search" where
  "push_pair i j st = st\<lparr>s_pairs := s_pairs st @ [\<lparr>newID = i, oldID = j\<rparr>],
     s_pairnumber := s_pairnumber st + 1\<rparr>"

text \<open>\<open>transferPair[transferPair.size() - 2]\<close>, where the open region began.\<close>

definition region_start :: "search \<Rightarrow> Pair result" where
  "region_start st = vec_at (s_pairs st) (int (length (s_pairs st)) - 2)"

section \<open>Equal chunks\<close>

text \<open>An open region (\<open>flag = 2\<close>) ends where the chunks are equal again.  The lists the chunks are
  restored into are local to the block: they shadow the outer ones and are dropped.\<close>

definition close_region ::
  "(bytes \<Rightarrow> bytes \<Rightarrow> bytes) \<Rightarrow> Chunk_t \<Rightarrow> world \<Rightarrow> Index \<Rightarrow> Index \<Rightarrow> search \<Rightarrow> search result option" where
  "close_region da junk w f1 f2 st =
     (let i1 = s_i1 st; i2 = s_i2 st;
          st1 = push_pair (i1 - 1) (i2 - 1) (st\<lparr>s_after := 0, s_flag := 0\<rparr>) in
      opt_then (Some (region_start st1)) (\<lambda>p.
      opt_then (Some (log_pair f1 f2 (i1 - 1) (i2 - 1) (s_log st1))) (\<lambda>lg.
      opt_then (restore_region da junk w f1 (newID p) i1 [] (s_storage st1)) (\<lambda>(_, s1).
      opt_then (restore_region da junk w f2 (oldID p) i2 [] s1) (\<lambda>(_, s2).
        Some (Inr (st1\<lparr>s_log := lg, s_storage := s2\<rparr>)))))))"

definition equal_step ::
  "(bytes \<Rightarrow> bytes \<Rightarrow> bytes) \<Rightarrow> Chunk_t \<Rightarrow> Configure \<Rightarrow> world \<Rightarrow> Index \<Rightarrow> Index \<Rightarrow> search \<Rightarrow> search result option" where
  "equal_step da junk cfg w f1 f2 st =
     opt_then (if s_flag st = 2 then close_region da junk w f1 f2 st else Some (Inr st)) (\<lambda>st1.
     opt_then (Some (vec_at (idx_chunk f2) (s_i2 st1))) (\<lambda>c.
       Some (Inr (st1\<lparr>s_equalSizes := s_equalSizes st1 + word_of_int (L0_size c),
                      s_size := int_of_u64 (getMinSlidingWinSize cfg),
                      s_i1 := s_i1 st1 + 1, s_i2 := s_i2 st1 + 1\<rparr>))))"

section \<open>Different chunks\<close>

text \<open>How the inner loop ends: at an equal chunk, with the window exhausted, or, with a window of
  no size, without a turn.\<close>

datatype scan_end = Found int int | GaveUp int | NoTurn int

text \<open>The inner loop: \<open>k\<close> runs over the window of the first file, \<open>i_2\<close> moves on when the window
  is through; \<open>i_1\<close> is reset to \<open>stand1\<close> each time, so it is constant until the end.\<close>

function scan :: "Index \<Rightarrow> Index \<Rightarrow> int \<Rightarrow> int \<Rightarrow> int \<Rightarrow> int \<Rightarrow> int \<Rightarrow> scan_end result" where
  "scan f1 f2 win i1 k i2 cnt =
     (if \<not> k < win then Inr (NoTurn i2)
      else and_then (chunk_hash f1 (i1 + k)) (\<lambda>temphash1.
           and_then (chunk_hash f2 i2) (\<lambda>temphash2.
             if temphash1 = temphash2 then Inr (Found k i2)
             else if i1 + k \<ge> idx_chunknumber f1 \<or> k = win - 1 then
               (if cnt + 1 \<ge> win then Inr (GaveUp (i2 + 1))
                else scan f1 f2 win i1 0 (i2 + 1) (cnt + 1))
             else scan f1 f2 win i1 (k + 1) i2 cnt)))"
  by pat_completeness auto
termination
  by (relation "measures [\<lambda>(f1, f2, win, i1, k, i2, cnt). nat (int (length (idx_chunk f2)) - i2),
        \<lambda>(f1, f2, win, i1, k, i2, cnt). nat (win - k)]")
    (auto simp: chunk_hash_def res_simps)

declare scan.simps [simp del]

definition after_scan :: "Configure \<Rightarrow> scan_end \<Rightarrow> search \<Rightarrow> search" where
  "after_scan cfg r st =
     (case r of
        Found k i2 \<Rightarrow>
          (if s_flag st = 2
           then st\<lparr>s_after := 1, s_size := int_of_u64 (getMinSlidingWinSize cfg),
                   s_i1 := s_i1 st + k, s_i2 := i2\<rparr>
           else st\<lparr>s_flag := 1, s_size := int_of_u64 (getMinSlidingWinSize cfg),
                   s_i1 := s_i1 st + k, s_i2 := i2\<rparr>)
      | GaveUp i2 \<Rightarrow>
          st\<lparr>s_flag := 2, s_before := 1, s_size := int_of_u64 (getMaxSlidingWinSize cfg),
             s_i1 := i2, s_i2 := i2\<rparr>
      | NoTurn i2 \<Rightarrow> st\<lparr>s_i2 := i2\<rparr>)"

text \<open>A region whose ends were both found in the window.\<close>

definition pair_region ::
  "(bytes \<Rightarrow> bytes \<Rightarrow> bytes) \<Rightarrow> Chunk_t \<Rightarrow> world \<Rightarrow> Index \<Rightarrow> Index \<Rightarrow> int \<Rightarrow> int \<Rightarrow> search \<Rightarrow> search result option" where
  "pair_region da junk w f1 f2 stand1 stand2 st =
     (let i1 = s_i1 st; i2 = s_i2 st in
      if s_flag st = 1 \<and> i1 \<noteq> stand1 \<and> i2 \<noteq> stand2 \<and> i1 - 1 \<noteq> stand1 \<and> i2 - 1 \<noteq> stand2 then
        (let st1 = push_pair (i1 - 1) (i2 - 1) (push_pair stand1 stand2 st) in
         opt_then (Some (and_then (chunk_unique f2 stand2) (\<lambda>u.
                     if u then chunk_unique f2 (i2 - 1) else Inr False))) (\<lambda>both.
         opt_then (Some (if both then and_then (log_pair f1 f2 stand1 stand2 (s_log st1))
                                        (log_pair f1 f2 (i1 - 1) (i2 - 1))
                         else Inr (s_log st1))) (\<lambda>lg.
         opt_then (restore_region da junk w f1 stand1 i1 (s_old st1) (s_storage st1)) (\<lambda>(old, s1).
         opt_then (restore_region da junk w f2 stand2 i2 (s_new st1) s1) (\<lambda>(new, s2).
           Some (Inr (st1\<lparr>s_flag := 0, s_log := lg, s_new := new, s_old := old, s_storage := s2\<rparr>)))))))
      else Some (Inr st))"

text \<open>A region of one chunk.\<close>

definition log_unique :: "Index \<Rightarrow> Index \<Rightarrow> int \<Rightarrow> int \<Rightarrow> search \<Rightarrow> search result" where
  "log_unique f1 f2 i j st = and_then (chunk_unique f2 j) (\<lambda>u.
     if u then and_then (log_pair f1 f2 i j (s_log st)) (\<lambda>lg. Inr (st\<lparr>s_log := lg\<rparr>)) else Inr st)"

definition pair_single :: "Index \<Rightarrow> Index \<Rightarrow> int \<Rightarrow> int \<Rightarrow> search \<Rightarrow> search result" where
  "pair_single f1 f2 stand1 stand2 st =
     (let i1 = s_i1 st; i2 = s_i2 st in
      if s_flag st = 1 \<and> (i1 - 1 = stand1 \<and> i2 - 1 = stand2 \<or> i1 = stand1 \<and> i2 = stand2) then
        and_then (log_unique f1 f2 stand1 stand2 (push_pair stand1 stand2 st)) (\<lambda>st1.
          Inr (st1\<lparr>s_flag := 0\<rparr>))
      else Inr st)"

text \<open>The start of a region whose end is still to be found.\<close>

definition pair_before :: "Index \<Rightarrow> Index \<Rightarrow> int \<Rightarrow> int \<Rightarrow> search \<Rightarrow> search result" where
  "pair_before f1 f2 stand1 stand2 st =
     (if s_flag st = 2 \<and> s_before st = 1 \<and> s_after st = 0 then
        and_then (log_unique f1 f2 stand1 stand2 (push_pair stand1 stand2 st)) (\<lambda>st1.
          Inr (st1\<lparr>s_before := 0, s_after := 2\<rparr>))
      else Inr st)"

text \<open>The end of such a region, found in a later window.\<close>

definition pair_after ::
  "(bytes \<Rightarrow> bytes \<Rightarrow> bytes) \<Rightarrow> Chunk_t \<Rightarrow> world \<Rightarrow> Index \<Rightarrow> Index \<Rightarrow> search \<Rightarrow> search result option" where
  "pair_after da junk w f1 f2 st =
     (let i1 = s_i1 st; i2 = s_i2 st in
      if s_flag st = 2 \<and> s_after st = 1 then
        (let st1 = push_pair (i1 - 1) (i2 - 1) (st\<lparr>s_after := 0, s_flag := 0\<rparr>) in
         opt_then (Some (region_start st1)) (\<lambda>p.
         opt_then (Some (and_then (chunk_unique f2 (i2 - 1)) (\<lambda>u.
                     if u then log_pair f1 f2 (i1 - 1) (i2 - 1) (s_log st1) else Inr (s_log st1)))) (\<lambda>lg.
         opt_then (restore_region da junk w f1 (newID p) i1 (s_old st1) (s_storage st1)) (\<lambda>(old, s1).
         opt_then (restore_region da junk w f2 (oldID p) i2 (s_new st1) s1) (\<lambda>(new, s2).
           Some (Inr (st1\<lparr>s_log := lg, s_new := new, s_old := old, s_storage := s2\<rparr>)))))))
      else Some (Inr st))"

definition differ_step ::
  "(bytes \<Rightarrow> bytes \<Rightarrow> bytes) \<Rightarrow> Chunk_t \<Rightarrow> Configure \<Rightarrow> world \<Rightarrow> Index \<Rightarrow> Index \<Rightarrow> search \<Rightarrow> search result option" where
  "differ_step da junk cfg w f1 f2 st =
     (let stand1 = s_i1 st; stand2 = s_i2 st in
      opt_then (Some (scan f1 f2 (s_size st) stand1 0 stand2 0)) (\<lambda>r.
      opt_then (pair_region da junk w f1 f2 stand1 stand2 (after_scan cfg r st)) (\<lambda>st1.
      opt_then (Some (pair_single f1 f2 stand1 stand2 st1)) (\<lambda>st2.
      opt_then (Some (pair_before f1 f2 stand1 stand2 st2)) (\<lambda>st3.
        pair_after da junk w f1 f2 st3)))))"

section \<open>The loop\<close>

definition search_step ::
  "(bytes \<Rightarrow> bytes \<Rightarrow> bytes) \<Rightarrow> Chunk_t \<Rightarrow> Configure \<Rightarrow> world \<Rightarrow> Index \<Rightarrow> Index \<Rightarrow> search \<Rightarrow> search result option" where
  "search_step da junk cfg w f1 f2 st =
     opt_then (Some (chunk_hash f1 (s_i1 st))) (\<lambda>hash1.
     opt_then (Some (chunk_hash f2 (s_i2 st))) (\<lambda>hash2.
       if hash1 = hash2 then equal_step da junk cfg w f1 f2 st else differ_step da junk cfg w f1 f2 st))"

definition searching :: "Index \<Rightarrow> Index \<Rightarrow> search \<Rightarrow> bool" where
  "searching f1 f2 st \<longleftrightarrow> s_i1 st < idx_chunknumber f1 \<and> s_i2 st \<le> idx_chunknumber f2"

partial_function (option) search_loop ::
  "(bytes \<Rightarrow> bytes \<Rightarrow> bytes) \<Rightarrow> Chunk_t \<Rightarrow> Configure \<Rightarrow> world \<Rightarrow> Index \<Rightarrow> Index \<Rightarrow> search \<Rightarrow> search result option" where
  "search_loop da junk cfg w f1 f2 st =
     (if searching f1 f2 st
      then opt_then (search_step da junk cfg w f1 f2 st) (search_loop da junk cfg w f1 f2)
      else Some (Inr st))"

section \<open>Entering the chunks of the regions\<close>

definition feature :: "bytes list \<Rightarrow> int \<Rightarrow> bson result" where
  "feature sf i = and_then (vec_at sf i) (\<lambda>x. Inr (BString x))"

text \<open>The two shapes of a chunk document, for four and for two super features.\<close>

definition four_features :: "bytes \<Rightarrow> bytes list \<Rightarrow> (string \<times> bson) list result" where
  "four_features temp sf =
     and_then (feature sf 0) (\<lambda>a. and_then (feature sf 1) (\<lambda>b.
     and_then (feature sf 2) (\<lambda>c. and_then (feature sf 3) (\<lambda>d.
       Inr [(''flag'', BString (str ''0'')), (''hash'', BString temp), (''group'', BString (str ''-1'')),
            (''SF'', BArray [a, b, c, d])]))))"

definition two_features :: "bytes \<Rightarrow> bytes list \<Rightarrow> (string \<times> bson) list result" where
  "two_features temp sf =
     and_then (feature sf 0) (\<lambda>a. and_then (feature sf 1) (\<lambda>b.
       Inr [(''SF'', BDocument [(''F'', a), (''S'', b)]), (''flag'', BString (str ''0'')),
            (''hash'', BString temp), (''group'', BString (str ''-1''))]))"

definition insert_chunk ::
  "'m mongo \<Rightarrow> (bytes \<Rightarrow> u64 \<Rightarrow> bytes list) \<Rightarrow> Configure \<Rightarrow> Chunk_t \<Rightarrow> 'm \<Rightarrow> 'm result" where
  "insert_chunk mg features cfg c m =
     (let sf = features (take 2048 (chunk_logicData c)) (getSFNumber cfg); temp = chunk_chunkHash c in
      and_then (if getSFNumber cfg = 4
                then and_then (four_features temp sf) (\<lambda>d. Inr (insert_one mg d m)) else Inr m) (\<lambda>m1.
        if getSFNumber cfg = 2
        then and_then (two_features temp sf) (\<lambda>d. Inr (insert_one mg d m1)) else Inr m1))"

text \<open>The loop over restored chunks: those the index marks as duplicates are left out; the sizes of
  the others are summed.\<close>

fun insert_chunks ::
  "'m mongo \<Rightarrow> (bytes \<Rightarrow> u64 \<Rightarrow> bytes list) \<Rightarrow> Configure \<Rightarrow> Index \<Rightarrow> ChunkList_t \<Rightarrow> u64 \<Rightarrow> 'm
     \<Rightarrow> (u64 \<times> 'm) result" where
  "insert_chunks mg features cfg idx [] sizes m = Inr (sizes, m)"
| "insert_chunks mg features cfg idx (c # cs) sizes m =
     and_then (chunk_unique idx (int (unat (chunk_ID c)))) (\<lambda>u.
       if \<not> u then insert_chunks mg features cfg idx cs sizes m
       else and_then (insert_chunk mg features cfg c m) (\<lambda>m1.
              insert_chunks mg features cfg idx cs (sizes + word_of_int (chunk_logicDataSize c)) m1))"

text \<open>\<open>atoi\<close> of the last \<open>group_number\<close> found; without a positive one a document is entered.\<close>

definition atoi :: "bytes \<Rightarrow> int" where
  "atoi t = (case skip_space t of
       [] \<Rightarrow> 0
     | b # r \<Rightarrow> if b = 45 then - int (fst (parse_dec 0 r))
                else int (fst (parse_dec 0 (if b = 43 then r else b # r))))"

definition insert_group_number :: "'m mongo \<Rightarrow> 'm \<Rightarrow> 'm" where
  "insert_group_number mg m =
     (let found = find_group_number mg m; groupid = (if found = [] then [] else List.last found) in
      if atoi groupid \<le> 0
      then insert_one mg [(''group_number'', BString (str ''0'')), (''number'', BString (str ''0''))] m
      else m)"

section \<open>The search and the constructor\<close>

definition search_start :: "Configure \<Rightarrow> Dector \<Rightarrow> StorageCore \<Rightarrow> search" where
  "search_start cfg d s =
     \<lparr>s_flag = 0, s_before = 0, s_after = 0, s_size = int_of_u64 (getMinSlidingWinSize cfg), s_i1 = 0, s_i2 = 0,
      s_pairs = d_transferPair d, s_pairnumber = d_transferpairnumber d, s_log = d_log d, s_new = [], s_old = [],
      s_equalSizes = 0, s_storage = s\<rparr>"

definition truetransferDector ::
  "(bytes \<Rightarrow> bytes \<Rightarrow> bytes) \<Rightarrow> Chunk_t \<Rightarrow> (bytes \<Rightarrow> u64 \<Rightarrow> bytes list) \<Rightarrow> 'm mongo \<Rightarrow> Configure
     \<Rightarrow> Index \<Rightarrow> Index \<Rightarrow> Dector \<Rightarrow> StorageCore \<Rightarrow> world \<Rightarrow> 'm \<Rightarrow> (Dector \<times> StorageCore \<times> 'm) result option" where
  "truetransferDector da junk features mg cfg f1 f2 d s w m =
     opt_then (search_loop da junk cfg w f1 f2 (search_start cfg d s)) (\<lambda>st.
     opt_then (Some (insert_chunks mg features cfg f1 (s_old st) 0 m)) (\<lambda>(olduniqueSizes, m1).
     opt_then (Some (insert_chunks mg features cfg f2 (s_new st) 0 m1)) (\<lambda>(newuniqueSizes, m2).
       if s_pairnumber st > int (length (s_pairs st)) then Some (Inl OutOfBounds)
       else Some (Inr (d\<lparr>d_log := s_log st, d_transferPair := s_pairs st, d_transferpairnumber := s_pairnumber st\<rparr>,
                  s_storage st, insert_group_number mg m2)))))"

text \<open>The constructor opens \<open>similar.log\<close>, which empties it, and runs the search at once; what
  was logged is in the file when the stream is closed.\<close>

definition newDector ::
  "(bytes \<Rightarrow> bytes \<Rightarrow> bytes) \<Rightarrow> Chunk_t \<Rightarrow> (bytes \<Rightarrow> u64 \<Rightarrow> bytes list) \<Rightarrow> 'm mongo \<Rightarrow> Configure
     \<Rightarrow> Index \<Rightarrow> Index \<Rightarrow> int \<Rightarrow> StorageCore \<Rightarrow> world \<Rightarrow> 'm
     \<Rightarrow> (Dector \<times> StorageCore \<times> world \<times> 'm) result option" where
  "newDector da junk features mg cfg fileindex_1 fileindex_2 indexflag s w m =
     (let w1 = w\<lparr>w_fs := fs_try_write (str ''similar.log'') [] (w_fs w)\<rparr>;
          d = \<lparr>d_log = [], d_containerPair = [], d_segmentPair = [], d_transferPair = [],
               d_containerpairnumber = 0, d_segmentpairnumber = 0, d_transferpairnumber = 0\<rparr> in
      if indexflag = 1 then Some (Inr (d, s, w1, m))
      else opt_then (truetransferDector da junk features mg cfg fileindex_1 fileindex_2 d s w1 m)
             (\<lambda>(d1, s1, m1).
               Some (Inr (d1, s1, w1\<lparr>w_fs := fs_try_write (str ''similar.log'') (d_log d1) (w_fs w1)\<rparr>, m1))))"

end
