(* ===== verification/Dector_Properties.thy ===== *)
theory Dector_Properties
  imports Dector Storage_Recipes
begin

text \<open>
  Properties of the search for changed regions: it ends, what it finds for equal files and for
  one changed chunk, and where it reads outside the chunk lists.
\<close>

section \<open>Restoring ends\<close>

text \<open>Without delta chunks in the database no restore recurses.\<close>

definition no_deltas :: "world \<Rightarrow> bool" where
  "no_deltas w \<longleftrightarrow> (\<forall>h v. query (fp2ChunkDB w) h = Some v \<longrightarrow> key_deltaCount (key_of_bytes v) = 0)"

lemma restoreChunk_ends:
  assumes "no_deltas w"
  shows "restoreChunk da w s h \<noteq> None"
  using assms
  by (simp add: restoreChunk.simps [of da w s h] no_deltas_def load_key_def
      split: option.splits sum.splits prod.splits)

lemma restore_entries_ends:
  assumes "no_deltas w"
  shows "restore_entries da junk n buf w s acc \<noteq> None"
proof (induction n arbitrary: buf s acc)
  case 0
  show ?case by simp
next
  case (Suc n)
  obtain r where "restoreChunk da w s (entry_chunkHash (RecipeEntry_of_bytes (take sizeof_RecipeEntry buf))) = Some r"
    using restoreChunk_ends [OF assms] by blast
  then show ?case using Suc by (simp add: Let_def split: sum.splits prod.splits option.splits)
qed

lemma restore_region_ends:
  assumes "no_deltas w"
  obtains r where "restore_region da junk w idx stand i acc s = Some r"
proof -
  have rc: "restoreRecipeAndChunk da junk h a b acc s w \<noteq> None" for h a b
    using restore_entries_ends [OF assms] by (simp add: restoreRecipeAndChunk_def Let_def split: option.splits)
  have "restore_region da junk w idx stand i acc s \<noteq> None"
  proof (cases "stand < i - 2")
    case True
    then show ?thesis
      unfolding restore_region_def if_P [OF True] by (intro opt_then_ends [OF rc]) (simp split: prod.splits)
  qed (simp add: restore_region_def)
  then show ?thesis using that by blast
qed

section \<open>One turn of the search\<close>

text \<open>The search goes on behind the second index in every turn, or finds equal chunks.\<close>

lemma chunk_hash_range: "chunk_hash f i = Inr h \<Longrightarrow> 0 \<le> i \<and> i < int (length (idx_chunk f))"
  by (auto simp: chunk_hash_def res_simps)

lemma scan_end_facts:
  assumes "scan f1 f2 win i1 k i2 cnt = Inr r" and "k < win" and "0 < win"
  shows "case r of Found k' i2' \<Rightarrow> i2 \<le> i2' \<and> (\<exists>h. chunk_hash f1 (i1 + k') = Inr h \<and> chunk_hash f2 i2' = Inr h)
    | GaveUp i2' \<Rightarrow> i2 < i2' \<and> i2' \<le> int (length (idx_chunk f2)) | NoTurn _ \<Rightarrow> False"
  using assms
proof (induction f1 f2 win i1 k i2 cnt rule: scan.induct)
  case (1 f1 f2 win i1 k i2 cnt)
  obtain h1 h2 where h: "chunk_hash f1 (i1 + k) = Inr h1" "chunk_hash f2 i2 = Inr h2"
    using "1.prems" by (auto simp: scan.simps [of f1 f2 win i1 k] res_simps)
  note r = chunk_hash_range [OF h(2)]
  note IH = "1.IH" [OF _ h]
  consider (eq) "h1 = h2" | (up) "h1 \<noteq> h2" "i1 + k \<ge> idx_chunknumber f1 \<or> k = win - 1" "cnt + 1 \<ge> win"
    | (row) "h1 \<noteq> h2" "i1 + k \<ge> idx_chunknumber f1 \<or> k = win - 1" "\<not> cnt + 1 \<ge> win"
    | (col) "h1 \<noteq> h2" "\<not> (i1 + k \<ge> idx_chunknumber f1 \<or> k = win - 1)" by blast
  then show ?case
  proof cases
    case eq
    then show ?thesis using "1.prems" h by (simp add: scan.simps [of f1 f2 win i1 k] split: if_splits) auto
  next
    case up
    then show ?thesis using "1.prems" h r by (auto simp: scan.simps [of f1 f2 win i1 k])
  next
    case row
    then show ?thesis
      using "1.prems" h IH(1) by (auto simp: scan.simps [of f1 f2 win i1 k] split: scan_end.splits)
  next
    case col
    then show ?thesis
      using "1.prems" h IH(2) by (auto simp: scan.simps [of f1 f2 win i1 k] split: scan_end.splits)
  qed
qed

text \<open>What a turn leaves alone.\<close>

definition at_same :: "search \<Rightarrow> search \<Rightarrow> bool" where
  "at_same st st' \<longleftrightarrow> s_i1 st' = s_i1 st \<and> s_i2 st' = s_i2 st \<and> s_size st' = s_size st"

lemma at_same_trans: "at_same a b \<Longrightarrow> at_same b c \<Longrightarrow> at_same a c"
  by (simp add: at_same_def)

lemma at_same_push [simp]: "at_same st (push_pair i j st') = at_same st st'"
  by (simp add: at_same_def push_pair_def)

lemma restored_same:
  assumes "opt_then (restore_region da junk w f1 a i acc s) (\<lambda>(old, s1).
      opt_then (restore_region da junk w f2 b j acc' s1) (\<lambda>(new, s2). Some (Inr (F old new s2)))) = Some (Inr st')"
  shows "\<exists>old new s2. st' = F old new s2"
  using assms by (auto simp: res_simps)

lemma pair_region_same: "pair_region da junk w f1 f2 a b st = Some (Inr st') \<Longrightarrow> at_same st st'"
  unfolding pair_region_def Let_def
  by (auto simp: opt_then_Some_Inr at_same_def push_pair_def dest!: restored_same split: if_splits)

lemma pair_after_same: "pair_after da junk w f1 f2 st = Some (Inr st') \<Longrightarrow> at_same st st'"
  unfolding pair_after_def Let_def
  by (auto simp: opt_then_Some_Inr at_same_def push_pair_def dest!: restored_same split: if_splits)

lemma close_region_same: "close_region da junk w f1 f2 st = Some (Inr st') \<Longrightarrow> at_same st st'"
  unfolding close_region_def Let_def
  by (auto simp: opt_then_Some_Inr at_same_def push_pair_def dest!: restored_same split: if_splits)

lemma log_unique_same: "log_unique f1 f2 i j st = Inr st' \<Longrightarrow> at_same st st'"
  by (auto simp: log_unique_def res_simps at_same_def split: if_splits)

lemma pair_single_same: "pair_single f1 f2 a b st = Inr st' \<Longrightarrow> at_same st st'"
  by (auto simp: pair_single_def Let_def res_simps at_same_def push_pair_def dest!: log_unique_same split: if_splits)

lemma pair_before_same: "pair_before f1 f2 a b st = Inr st' \<Longrightarrow> at_same st st'"
  by (auto simp: pair_before_def Let_def res_simps at_same_def push_pair_def dest!: log_unique_same split: if_splits)

lemma pair_ends:
  assumes "no_deltas w"
  shows "pair_region da junk w f1 f2 a b st \<noteq> None" "pair_after da junk w f1 f2 st \<noteq> None"
    "close_region da junk w f1 f2 st \<noteq> None"
proof -
  have rr: "restore_region da junk w idx s i acc sc \<noteq> None" for idx s i acc sc
    using restore_region_ends [OF assms] by (metis option.distinct(1))
  note intros = opt_then_ends [OF rr] opt_then_ends [OF option.distinct(2)]
  show "pair_region da junk w f1 f2 a b st \<noteq> None"
    unfolding pair_region_def Let_def by (auto intro!: intros simp del: not_None_eq)
  show "pair_after da junk w f1 f2 st \<noteq> None"
    unfolding pair_after_def Let_def by (auto intro!: intros simp del: not_None_eq)
  show "close_region da junk w f1 f2 st \<noteq> None"
    unfolding close_region_def Let_def by (auto intro!: intros simp del: not_None_eq)
qed

section \<open>The search ends\<close>

text \<open>The measure: chunks of the second file still ahead, twice, and one more while the chunks
  at the two positions differ.\<close>

definition ahead :: "Index \<Rightarrow> Index \<Rightarrow> search \<Rightarrow> nat" where
  "ahead f1 f2 st = 2 * nat (int (length (idx_chunk f2)) - s_i2 st)
     + (if \<exists>h. chunk_hash f1 (s_i1 st) = Inr h \<and> chunk_hash f2 (s_i2 st) = Inr h then 0 else 1)"

definition windows_ok :: "Configure \<Rightarrow> bool" where
  "windows_ok cfg \<longleftrightarrow> 0 < int_of_u64 (getMinSlidingWinSize cfg) \<and> 0 < int_of_u64 (getMaxSlidingWinSize cfg)"

lemma twice_less: "a < b \<Longrightarrow> 2 * a + (if P then 0 else 1) < 2 * b + (if Q then 0 else 1)" for a b :: nat
  by simp

lemma ahead_later: "s_i2 st < s_i2 st' \<Longrightarrow> s_i2 st < int (length (idx_chunk f2)) \<Longrightarrow> ahead f1 f2 st' < ahead f1 f2 st"
proof -
  assume "s_i2 st < s_i2 st'" and "s_i2 st < int (length (idx_chunk f2))"
  then have "nat (int (length (idx_chunk f2)) - s_i2 st') < nat (int (length (idx_chunk f2)) - s_i2 st)" by simp
  then show ?thesis unfolding ahead_def by (rule twice_less)
qed

lemma equal_step_ahead:
  assumes "equal_step da junk cfg w f1 f2 st = Some (Inr st')" and "windows_ok cfg"
  shows "ahead f1 f2 st' < ahead f1 f2 st \<and> 0 < s_size st'"
proof -
  obtain st1 c where st1: "s_i2 st1 = s_i2 st" "vec_at (idx_chunk f2) (s_i2 st1) = Inr c"
    "st' = st1\<lparr>s_equalSizes := s_equalSizes st1 + word_of_int (L0_size c),
       s_size := int_of_u64 (getMinSlidingWinSize cfg), s_i1 := s_i1 st1 + 1, s_i2 := s_i2 st1 + 1\<rparr>"
    using assms(1)
    by (auto simp: equal_step_def opt_then_Some_Inr at_same_def dest!: close_region_same split: if_splits)
  show ?thesis
    using st1 assms(2) by (intro conjI ahead_later) (auto simp: res_simps windows_ok_def)
qed

lemma differ_step_ahead:
  assumes step: "differ_step da junk cfg w f1 f2 st = Some (Inr st')" and ok: "windows_ok cfg"
    and sz: "0 < s_size st" and ne: "\<not> (\<exists>h. chunk_hash f1 (s_i1 st) = Inr h \<and> chunk_hash f2 (s_i2 st) = Inr h)"
    and h2: "chunk_hash f2 (s_i2 st) = Inr h"
  shows "ahead f1 f2 st' < ahead f1 f2 st \<and> 0 < s_size st'"
proof -
  obtain r where r: "scan f1 f2 (s_size st) (s_i1 st) 0 (s_i2 st) 0 = Inr r" "at_same (after_scan cfg r st) st'"
    using step
    by (auto simp: differ_step_def Let_def opt_then_Some_Inr
        dest!: pair_region_same pair_single_same pair_before_same pair_after_same)
      (meson at_same_trans)
  note e = scan_end_facts [OF r(1) sz sz]
  note lt = chunk_hash_range [OF h2]
  show ?thesis
  proof (cases r)
    case (Found k i2)
    then have i: "s_i1 st' = s_i1 st + k" "s_i2 st' = i2" "0 < s_size st'"
      using r(2) ok by (auto simp: after_scan_def at_same_def windows_ok_def split: if_splits)
    obtain h' where h': "s_i2 st \<le> i2" "chunk_hash f1 (s_i1 st + k) = Inr h'" "chunk_hash f2 i2 = Inr h'"
      using e Found by auto
    show ?thesis
    proof (cases "i2 = s_i2 st")
      case True
      then show ?thesis using i h' ne by (auto simp: ahead_def)
    next
      case False
      then show ?thesis using i h' lt by (intro conjI ahead_later) auto
    qed
  next
    case (GaveUp i2)
    then show ?thesis
      using r(2) ok e lt by (intro conjI ahead_later) (auto simp: after_scan_def at_same_def windows_ok_def)
  next
    case NoTurn
    then show ?thesis using e by simp
  qed
qed

lemma search_step_ahead:
  assumes "search_step da junk cfg w f1 f2 st = Some (Inr st')" and "windows_ok cfg" and "0 < s_size st"
  shows "ahead f1 f2 st' < ahead f1 f2 st \<and> 0 < s_size st'"
  using assms equal_step_ahead differ_step_ahead
  by (auto simp: search_step_def opt_then_Some_Inr split: if_splits)

lemma search_step_ends:
  assumes "no_deltas w"
  shows "search_step da junk cfg w f1 f2 st \<noteq> None"
proof -
  note intros = opt_then_ends [OF pair_ends(1) [OF assms]] opt_then_ends [OF pair_ends(3) [OF assms]]
    opt_then_ends [OF option.distinct(2)] pair_ends(2) [OF assms]
  have "equal_step da junk cfg w f1 f2 st \<noteq> None"
    unfolding equal_step_def by (cases "s_flag st = 2") (simp_all only: if_True if_False simp_thms, (intro intros; simp)+)
  moreover have "differ_step da junk cfg w f1 f2 st \<noteq> None"
    unfolding differ_step_def Let_def by (intro intros)
  ultimately show ?thesis
    unfolding search_step_def by (intro intros) (simp split: if_split)
qed

lemma search_loop_ends:
  assumes "no_deltas w" and "windows_ok cfg" and "0 < s_size st"
  shows "search_loop da junk cfg w f1 f2 st \<noteq> None"
  using assms(3)
proof (induction "ahead f1 f2 st" arbitrary: st rule: less_induct)
  case less
  obtain r where r: "search_step da junk cfg w f1 f2 st = Some r" using search_step_ends [OF assms(1)] by blast
  show ?case
  proof (cases r)
    case (Inl e)
    then show ?thesis using r by (simp add: search_loop.simps [of da junk cfg w f1 f2 st])
  next
    case (Inr st')
    then have "ahead f1 f2 st' < ahead f1 f2 st \<and> 0 < s_size st'"
      using search_step_ahead r assms(2) less.prems by blast
    then show ?thesis using r Inr less.hyps by (simp add: search_loop.simps [of da junk cfg w f1 f2 st])
  qed
qed

text \<open>C18: the search for changed regions ends for any two indexes, whatever it returns, when both
  window sizes are positive and no stored chunk is a delta: its loop has no counter, moves the first
  position back when the window is exhausted, and resets the counter of its inner loop.\<close>

theorem search_terminates:
  assumes "no_deltas w" and "0 < int_of_u64 (getMinSlidingWinSize cfg)"
    and "0 < int_of_u64 (getMaxSlidingWinSize cfg)"
  shows "\<exists>r. truetransferDector da junk features mg cfg f1 f2 d s w m = Some r"
proof -
  have "search_loop da junk cfg w f1 f2 (search_start cfg d s) \<noteq> None"
    using assms by (intro search_loop_ends) (simp_all add: windows_ok_def search_start_def)
  then have "truetransferDector da junk features mg cfg f1 f2 d s w m \<noteq> None"
    unfolding truetransferDector_def
    by (intro opt_then_ends) (simp_all add: opt_then_def split: sum.split prod.split)
  then show ?thesis by simp
qed

section \<open>Concrete indexes and services\<close>

definition toy_fp :: "nat \<Rightarrow> bytes" where
  "toy_fp n = replicate 32 (of_nat n)"

definition toy_index :: "nat list \<Rightarrow> Index" where
  "toy_index ns = \<lparr>idx_fileNameHash = toy_hash, idx_segmentnumber = 0, idx_containernumber = 0,
     idx_chunknumber = int (length ns),
     idx_chunk = map (\<lambda>i. \<lparr>L0_chunkID = int i, L0_size = 8, L0_unique = 1, L0_fingerprint = toy_fp (ns ! i)\<rparr>)
       [0..<length ns],
     idx_segment = [], idx_container = []\<rparr>"

text \<open>A collection that is the list of its documents, with nothing found in it.\<close>

definition toy_mongo :: "(string \<times> bson) list list mongo" where
  "toy_mongo = \<lparr>insert_one = (\<lambda>d m. m @ [d]), find_group_number = (\<lambda>m. []), aggregate_group = (\<lambda>f m. []),
     find_hash = (\<lambda>f v m. []), update_group = (\<lambda>f v m. m)\<rparr>"

definition toy_dector :: Dector where
  "toy_dector = \<lparr>d_log = [], d_containerPair = [], d_segmentPair = [], d_transferPair = [],
     d_containerpairnumber = 0, d_segmentpairnumber = 0, d_transferpairnumber = 0\<rparr>"

lemma toy_no_deltas: "no_deltas toy_world"
  by (simp add: no_deltas_def toy_world_def)

lemma toy_windows: "int_of_u64 (getMinSlidingWinSize toy_config) = 2" "int_of_u64 (getMaxSlidingWinSize toy_config) = 4"
  by (simp_all add: int_of_u64_small toy_config_def config_defs)

theorem search_terminates_witness:
  "\<exists>r. truetransferDector (\<lambda>_ _. []) toy_restored (\<lambda>_ _. []) toy_mongo toy_config
     (toy_index [1, 2, 3]) (toy_index [4, 1, 5]) toy_dector toy_storage toy_world [] = Some r"
  by (rule search_terminates [OF toy_no_deltas]) (simp_all add: toy_windows)

section \<open>Runs of equal chunks\<close>

text \<open>\<open>n\<close> equal chunks outside an open region only move both positions on.\<close>

lemma search_loop_equal:
  assumes "\<forall>j < n. \<exists>h. chunk_hash f1 (s_i1 st + int j) = Inr h \<and> chunk_hash f2 (s_i2 st + int j) = Inr h"
    and "s_flag st \<noteq> 2" and "s_size st = int_of_u64 (getMinSlidingWinSize cfg)"
    and "s_i1 st + int n \<le> idx_chunknumber f1" and "s_i2 st + int n \<le> idx_chunknumber f2"
  shows "\<exists>e. search_loop da junk cfg w f1 f2 st
    = search_loop da junk cfg w f1 f2 (st\<lparr>s_i1 := s_i1 st + int n, s_i2 := s_i2 st + int n, s_equalSizes := e\<rparr>)"
  using assms
proof (induction n arbitrary: st)
  case 0
  show ?case by (intro exI [of _ "s_equalSizes st"]) simp
next
  case (Suc n)
  obtain h where h: "chunk_hash f1 (s_i1 st) = Inr h" "chunk_hash f2 (s_i2 st) = Inr h"
    using Suc.prems(1) [rule_format, of 0] by auto
  obtain c where c: "vec_at (idx_chunk f2) (s_i2 st) = Inr c" using h(2) by (auto simp: chunk_hash_def res_simps)
  let ?st = "st\<lparr>s_i1 := s_i1 st + 1, s_i2 := s_i2 st + 1, s_equalSizes := s_equalSizes st + word_of_int (L0_size c)\<rparr>"
  have "search_step da junk cfg w f1 f2 st = Some (Inr ?st)"
    using h c Suc.prems(2,3) by (simp add: search_step_def equal_step_def)
  then have one: "search_loop da junk cfg w f1 f2 st = search_loop da junk cfg w f1 f2 ?st"
    using Suc.prems(4,5) by (simp add: search_loop.simps [of da junk cfg w f1 f2 st] searching_def)
  have hs: "\<forall>j < n. \<exists>h. chunk_hash f1 (s_i1 ?st + int j) = Inr h \<and> chunk_hash f2 (s_i2 ?st + int j) = Inr h"
  proof (intro allI impI)
    fix j
    assume "j < n"
    then show "\<exists>h. chunk_hash f1 (s_i1 ?st + int j) = Inr h \<and> chunk_hash f2 (s_i2 ?st + int j) = Inr h"
      using Suc.prems(1) [rule_format, of "Suc j"] by (simp add: algebra_simps)
  qed
  show ?case
    using Suc.IH [OF hs] Suc.prems(2-5) one by (auto simp: algebra_simps)
qed

text \<open>An index as the chunker makes it: the chunk list has as many entries as it says.\<close>

definition counted :: "Index \<Rightarrow> bool" where
  "counted f \<longleftrightarrow> idx_chunknumber f = int (length (idx_chunk f))"

definition fingerprints :: "Index \<Rightarrow> bytes list" where
  "fingerprints f = map L0_fingerprint (idx_chunk f)"

lemma chunk_hash_nth: "i < length (fingerprints f) \<Longrightarrow> chunk_hash f (int i) = Inr (fingerprints f ! i)"
  by (simp add: chunk_hash_def fingerprints_def vec_at_nat)

lemma search_start_simps [simp]:
  "s_flag (search_start cfg d s) = 0" "s_before (search_start cfg d s) = 0" "s_after (search_start cfg d s) = 0"
  "s_size (search_start cfg d s) = int_of_u64 (getMinSlidingWinSize cfg)"
  "s_i1 (search_start cfg d s) = 0" "s_i2 (search_start cfg d s) = 0" "s_new (search_start cfg d s) = []"
  "s_old (search_start cfg d s) = []" "s_storage (search_start cfg d s) = s"
  "s_pairs (search_start cfg d s) = d_transferPair d" "s_pairnumber (search_start cfg d s) = d_transferpairnumber d"
  "s_log (search_start cfg d s) = d_log d"
  by (simp_all add: search_start_def)

lemma search_common_prefix:
  assumes "counted f1" and "counted f2" and "n \<le> length (fingerprints f1)" and "n \<le> length (fingerprints f2)"
    and "take n (fingerprints f1) = take n (fingerprints f2)"
  obtains e where "search_loop da junk cfg w f1 f2 (search_start cfg d s)
    = search_loop da junk cfg w f1 f2 ((search_start cfg d s)\<lparr>s_i1 := int n, s_i2 := int n, s_equalSizes := e\<rparr>)"
proof -
  let ?st = "search_start cfg d s"
  have h: "\<forall>j < n. \<exists>h. chunk_hash f1 (s_i1 ?st + int j) = Inr h \<and> chunk_hash f2 (s_i2 ?st + int j) = Inr h"
  proof (intro allI impI)
    fix j
    assume j: "j < n"
    then have "fingerprints f1 ! j = fingerprints f2 ! j" using assms(5) by (metis nth_take)
    then show "\<exists>h. chunk_hash f1 (s_i1 ?st + int j) = Inr h \<and> chunk_hash f2 (s_i2 ?st + int j) = Inr h"
      using j assms(3,4) by (simp add: chunk_hash_nth)
  qed
  have "s_i1 ?st + int n \<le> idx_chunknumber f1" "s_i2 ?st + int n \<le> idx_chunknumber f2"
    using assms(1-4) by (simp_all add: counted_def fingerprints_def)
  then show ?thesis using search_loop_equal [OF h, of cfg da junk w] that by auto
qed

text \<open>Two files with the same chunks have no changed region: the search ends normally, the
  pairs, the log and the stored chunks are as before.\<close>

theorem same_chunks_no_pairs:
  assumes "counted f1" and "counted f2" and "fingerprints f1 = fingerprints f2"
    and "d_transferpairnumber d = int (length (d_transferPair d))"
  shows "truetransferDector da junk features mg cfg f1 f2 d s w m = Some (Inr (d, s, insert_group_number mg m))"
proof -
  let ?n = "length (fingerprints f1)"
  obtain e where e: "search_loop da junk cfg w f1 f2 (search_start cfg d s)
      = search_loop da junk cfg w f1 f2 ((search_start cfg d s)\<lparr>s_i1 := int ?n, s_i2 := int ?n, s_equalSizes := e\<rparr>)"
    by (rule search_common_prefix [OF assms(1,2), of ?n da junk cfg w d s]) (use assms(3) in simp_all)
  have "\<not> searching f1 f2 ((search_start cfg d s)\<lparr>s_i1 := int ?n, s_i2 := int ?n, s_equalSizes := e\<rparr>)"
    using assms(1) by (simp add: searching_def counted_def fingerprints_def)
  then have "search_loop da junk cfg w f1 f2 (search_start cfg d s)
      = Some (Inr ((search_start cfg d s)\<lparr>s_i1 := int ?n, s_i2 := int ?n, s_equalSizes := e\<rparr>))"
    unfolding e by (subst search_loop.simps) simp
  then show ?thesis using assms(4) by (simp add: truetransferDector_def)
qed

theorem same_chunks_no_pairs_witness:
  "truetransferDector (\<lambda>_ _. []) toy_restored (\<lambda>_ _. []) toy_mongo toy_config
     (toy_index [1, 2]) (toy_index [1, 2]) toy_dector toy_storage toy_world []
   = Some (Inr (toy_dector, toy_storage, insert_group_number toy_mongo []))"
  by (rule same_chunks_no_pairs) (simp_all add: counted_def toy_index_def toy_dector_def)

text \<open>C19: when the new file is the old one without its last chunks, the search reads the chunk list
  of the new file one place past its end: the loop condition allows \<open>i_2 = chunknumber\<close>.\<close>

theorem truncated_file_out_of_bounds:
  assumes "counted f1" and "counted f2" and "fingerprints f1 = fingerprints f2 @ rest" and "rest \<noteq> []"
  shows "truetransferDector da junk features mg cfg f1 f2 d s w m = Some (Inl OutOfBounds)"
proof -
  let ?n = "length (fingerprints f2)"
  obtain e where e: "search_loop da junk cfg w f1 f2 (search_start cfg d s)
      = search_loop da junk cfg w f1 f2 ((search_start cfg d s)\<lparr>s_i1 := int ?n, s_i2 := int ?n, s_equalSizes := e\<rparr>)"
    by (rule search_common_prefix [OF assms(1,2), of ?n da junk cfg w d s]) (use assms(3) in simp_all)
  let ?st = "(search_start cfg d s)\<lparr>s_i1 := int ?n, s_i2 := int ?n, s_equalSizes := e\<rparr>"
  have l: "length (idx_chunk f1) = ?n + length rest" "length (idx_chunk f2) = ?n"
    using arg_cong [OF assms(3), of length] by (simp_all add: fingerprints_def)
  have "searching f1 f2 ?st" using assms(1,2,4) l by (simp add: searching_def counted_def)
  moreover have "chunk_hash f2 (int ?n) = Inl OutOfBounds" using l by (simp add: chunk_hash_def vec_at_def)
  moreover have "chunk_hash f1 (int ?n) = Inr (fingerprints f1 ! ?n)"
    using assms(3,4) by (intro chunk_hash_nth) simp
  ultimately show ?thesis
    by (simp add: truetransferDector_def e search_loop.simps [of da junk cfg w f1 f2 ?st] search_step_def)
qed

theorem truncated_file_out_of_bounds_witness:
  "truetransferDector (\<lambda>_ _. []) toy_restored (\<lambda>_ _. []) toy_mongo toy_config
     (toy_index [1, 2]) (toy_index [1]) toy_dector toy_storage toy_world [] = Some (Inl OutOfBounds)"
  by (rule truncated_file_out_of_bounds [where rest = "[toy_fp 2]"])
    (simp_all add: counted_def toy_index_def fingerprints_def upt_rec)

section \<open>One changed chunk\<close>

text \<open>A row of the inner loop in which nothing matches.\<close>

lemma scan_row:
  assumes "\<forall>j. k \<le> j \<and> j < win \<longrightarrow> (\<exists>x. chunk_hash f1 (i1 + j) = Inr x \<and> x \<noteq> h) \<and> i1 + j < idx_chunknumber f1"
    and "chunk_hash f2 i2 = Inr h" and "k < win" and "cnt + 1 < win"
  shows "scan f1 f2 win i1 k i2 cnt = scan f1 f2 win i1 0 (i2 + 1) (cnt + 1)"
  using assms
proof (induction "nat (win - k)" arbitrary: k)
  case 0
  then show ?case by simp
next
  case (Suc n)
  obtain x where x: "chunk_hash f1 (i1 + k) = Inr x" "x \<noteq> h" "i1 + k < idx_chunknumber f1"
    using Suc.prems(1,3) by auto
  show ?case
  proof (cases "k = win - 1")
    case True
    then show ?thesis using x Suc.prems(2-4) by (subst scan.simps) simp
  next
    case False
    then have "scan f1 f2 win i1 k i2 cnt = scan f1 f2 win i1 (k + 1) i2 cnt"
      using x Suc.prems(2,3) by (simp add: scan.simps [of f1 f2 win i1 k i2])
    moreover have "n = nat (win - (k + 1))" using Suc.hyps(2) by simp
    ultimately show ?thesis using Suc.hyps(1) [of "k + 1"] Suc.prems False by simp
  qed
qed

lemma scan_one_changed:
  assumes f1: "fingerprints f1 = xs @ a # ys" and f2: "fingerprints f2 = xs @ b # ys" and c1: "counted f1"
    and win: "2 \<le> win" "win \<le> length ys + 1" and b: "b \<notin> set (take win (a # ys))" and hd: "hd ys \<noteq> a"
  shows "scan f1 f2 (int win) (int (length xs)) 0 (int (length xs)) 0 = Inr (Found 1 (int (length xs) + 1))"
proof -
  let ?p = "int (length xs)"
  have n1: "idx_chunknumber f1 = ?p + 1 + int (length ys)"
    using c1 arg_cong [OF f1, of length] by (simp add: counted_def fingerprints_def)
  have at1: "chunk_hash f1 (?p + int j) = Inr ((a # ys) ! j)" if "j \<le> length ys" for j
    using chunk_hash_nth [of "length xs + j" f1] that f1 by (simp add: nth_append)
  have ne: "ys \<noteq> []" using win by auto
  have at2: "chunk_hash f2 ?p = Inr b" "chunk_hash f2 (?p + 1) = Inr (hd ys)"
    using chunk_hash_nth [of "length xs" f2] chunk_hash_nth [of "length xs + 1" f2] f2 ne
    by (simp_all add: nth_append hd_conv_nth add.commute)
  have row: "\<forall>j. 0 \<le> j \<and> j < int win \<longrightarrow> (\<exists>x. chunk_hash f1 (?p + j) = Inr x \<and> x \<noteq> b) \<and> ?p + j < idx_chunknumber f1"
  proof (intro allI impI)
    fix j :: int
    assume j: "0 \<le> j \<and> j < int win"
    then obtain i where i: "j = int i" "i < win" by (metis nonneg_int_cases of_nat_less_iff)
    then have "(a # ys) ! i \<in> set (take win (a # ys))" using win(2) by (auto simp: in_set_conv_nth intro!: exI [of _ i])
    then show "(\<exists>x. chunk_hash f1 (?p + j) = Inr x \<and> x \<noteq> b) \<and> ?p + j < idx_chunknumber f1"
      using at1 [of i] i win(2) b n1 by auto
  qed
  have "scan f1 f2 (int win) ?p 0 ?p 0 = scan f1 f2 (int win) ?p 0 (?p + 1) 1"
    using scan_row [OF row at2(1), of 0] win by simp
  also have "\<dots> = scan f1 f2 (int win) ?p 1 (?p + 1) 1"
    using at1 [of 0] at2(2) hd win n1 by (simp add: scan.simps [of f1 f2 "int win" ?p 0])
  also have "\<dots> = Inr (Found 1 (?p + 1))"
    using at1 [of 1] at2(2) win ne by (simp add: scan.simps [of f1 f2 "int win" ?p 1] hd_conv_nth)
  finally show ?thesis .
qed

lemma differ_one_changed:
  assumes f1: "fingerprints f1 = xs @ a # ys" and f2: "fingerprints f2 = xs @ b # ys" and c1: "counted f1"
    and win: "int_of_u64 (getMinSlidingWinSize cfg) = int win" "2 \<le> win" "win \<le> length ys + 1"
    and b: "b \<notin> set (take win (a # ys))" and hd: "hd ys \<noteq> a"
    and st: "s_i1 st = int (length xs)" "s_i2 st = int (length xs)" "s_flag st = 0" "s_size st = int win"
  shows "search_step da junk cfg w f1 f2 st = Some (Inr (st\<lparr>s_i1 := int (length xs) + 1, s_i2 := int (length xs) + 1,
      s_pairs := s_pairs st @ [\<lparr>newID = int (length xs), oldID = int (length xs)\<rparr>], s_pairnumber := s_pairnumber st + 1,
      s_log := s_log st @ (if L0_unique (idx_chunk f2 ! length xs) \<noteq> 0 then a @ b else [])\<rparr>))"
proof -
  let ?p = "int (length xs)"
  have h: "chunk_hash f1 ?p = Inr a" "chunk_hash f2 ?p = Inr b"
    using chunk_hash_nth [of "length xs" f1] chunk_hash_nth [of "length xs" f2] f1 f2 by simp_all
  have ab: "a \<noteq> b" using b win(2) by (cases win) auto
  have u: "chunk_unique f2 ?p = Inr (L0_unique (idx_chunk f2 ! length xs) \<noteq> 0)"
    using chunk_hash_range [OF h(2)] by (simp add: chunk_unique_def vec_at_nat)
  note sc = scan_one_changed [OF f1 f2 c1 win(2,3) b hd]
  show ?thesis
    using h ab u sc st win(1)
    by (simp add: search_step_def differ_step_def Let_def after_scan_def pair_region_def pair_single_def
        log_unique_def log_pair_def push_pair_def pair_before_def pair_after_def)
qed

text \<open>C17: two files that differ in one chunk give exactly one pair, of the changed chunk with its new
  version, and one entry of the log when the new chunk is unique, and the search ends there.  The window is at
  least two chunks wide, and it fits into the old file from the changed chunk on, so that a change in the
  last chunks is not covered; the new fingerprint is not met in it; and the chunk after the changed
  one is not the old chunk again.\<close>

theorem one_changed_chunk:
  assumes "counted f1" and "counted f2" and "fingerprints f1 = xs @ a # ys" and "fingerprints f2 = xs @ b # ys"
    and "int_of_u64 (getMinSlidingWinSize cfg) = int win" and "2 \<le> win" and "win \<le> length ys + 1"
    and "b \<notin> set (take win (a # ys))" and "hd ys \<noteq> a"
    and "d_transferpairnumber d = int (length (d_transferPair d))"
  shows "truetransferDector da junk features mg cfg f1 f2 d s w m = Some (Inr
     (d\<lparr>d_log := d_log d @ (if L0_unique (idx_chunk f2 ! length xs) \<noteq> 0 then a @ b else []),
        d_transferPair := d_transferPair d @ [\<lparr>newID = int (length xs), oldID = int (length xs)\<rparr>],
        d_transferpairnumber := d_transferpairnumber d + 1\<rparr>, s, insert_group_number mg m))"
proof -
  let ?p = "int (length xs)" and ?lg = "if L0_unique (idx_chunk f2 ! length xs) \<noteq> 0 then a @ b else []"
  let ?loop = "search_loop da junk cfg w f1 f2"
  obtain e where e: "?loop (search_start cfg d s)
      = ?loop ((search_start cfg d s)\<lparr>s_i1 := ?p, s_i2 := ?p, s_equalSizes := e\<rparr>)"
    by (rule search_common_prefix [OF assms(1,2), of "length xs" da junk cfg w d s]) (use assms(3,4) in simp_all)
  let ?st = "(search_start cfg d s)\<lparr>s_i1 := ?p, s_i2 := ?p, s_equalSizes := e\<rparr>"
  let ?st1 = "?st\<lparr>s_i1 := ?p + 1, s_i2 := ?p + 1, s_pairs := s_pairs ?st @ [\<lparr>newID = ?p, oldID = ?p\<rparr>],
      s_pairnumber := s_pairnumber ?st + 1, s_log := s_log ?st @ ?lg\<rparr>"
  have n: "idx_chunknumber f1 = ?p + 1 + int (length ys)" "idx_chunknumber f2 = ?p + 1 + int (length ys)"
    using assms(1,2) arg_cong [OF assms(3), of length] arg_cong [OF assms(4), of length]
    by (simp_all add: counted_def fingerprints_def)
  have "search_step da junk cfg w f1 f2 ?st = Some (Inr ?st1)"
    by (rule differ_one_changed [OF assms(3,4,1,5-9)]) (simp_all add: assms(5))
  then have one: "?loop ?st = ?loop ?st1"
    using n by (subst search_loop.simps) (simp add: searching_def)
  have hs: "\<forall>j < length ys. \<exists>h. chunk_hash f1 (s_i1 ?st1 + int j) = Inr h \<and> chunk_hash f2 (s_i2 ?st1 + int j) = Inr h"
  proof (intro allI impI)
    fix j
    assume j: "j < length ys"
    have i: "s_i1 ?st1 + int j = int (length xs + Suc j)" "s_i2 ?st1 + int j = int (length xs + Suc j)" by simp_all
    show "\<exists>h. chunk_hash f1 (s_i1 ?st1 + int j) = Inr h \<and> chunk_hash f2 (s_i2 ?st1 + int j) = Inr h"
      unfolding i using j assms(3,4) by (subst (1 2) chunk_hash_nth) (simp_all add: nth_append)
  qed
  obtain e' where "?loop ?st1 = ?loop (?st1\<lparr>s_i1 := s_i1 ?st1 + int (length ys), s_i2 := s_i2 ?st1 + int (length ys),
      s_equalSizes := e'\<rparr>)"
    using search_loop_equal [OF hs, of cfg da junk w] n by auto
  also have "\<dots> = Some (Inr (?st1\<lparr>s_i1 := s_i1 ?st1 + int (length ys), s_i2 := s_i2 ?st1 + int (length ys),
      s_equalSizes := e'\<rparr>))"
    using n by (subst search_loop.simps) (simp add: searching_def)
  finally have "?loop (search_start cfg d s) = \<dots>" using e one by simp
  then show ?thesis using assms(10) by (simp add: truetransferDector_def)
qed

theorem one_changed_chunk_witness:
  "truetransferDector (\<lambda>_ _. []) toy_restored (\<lambda>_ _. []) toy_mongo toy_config
     (toy_index [1, 2, 3, 4]) (toy_index [1, 9, 3, 4]) toy_dector toy_storage toy_world []
   = Some (Inr (toy_dector\<lparr>d_log := toy_fp 2 @ toy_fp 9, d_transferPair := [\<lparr>newID = 1, oldID = 1\<rparr>],
        d_transferpairnumber := 1\<rparr>, toy_storage, insert_group_number toy_mongo []))"
proof -
  have fp: "fingerprints (toy_index [1, 2, 3, 4]) = [toy_fp 1] @ toy_fp 2 # [toy_fp 3, toy_fp 4]"
    "fingerprints (toy_index [1, 9, 3, 4]) = [toy_fp 1] @ toy_fp 9 # [toy_fp 3, toy_fp 4]"
    by (simp_all add: fingerprints_def toy_index_def upt_rec)
  have c: "counted (toy_index ns)" for ns by (simp add: counted_def toy_index_def)
  have ne: "toy_fp 9 \<noteq> toy_fp 2" "toy_fp 9 \<noteq> toy_fp 3" "toy_fp 3 \<noteq> toy_fp 2" by (simp_all add: toy_fp_def)
  show ?thesis
    using one_changed_chunk [OF c c fp, of toy_config 2 toy_dector "\<lambda>_ _. []" toy_restored "\<lambda>_ _. []" toy_mongo] ne
    by (simp add: toy_windows toy_dector_def) (simp add: toy_index_def)
qed

section \<open>A window of no size\<close>

lemma search_loop_stuck:
  assumes "search_step da junk cfg w f1 f2 st = Some (Inr st)" and "searching f1 f2 st"
  shows "search_loop da junk cfg w f1 f2 st = None"
proof (rule ccontr)
  assume "search_loop da junk cfg w f1 f2 st \<noteq> None"
  then obtain y where y: "search_loop da junk cfg w f1 f2 st = Some y" by blast
  let ?P = "\<lambda>da' junk' cfg' w' f1' f2' st' y'.
    da' = da \<and> junk' = junk \<and> cfg' = cfg \<and> w' = w \<and> f1' = f1 \<and> f2' = f2 \<longrightarrow> st' \<noteq> st"
  have "?P da junk cfg w f1 f2 st y"
    by (rule search_loop.raw_induct [of ?P, OF _ y]) (use assms in \<open>(auto split: if_splits, blast)\<close>)
  then show False by blast
qed

text \<open>C20: with a minimal window of zero chunks, which the configuration allows, the search never
  ends for two files whose first chunks differ: the inner loop makes no turn and nothing moves.\<close>

theorem zero_window_never_ends:
  assumes "counted f1" and "counted f2" and "fingerprints f1 = a # xs" and "fingerprints f2 = b # ys" and "a \<noteq> b"
    and "getMinSlidingWinSize cfg = 0"
  shows "truetransferDector da junk features mg cfg f1 f2 d s w m = None"
proof -
  let ?st = "search_start cfg d s"
  have z: "int_of_u64 (getMinSlidingWinSize cfg) = 0" using assms(6) by (simp add: int_of_u64_def)
  have h: "chunk_hash f1 0 = Inr a" "chunk_hash f2 0 = Inr b"
    using chunk_hash_nth [of 0 f1] chunk_hash_nth [of 0 f2] assms(3,4) by simp_all
  have n: "0 < idx_chunknumber f1" "0 \<le> idx_chunknumber f2"
    using assms(1,2) arg_cong [OF assms(3), of length] by (simp_all add: counted_def fingerprints_def)
  have "scan f1 f2 0 0 0 0 0 = Inr (NoTurn 0)" by (simp add: scan.simps)
  then have "search_step da junk cfg w f1 f2 ?st = Some (Inr ?st)"
    using h assms(5) z
    by (simp add: search_step_def differ_step_def Let_def after_scan_def pair_region_def pair_single_def
        pair_before_def pair_after_def search_start_def)
  then have "search_loop da junk cfg w f1 f2 ?st = None"
    using n by (intro search_loop_stuck) (simp_all add: searching_def)
  then show ?thesis by (simp add: truetransferDector_def)
qed

theorem zero_window_never_ends_witness:
  "truetransferDector (\<lambda>_ _. []) toy_restored (\<lambda>_ _. []) toy_mongo (toy_config\<lparr>cfg_minslidingWinSize := 0\<rparr>)
     (toy_index [1]) (toy_index [2]) toy_dector toy_storage toy_world [] = None"
  by (rule zero_window_never_ends [where a = "toy_fp 1" and b = "toy_fp 2" and xs = "[]" and ys = "[]"])
    (simp_all add: counted_def toy_index_def fingerprints_def upt_rec config_defs toy_fp_def)

end
