(* ===== verification/Compressor.thy ===== *)
theory Compressor
  imports Dector
begin

text \<open>
  \<open>DeltaCompressor\<close> and \<open>DeltaContainer\<close> (\<open>src/compressor.cc\<close>): the store of delta chunks, with its
  own containers, configuration file and database, and \<open>compress\<close>, which measures what delta
  compression gains on the pairs of \<open>similar.log\<close> and on the groups of chunks with equal super
  features.  \<open>delta_create\<close> and \<open>delta_apply\<close> of \<open>libsim.a\<close> are parameters, given as the bytes they
  write to their output buffers.
\<close>

section \<open>State\<close>

text \<open>\<open>DeltaContainer\<close> has the members of \<open>Container\<close>, a \<open>uint32_t used_\<close> and a \<open>char body_[2 << 23]\<close>;
  only its \<open>saveTOFile\<close> differs.\<close>

type_synonym DeltaContainer = Container

record DeltaCompressor =
  dc_lastContainerFileName :: bytes
  dc_currentReadContainerFileName :: bytes
  dc_containerNamePrefix :: bytes
  dc_containerNameTail :: bytes
  dc_maxContainerSize :: u64
  dc_currentContainer :: DeltaContainer
  dc_currentReadContainer :: DeltaContainer
  dc_groupList :: "bytes list list"

definition deltaPath :: "DeltaCompressor \<Rightarrow> bytes \<Rightarrow> bytes" where
  "deltaPath c name = dc_containerNamePrefix c @ name @ dc_containerNameTail c"

definition DeltaContainer_saveTOFile :: "DeltaContainer \<Rightarrow> bytes \<Rightarrow> world \<Rightarrow> (bool \<times> world) result" where
  "DeltaContainer_saveTOFile c fileName w =
     (if \<not> writable (w_fs w) fileName then Inr (False, w)
      else if unat (c_used c) > BODY_SIZE then Inl OutOfBounds
      else case fs_write fileName (mem_read (c_body c) 0 (unat (c_used c))) (w_fs w) of
             None \<Rightarrow> Inr (False, w)
           | Some fs \<Rightarrow> Inr (True, w\<lparr>w_fs := fs\<rparr>))"

section \<open>Construction and destruction\<close>

definition blankDeltaCompressor :: "Configure \<Rightarrow> memory \<Rightarrow> memory \<Rightarrow> DeltaCompressor" where
  "blankDeltaCompressor cfg b1 b2 =
     \<lparr>dc_lastContainerFileName = initial_name, dc_currentReadContainerFileName = [],
      dc_containerNamePrefix = getDeltaContainerRootPath cfg, dc_containerNameTail = str ''.container'',
      dc_maxContainerSize = getMaxDeltaContainerSize cfg,
      dc_currentContainer = \<lparr>c_used = 0, c_body = b1\<rparr>, dc_currentReadContainer = \<lparr>c_used = 0, c_body = b2\<rparr>,
      dc_groupList = []\<rparr>"

definition newDeltaCompressor :: "Configure \<Rightarrow> memory \<Rightarrow> memory \<Rightarrow> world \<Rightarrow> DeltaCompressor result" where
  "newDeltaCompressor cfg b1 b2 w =
     (let c = blankDeltaCompressor cfg b1 b2 in
      case files (w_fs w) (str ''.DeltaConfig'') of
        None \<Rightarrow> Inr c
      | Some t \<Rightarrow>
          (let name = fst (read_token t); used = read_u32 (snd (read_token t));
               d = take (unat used)
                 (case files (w_fs w) (deltaPath c name) of None \<Rightarrow> [] | Some f \<Rightarrow> f)
           in if length d > BODY_SIZE then Inl OutOfBounds
              else Inr (c\<lparr>dc_lastContainerFileName := name,
                          dc_currentContainer := \<lparr>c_used = used, c_body = mem_write b1 0 d\<rparr>\<rparr>)))"

definition deleteDeltaCompressor :: "DeltaCompressor \<Rightarrow> world \<Rightarrow> world result" where
  "deleteDeltaCompressor c w =
     (let w1 = w\<lparr>w_fs := fs_try_write (str ''.DeltaConfig'')
            (dc_lastContainerFileName c @ [10] @ dec_of_nat (unat (c_used (dc_currentContainer c))) @ [10])
            (w_fs w)\<rparr>
      in and_then (DeltaContainer_saveTOFile (dc_currentContainer c) (deltaPath c (dc_lastContainerFileName c)) w1)
           (\<lambda>(_, w2). Inr w2))"

section \<open>The store of delta chunks\<close>

definition writeDeltaContainer ::
  "keyForChunkHashDB_t \<Rightarrow> bytes \<Rightarrow> DeltaCompressor \<Rightarrow> world
     \<Rightarrow> (bool \<times> keyForChunkHashDB_t \<times> DeltaCompressor \<times> world) result" where
  "writeDeltaContainer key data c w =
     and_then
       (if unat (key_length key + c_used (dc_currentContainer c)) < unat (dc_maxContainerSize c) then
          and_then (body_write (dc_currentContainer c) (unat (c_used (dc_currentContainer c))) data
                      (unat (key_length key))) (\<lambda>b.
          and_then (set_name (dc_lastContainerFileName c) key) (\<lambda>k.
            Inr (k, c\<lparr>dc_currentContainer := b\<rparr>, w)))
        else
          and_then (DeltaContainer_saveTOFile (dc_currentContainer c)
                      (deltaPath c (dc_lastContainerFileName c)) w) (\<lambda>(_, w1).
            (let name = snd (next_permutation (dc_lastContainerFileName c));
                 b0 = (dc_currentContainer c)\<lparr>c_used := 0\<rparr> in
             and_then (body_write b0 0 data (unat (key_length key))) (\<lambda>b.
             and_then (set_name name key) (\<lambda>k.
               Inr (k, c\<lparr>dc_lastContainerFileName := name, dc_currentContainer := b\<rparr>, w1))))))
       (\<lambda>(k, c1, w1).
          Inr (True, k\<lparr>key_offset := c_used (dc_currentContainer c1)\<rparr>, c1, w1))"

definition readDeltaContainer ::
  "keyForChunkHashDB_t \<Rightarrow> DeltaCompressor \<Rightarrow> world \<Rightarrow> (bytes option \<times> DeltaCompressor) result" where
  "readDeltaContainer key c w =
     (let n = length (dc_lastContainerFileName c);
          name = take n (key_containerName key);
          off = unat (key_offset key); len = unat (key_length key) in
      if n > length (key_containerName key) then Inl OutOfBounds
      else if name = dc_currentReadContainerFileName c then
        and_then (body_read (dc_currentReadContainer c) off len) (\<lambda>d. Inr (Some d, c))
      else if name = dc_lastContainerFileName c then
        and_then (body_read (dc_currentContainer c) off len) (\<lambda>d. Inr (Some d, c))
      else case files (w_fs w) (deltaPath c name) of
             None \<Rightarrow> Inr (None, c)
           | Some f \<Rightarrow>
               if length f > BODY_SIZE then Inl OutOfBounds
               else (let b = \<lparr>c_used = of_nat (length f),
                               c_body = mem_write (c_body (dc_currentReadContainer c)) 0 f\<rparr> in
                     and_then (body_read b off len) (\<lambda>d.
                       Inr (Some d, c\<lparr>dc_currentReadContainer := b,
                                      dc_currentReadContainerFileName := name\<rparr>))))"

text \<open>\<open>saveDeltaChunk\<close>; its argument \<open>baseHash\<close> is not used.\<close>

definition saveDeltaChunk ::
  "bytes \<Rightarrow> bytes \<Rightarrow> bytes \<Rightarrow> int \<Rightarrow> DeltaCompressor \<Rightarrow> world \<Rightarrow> (bool \<times> DeltaCompressor \<times> world) result" where
  "saveDeltaChunk chunkhash baseHash chunkData chunkSize c w =
     (let chunkHash = take CHUNK_HASH_SIZE chunkhash in
      case query (fp2ChunkDB w) chunkHash of
        None \<Rightarrow> Inr (False, c, w)
      | Some ans \<Rightarrow>
          and_then (load_key ans) (\<lambda>key0.
            (let key = key0\<lparr>key_deltaCount := key_deltaCount key0 + 1, key_length := word_of_int chunkSize\<rparr> in
             and_then (writeDeltaContainer key chunkData c w) (\<lambda>(status, key, c1, w1).
               if \<not> status then Inr (status, c1, w1)
               else (let (ok, db) = insert_db (deltaChunkDB w1) chunkHash (key_bytes key);
                         w2 = w1\<lparr>deltaChunkDB := db\<rparr> in
                     if \<not> ok then Inr (False, c1, w2)
                     else Inr (True, c1\<lparr>dc_currentContainer := (dc_currentContainer c1)
                            \<lparr>c_used := c_used (dc_currentContainer c1) + key_length key\<rparr>\<rparr>, w2))))))"

text \<open>\<open>restoreDeltaChunk\<close>: \<open>None\<close> for \<open>false\<close>.\<close>

definition restoreDeltaChunk ::
  "bytes \<Rightarrow> DeltaCompressor \<Rightarrow> world \<Rightarrow> (bytes option \<times> DeltaCompressor) result" where
  "restoreDeltaChunk chunkhash c w =
     (case query (deltaChunkDB w) (take CHUNK_HASH_SIZE chunkhash) of
        None \<Rightarrow> Inr (None, c)
      | Some ans \<Rightarrow> and_then (load_key ans) (\<lambda>key. readDeltaContainer key c w))"

section \<open>Deltas in fixed buffers\<close>

definition DELTA_BUFFER :: nat where
  [size_defs]: "DELTA_BUFFER = 2 * MAX_CHUNK_SIZE"

text \<open>What a function wrote to a zeroed buffer, read back as a C string.\<close>

definition buffer_string :: "bytes \<Rightarrow> bytes result" where
  "buffer_string out =
     (if length out > DELTA_BUFFER then Inl OutOfBounds
      else c_string (out @ replicate (DELTA_BUFFER - length out) 0))"

text \<open>The size of the delta of a chunk against a base, the fingerprint of the base included;
  \<open>None\<close> where the delta is not smaller than the chunk or too long.\<close>

definition gain :: "bytes \<Rightarrow> bytes \<Rightarrow> nat option" where
  "gain delta newchunk =
     (let data = CHUNK_HASH_SIZE + length delta in
      if length newchunk \<le> data \<or> data \<ge> MAX_CHUNK_SIZE then None else Some data)"

text \<open>The delta is applied again, into a second buffer; for the pairs of the log its content is not
  looked at, for the groups it is read as a C string and dropped.\<close>

definition log_delta ::
  "(bytes \<Rightarrow> bytes \<Rightarrow> bytes) \<Rightarrow> (bytes \<Rightarrow> bytes \<Rightarrow> bytes) \<Rightarrow> bytes \<Rightarrow> bytes \<Rightarrow> nat option result" where
  "log_delta dcr da basechunk newchunk =
     and_then (buffer_string (dcr basechunk newchunk)) (\<lambda>delta.
       if length (da basechunk delta) > DELTA_BUFFER then Inl OutOfBounds else Inr (gain delta newchunk))"

definition group_delta ::
  "(bytes \<Rightarrow> bytes \<Rightarrow> bytes) \<Rightarrow> (bytes \<Rightarrow> bytes \<Rightarrow> bytes) \<Rightarrow> bytes \<Rightarrow> bytes \<Rightarrow> nat option result" where
  "group_delta dcr da basechunk newchunk =
     and_then (buffer_string (dcr basechunk newchunk)) (\<lambda>delta.
     and_then (buffer_string (da basechunk delta)) (\<lambda>_. Inr (gain delta newchunk)))"

text \<open>\<open>x += n\<close> for an \<open>int\<close> and a \<open>size_t\<close>.\<close>

definition add_sum :: "int \<Rightarrow> nat \<Rightarrow> int" where
  "add_sum i n = int_of_u64 (word_of_int (i + int n))"

section \<open>The pairs of the log\<close>

text \<open>\<open>s.substr(0, s.size() - 2)\<close>: the unsigned difference wraps around for a shorter string,
  which is then taken whole.\<close>

definition but_two :: "bytes \<Rightarrow> bytes" where
  "but_two s = (if length s < 2 then s else take (length s - 2) s)"

definition zero_pad :: "nat \<Rightarrow> bytes \<Rightarrow> bytes" where
  "zero_pad n s = take n s @ replicate (n - length s) 0"

definition text_of :: "bytes option \<Rightarrow> bytes" where
  "text_of r = (case r of None \<Rightarrow> [] | Some d \<Rightarrow> d)"

definition log_entry ::
  "(bytes \<Rightarrow> bytes \<Rightarrow> bytes) \<Rightarrow> (bytes \<Rightarrow> bytes \<Rightarrow> bytes) \<Rightarrow> bytes \<Rightarrow> bytes \<Rightarrow> bytes \<Rightarrow> bytes \<Rightarrow> int \<times> int
     \<Rightarrow> (int \<times> int) result" where
  "log_entry dcr da basehash newhash basechunk newchunk sums =
     (if basehash = newhash then Inr sums
      else if but_two basechunk = but_two newchunk then Inr sums
      else and_then (log_delta dcr da basechunk newchunk) (\<lambda>r. case r of
             None \<Rightarrow> Inr sums
           | Some n \<Rightarrow> Inr (add_sum (fst sums) (length newchunk), add_sum (snd sums) n)))"

text \<open>The loop over \<open>similar.log\<close>: \<open>buf\<close> is what is left of the file, \<open>sums\<close> the pair of
  \<open>totalSize\<close> and \<open>deltaSize\<close>.  A short read sets \<open>eof\<close>: before the first fingerprint the loop is left
  after one more restore, before the second one after the pair.\<close>

function log_loop ::
  "(bytes \<Rightarrow> bytes \<Rightarrow> bytes) \<Rightarrow> (bytes \<Rightarrow> bytes \<Rightarrow> bytes) \<Rightarrow> world \<Rightarrow> bytes \<Rightarrow> StorageCore \<Rightarrow> int \<times> int
     \<Rightarrow> ((int \<times> int) \<times> StorageCore) result option" where
  "log_loop dcr da w buf s sums =
     opt_then (restoreChunk da w s (zero_pad CHUNK_HASH_SIZE buf)) (\<lambda>(base, s1).
       if length buf < CHUNK_HASH_SIZE then Some (Inr (sums, s1))
       else (let rest = drop CHUNK_HASH_SIZE buf in
         opt_then (restoreChunk da w s1 (zero_pad CHUNK_HASH_SIZE rest)) (\<lambda>(new, s2).
         opt_then (Some (log_entry dcr da (zero_pad CHUNK_HASH_SIZE buf) (zero_pad CHUNK_HASH_SIZE rest)
                           (text_of base) (text_of new) sums)) (\<lambda>sums'.
           if length rest < CHUNK_HASH_SIZE then Some (Inr (sums', s2))
           else log_loop dcr da w (drop CHUNK_HASH_SIZE rest) s2 sums'))))"
  by pat_completeness auto
termination
  by (relation "measure (\<lambda>(dcr, da, w, buf, s, sums). length buf)") (auto simp: size_defs)

declare log_loop.simps [simp del]

text \<open>The stream is opened for reading and writing, which needs an existing, writable file.\<close>

definition read_log ::
  "(bytes \<Rightarrow> bytes \<Rightarrow> bytes) \<Rightarrow> (bytes \<Rightarrow> bytes \<Rightarrow> bytes) \<Rightarrow> world \<Rightarrow> StorageCore
     \<Rightarrow> ((int \<times> int) \<times> StorageCore) result option" where
  "read_log dcr da w s =
     (case files (w_fs w) (str ''similar.log'') of
        Some f \<Rightarrow> if writable (w_fs w) (str ''similar.log'') then log_loop dcr da w f s (0, 0)
                  else Some (Inr ((0, 0), s))
      | None \<Rightarrow> Some (Inr ((0, 0), s)))"

section \<open>Groups of similar chunks\<close>

text \<open>The loop over the result of an aggregation: a group of more than one chunk is listed and
  marked.  A group without a value for the feature makes \<open>get_utf8\<close> throw.\<close>

fun make_groups ::
  "'m mongo \<Rightarrow> string \<Rightarrow> (bytes option \<times> int) list \<Rightarrow> 'm \<Rightarrow> bytes list list \<Rightarrow> ('m \<times> bytes list list) result" where
  "make_groups mg field [] m groups = Inr (m, groups)"
| "make_groups mg field ((i, n) # docs) m groups =
     (if n > 1 then
        (case i of
           None \<Rightarrow> Inl (Thrown ''bsoncxx::exception'')
         | Some v \<Rightarrow> make_groups mg field docs (update_group mg field v m) (groups @ [find_hash mg field v m]))
      else make_groups mg field docs m groups)"

text \<open>The first \<open>CHUNK_HASH_SIZE\<close> bytes behind \<open>c_str()\<close>.\<close>

definition hash_bytes :: "bytes \<Rightarrow> bytes result" where
  "hash_bytes h = (if length h + 1 < CHUNK_HASH_SIZE then Inl OutOfBounds
                   else Inr (take CHUNK_HASH_SIZE (h @ [0])))"

record sums =
  sum_total :: int
  sum_delta :: int
  sum_total_d :: int
  sum_delta_d :: int

text \<open>A chunk of a group, compressed against the first chunk of the group; the sums grow by its size
  and by the size of its delta, or by its size twice when there is no gain.\<close>

definition count_delta :: "bytes \<Rightarrow> nat option \<Rightarrow> sums \<Rightarrow> sums" where
  "count_delta newchunk d t =
     (case d of
        None \<Rightarrow> t\<lparr>sum_total := add_sum (sum_total t) (length newchunk),
                  sum_delta := add_sum (sum_delta t) (length newchunk)\<rparr>
      | Some n \<Rightarrow> t\<lparr>sum_total := add_sum (sum_total t) (length newchunk), sum_delta := add_sum (sum_delta t) n,
                    sum_total_d := add_sum (sum_total_d t) (length newchunk),
                    sum_delta_d := add_sum (sum_delta_d t) n\<rparr>)"

definition group_chunk ::
  "(bytes \<Rightarrow> bytes \<Rightarrow> bytes) \<Rightarrow> (bytes \<Rightarrow> bytes \<Rightarrow> bytes) \<Rightarrow> world \<Rightarrow> bytes \<Rightarrow> bytes \<Rightarrow> bytes \<Rightarrow> StorageCore \<Rightarrow> sums
     \<Rightarrow> (StorageCore \<times> sums) result option" where
  "group_chunk dcr da w basehash basechunk h s t =
     (if h = basehash then Some (Inr (s, t))
      else opt_then (Some (hash_bytes h)) (\<lambda>hb.
           opt_then (restoreChunk da w s hb) (\<lambda>(r, s1).
             case r of
               None \<Rightarrow> Some (Inr (s1, t))
             | Some newchunk \<Rightarrow>
                 opt_then (Some (group_delta dcr da basechunk newchunk)) (\<lambda>d.
                   Some (Inr (s1, count_delta newchunk d t))))))"

fun group_rest ::
  "(bytes \<Rightarrow> bytes \<Rightarrow> bytes) \<Rightarrow> (bytes \<Rightarrow> bytes \<Rightarrow> bytes) \<Rightarrow> world \<Rightarrow> bytes \<Rightarrow> bytes \<Rightarrow> bytes list \<Rightarrow> StorageCore \<Rightarrow> sums
     \<Rightarrow> (StorageCore \<times> sums) result option" where
  "group_rest dcr da w basehash basechunk [] s t = Some (Inr (s, t))"
| "group_rest dcr da w basehash basechunk (h # hs) s t =
     opt_then (group_chunk dcr da w basehash basechunk h s t)
       (\<lambda>(s1, t1). group_rest dcr da w basehash basechunk hs s1 t1)"

fun groups_loop ::
  "(bytes \<Rightarrow> bytes \<Rightarrow> bytes) \<Rightarrow> (bytes \<Rightarrow> bytes \<Rightarrow> bytes) \<Rightarrow> world \<Rightarrow> bytes list list \<Rightarrow> StorageCore \<Rightarrow> sums
     \<Rightarrow> (StorageCore \<times> sums) result option" where
  "groups_loop dcr da w [] s t = Some (Inr (s, t))"
| "groups_loop dcr da w (g # gs) s t =
     opt_then (Some (vec_at g 0)) (\<lambda>h0.
     opt_then (Some (hash_bytes h0)) (\<lambda>hb.
     opt_then (restoreChunk da w s hb) (\<lambda>(r, s1).
       case r of
         None \<Rightarrow> groups_loop dcr da w gs s1 t
       | Some basechunk \<Rightarrow>
           opt_then (group_rest dcr da w h0 basechunk (tl g) s1
                       (t\<lparr>sum_total := add_sum (sum_total t) (length basechunk),
                          sum_delta := add_sum (sum_delta t) (length basechunk)\<rparr>))
             (\<lambda>(s2, t2). groups_loop dcr da w gs s2 t2))))"

section \<open>The whole run\<close>

text \<open>\<open>compress\<close>: the result is the object with its groups, the storage object, the world, the
  collection and the four sums the run prints; it returns \<open>true\<close>.\<close>

definition compress ::
  "(bytes \<Rightarrow> bytes \<Rightarrow> bytes) \<Rightarrow> (bytes \<Rightarrow> bytes \<Rightarrow> bytes) \<Rightarrow> 'm mongo \<Rightarrow> DeltaCompressor \<Rightarrow> StorageCore \<Rightarrow> world \<Rightarrow> 'm
     \<Rightarrow> (DeltaCompressor \<times> StorageCore \<times> world \<times> 'm \<times> sums) result option" where
  "compress dcr da mg c s w m =
     opt_then (read_log dcr da w s) (\<lambda>((totalSize, deltaSize), s1).
       (let w1 = w\<lparr>w_fs := fs_remove (str ''similar.log'') (w_fs w)\<rparr> in
        opt_then (Some (make_groups mg ''SF.F'' (aggregate_group mg ''SF.F'' m) m (dc_groupList c))) (\<lambda>(m1, g1).
        opt_then (Some (make_groups mg ''SF.S'' (aggregate_group mg ''SF.S'' m1) m1 g1)) (\<lambda>(m2, g2).
        opt_then (groups_loop dcr da w1 g2 s1 \<lparr>sum_total = totalSize, sum_delta = deltaSize,
                    sum_total_d = totalSize, sum_delta_d = deltaSize\<rparr>) (\<lambda>(s2, t).
          Some (Inr (c\<lparr>dc_groupList := g2\<rparr>, s2, w1, m2, t)))))))"

end
