(* ===== verification/Manager.thy ===== *)
theory Manager
  imports Compressor
begin

text \<open>
  \<open>Manager\<close> (\<open>src/manager.cc\<close>): merges delta chunks into the containers (\<open>updateContainer\<close>),
  moves the chunks of small containers into new ones and deletes the files (\<open>rewriteContainer\<close>),
  and drops the entries of chunks without references (\<open>GC\<close>).  Each walks a database with a LevelDB
  iterator, which sees the keys at the time it was made, while the loop changes the database.
\<close>

record Manager =
  mg_lastContainerFileName :: bytes
  mg_currentReadContainerFileName :: bytes
  mg_containerNamePrefix :: bytes
  mg_DeltacontainerNamePrefix :: bytes
  mg_containerNameTail :: bytes
  mg_maxContainerSize :: u64
  mg_currentReadContainer :: Container

definition newManager :: "Configure \<Rightarrow> memory \<Rightarrow> world \<Rightarrow> Manager" where
  "newManager cfg b w =
     \<lparr>mg_lastContainerFileName = (case files (w_fs w) (str ''.StorageConfig'') of
          None \<Rightarrow> initial_name | Some t \<Rightarrow> fst (read_token t)),
      mg_currentReadContainerFileName = [], mg_containerNamePrefix = getContainerRootPath cfg,
      mg_DeltacontainerNamePrefix = getDeltaContainerRootPath cfg, mg_containerNameTail = str ''.container'',
      mg_maxContainerSize = getMaxContainerSize cfg, mg_currentReadContainer = \<lparr>c_used = 0, c_body = b\<rparr>\<rparr>"

definition managedPath :: "Manager \<Rightarrow> bytes \<Rightarrow> bytes" where
  "managedPath g name = mg_containerNamePrefix g @ name @ mg_containerNameTail g"

section \<open>Merging deltas into the containers\<close>

text \<open>\<open>readDeltaContainer\<close>: the returned value, the caller's buffer \<open>data\<close> after the call, and the
  object.\<close>

definition mg_readDeltaContainer ::
  "keyForChunkHashDB_t \<Rightarrow> bytes \<Rightarrow> Manager \<Rightarrow> world \<Rightarrow> (bool \<times> bytes \<times> Manager) result" where
  "mg_readDeltaContainer key data g w =
     (let n = length (mg_lastContainerFileName g); name = take n (key_containerName key) in
      if n > length (key_containerName key) then Inl OutOfBounds
      else case files (w_fs w) (mg_DeltacontainerNamePrefix g @ name @ mg_containerNameTail g) of
             None \<Rightarrow> Inr (False, data, g)
           | Some f \<Rightarrow>
               if length f > BODY_SIZE then Inl OutOfBounds
               else (let c = \<lparr>c_used = of_nat (length f),
                               c_body = mem_write (c_body (mg_currentReadContainer g)) 0 f\<rparr> in
                     and_then (body_read c (unat (key_offset key)) (unat (key_length key))) (\<lambda>d.
                       if length d > length data then Inl OutOfBounds
                       else Inr (True, copy_front d data,
                              g\<lparr>mg_currentReadContainer := c, mg_currentReadContainerFileName := name\<rparr>))))"

text \<open>Writing into an existing file at an offset; a gap behind its end is filled with zeros.\<close>

definition overwrite :: "nat \<Rightarrow> bytes \<Rightarrow> bytes \<Rightarrow> bytes" where
  "overwrite off d f = take off (f @ replicate (off - length f) 0) @ d @ drop (off + length d) f"

definition updateContainerFile ::
  "keyForChunkHashDB_t \<Rightarrow> keyForChunkHashDB_t \<Rightarrow> bytes \<Rightarrow> Manager \<Rightarrow> world \<Rightarrow> (bool \<times> world) result" where
  "updateContainerFile key update_key data g w =
     (let n = length (mg_lastContainerFileName g); name = take n (key_containerName key);
          readName = managedPath g name in
      if n > length (key_containerName key) then Inl OutOfBounds
      else case files (w_fs w) readName of
             None \<Rightarrow> Inr (False, w)
           | Some f \<Rightarrow>
               if \<not> writable (w_fs w) readName then Inr (False, w)
               else if unat (key_length update_key) > length data then Inl OutOfBounds
               else Inr (True, w\<lparr>w_fs := (w_fs w)\<lparr>files := (files (w_fs w))(readName \<mapsto>
                      overwrite (unat (key_offset key)) (take (unat (key_length update_key)) data) f)\<rparr>\<rparr>))"

text \<open>\<open>stoi(size) - (key.length - update_key.length)\<close>: the difference is unsigned, and so is the
  whole expression, which is then converted to \<open>int\<close>.\<close>

definition updated_size :: "int \<Rightarrow> u32 \<Rightarrow> u32 \<Rightarrow> int" where
  "updated_size sz old new = sint (word_of_int sz - (old - new))"

text \<open>The body of the loop for an entry whose chunk is in the database and not in the last container.\<close>

definition merge_delta ::
  "bytes \<Rightarrow> keyForChunkHashDB_t \<Rightarrow> bytes \<Rightarrow> Manager \<Rightarrow> world \<Rightarrow> (Manager \<times> world) result" where
  "merge_delta sKey key name g w =
     (case query (deltaChunkDB w) sKey of
        None \<Rightarrow> Inl OutOfBounds
      | Some deltaans \<Rightarrow>
          and_then (load_key deltaans) (\<lambda>update_key.
            (let containerKey = managedPath g name;
                 containerSize = (case query (containerDB w) containerKey of None \<Rightarrow> [] | Some v \<Rightarrow> v) in
             and_then (stoi containerSize) (\<lambda>sz.
               (let newsize = updated_size sz (key_length key) (key_length update_key);
                    key' = key\<lparr>key_deltaCount := key_deltaCount update_key, key_length := key_length update_key\<rparr>;
                    w1 = w\<lparr>containerDB := snd (insert_db (containerDB w) containerKey (to_string newsize)),
                           fp2ChunkDB := snd (insert_db (fp2ChunkDB w) sKey (key_bytes key'))\<rparr> in
                and_then (mg_readDeltaContainer update_key (replicate DELTA_BUFFER 0) g w1) (\<lambda>(_, data, g1).
                and_then (updateContainerFile key' update_key data g1 w1) (\<lambda>(_, w2).
                  Inr (g1, w2\<lparr>deltaChunkDB := snd (delete_db (deltaChunkDB w2) sKey)\<rparr>))))))))"

text \<open>The loop; the first component of the state is \<open>count\<close>.\<close>

fun update_loop :: "bytes list \<Rightarrow> int \<Rightarrow> Manager \<Rightarrow> world \<Rightarrow> (int \<times> Manager \<times> world) result" where
  "update_loop [] cnt g w = Inr (cnt, g, w)"
| "update_loop (sKey # ks) cnt g w =
     (case query (fp2ChunkDB w) sKey of
        None \<Rightarrow> update_loop ks (cnt + 1) g w
      | Some ans \<Rightarrow>
          and_then (load_key ans) (\<lambda>key.
          and_then (c_string (key_containerName key)) (\<lambda>name.
            if name = mg_lastContainerFileName g then update_loop ks (cnt + 1) g w
            else and_then (merge_delta sKey key name g w) (\<lambda>(g1, w1). update_loop ks cnt g1 w1))))"

text \<open>\<open>rm ./Delta/*\<close>: the files directly below the directory whose names do not start with a dot.\<close>

definition below_Delta :: "bytes \<Rightarrow> bool" where
  "below_Delta p \<longleftrightarrow> take 8 p = str ''./Delta/'' \<and> 8 < length p \<and> p ! 8 \<noteq> 46 \<and> 47 \<notin> set (drop 8 p)"

definition rm_Delta :: "filesystem \<Rightarrow> filesystem" where
  "rm_Delta fs = fs\<lparr>files := (\<lambda>p. if below_Delta p then None else files fs p)\<rparr>"

definition updateContainer :: "Manager \<Rightarrow> world \<Rightarrow> (bool \<times> Manager \<times> world) result" where
  "updateContainer g w =
     and_then (update_loop (iterator (deltaChunkDB w)) 0 g w) (\<lambda>(cnt, g1, w1).
       Inr (True, g1, if cnt = 0 then w1\<lparr>w_fs := rm_Delta (w_fs w1)\<rparr> else w1))"

section \<open>Rewriting small containers\<close>

definition REWRITE_SIZE :: int where
  "REWRITE_SIZE = 8300000"

text \<open>First loop: the containers that are small and not the last one, taken out of the database.\<close>

fun small_containers :: "bytes list \<Rightarrow> Manager \<Rightarrow> world \<Rightarrow> bytes list \<Rightarrow> (bytes list \<times> world) result" where
  "small_containers [] g w acc = Inr (acc, w)"
| "small_containers (sKey # ks) g w acc =
     (case query (containerDB w) sKey of
        None \<Rightarrow> small_containers ks g w acc
      | Some containerSize \<Rightarrow>
          and_then (stoi containerSize) (\<lambda>sz.
            if sz \<le> REWRITE_SIZE \<and> sKey \<noteq> managedPath g (mg_lastContainerFileName g)
            then small_containers ks g
                   (w\<lparr>containerDB := snd (delete_db (containerDB w) sKey)\<rparr>) (acc @ [sKey])
            else small_containers ks g w acc))"

text \<open>Second loop: every chunk in one of them is read and saved again.  The results of \<open>retriveChunk\<close>
  and \<open>saveChunk\<close> are ignored; a chunk that cannot be read is saved as an empty string.\<close>

definition move_chunk ::
  "(bytes \<Rightarrow> keyForChunkHashDB_t) \<Rightarrow> bytes \<Rightarrow> StorageCore \<Rightarrow> world \<Rightarrow> (StorageCore \<times> world) result" where
  "move_chunk stack chunkHash s w =
     and_then (hash_bytes chunkHash) (\<lambda>h.
     and_then (retriveChunk h s w) (\<lambda>(r, s1).
       (let chunkData = text_of r in
        and_then (saveChunk (stack chunkHash) h (chunkData @ [0]) (int (length chunkData)) s1 w)
          (\<lambda>(_, _, s2, w2). Inr (s2, w2)))))"

fun move_chunks ::
  "(bytes \<Rightarrow> keyForChunkHashDB_t) \<Rightarrow> bytes list \<Rightarrow> bytes list \<Rightarrow> Manager \<Rightarrow> StorageCore \<Rightarrow> world
     \<Rightarrow> (StorageCore \<times> world) result" where
  "move_chunks stack [] cl g s w = Inr (s, w)"
| "move_chunks stack (sKey # ks) cl g s w =
     (case query (fp2ChunkDB w) sKey of
        None \<Rightarrow> move_chunks stack ks cl g s w
      | Some ans \<Rightarrow>
          and_then (load_key ans) (\<lambda>key.
          and_then (c_string (key_containerName key)) (\<lambda>name.
            if managedPath g name \<in> set cl
            then and_then (move_chunk stack sKey s w) (\<lambda>(s1, w1). move_chunks stack ks cl g s1 w1)
            else move_chunks stack ks cl g s w)))"

definition rewriteContainer ::
  "(bytes \<Rightarrow> keyForChunkHashDB_t) \<Rightarrow> Manager \<Rightarrow> StorageCore \<Rightarrow> world \<Rightarrow> (bool \<times> StorageCore \<times> world) result" where
  "rewriteContainer stack g s w =
     and_then (small_containers (iterator (containerDB w)) g w []) (\<lambda>(containerList, w1).
       if containerList = [] then Inr (True, s, w1)
       else and_then (move_chunks stack (iterator (fp2ChunkDB w1)) containerList g s w1) (\<lambda>(s2, w2).
              Inr (True, s2, w2\<lparr>w_fs := fold fs_remove containerList (w_fs w2)\<rparr>)))"

section \<open>Collecting unreferenced chunks\<close>

fun GC_loop :: "bytes list \<Rightarrow> world \<Rightarrow> world result" where
  "GC_loop [] w = Inr w"
| "GC_loop (sKey # ks) w =
     (case query (fp2ChunkDB w) sKey of
        None \<Rightarrow> GC_loop ks w
      | Some ans \<Rightarrow>
          and_then (load_key ans) (\<lambda>key.
            GC_loop ks (if key_count key = 0
                        then w\<lparr>fp2ChunkDB := snd (delete_db (fp2ChunkDB w) sKey)\<rparr> else w)))"

definition GC :: "world \<Rightarrow> (bool \<times> world) result" where
  "GC w = and_then (GC_loop (iterator (fp2ChunkDB w)) w) (\<lambda>w1. Inr (True, w1))"

end
