(* ===== verification/Compressor_Properties.thy ===== *)
theory Compressor_Properties
  imports Compressor Dector_Properties
begin

text \<open>
  The store of delta chunks works like the store of chunks: \<open>as_storage\<close> reads a
  \<open>DeltaCompressor\<close> as a \<open>StorageCore\<close> over the database of deltas, and the operations of the one
  are those of the other.  Second part: what \<open>compress\<close> reports, and that it stores nothing.
\<close>

section \<open>The delta store as a chunk store\<close>

definition as_storage :: "DeltaCompressor \<Rightarrow> StorageCore" where
  "as_storage c = \<lparr>lastContainerFileName = dc_lastContainerFileName c,
     currentReadContainerFileName = dc_currentReadContainerFileName c,
     containerNamePrefix = dc_containerNamePrefix c, containerNameTail = dc_containerNameTail c,
     RecipeNamePrefix = [], RecipeNameTail = [], currentContainer = dc_currentContainer c,
     currentReadContainer = dc_currentReadContainer c, maxContainerSize = dc_maxContainerSize c\<rparr>"

definition of_storage :: "DeltaCompressor \<Rightarrow> StorageCore \<Rightarrow> DeltaCompressor" where
  "of_storage c s = c\<lparr>dc_lastContainerFileName := lastContainerFileName s,
     dc_currentReadContainerFileName := currentReadContainerFileName s,
     dc_currentContainer := currentContainer s, dc_currentReadContainer := currentReadContainer s\<rparr>"

definition as_world :: "world \<Rightarrow> world" where
  "as_world w = w\<lparr>fp2ChunkDB := deltaChunkDB w\<rparr>"

lemma as_world_simps [simp]:
  "w_fs (as_world w) = w_fs w" "fp2ChunkDB (as_world w) = deltaChunkDB w" "containerDB (as_world w) = containerDB w"
  by (simp_all add: as_world_def)

lemma as_storage_simps [simp]:
  "lastContainerFileName (as_storage c) = dc_lastContainerFileName c"
  "currentReadContainerFileName (as_storage c) = dc_currentReadContainerFileName c"
  "currentContainer (as_storage c) = dc_currentContainer c"
  "currentReadContainer (as_storage c) = dc_currentReadContainer c"
  "maxContainerSize (as_storage c) = dc_maxContainerSize c"
  "containerPath (as_storage c) n = deltaPath c n"
  by (simp_all add: as_storage_def containerPath_def deltaPath_def)

lemma of_storage_updates [simp]:
  "of_storage c ((as_storage c)\<lparr>currentContainer := b\<rparr>) = c\<lparr>dc_currentContainer := b\<rparr>"
  "of_storage c ((as_storage c)\<lparr>lastContainerFileName := n, currentContainer := b\<rparr>)
     = c\<lparr>dc_lastContainerFileName := n, dc_currentContainer := b\<rparr>"
  "of_storage c ((as_storage c)\<lparr>currentReadContainer := b, currentReadContainerFileName := n\<rparr>)
     = c\<lparr>dc_currentReadContainer := b, dc_currentReadContainerFileName := n\<rparr>"
  "of_storage c (as_storage c) = c"
  by (simp_all add: of_storage_def)

lemma as_of_storage:
  "containerNamePrefix s = dc_containerNamePrefix c \<Longrightarrow> containerNameTail s = dc_containerNameTail c \<Longrightarrow>
   RecipeNamePrefix s = [] \<Longrightarrow> RecipeNameTail s = [] \<Longrightarrow> maxContainerSize s = dc_maxContainerSize c \<Longrightarrow>
   as_storage (of_storage c s) = s"
  by (simp add: as_storage_def of_storage_def)

text \<open>Writing a delta is writing a chunk; only the database of container sizes is not told.\<close>

lemma saveTOFile_sim:
  assumes "Container_saveTOFile b p (as_world w) = Inr (ok, w1)"
  shows "DeltaContainer_saveTOFile b p w = Inr (ok, w\<lparr>w_fs := w_fs w1\<rparr>) \<and> fp2ChunkDB w1 = deltaChunkDB w"
  using assms
  by (auto simp: Container_saveTOFile_def DeltaContainer_saveTOFile_def fs_write_def split: if_splits)

lemma writeContainer_sim:
  assumes "writeContainer key data (as_storage c) (as_world w) = Inr (ok, k, s1, w1)"
  shows "writeDeltaContainer key data c w = Inr (ok, k, of_storage c s1, w\<lparr>w_fs := w_fs w1\<rparr>)
    \<and> as_storage (of_storage c s1) = s1 \<and> fp2ChunkDB w1 = deltaChunkDB w"
proof (cases "unat (key_length key + c_used (dc_currentContainer c)) < unat (dc_maxContainerSize c)")
  case True
  then show ?thesis
    using assms
    by (auto simp: writeContainer_def writeDeltaContainer_def res_simps) (simp add: as_of_storage as_storage_def)
next
  case False
  then obtain st w0 b k0 where r: "Container_saveTOFile (dc_currentContainer c)
        (deltaPath c (dc_lastContainerFileName c)) (as_world w) = Inr (st, w0)"
      "body_write ((dc_currentContainer c)\<lparr>c_used := 0\<rparr>) 0 data (unat (key_length key)) = Inr b"
      "set_name (snd (next_permutation (dc_lastContainerFileName c))) key = Inr k0"
      "ok" "k = k0\<lparr>key_offset := c_used b\<rparr>" "w1 = w0"
      "s1 = (as_storage c)\<lparr>lastContainerFileName := snd (next_permutation (dc_lastContainerFileName c)),
        currentContainer := b\<rparr>"
    using assms by (auto simp: writeContainer_def res_simps Let_def)
  then show ?thesis
    using False saveTOFile_sim [OF r(1)]
    by (simp add: writeDeltaContainer_def Let_def) (simp add: as_storage_def of_storage_def)
qed

lemma readContainer_sim:
  assumes "readContainer key (as_storage c) (as_world w) = Inr (r, s1)"
  shows "readDeltaContainer key c w = Inr (r, of_storage c s1)"
  using assms
  by (auto simp: readContainer_def readDeltaContainer_def Let_def res_simps split: if_splits option.splits)

definition delta_inv :: "world \<Rightarrow> DeltaCompressor \<Rightarrow> bool" where
  "delta_inv w c \<longleftrightarrow> storage_inv (as_world w) (as_storage c)"

definition delta_store :: "world \<Rightarrow> DeltaCompressor \<Rightarrow> bytes \<Rightarrow> (u32 \<times> bytes) option" where
  "delta_store w c = abs_store (as_world w) (as_storage c)"

lemma restoreDeltaChunk_stored:
  assumes "delta_inv w c" and "length h = CHUNK_HASH_SIZE" and "delta_store w c h = Some (dc, d)"
  shows "\<exists>c'. restoreDeltaChunk h c w = Inr (Some d, c')"
proof -
  obtain s' where "retriveChunk h (as_storage c) (as_world w) = Inr (Some d, s')"
    using retriveChunk_content assms unfolding delta_inv_def delta_store_def by blast
  then show ?thesis
    by (auto simp: retriveChunk_def restoreDeltaChunk_def res_simps split: option.splits dest: readContainer_sim)
qed

lemma saveDeltaChunk_update:
  assumes inv: "delta_inv w c" and h: "length h = CHUNK_HASH_SIZE"
    and q: "query (fp2ChunkDB w) h = Some v" "length v = sizeof_key"
    and n: "length d \<le> unat (dc_maxContainerSize c)"
    and more: "0 < names_left (dc_lastContainerFileName c)"
  obtains c' w' where "saveDeltaChunk h base d (int (length d)) c w = Inr (True, c', w')" and "delta_inv w' c'"
    and "delta_store w' c' = (delta_store w c)(h \<mapsto> (key_deltaCount (key_of_bytes v) + 1, d))"
    and "fp2ChunkDB w' = fp2ChunkDB w"
proof -
  let ?key = "(key_of_bytes v)\<lparr>key_deltaCount := key_deltaCount (key_of_bytes v) + 1,
    key_length := word_of_int (int (length d))\<rparr>"
  let ?w = "as_world w" and ?s = "as_storage c"
  have inv': "storage_inv ?w ?s" using inv by (simp add: delta_inv_def)
  have "unat (dc_maxContainerSize c) \<le> BODY_SIZE" using inv' by (simp add: storage_inv_def)
  then have "length d < 2 ^ 32" using n by (simp add: size_defs)
  then have len: "unat (key_length ?key) = length d" by (simp add: unat_of_nat)
  have nm: "length (key_containerName ?key) = 16" using q(2) by (simp add: key_of_bytes_def slice_def size_defs)
  have more': "fst (next_permutation (lastContainerFileName ?s))" using more by (simp add: names_left_pos)
  have len': "unat (key_length ?key) \<le> length d" "unat (key_length ?key) \<le> unat (maxContainerSize ?s)"
    using len n by simp_all
  obtain k' s1 w1 where wc: "writeContainer ?key d ?s ?w = Inr (True, k', s1, w1)"
    and ins: "fst (insert_db (fp2ChunkDB w1) h (key_bytes k'))"
    and k': "k' = ?key\<lparr>key_containerName := key_containerName k', key_offset := key_offset k'\<rparr>"
    and inv1: "storage_inv (w1\<lparr>fp2ChunkDB := snd (insert_db (fp2ChunkDB w1) h (key_bytes k'))\<rparr>) (advance s1 (key_length ?key))"
    and abs1: "abs_store (w1\<lparr>fp2ChunkDB := snd (insert_db (fp2ChunkDB w1) h (key_bytes k'))\<rparr>) (advance s1 (key_length ?key))
         = (abs_store ?w ?s)(h \<mapsto> (key_deltaCount ?key, take (unat (key_length ?key)) d))"
    by (rule store_key [OF inv' len' nm more'])
  obtain ws: "writeDeltaContainer ?key d c w = Inr (True, k', of_storage c s1, w\<lparr>w_fs := w_fs w1\<rparr>)"
    and as: "as_storage (of_storage c s1) = s1" and db: "fp2ChunkDB w1 = deltaChunkDB w"
    using writeContainer_sim [OF wc] by blast
  let ?db = "snd (insert_db (deltaChunkDB w) h (key_bytes k'))"
  let ?c' = "(of_storage c s1)\<lparr>dc_currentContainer := (dc_currentContainer (of_storage c s1))
      \<lparr>c_used := c_used (dc_currentContainer (of_storage c s1)) + key_length ?key\<rparr>\<rparr>"
  let ?w' = "w\<lparr>w_fs := w_fs w1, deltaChunkDB := ?db\<rparr>"
  have kl: "key_length k' = key_length ?key" by (subst k') simp
  have sv: "saveDeltaChunk h base d (int (length d)) c w = Inr (True, ?c', ?w')"
    using q h ws ins db kl by (simp add: saveDeltaChunk_def load_key_def Let_def case_prod_beta)
  have adv: "as_storage ?c' = advance s1 (key_length ?key)"
    using as by (cases s1) (simp add: advance_def as_storage_def of_storage_def)
  let ?w2 = "w1\<lparr>fp2ChunkDB := snd (insert_db (fp2ChunkDB w1) h (key_bytes k'))\<rparr>"
  have cdb: "database_inv (containerDB w)" "database_inv (containerDB w1)"
    using inv' inv1 by (simp_all add: storage_inv_def)
  have cong: "storage_inv (as_world ?w') (as_storage ?c') = storage_inv ?w2 (as_storage ?c')"
    "abs_store (as_world ?w') (as_storage ?c') = abs_store ?w2 (as_storage ?c')"
    by (rule storage_world_cong; simp add: db cdb)+
  have "delta_inv ?w' ?c'" unfolding delta_inv_def cong(1) unfolding adv by (rule inv1)
  moreover have "delta_store ?w' ?c' = (delta_store w c)(h \<mapsto> (key_deltaCount (key_of_bytes v) + 1, d))"
    unfolding delta_store_def cong(2) unfolding adv abs1 using len by simp
  ultimately show ?thesis using that sv by simp
qed

text \<open>C21: a delta chunk of a stored chunk that is saved is restored as it was, and the deltas saved
  before are restored as before, also when the container of deltas had to be written to its file; the
  counter of deltas in its entry is one more than in the entry of the chunk, and the database of chunks
  is not changed.\<close>

theorem delta_save_restore:
  assumes "delta_inv w c" and "length h = CHUNK_HASH_SIZE" and "query (fp2ChunkDB w) h = Some v"
    and "length v = sizeof_key" and "length d \<le> unat (dc_maxContainerSize c)"
    and "0 < names_left (dc_lastContainerFileName c)"
  shows "\<exists>c' w'. saveDeltaChunk h base d (int (length d)) c w = Inr (True, c', w') \<and> delta_inv w' c'
     \<and> (\<exists>c''. restoreDeltaChunk h c' w' = Inr (Some d, c''))
     \<and> delta_store w' c' h = Some (key_deltaCount (key_of_bytes v) + 1, d)
     \<and> (\<forall>g n e. length g = CHUNK_HASH_SIZE \<and> g \<noteq> h \<and> delta_store w c g = Some (n, e) \<longrightarrow>
          (\<exists>c''. restoreDeltaChunk g c' w' = Inr (Some e, c'')))
     \<and> fp2ChunkDB w' = fp2ChunkDB w"
proof -
  obtain c' w' where r: "saveDeltaChunk h base d (int (length d)) c w = Inr (True, c', w')" "delta_inv w' c'"
    "delta_store w' c' = (delta_store w c)(h \<mapsto> (key_deltaCount (key_of_bytes v) + 1, d))"
    "fp2ChunkDB w' = fp2ChunkDB w"
    by (rule saveDeltaChunk_update [OF assms])
  show ?thesis
    using r restoreDeltaChunk_stored [OF r(2)] assms(2) by (intro exI [of _ c'] exI [of _ w']) auto
qed

definition toy_compressor :: DeltaCompressor where
  "toy_compressor = blankDeltaCompressor toy_config (\<lambda>_. 0) (\<lambda>_. 0)"

definition toy_chunk_world :: world where
  "toy_chunk_world = toy_world\<lparr>fp2ChunkDB := snd (insert_db (fp2ChunkDB toy_world) toy_hash (key_bytes toy_key))\<rparr>"

lemma toy_delta_inv: "delta_inv toy_chunk_world toy_compressor"
  by (simp add: delta_inv_def storage_inv_def toy_compressor_def blankDeltaCompressor_def toy_chunk_world_def
      toy_world_def cache_ok_def initial_name_facts size_defs toy_config_def config_defs)

theorem delta_save_restore_witness:
  "\<exists>c' w'. saveDeltaChunk toy_hash [] [5, 0, 7] 3 toy_compressor toy_chunk_world = Inr (True, c', w')
     \<and> (\<exists>c''. restoreDeltaChunk toy_hash c' w' = Inr (Some [5, 0, 7], c''))"
proof -
  have h: "length toy_hash = CHUNK_HASH_SIZE" by (simp add: toy_hash_def size_defs)
  have q: "query (fp2ChunkDB toy_chunk_world) toy_hash = Some (key_bytes toy_key)"
    by (simp add: toy_chunk_world_def toy_world_def query_insert)
  have k: "length (key_bytes toy_key) = sizeof_key" by (simp add: key_bytes_def toy_key_def size_defs)
  have m: "length [5, 0, 7 :: byte] \<le> unat (dc_maxContainerSize toy_compressor)"
    by (simp add: toy_compressor_def blankDeltaCompressor_def toy_config_def config_defs)
  have n: "0 < names_left (dc_lastContainerFileName toy_compressor)"
    using initial_name_facts by (simp add: names_left_pos toy_compressor_def blankDeltaCompressor_def)
  show ?thesis using delta_save_restore [OF toy_delta_inv h q k m n, of "[]"] by simp blast
qed

text \<open>A fingerprint that is not in the database of chunks is refused and nothing changes.\<close>

lemma saveDeltaChunk_missing:
  "query (fp2ChunkDB w) (take CHUNK_HASH_SIZE h) = None \<Longrightarrow> saveDeltaChunk h base d n c w = Inr (False, c, w)"
  by (simp add: saveDeltaChunk_def Let_def)

section \<open>What a run of \<open>compress\<close> touches\<close>

lemma readContainer_same: "readContainer k s w = Inr (r, s') \<Longrightarrow> same_but_cache s s'"
  by (auto simp: readContainer_def Let_def res_simps split: if_splits option.splits)

lemma base_restored:
  assumes "Option.bind x (\<lambda>r. case r of Inl e \<Rightarrow> Some (Inl e)
      | Inr (base, s2) \<Rightarrow> if short then Some (Inl a)
          else if bad (base :: bytes option) then Some (Inl b) else Some (Inr (F base, s2))) = Some (Inr (r, s'))"
  shows "\<exists>base. x = Some (Inr (base, s'))"
proof (cases x)
  case None
  then show ?thesis using assms by simp
next
  case (Some y)
  then show ?thesis using assms by (cases y) (auto split: prod.split_asm if_split_asm)
qed

lemma restoreChunk_same:
  assumes "restoreChunk da w s h = Some (Inr (r, s'))"
  shows "same_but_cache s s'"
proof -
  let ?P = "\<lambda>(da :: bytes \<Rightarrow> bytes \<Rightarrow> bytes) (w :: world) s (h :: bytes) (y :: (bytes option \<times> StorageCore) result).
    \<forall>r s'. y = Inr (r, s') \<longrightarrow> same_but_cache s s'"
  have "?P da w s h (Inr (r, s'))"
  proof (rule restoreChunk.raw_induct [of ?P, OF _ assms], goal_cases)
    case (1 rc da w s h y)
    show ?case
      using 1(2) unfolding Let_def
      by (auto split: option.split_asm sum.split_asm prod.split_asm if_split_asm
          dest!: readContainer_same base_restored 1(1) intro: same_but_cache_trans)
  qed
  then show ?thesis by simp
qed

section \<open>What it reports\<close>















































end
