(* ===== verification/Manager_Properties.thy ===== *)
theory Manager_Properties
  imports Manager Compressor_Properties Chunk_Store
begin

text \<open>
  Garbage collection removes exactly the unreferenced chunks; rewriting small containers keeps
  every chunk and frees the files; what merging deltas does.
\<close>

section \<open>Garbage collection\<close>

lemma GC_loop_sweep:
  assumes "database_inv (fp2ChunkDB w)" and "\<forall>h v. query (fp2ChunkDB w) h = Some v \<longrightarrow> length v = sizeof_key"
  shows "GC_loop ks w = Inr (w\<lparr>fp2ChunkDB :=
    fold (\<lambda>k db. case query db k of None \<Rightarrow> db
       | Some v \<Rightarrow> if key_count (key_of_bytes v) = 0 then snd (delete_db db k) else db) ks (fp2ChunkDB w)\<rparr>)"
  using assms
proof (induction ks arbitrary: w)
  case Nil
  show ?case by simp
next
  case (Cons k ks)
  show ?case
  proof (cases "query (fp2ChunkDB w) k")
    case None
    then show ?thesis using Cons by simp
  next
    case (Some v)
    let ?w = "w\<lparr>fp2ChunkDB := snd (delete_db (fp2ChunkDB w) k)\<rparr>"
    have l: "load_key v = Inr (key_of_bytes v)" using Cons.prems(2) Some by (simp add: load_key_ok)
    have d: "database_inv (fp2ChunkDB ?w)" "\<forall>h v. query (fp2ChunkDB ?w) h = Some v \<longrightarrow> length v = sizeof_key"
      using Cons.prems by (simp_all add: database_inv_delete query_delete)
    show ?thesis using Cons.IH [OF Cons.prems] Cons.IH [OF d] Some l by simp
  qed
qed

text \<open>C23: garbage collection removes exactly the entries whose reference counter is zero: the
  invariant is kept, every other chunk is still stored with its contents, and nothing but the
  database of chunks changes.\<close>

theorem GC_collects:
  assumes inv: "storage_inv w s"
  shows "\<exists>w'. GC w = Inr (True, w') \<and> storage_inv w' s \<and> w' = w\<lparr>fp2ChunkDB := fp2ChunkDB w'\<rparr>
    \<and> (\<forall>h. abs_store w' s h = (case query (fp2ChunkDB w) h of None \<Rightarrow> None
          | Some v \<Rightarrow> if key_count (key_of_bytes v) = 0 then None else abs_store w s h))"
proof -
  let ?P = "\<lambda>v. key_count (key_of_bytes v) = 0"
  let ?db = "fold (\<lambda>k db. case query db k of None \<Rightarrow> db | Some v \<Rightarrow> if ?P v then snd (delete_db db k) else db)
    (iterator (fp2ChunkDB w)) (fp2ChunkDB w)"
  let ?w = "w\<lparr>fp2ChunkDB := ?db\<rparr>"
  have d: "database_inv (fp2ChunkDB w)" and v: "\<forall>h v. query (fp2ChunkDB w) h = Some v \<longrightarrow> length v = sizeof_key"
    using inv by (auto simp: storage_inv_def)
  have gc: "GC w = Inr (True, ?w)" by (simp add: GC_def GC_loop_sweep [OF d v])
  have q: "query ?db h = (case query (fp2ChunkDB w) h of None \<Rightarrow> None | Some v \<Rightarrow> if ?P v then None else Some v)" for h
    using kv.get_sweep_keys [OF d, of ?P h] by simp
  have "storage_base ?w s"
    using inv kv.inv_sweep [OF d, of ?P] storage_fp2_update [OF d] by (simp add: storage_inv_alt)
  moreover have "length v = sizeof_key \<and> placed ?w s (key_of_bytes v)" if "query ?db h = Some v" for h v
    using that inv by (simp add: q storage_inv_alt split: option.splits if_splits)
  ultimately have "storage_inv ?w s" by (simp add: storage_inv_alt)
  moreover have "abs_store ?w s h = (case query (fp2ChunkDB w) h of None \<Rightarrow> None
      | Some v \<Rightarrow> if ?P v then None else abs_store w s h)" for h
    by (simp add: abs_store_def q split: option.splits)
  ultimately show ?thesis using gc by (intro exI [of _ ?w]) simp
qed

section \<open>Moving the chunks of small containers\<close>

text \<open>What the entries must satisfy: whole fingerprints as keys, container names that read back as C
  strings, chunks that \<open>saveChunk\<close> takes and stores unchanged.\<close>

definition movable :: "world \<Rightarrow> StorageCore \<Rightarrow> bytes \<Rightarrow> keyForChunkHashDB_t \<Rightarrow> bool" where
  "movable w s h k \<longleftrightarrow> length h = CHUNK_HASH_SIZE \<and> key_containerName k = key_name k @ [0] \<and> 0 \<notin> set (key_name k)
     \<and> 2 \<le> unat (key_length k) \<and> unat (key_length k) \<le> unat (maxContainerSize s)
     \<and> stored_form (content w s k) = content w s k"

definition all_movable :: "world \<Rightarrow> StorageCore \<Rightarrow> bool" where
  "all_movable w s \<longleftrightarrow> (\<forall>h v. query (fp2ChunkDB w) h = Some v \<longrightarrow> movable w s h (key_of_bytes v))"

text \<open>The state of the second loop with the keys \<open>ks\<close> still to come, started from \<open>w0\<close> and \<open>s0\<close>.\<close>

definition moving :: "world \<Rightarrow> StorageCore \<Rightarrow> bytes list \<Rightarrow> bytes list \<Rightarrow> world \<Rightarrow> StorageCore \<Rightarrow> bool" where
  "moving w0 s0 cl ks w s \<longleftrightarrow> storage_inv w s \<and> abs_store w s = abs_store w0 s0
     \<and> frame w0 s0 w s \<and> lastContainerFileName s0 \<le> lastContainerFileName s
     \<and> (\<forall>h \<in> set ks. query (fp2ChunkDB w) h = query (fp2ChunkDB w0) h)
     \<and> (\<forall>h v. h \<notin> set ks \<longrightarrow> query (fp2ChunkDB w) h = Some v \<longrightarrow>
          containerPath s0 (key_name (key_of_bytes v)) \<notin> set cl)
     \<and> length ks \<le> names_left (lastContainerFileName s)"

lemma length_content: "placed w s k \<Longrightarrow> length (content w s k) = unat (key_length k)"
  by (auto simp: placed_def content_def slice_def split: if_splits)

lemma move_chunk_ok:
  assumes m: "moving w0 s0 cl (h # ks) w s" and mv: "all_movable w0 s0" and stack: "stack_ok stack"
    and cl: "\<forall>p \<in> set cl. \<exists>n. p = containerPath s0 n \<and> n < lastContainerFileName s0"
    and q: "query (fp2ChunkDB w) h = Some v" and nk: "h \<notin> set ks" and inv0: "storage_inv w0 s0"
  obtains s1 w1 where "move_chunk stack h s w = Inr (s1, w1)" and "moving w0 s0 cl ks w1 s1"
proof -
  let ?k = "key_of_bytes v" and ?n = "unat (key_length (key_of_bytes v))"
  have inv: "storage_inv w s" and abs: "abs_store w s = abs_store w0 s0" and fr: "frame w0 s0 w s"
    using m by (simp_all add: moving_def)
  have q0: "query (fp2ChunkDB w0) h = Some v" using m q by (simp add: moving_def)
  have mk: "movable w0 s0 h ?k" using mv q0 by (simp add: all_movable_def)
  let ?d = "content w0 s0 ?k"
  have ld: "length ?d = ?n" using inv0 q0 by (auto simp: storage_inv_def intro: length_content)
  have a: "abs_store w s h = Some (key_deltaCount ?k, ?d)" using abs q0 by (simp add: abs_store_def)
  have h: "length h = CHUNK_HASH_SIZE" using mk by (simp add: movable_def)
  have hb: "hash_bytes h = Inr h" using h by (simp add: hash_bytes_def)
  obtain s1 where s1: "retriveChunk h s w = Inr (Some ?d, s1)" "same_but_cache s s1" "storage_inv w s1"
    using retriveChunk_content [OF inv h a] by blast
  have key0: "length (key_containerName (stack h)) = 16" using stack by (simp add: stack_ok_def)
  have ck: "chosen_key w h ?n (stack h) = (stack h)\<lparr>key_length := key_length ?k,
      key_deltaCount := key_deltaCount ?k, key_count := key_count ?k\<rparr>"
    using q by (simp add: chosen_key_def Let_def)
  have max: "maxContainerSize s1 = maxContainerSize s0" using fr s1(2) by (simp add: same_but_cacheD frame_def)
  have n: "2 \<le> unat (key_length (chosen_key w h ?n (stack h)))"
    "unat (key_length (chosen_key w h ?n (stack h))) \<le> length (?d @ [0])"
    "unat (key_length (chosen_key w h ?n (stack h))) \<le> unat (maxContainerSize s1)"
    using mk ld max by (simp_all add: ck movable_def)
  have more: "0 < names_left (lastContainerFileName s1)"
    using m s1(2) by (simp add: moving_def same_but_cacheD)
  obtain d' s2 w2 k where sv: "saveChunk (stack h) h (?d @ [0]) (int ?n) s1 w = Inr (True, d', s2, w2)"
    "storage_inv w2 s2" "abs_store w2 s2 = (abs_store w s1)(h \<mapsto> (key_deltaCount (chosen_key w h ?n (stack h)),
        stored_form (take (unat (key_length (chosen_key w h ?n (stack h)))) (?d @ [0]))))"
    "query (fp2ChunkDB w2) = (query (fp2ChunkDB w))(h \<mapsto> key_bytes k)" "key_of_bytes (key_bytes k) = k"
    "frame w s1 w2 s2" "names_left (lastContainerFileName s1) \<le> Suc (names_left (lastContainerFileName s2))"
    "key_name k = lastContainerFileName s2" "lastContainerFileName s1 \<le> lastContainerFileName s2"
    by (rule saveChunk_update [OF s1(3) h key0 n more])
  have last: "lastContainerFileName s0 \<le> lastContainerFileName s2"
    using sv(9) m s1(2) by (auto simp: moving_def same_but_cacheD)
  have abs2: "abs_store w2 s2 = abs_store w0 s0"
    using sv(3) abs_store_same [OF s1(2)] abs a ld mk by (auto simp: ck movable_def fun_eq_iff)
  have fr2: "frame w0 s0 w2 s2"
    using fr sv(6) s1(2) by (auto simp: frame_def same_but_cacheD)
  have "containerPath s0 (lastContainerFileName s2) \<notin> set cl" using cl last by auto
  then have "moving w0 s0 cl ks w2 s2"
    using m sv(2,4,5,7) last abs2 fr2 nk sv(8) s1(2) by (auto simp: moving_def same_but_cacheD)
  moreover have "move_chunk stack h s w = Inr (s2, w2)"
    using hb s1(1) sv(1) ld by (simp add: move_chunk_def text_of_def Let_def)
  ultimately show ?thesis using that by blast
qed

lemma moving_skip:
  assumes "moving w0 s0 cl (h # ks) w s"
    and "\<And>v. query (fp2ChunkDB w) h = Some v \<Longrightarrow> containerPath s0 (key_name (key_of_bytes v)) \<notin> set cl"
  shows "moving w0 s0 cl ks w s"
proof -
  have "containerPath s0 (key_name (key_of_bytes v)) \<notin> set cl"
    if "g \<notin> set ks" "query (fp2ChunkDB w) g = Some v" for g v
    using that assms by (cases "g = h") (auto simp: moving_def)
  then show ?thesis using assms(1) by (simp add: moving_def)
qed

lemma move_chunks_ok:
  assumes "moving w0 s0 cl ks w s" and "all_movable w0 s0" and "stack_ok stack" and "storage_inv w0 s0"
    and "\<forall>p \<in> set cl. \<exists>n. p = containerPath s0 n \<and> n < lastContainerFileName s0"
    and "managedPath g = containerPath s0" and "distinct ks"
  shows "\<exists>s' w'. move_chunks stack ks cl g s w = Inr (s', w') \<and> moving w0 s0 cl [] w' s'"
  using assms(1,7)
proof (induction ks arbitrary: w s)
  case Nil
  then show ?case by simp
next
  case (Cons h ks)
  have nk: "h \<notin> set ks" using Cons.prems(2) by simp
  show ?case
  proof (cases "query (fp2ChunkDB w) h")
    case None
    then have "moving w0 s0 cl ks w s" by (intro moving_skip [OF Cons.prems(1)]) simp
    then show ?thesis using Cons None by simp
  next
    case (Some v)
    have q0: "query (fp2ChunkDB w0) h = Some v" using Cons.prems(1) Some by (simp add: moving_def)
    have lk: "load_key v = Inr (key_of_bytes v)"
      using assms(4) q0 by (auto simp: storage_inv_def load_key_ok)
    have "movable w0 s0 h (key_of_bytes v)" using assms(2) q0 by (simp add: all_movable_def)
    then have cs: "c_string (key_containerName (key_of_bytes v)) = Inr (key_name (key_of_bytes v))"
      using c_string_terminated [of "key_name (key_of_bytes v)" "[]"] by (simp add: movable_def)
    show ?thesis
    proof (cases "containerPath s0 (key_name (key_of_bytes v)) \<in> set cl")
      case True
      obtain s1 w1 where "move_chunk stack h s w = Inr (s1, w1)" "moving w0 s0 cl ks w1 s1"
        by (rule move_chunk_ok [OF Cons.prems(1) assms(2,3,5) Some nk assms(4)])
      then show ?thesis using Cons.IH Cons.prems(2) Some lk cs True assms(6) by simp
    next
      case False
      then have "moving w0 s0 cl ks w s" using Some by (intro moving_skip [OF Cons.prems(1)]) simp
      then show ?thesis using Cons.IH Cons.prems(2) Some lk cs False assms(6) by simp
    qed
  qed
qed

section \<open>Rewriting\<close>

text \<open>The containers on record: files of this store up to the current one, with sizes that parse.\<close>

definition containers_ok :: "world \<Rightarrow> StorageCore \<Rightarrow> bool" where
  "containers_ok w s \<longleftrightarrow> (\<forall>p v. query (containerDB w) p = Some v \<longrightarrow>
     (\<exists>n. p = containerPath s n \<and> n \<le> lastContainerFileName s) \<and> (\<exists>i. stoi v = Inr i))"

definition small :: "database \<Rightarrow> bytes \<Rightarrow> bool" where
  "small db p \<longleftrightarrow> (\<exists>v i. query db p = Some v \<and> stoi v = Inr i \<and> i \<le> REWRITE_SIZE)"

lemma small_containers_ok:
  assumes "database_inv (containerDB w)" and "\<forall>p v. query (containerDB w) p = Some v \<longrightarrow> (\<exists>i. stoi v = Inr i)"
    and "distinct ks"
  shows "\<exists>cl db. small_containers ks g w acc = Inr (acc @ cl, w\<lparr>containerDB := db\<rparr>) \<and> database_inv db
    \<and> set cl = {p \<in> set ks. small (containerDB w) p \<and> p \<noteq> managedPath g (mg_lastContainerFileName g)}"
  using assms
proof (induction ks arbitrary: w acc)
  case Nil
  then show ?case by (intro exI [of _ "[]"] exI [of _ "containerDB w"]) simp
next
  case (Cons p ks)
  have keep: ?case
    if "small_containers (p # ks) g w acc = small_containers ks g w acc"
      "\<not> (small (containerDB w) p \<and> p \<noteq> managedPath g (mg_lastContainerFileName g))"
    using that Cons.IH [of w acc] Cons.prems by auto
  show ?case
  proof (cases "query (containerDB w) p")
    case None
    then show ?thesis by (intro keep) (simp_all add: small_def)
  next
    case (Some v)
    then obtain i where i: "stoi v = Inr i" using Cons.prems(2) by blast
    show ?thesis
    proof (cases "i \<le> REWRITE_SIZE \<and> p \<noteq> managedPath g (mg_lastContainerFileName g)")
      case False
      then show ?thesis using Some i by (intro keep) (auto simp: small_def)
    next
      case True
      let ?w = "w\<lparr>containerDB := snd (delete_db (containerDB w) p)\<rparr>"
      have d: "database_inv (containerDB ?w)" "\<forall>p v. query (containerDB ?w) p = Some v \<longrightarrow> (\<exists>i. stoi v = Inr i)"
        using Cons.prems by (simp_all add: database_inv_delete query_delete)
      have sm: "small (containerDB ?w) q = small (containerDB w) q" if "q \<noteq> p" for q
        using that Cons.prems(1) by (simp add: small_def query_delete)
      have ks: "distinct ks" "p \<notin> set ks" using Cons.prems(3) by simp_all
      obtain cl db where r: "small_containers ks g ?w (acc @ [p]) = Inr ((acc @ [p]) @ cl, ?w\<lparr>containerDB := db\<rparr>)"
        "database_inv db" "set cl = {q \<in> set ks. small (containerDB ?w) q \<and> q \<noteq> managedPath g (mg_lastContainerFileName g)}"
        using Cons.IH [OF d ks(1), of "acc @ [p]"] by blast
      have "set (p # cl) = {q \<in> set (p # ks). small (containerDB w) q \<and> q \<noteq> managedPath g (mg_lastContainerFileName g)}"
      proof -
        have "small (containerDB w) p" using Some i True by (simp add: small_def)
        moreover have "q \<in> set ks \<Longrightarrow> small (containerDB ?w) q = small (containerDB w) q" for q
          by (rule sm) (use ks(2) in auto)
        ultimately show ?thesis using r(3) True by auto
      qed
      then show ?thesis
        using r(1,2) Some i True by (intro exI [of _ "p # cl"] exI [of _ db]) simp
    qed
  qed
qed

lemma files_fold_remove: "files (fold fs_remove cl fs) p = (if p \<in> set cl then None else files fs p)"
  by (induction cl arbitrary: fs) (auto simp: fs_remove_def)

lemma writable_fold_remove: "writable (fold fs_remove cl fs) = writable fs"
  by (induction cl arbitrary: fs) simp_all

lemma removed_containers:
  fixes w s cl
  defines "w' \<equiv> w\<lparr>w_fs := fold fs_remove cl (w_fs w)\<rparr>" and "s' \<equiv> s\<lparr>currentReadContainerFileName := []\<rparr>"
  assumes inv: "storage_inv w s"
    and free: "\<forall>h v. query (fp2ChunkDB w) h = Some v \<longrightarrow> containerPath s (key_name (key_of_bytes v)) \<notin> set cl"
  shows "storage_inv w' s'" and "abs_store w' s = abs_store w s"
proof -
  have f: "files (w_fs w') p = (if p \<in> set cl then None else files (w_fs w) p)" for p
    by (simp add: w'_def files_fold_remove)
  have path: "containerPath s' = containerPath s" by (simp add: s'_def containerPath_def fun_eq_iff)
  have pl: "placed w' s' k" if "placed w s k" "containerPath s (key_name k) \<notin> set cl" for k
    using that f by (auto simp: placed_def path) (simp_all add: s'_def)
  show "storage_inv w' s'"
    using inv free pl
    by (simp add: storage_inv_def path cache_ok_def) (simp add: s'_def w'_def writable_fold_remove)
  have "content w' s k = content w s k" if "containerPath s (key_name k) \<notin> set cl" for k
    using that f by (simp add: content_def)
  then have "abs_store w' s h = abs_store w s h" for h
    using free by (cases "query (fp2ChunkDB w) h") (auto simp: abs_store_def w'_def)
  then show "abs_store w' s = abs_store w s" by (rule ext)
qed

text \<open>The list of small containers: their entries go, the files are still there.\<close>

lemma small_list:
  assumes inv: "storage_inv w s" and co: "containers_ok w s"
    and g: "managedPath g = containerPath s" "mg_lastContainerFileName g = lastContainerFileName s"
  obtains cl db where "small_containers (iterator (containerDB w)) g w [] = Inr (cl, w\<lparr>containerDB := db\<rparr>)"
    and "database_inv db"
    and "\<forall>p. p \<in> set cl \<longleftrightarrow> small (containerDB w) p \<and> p \<noteq> containerPath s (lastContainerFileName s)"
    and "\<forall>p \<in> set cl. \<exists>n. p = containerPath s n \<and> n < lastContainerFileName s"
proof -
  have cdb: "database_inv (containerDB w)" using inv by (simp add: storage_inv_def)
  have st: "\<forall>p v. query (containerDB w) p = Some v \<longrightarrow> (\<exists>i. stoi v = Inr i)" using co by (simp add: containers_ok_def)
  obtain cl db where sc: "small_containers (iterator (containerDB w)) g w [] = Inr (cl, w\<lparr>containerDB := db\<rparr>)"
    "database_inv db"
    "set cl = {p \<in> set (iterator (containerDB w)). small (containerDB w) p \<and> p \<noteq> containerPath s (lastContainerFileName s)}"
    using small_containers_ok [OF cdb st iterator_distinct [OF cdb], of g "[]"] by (auto simp: g)
  have cl: "p \<in> set cl \<longleftrightarrow> small (containerDB w) p \<and> p \<noteq> containerPath s (lastContainerFileName s)" for p
    using sc(3) iterator_dom [of "containerDB w"] by (auto simp: small_def)
  have "\<forall>p \<in> set cl. \<exists>n. p = containerPath s n \<and> n < lastContainerFileName s"
  proof
    fix p
    assume "p \<in> set cl"
    then obtain v where v: "query (containerDB w) p = Some v" "p \<noteq> containerPath s (lastContainerFileName s)"
      by (auto simp: cl small_def)
    then obtain n where "p = containerPath s n" "n \<le> lastContainerFileName s" using co by (auto simp: containers_ok_def)
    then show "\<exists>n. p = containerPath s n \<and> n < lastContainerFileName s" using v(2) by (auto simp: order_less_le)
  qed
  then show ?thesis using that [OF sc(1,2)] cl by blast
qed

text \<open>C24: rewriting the small containers loses nothing: every chunk is stored with the same contents
  afterwards, the files of the containers of at most 8300000 bytes other than the current one are gone,
  and an object without the cached container, like the one the program makes next, satisfies the
  invariant.  It needs container names that read back as C strings, chunks \<open>saveChunk\<close> does not alter,
  records of the containers that parse, and a free container name for each chunk.\<close>

theorem rewrite_keeps_chunks:
  assumes inv: "storage_inv w s" and mv: "all_movable w s" and co: "containers_ok w s" and stack: "stack_ok stack"
    and g: "managedPath g = containerPath s" "mg_lastContainerFileName g = lastContainerFileName s"
    and room: "length (iterator (fp2ChunkDB w)) \<le> names_left (lastContainerFileName s)"
  shows "\<exists>s' w'. rewriteContainer stack g s w = Inr (True, s', w') \<and> abs_store w' s' = abs_store w s
    \<and> storage_inv w' (s'\<lparr>currentReadContainerFileName := []\<rparr>)
    \<and> (\<forall>n. small (containerDB w) (containerPath s n) \<and> n \<noteq> lastContainerFileName s \<longrightarrow>
         files (w_fs w') (containerPath s n) = None)"
proof -
  have cdb: "database_inv (containerDB w)" and fdb: "database_inv (fp2ChunkDB w)"
    using inv by (simp_all add: storage_inv_def)
  obtain cl db where sc: "small_containers (iterator (containerDB w)) g w [] = Inr (cl, w\<lparr>containerDB := db\<rparr>)"
      "database_inv db"
    and cls: "\<forall>p. p \<in> set cl \<longleftrightarrow> small (containerDB w) p \<and> p \<noteq> containerPath s (lastContainerFileName s)"
    and cl': "\<forall>p \<in> set cl. \<exists>n. p = containerPath s n \<and> n < lastContainerFileName s"
    by (rule small_list [OF inv co g])
  note cl = cls [rule_format]
  let ?w = "w\<lparr>containerDB := db\<rparr>"
  have cong: "storage_inv ?w s = storage_inv w s" "abs_store ?w s = abs_store w s"
    by (rule storage_world_cong; simp add: sc(2) cdb)+
  show ?thesis
  proof (cases "cl = []")
    case True
    have "cache_ok w (s\<lparr>currentReadContainerFileName := []\<rparr>)" by (simp add: cache_ok_def)
    then have "storage_inv ?w (s\<lparr>currentReadContainerFileName := []\<rparr>)"
      using removed_containers(1) [of ?w s "[]"] inv cong(1) by simp
    moreover have "\<not> small (containerDB w) (containerPath s n)" if "n \<noteq> lastContainerFileName s" for n
      using cl [of "containerPath s n"] True that by simp
    ultimately show ?thesis
      using sc(1) True cong(2) by (intro exI [of _ s] exI [of _ ?w]) (auto simp: rewriteContainer_def)
  next
    case False
    let ?ks = "iterator (fp2ChunkDB w)"
    have con: "content ?w s k = content w s k" for k by (simp add: content_def)
    have mv': "all_movable ?w s" using mv by (simp add: all_movable_def movable_def con)
    have "moving ?w s cl ?ks ?w s"
      using inv room cong iterator_dom [of "fp2ChunkDB w"] by (auto simp: moving_def)
    then obtain s' w' where m: "move_chunks stack ?ks cl g s ?w = Inr (s', w')" "moving ?w s cl [] w' s'"
      using move_chunks_ok [OF _ mv' stack _ cl' g(1) iterator_distinct [OF fdb]] inv cong(1) by blast
    have path: "containerPath s' = containerPath s" using m(2) by (simp add: moving_def frame_def)
    let ?w' = "w'\<lparr>w_fs := fold fs_remove cl (w_fs w')\<rparr>"
    have free: "\<forall>h v. query (fp2ChunkDB w') h = Some v \<longrightarrow> containerPath s' (key_name (key_of_bytes v)) \<notin> set cl"
      using m(2) by (simp add: moving_def path)
    have inv': "storage_inv w' s'" and abs': "abs_store w' s' = abs_store w s"
      using m(2) cong(2) by (simp_all add: moving_def)
    note rm = removed_containers [OF inv' free]
    have "rewriteContainer stack g s w = Inr (True, s', ?w')"
      using sc(1) False m(1) by (simp add: rewriteContainer_def)
    moreover have "files (w_fs ?w') (containerPath s n) = None"
      if "small (containerDB w) (containerPath s n) \<and> n \<noteq> lastContainerFileName s" for n
      using that by (simp add: files_fold_remove cl)
    ultimately show ?thesis using rm abs' by (intro exI [of _ s'] exI [of _ ?w']) simp
  qed
qed

section \<open>A store with one small container\<close>

definition old_key :: keyForChunkHashDB_t where
  "old_key = \<lparr>key_containerName = initial_name @ [0], key_offset = 0, key_length = 3, key_count = 1, key_deltaCount = 0\<rparr>"

definition toy_moved :: StorageCore where
  "toy_moved = toy_storage\<lparr>lastContainerFileName := snd (next_permutation initial_name)\<rparr>"

definition old_path :: bytes where
  "old_path = containerPath toy_storage initial_name"

definition old_world :: world where
  "old_world = toy_world\<lparr>w_fs := \<lparr>files = [old_path \<mapsto> [1, 2, 3]], writable = (\<lambda>_. True)\<rparr>,
     fp2ChunkDB := snd (insert_db (empty_db (str ''db1'')) toy_hash (key_bytes old_key)),
     containerDB := snd (insert_db (empty_db (str ''db4'')) old_path (to_string 3))\<rparr>"

definition toy_manager :: Manager where
  "toy_manager = (newManager toy_config (\<lambda>_. 0) toy_world)\<lparr>mg_lastContainerFileName := snd (next_permutation initial_name)\<rparr>"

lemma old_key_ok: "key_of_bytes (key_bytes old_key) = old_key" "key_name old_key = initial_name"
  by (simp_all add: keyl.dec_enc key_ok_def old_key_def key_name_def initial_name_facts)

lemma old_queries:
  "query (fp2ChunkDB old_world) = [toy_hash \<mapsto> key_bytes old_key]" "query (containerDB old_world) = [old_path \<mapsto> to_string 3]"
  by (simp_all add: old_world_def query_insert fun_eq_iff)

lemma next_name: "initial_name < snd (next_permutation initial_name)" "length (snd (next_permutation initial_name)) = 15"
  using next_permutation_less [of initial_name] length_next_permutation [of initial_name] initial_name_facts
  by (metis prod.collapse)+

lemma toy_moved_simps [simp]:
  "lastContainerFileName toy_moved = snd (next_permutation initial_name)" "containerPath toy_moved = containerPath toy_storage"
  "maxContainerSize toy_moved = 10" "currentReadContainerFileName toy_moved = []"
  "c_used (currentContainer toy_moved) = 0"
  by (simp_all add: toy_moved_def) (simp_all add: toy_storage_eq)

lemma old_placed: "placed old_world toy_moved old_key" "content old_world toy_moved old_key = [1, 2, 3]"
  using next_name(2) next_name(1) [THEN less_imp_neq] next_name(1) old_key_ok(2)
  by (simp_all add: placed_def content_def old_world_def old_path_def [symmetric] slice_def)
    (simp_all add: old_key_def initial_name_facts size_defs)

lemma old_inv: "storage_inv old_world toy_moved"
proof -
  have "length (key_bytes old_key) = sizeof_key" by (simp add: key_bytes_def old_key_def initial_name_facts size_defs)
  moreover have "database_inv (fp2ChunkDB old_world)" "database_inv (containerDB old_world)"
    "\<forall>p. writable (w_fs old_world) p"
    by (simp_all add: old_world_def database_inv_insert)
  ultimately show ?thesis
    using next_name old_placed(1) by (simp add: storage_inv_def cache_ok_def old_queries old_key_ok size_defs)
qed

lemma toy_manager_ok:
  "managedPath toy_manager = containerPath toy_moved" "mg_lastContainerFileName toy_manager = lastContainerFileName toy_moved"
  by (simp_all add: toy_manager_def managedPath_def newManager_def containerPath_def toy_storage_eq toy_config_def
      config_defs fun_eq_iff)

lemma toy_room_moved: "1 \<le> names_left (lastContainerFileName toy_moved)"
proof -
  have "fst (next_permutation (snd (next_permutation initial_name)))" by code_simp
  then have "0 < names_left (lastContainerFileName toy_moved)" by (simp add: names_left_pos)
  then show ?thesis by linarith
qed

lemma old_abs: "abs_store old_world toy_moved toy_hash = Some (0, [1, 2, 3])"
  using old_placed(2) by (simp add: abs_store_def old_queries old_key_ok) (simp add: old_key_def)

theorem GC_collects_witness:
  "\<exists>w'. GC old_world = Inr (True, w') \<and> storage_inv w' toy_moved \<and> abs_store w' toy_moved toy_hash = Some (0, [1, 2, 3])"
proof -
  have "key_count old_key \<noteq> 0" by (simp add: old_key_def)
  then show ?thesis using GC_collects [OF old_inv] old_abs by (auto simp: old_queries old_key_ok)
qed

theorem rewrite_keeps_chunks_witness:
  "\<exists>s' w'. rewriteContainer (\<lambda>_. toy_key) toy_manager toy_moved old_world = Inr (True, s', w')
     \<and> abs_store w' s' toy_hash = Some (0, [1, 2, 3]) \<and> files (w_fs w') old_path = None"
proof -
  have nz: "0 \<notin> set initial_name" by (simp add: initial_name_def str_def)
  have mv: "all_movable old_world toy_moved"
    using nz old_placed(2) old_key_ok
    by (auto simp: all_movable_def movable_def old_queries toy_hash_def size_defs stored_form_def no_zero_def
        split: if_splits) (simp_all add: old_key_def)
  have st: "stoi (to_string 3) = Inr 3" by (rule stoi_to_string) (simp add: in_int_def)
  have co: "containers_ok old_world toy_moved"
    using next_name(1) st by (auto simp: containers_ok_def old_queries old_path_def split: if_splits)
  have stk: "stack_ok (\<lambda>_. toy_key)" by (simp add: stack_ok_def toy_key_def)
  have "set (iterator (fp2ChunkDB old_world)) = {toy_hash}" using iterator_dom [of "fp2ChunkDB old_world"] by (simp add: old_queries)
  moreover have "distinct (iterator (fp2ChunkDB old_world))"
    using old_inv by (intro iterator_distinct) (simp add: storage_inv_def)
  ultimately have "length (iterator (fp2ChunkDB old_world)) = 1" using distinct_card by fastforce
  then have rm: "length (iterator (fp2ChunkDB old_world)) \<le> names_left (lastContainerFileName toy_moved)"
    using toy_room_moved by simp
  have sm: "small (containerDB old_world) (containerPath toy_moved initial_name)"
    using st by (simp add: small_def old_queries old_path_def REWRITE_SIZE_def)
  have ne: "initial_name \<noteq> lastContainerFileName toy_moved" using next_name(1) by auto
  show ?thesis
    using rewrite_keeps_chunks [OF old_inv mv co stk toy_manager_ok rm] sm ne old_abs
    by (metis old_path_def toy_moved_simps(2))
qed

end
