(* ===== verification/Manager_Merge.thy ===== *)
theory Manager_Merge
  imports Manager_Properties
begin

text \<open>
  Merging a delta into the container of its chunk, and what becomes of the chunk.
\<close>

section \<open>Pieces\<close>

lemma overwrite_slice:
  assumes "off + length d \<le> length f"
  shows "slice off (length d) (overwrite off d f) = d" and "length (overwrite off d f) = length f"
  using assms by (simp_all add: overwrite_def slice_def)

lemma length_key_name_16: "length v = sizeof_key \<Longrightarrow> length (key_containerName (key_of_bytes v)) = 16"
  by (simp add: key_of_bytes_def slice_def size_defs)

text \<open>A pending delta that can be merged: its chunk lies in a container that is not the current one,
  the file of deltas holds it, it is no longer than the chunk, and the container is on record.\<close>

definition mergeable :: "bytes \<Rightarrow> bytes \<Rightarrow> bytes \<Rightarrow> bytes \<Rightarrow> Manager \<Rightarrow> StorageCore \<Rightarrow> world \<Rightarrow> bool" where
  "mergeable h v u df g s w \<longleftrightarrow>
     (let k = key_of_bytes v; uk = key_of_bytes u in
      length h = CHUNK_HASH_SIZE \<and> query (fp2ChunkDB w) h = Some v \<and> key_name k \<noteq> lastContainerFileName s
      \<and> database_inv (deltaChunkDB w) \<and> query (deltaChunkDB w) h = Some u \<and> length u = sizeof_key
      \<and> files (w_fs w) (mg_DeltacontainerNamePrefix g @ key_name uk @ mg_containerNameTail g) = Some df
      \<and> length df \<le> BODY_SIZE \<and> unat (key_offset uk) + unat (key_length uk) \<le> length df
      \<and> unat (key_length uk) \<le> DELTA_BUFFER \<and> unat (key_length uk) \<le> unat (key_length k)
      \<and> (\<exists>c i. query (containerDB w) (containerPath s (key_name k)) = Some c \<and> stoi c = Inr i))"

definition delta_bytes :: "bytes \<Rightarrow> bytes \<Rightarrow> bytes" where
  "delta_bytes u df = slice (unat (key_offset (key_of_bytes u))) (unat (key_length (key_of_bytes u))) df"

lemma read_delta:
  assumes "mergeable h v u df g s w" and "length (mg_lastContainerFileName g) = 15"
  obtains g1 rest where "mg_readDeltaContainer (key_of_bytes u) (replicate DELTA_BUFFER 0) g w
      = Inr (True, delta_bytes u df @ rest, g1)"
    and "mg_lastContainerFileName g1 = mg_lastContainerFileName g" and "managedPath g1 = managedPath g"
proof -
  let ?uk = "key_of_bytes u" and ?off = "unat (key_offset (key_of_bytes u))" and ?len = "unat (key_length (key_of_bytes u))"
  have m: "length u = sizeof_key" "files (w_fs w) (mg_DeltacontainerNamePrefix g @ key_name ?uk @ mg_containerNameTail g) = Some df"
    "length df \<le> BODY_SIZE" "?off + ?len \<le> length df" "?len \<le> DELTA_BUFFER"
    using assms(1) by (simp_all add: mergeable_def Let_def)
  let ?c = "\<lparr>c_used = of_nat (length df), c_body = mem_write (c_body (mg_currentReadContainer g)) 0 df\<rparr>"
  have "mem_read (c_body ?c) 0 (length df) = df" by (simp add: mem_simps)
  then have "mem_read (c_body ?c) ?off ?len = delta_bytes u df"
    unfolding delta_bytes_def using m(4) by (rule mem_read_slice)
  then have br: "body_read ?c ?off ?len = Inr (delta_bytes u df)" using m(3,4) by (simp add: body_read_ok)
  have ld: "length (delta_bytes u df) = ?len" using m(4) by (simp add: delta_bytes_def slice_def)
  have nm: "take 15 (key_containerName ?uk) = key_name ?uk" by (simp add: key_name_def)
  have "mg_readDeltaContainer ?uk (replicate DELTA_BUFFER 0) g w = Inr (True,
      delta_bytes u df @ drop ?len (replicate DELTA_BUFFER 0),
      g\<lparr>mg_currentReadContainer := ?c, mg_currentReadContainerFileName := key_name ?uk\<rparr>)"
    using assms(2) m(2,3,5) br ld length_key_name_16 [OF m(1)]
    by (simp add: mg_readDeltaContainer_def Let_def nm copy_front_def)
  then show ?thesis using that by (simp add: managedPath_def fun_eq_iff)
qed

text \<open>A chunk of a closed container is read from its file.\<close>

lemma readContainer_file:
  assumes l15: "length (lastContainerFileName s) = 15" and k16: "length (key_containerName k) = 16"
    and nm: "key_name k \<noteq> lastContainerFileName s" and cache: "currentReadContainerFileName s = []"
    and f: "files (w_fs w) (containerPath s (key_name k)) = Some f" "length f \<le> BODY_SIZE"
      "unat (key_offset k) + unat (key_length k) \<le> length f"
  obtains s' where "readContainer k s w = Inr (Some (slice (unat (key_offset k)) (unat (key_length k)) f), s')"
proof -
  let ?c = "\<lparr>c_used = of_nat (length f), c_body = mem_write (c_body (currentReadContainer s)) 0 f\<rparr>"
  have "mem_read (c_body ?c) 0 (length f) = f" by (simp add: mem_simps)
  then have "body_read ?c (unat (key_offset k)) (unat (key_length k)) = Inr (slice (unat (key_offset k)) (unat (key_length k)) f)"
    using mem_read_slice [of "c_body ?c" f] f(2,3) by (simp add: body_read_ok)
  moreover have "key_name k \<noteq> []" using k16 by (auto simp: key_name_def)
  moreover have "take 15 (key_containerName k) = key_name k" by (simp add: key_name_def)
  ultimately show ?thesis using that l15 k16 nm cache f(1,2) by (simp add: readContainer_def Let_def)
qed

text \<open>What merging a pending delta writes.\<close>

lemma merge_writes:
  assumes inv: "storage_inv w s" and mg: "mergeable h v u df g s w"
    and g: "managedPath g = containerPath s" "mg_lastContainerFileName g = lastContainerFileName s"
    and f: "files (w_fs w) (containerPath s (key_name (key_of_bytes v))) = Some f"
      "unat (key_offset (key_of_bytes v)) + length (delta_bytes u df) \<le> length f" "length f \<le> BODY_SIZE"
  obtains g' w' where "merge_delta h (key_of_bytes v) (key_name (key_of_bytes v)) g w = Inr (g', w')"
    and "files (w_fs w') (containerPath s (key_name (key_of_bytes v)))
      = Some (overwrite (unat (key_offset (key_of_bytes v))) (delta_bytes u df) f)"
    and "query (deltaChunkDB w') h = None"
    and "query (fp2ChunkDB w') h = Some (key_bytes ((key_of_bytes v)\<lparr>key_deltaCount := key_deltaCount (key_of_bytes u),
      key_length := key_length (key_of_bytes u)\<rparr>))"
proof -
  let ?k = "key_of_bytes v" and ?uk = "key_of_bytes u" and ?d = "delta_bytes u df"
  let ?p = "containerPath s (key_name ?k)" and ?off = "unat (key_offset ?k)"
  let ?k' = "?k\<lparr>key_deltaCount := key_deltaCount ?uk, key_length := key_length ?uk\<rparr>"
  have m: "query (fp2ChunkDB w) h = Some v" "database_inv (deltaChunkDB w)" "query (deltaChunkDB w) h = Some u"
    "length u = sizeof_key" "unat (key_offset ?uk) + unat (key_length ?uk) \<le> length df"
    using mg by (simp_all add: mergeable_def Let_def)
  obtain c i where c: "query (containerDB w) ?p = Some c" "stoi c = Inr i" using mg by (auto simp: mergeable_def Let_def)
  have l15: "length (lastContainerFileName s) = 15" and dbs: "database_inv (fp2ChunkDB w)" "\<forall>n. writable (w_fs w) (containerPath s n)"
    and k16: "length (key_containerName ?k) = 16"
    using inv m(1) by (auto simp: storage_inv_def placed_def)
  have ld: "length ?d = unat (key_length ?uk)" using m(5) by (simp add: delta_bytes_def slice_def)
  let ?w1 = "w\<lparr>containerDB := snd (insert_db (containerDB w) ?p (to_string (updated_size i (key_length ?k) (key_length ?uk)))),
    fp2ChunkDB := snd (insert_db (fp2ChunkDB w) h (key_bytes ?k'))\<rparr>"
  have mg1: "mg_readDeltaContainer key data g ?w1 = mg_readDeltaContainer key data g w" for key data
    by (simp add: mg_readDeltaContainer_def Let_def)
  obtain g1 rest where g1: "mg_readDeltaContainer ?uk (replicate DELTA_BUFFER 0) g w = Inr (True, ?d @ rest, g1)"
      "mg_lastContainerFileName g1 = lastContainerFileName s" "managedPath g1 = containerPath s"
    by (rule read_delta [OF mg]) (simp_all add: g l15)
  let ?w2 = "?w1\<lparr>w_fs := (w_fs w)\<lparr>files := (files (w_fs w))(?p \<mapsto> overwrite ?off ?d f)\<rparr>\<rparr>"
  let ?w3 = "?w2\<lparr>deltaChunkDB := snd (delete_db (deltaChunkDB w) h)\<rparr>"
  have nm: "take 15 (key_containerName ?k) = key_name ?k" by (simp add: key_name_def)
  have "updateContainerFile ?k' ?uk (?d @ rest) g1 ?w1 = Inr (True, ?w2)"
    using g1(2,3) l15 k16 f dbs(2) ld by (simp add: updateContainerFile_def Let_def nm)
  then have "merge_delta h ?k (key_name ?k) g w = Inr (g1, ?w3)"
    using m(3,4) c g g1(1) by (simp add: merge_delta_def load_key_ok Let_def mg1)
  then show ?thesis by (rule that) (use m(2) dbs(1) in \<open>simp_all add: query_insert query_delete\<close>)
qed

text \<open>C25: merging a pending delta puts it in the place of the chunk in the file of its container,
  records its length, removes it from the pending ones, and makes the chunk unreadable when the
  delta has no zero byte: \<open>restoreChunk\<close> then reads its buffer, which has just the length of the
  delta, as a C string, and runs past its end.\<close>

theorem merged_delta_unreadable:
  assumes inv: "storage_inv w s" and cache: "currentReadContainerFileName s = []"
    and mg: "mergeable h v u df g s w" and z: "0 \<notin> set (delta_bytes u df)" "key_deltaCount (key_of_bytes u) \<noteq> 0"
    and g: "managedPath g = containerPath s" "mg_lastContainerFileName g = lastContainerFileName s"
  shows "\<exists>g' w' f. merge_delta h (key_of_bytes v) (key_name (key_of_bytes v)) g w = Inr (g', w')
    \<and> files (w_fs w') (containerPath s (key_name (key_of_bytes v))) = Some f
    \<and> slice (unat (key_offset (key_of_bytes v))) (length (delta_bytes u df)) f = delta_bytes u df
    \<and> query (deltaChunkDB w') h = None
    \<and> restoreChunk da w' s h = Some (Inl OutOfBounds)"
proof -
  let ?k = "key_of_bytes v" and ?uk = "key_of_bytes u" and ?d = "delta_bytes u df"
  let ?off = "unat (key_offset ?k)" and ?len = "unat (key_length ?uk)"
  let ?k' = "?k\<lparr>key_deltaCount := key_deltaCount ?uk, key_length := key_length ?uk\<rparr>"
  have m: "length h = CHUNK_HASH_SIZE" "query (fp2ChunkDB w) h = Some v" "key_name ?k \<noteq> lastContainerFileName s"
    "?len \<le> unat (key_length ?k)" "unat (key_offset ?uk) + ?len \<le> length df"
    using mg by (simp_all add: mergeable_def Let_def)
  have l15: "length (lastContainerFileName s) = 15" and pl: "placed w s ?k"
    using inv m(2) by (auto simp: storage_inv_def)
  obtain f where f: "files (w_fs w) (containerPath s (key_name ?k)) = Some f" "?off + unat (key_length ?k) \<le> length f"
      "length f \<le> BODY_SIZE"
    using pl m(3) by (auto simp: placed_def)
  have k16: "length (key_containerName ?k) = 16" using pl by (simp add: placed_def)
  have ld: "length ?d = ?len" using m(5) by (simp add: delta_bytes_def slice_def)
  have fits: "?off + length ?d \<le> length f" using f(2) m(4) ld by simp
  obtain g' w' where md: "merge_delta h ?k (key_name ?k) g w = Inr (g', w')"
      "files (w_fs w') (containerPath s (key_name ?k)) = Some (overwrite ?off ?d f)" "query (deltaChunkDB w') h = None"
      "query (fp2ChunkDB w') h = Some (key_bytes ?k')"
    by (rule merge_writes [OF inv mg g f(1) fits f(3)])
  have ow: "slice ?off (length ?d) (overwrite ?off ?d f) = ?d" "length (overwrite ?off ?d f) = length f"
    using overwrite_slice [of ?off ?d f] fits by auto
  have k': "key_of_bytes (key_bytes ?k') = ?k'" "length (key_bytes ?k') = sizeof_key"
    using k16 by (simp_all add: keyl.dec_enc keyl.length_enc key_ok_def)
  have "\<exists>s'. readContainer ?k' s w' = Inr (Some ?d, s')"
    by (rule readContainer_file [of s ?k' w' "overwrite ?off ?d f"])
      (use l15 k16 m(3) cache md(2) f(3) ow fits ld in \<open>auto simp: key_name_def\<close>)
  then obtain s' where "readContainer ?k' s w' = Inr (Some ?d, s')" ..
  moreover have "c_string ?d = Inl OutOfBounds" using z(1) by (simp add: c_string_def)
  ultimately have "restoreChunk da w' s h = Some (Inl OutOfBounds)"
    using m(1) md(4) k' z(2) by (simp add: restoreChunk.simps [of da w' s h] load_key_ok)
  then show ?thesis using md ow(1) by blast
qed

section \<open>A pending delta\<close>

definition pending_key :: keyForChunkHashDB_t where
  "pending_key = \<lparr>key_containerName = initial_name @ [0], key_offset = 0, key_length = 2, key_count = 1, key_deltaCount = 1\<rparr>"

definition pending_world :: world where
  "pending_world = old_world\<lparr>deltaChunkDB := snd (insert_db (empty_db (str ''db3'')) toy_hash (key_bytes pending_key)),
     w_fs := \<lparr>files = [str ''D/'' @ initial_name @ str ''.container'' \<mapsto> [7, 8], old_path \<mapsto> [1, 2, 3]], writable = (\<lambda>_. True)\<rparr>\<rparr>"

lemma pending_key_ok: "key_of_bytes (key_bytes pending_key) = pending_key" "key_name pending_key = initial_name"
  "length (key_bytes pending_key) = sizeof_key"
  by (simp_all add: keyl.dec_enc keyl.length_enc key_ok_def pending_key_def key_name_def initial_name_facts)

lemma old_path_not_delta: "str ''D/'' @ initial_name @ str ''.container'' \<noteq> old_path"
  by (simp add: old_path_def containerPath_def toy_storage_eq str_def)

lemma pending_inv: "storage_inv pending_world toy_moved"
proof -
  have np: "\<forall>n. str ''D/'' @ initial_name @ str ''.container'' \<noteq> containerPath toy_moved n"
    by (simp add: containerPath_def toy_storage_eq str_def)
  let ?w = "old_world\<lparr>w_fs := (w_fs old_world)\<lparr>files := (files (w_fs old_world))
      (str ''D/'' @ initial_name @ str ''.container'' := Some [7, 8])\<rparr>\<rparr>"
  have eq: "pending_world = ?w\<lparr>deltaChunkDB := snd (insert_db (empty_db (str ''db3'')) toy_hash (key_bytes pending_key))\<rparr>"
    using old_path_not_delta by (simp add: pending_world_def old_world_def fun_upd_twist)
  have "storage_inv pending_world toy_moved = storage_inv ?w toy_moved"
    unfolding eq by (intro storage_world_cong(1)) simp_all
  then show ?thesis using storage_inv_other_file(1) [OF old_inv np, of "Some [7, 8]"] by simp
qed

theorem merged_delta_unreadable_witness:
  "\<exists>g' w'. merge_delta toy_hash old_key initial_name toy_manager pending_world = Inr (g', w')
     \<and> restoreChunk (\<lambda>_ _. []) w' toy_moved toy_hash = Some (Inl OutOfBounds)"
proof -
  have st: "stoi (to_string 3) = Inr 3" by (rule stoi_to_string) (simp add: in_int_def)
  have d: "delta_bytes (key_bytes pending_key) [7, 8] = [7, 8]"
    by (simp add: delta_bytes_def pending_key_ok) (simp add: pending_key_def slice_def)
  have m: "mergeable toy_hash (key_bytes old_key) (key_bytes pending_key) [7, 8] toy_manager toy_moved pending_world"
    using st old_queries next_name(1)
    by (simp add: mergeable_def Let_def pending_key_ok old_key_ok pending_world_def query_insert database_inv_insert
        old_path_def [symmetric])
      (auto simp: pending_key_def old_key_def toy_hash_def toy_manager_def newManager_def toy_config_def config_defs
        size_defs old_path_not_delta)
  have z: "0 \<notin> set (delta_bytes (key_bytes pending_key) [7, 8])" "key_deltaCount (key_of_bytes (key_bytes pending_key)) \<noteq> 0"
    by (simp_all add: d pending_key_ok) (simp add: pending_key_def)
  show ?thesis
    using merged_delta_unreadable [OF pending_inv _ m z toy_manager_ok, of "\<lambda>_ _. []"] by (auto simp: old_key_ok)
qed

end
