(* ===== verification/Sim_Main.thy ===== *)
theory Sim_Main
  imports Manager
begin

text \<open>
  The program (\<open>src/main.cc\<close>): \<open>-c\<close> stores a file and compares it with its previous version,
  \<open>-rw\<close> runs the compression, \<open>-rs\<close> restores a file from its index, and two file names run
  everything once.  A run takes the machine, its files, its LevelDB databases and its document
  collection, to the machine after the run.
\<close>

section \<open>The surroundings of a run\<close>

text \<open>What the code does not fix: the library functions, and the indeterminate memory of the objects
  a run makes, numbered in the order of their construction.\<close>

record 'm environment =
  ev_config :: Configure
  ev_evp :: evp
  ev_md5 :: "bytes \<Rightarrow> bytes"
  ev_delta_create :: "bytes \<Rightarrow> bytes \<Rightarrow> bytes"
  ev_delta_apply :: "bytes \<Rightarrow> bytes \<Rightarrow> bytes"
  ev_features :: "bytes \<Rightarrow> u64 \<Rightarrow> bytes list"
  ev_mongo :: "'m mongo"
  ev_junk :: Chunk_t
  ev_locals :: "nat \<Rightarrow> var_locals"
  ev_chunker :: "nat \<Rightarrow> Chunker"
  ev_body :: "nat \<Rightarrow> memory"
  ev_stack :: "bytes \<Rightarrow> keyForChunkHashDB_t"
  ev_opens :: "bytes \<Rightarrow> bool"

record 'm machine =
  mc_fs :: filesystem
  mc_dbs :: "bytes \<Rightarrow> leveldb option"
  mc_mongo :: 'm

text \<open>The state of a run: the world the objects share and the collection.\<close>

type_synonym 'm run = "world \<times> 'm"

definition new_storage :: "'m environment \<Rightarrow> nat \<Rightarrow> world \<Rightarrow> StorageCore result" where
  "new_storage ev i w = newStorageCore (ev_config ev) (ev_body ev (2 * i)) (ev_body ev (2 * i + 1)) w"

text \<open>\<open>!indexflag\<close>, where \<open>int indexflag = config.getIndexflag()\<close> keeps the lower 32 bits.\<close>

definition not_flag :: "'m environment \<Rightarrow> int" where
  "not_flag ev = (if (ucast (getIndexflag (ev_config ev)) :: u32) = 0 then 1 else 0)"

text \<open>A \<open>string\<close> made from an argument, which throws for a null pointer.\<close>

definition need_string :: "bytes option \<Rightarrow> bytes result" where
  "need_string a = (case a of None \<Rightarrow> Inl (Thrown ''std::logic_error'') | Some t \<Rightarrow> Inr t)"

section \<open>\<open>-c\<close>: storing a file\<close>

definition versionName :: "bytes \<Rightarrow> int \<Rightarrow> bytes" where
  "versionName base version = base @ str ''-'' @ to_string version"

text \<open>The loop over the versions: a file is opened for reading and writing as long as there is one.\<close>

partial_function (option) next_version :: "filesystem \<Rightarrow> bytes \<Rightarrow> int \<Rightarrow> int option" where
  "next_version fs base version =
     (let p = indexPath (versionName base version) in
      if files fs p \<noteq> None \<and> writable fs p then next_version fs base (version + 1) else Some version)"

text \<open>Comparing with the previous version.\<close>

definition compare_versions ::
  "'m environment \<Rightarrow> nat \<Rightarrow> Index result \<Rightarrow> Index \<Rightarrow> 'm run \<Rightarrow> 'm run result option" where
  "compare_versions ev i load new r =
     opt_then (Some (new_storage ev i (fst r))) (\<lambda>s.
     opt_then (Some load) (\<lambda>old.
     opt_then (newDector (ev_delta_apply ev) (ev_junk ev) (ev_features ev) (ev_mongo ev) (ev_config ev)
                 old new (not_flag ev) s (fst r) (snd r)) (\<lambda>(_, s1, w1, m1).
     opt_then (Some (deleteStorageCore s1 w1)) (\<lambda>w2. Some (Inr (w2, m1))))))"

definition chunk_file ::
  "'m environment \<Rightarrow> nat \<Rightarrow> bytes \<Rightarrow> StorageCore \<Rightarrow> world \<Rightarrow> (Chunker \<times> StorageCore \<times> world) result option" where
  "chunk_file ev i path s w =
     opt_then (Some (newChunker (ev_evp ev) (ev_config ev) (w_fs w) (ev_chunker ev i) path (not_flag ev))) (\<lambda>c.
       chunking (ev_evp ev) (ev_md5 ev) (ev_locals ev i) c s w)"

definition cmd_c :: "'m environment \<Rightarrow> bytes \<Rightarrow> StorageCore \<Rightarrow> 'm run \<Rightarrow> 'm run result option" where
  "cmd_c ev fileName s r =
     opt_then (chunk_file ev 0 fileName s (fst r)) (\<lambda>(c, s1, w1).
     opt_then (Some (deleteStorageCore s1 w1)) (\<lambda>w2.
       (let base = but_two fileName in
        Option.bind (next_version (w_fs w2) base 0) (\<lambda>version.
          opt_then (Some (saveToFile (versionName base version) c (w_fs w2))) (\<lambda>(_, fs).
            (let w3 = w2\<lparr>w_fs := fs\<rparr> in
             if version < 1 then Some (Inr (w3, snd r))
             else compare_versions ev 1 (loadIndex fs (versionName base (version - 1))) (returnindex c)
                    (w3, snd r)))))))"

section \<open>\<open>-rw\<close>: compressing\<close>

definition run_compressor :: "'m environment \<Rightarrow> nat \<Rightarrow> 'm run \<Rightarrow> 'm run result option" where
  "run_compressor ev i r =
     opt_then (Some (new_storage ev i (fst r))) (\<lambda>s.
     opt_then (Some (newDeltaCompressor (ev_config ev) (ev_body ev (2 * i + 2)) (ev_body ev (2 * i + 3)) (fst r)))
       (\<lambda>c.
     opt_then (compress (ev_delta_create ev) (ev_delta_apply ev) (ev_mongo ev) c s (fst r) (snd r))
       (\<lambda>(c1, s1, w1, m1, _).
     opt_then (Some (deleteDeltaCompressor c1 w1)) (\<lambda>w2.
     opt_then (Some (deleteStorageCore s1 w2)) (\<lambda>w3. Some (Inr (w3, m1)))))))"

text \<open>The calls of the two managers are commented out; the first storage object is never deleted.\<close>

definition cmd_rw :: "'m environment \<Rightarrow> 'm run \<Rightarrow> 'm run result option" where
  "cmd_rw ev r =
     opt_then (run_compressor ev 1 r) (\<lambda>r1.
     opt_then (Some (new_storage ev 3 (fst r1))) (\<lambda>_.
     opt_then (Some (new_storage ev 4 (fst r1))) (\<lambda>s.
     opt_then (Some (deleteStorageCore s (fst r1))) (\<lambda>w. Some (Inr (w, snd r1))))))"

section \<open>\<open>-rs\<close>: restoring a file\<close>

text \<open>\<open>fout.write(logicData, logicDataSize)\<close> for every chunk; \<open>logicData\<close> is an array.\<close>

fun write_chunks :: "ChunkList_t \<Rightarrow> bytes \<Rightarrow> bytes result" where
  "write_chunks [] out = Inr out"
| "write_chunks (c # cs) out =
     (if chunk_logicDataSize c < 0 \<or> chunk_logicDataSize c > int MAX_CHUNK_SIZE then Inl OutOfBounds
      else write_chunks cs (out @ take (nat (chunk_logicDataSize c)) (chunk_logicData c)))"

text \<open>The index is loaded by a \<open>Chunker\<close>, whose constructor opens the file of the same name.  The
  output is the name without its last two bytes; it is emptied before the chunks are restored.  The
  storage object is not deleted.\<close>

definition cmd_rs :: "'m environment \<Rightarrow> bytes option \<Rightarrow> 'm run \<Rightarrow> 'm run result option" where
  "cmd_rs ev argv2 r =
     (let w = fst r in
      opt_then (Some (new_storage ev 1 w)) (\<lambda>s.
      opt_then (Some (need_string argv2)) (\<lambda>fileName.
      opt_then (Some (newChunker (ev_evp ev) (ev_config ev) (w_fs w) (ev_chunker ev 0) fileName 1)) (\<lambda>_.
      opt_then (Some (loadIndex (w_fs w) fileName)) (\<lambda>c.
        (let out = but_two fileName; w1 = w\<lparr>w_fs := fs_try_write out [] (w_fs w)\<rparr> in
         opt_then (restoreRecipeAndChunk (ev_delta_apply ev) (ev_junk ev) (idx_fileNameHash c) 0
                     (word_of_int (idx_chunknumber c)) [] s w1) (\<lambda>(ok, cs, _).
         opt_then (Some (if ok then write_chunks cs [] else Inr [])) (\<lambda>d.
           Some (Inr (w1\<lparr>w_fs := fs_try_write out d (w_fs w1)\<rparr>, snd r))))))))))"

section \<open>Two file names: everything once\<close>

definition run_manager :: "'m environment \<Rightarrow> nat \<Rightarrow> 'm run \<Rightarrow> 'm run result option" where
  "run_manager ev i r =
     opt_then (Some (new_storage ev i (fst r))) (\<lambda>_.
     opt_then (Some (updateContainer (newManager (ev_config ev) (ev_body ev (2 * i + 2)) (fst r)) (fst r)))
       (\<lambda>(_, _, w1).
     opt_then (Some (new_storage ev (i + 2) w1)) (\<lambda>s.
     opt_then (Some (rewriteContainer (ev_stack ev) (newManager (ev_config ev) (ev_body ev (2 * i + 6)) w1) s w1))
       (\<lambda>(_, s1, w2).
     opt_then (Some (deleteStorageCore s1 w2)) (\<lambda>w3. Some (Inr (w3, snd r)))))))"

definition cmd_pair :: "'m environment \<Rightarrow> bytes \<Rightarrow> bytes option \<Rightarrow> StorageCore \<Rightarrow> 'm run \<Rightarrow> 'm run result option" where
  "cmd_pair ev file1 file2 s r =
     opt_then (chunk_file ev 0 file1 s (fst r)) (\<lambda>(c1, s1, w1).
     opt_then (Some (need_string file2)) (\<lambda>f2.
     opt_then (chunk_file ev 1 f2 s1 w1) (\<lambda>(c2, s2, w2).
     opt_then (Some (deleteStorageCore s2 w2)) (\<lambda>w3.
     opt_then (compare_versions ev 1 (Inr (returnindex c1)) (returnindex c2) (w3, snd r)) (\<lambda>r4.
     opt_then (run_compressor ev 2 r4) (\<lambda>r5.
     opt_then (run_manager ev 4 r5) (\<lambda>r6.
     opt_then (Some (new_storage ev 8 (fst r6))) (\<lambda>s3.
     opt_then (restoreRecipeAndChunk (ev_delta_apply ev) (ev_junk ev) (idx_fileNameHash (returnindex c2)) 0 1253 []
                 s3 (fst r6)) (\<lambda>_. Some (Inr r6))))))))))"

section \<open>The program\<close>

text \<open>\<open>openDB\<close> for the four databases in order; LevelDB locks a directory, so that the program
  cannot open it twice.  A database that a lock file keeps closed leaves a null pointer behind,
  which is not followed any further here.\<close>

fun open_dbs ::
  "filesystem \<Rightarrow> (bytes \<Rightarrow> leveldb option) \<Rightarrow> (bytes \<Rightarrow> bool) \<Rightarrow> bytes list \<Rightarrow> database list result" where
  "open_dbs fs disk opens [] = Inr []"
| "open_dbs fs disk opens (n # ns) =
     and_then (openDB fs disk opens n) (\<lambda>r. case r of
        None \<Rightarrow> Inl Uninitialised
      | Some db \<Rightarrow> and_then (open_dbs fs disk (opens(n := False)) ns) (\<lambda>dbs. Inr (db # dbs)))"

definition db_names :: "Configure \<Rightarrow> bytes list" where
  "db_names cfg = [getFp2ChunkDBName cfg, getFp2MetaDBame cfg, getdeltaChunkDBame cfg, getcontainerDBame cfg]"

definition no_database :: database where
  "no_database = \<lparr>dbName = [], levelDBObj = \<lparr>ldb_entries = [], ldb_bg_error = False\<rparr>\<rparr>"

definition start_world :: "filesystem \<Rightarrow> database list \<Rightarrow> world" where
  "start_world fs dbs = \<lparr>w_fs = fs, fp2ChunkDB = dbs ! 0, fileName2metaDB = dbs ! 1, deltaChunkDB = dbs ! 2,
     containerDB = dbs ! 3\<rparr>"

definition world_dbs :: "world \<Rightarrow> database list" where
  "world_dbs w = [fp2ChunkDB w, fileName2metaDB w, deltaChunkDB w, containerDB w]"

text \<open>The end of the run: the destructors of the databases remove the lock files, and what the
  databases hold is on disk under the names they were opened with.\<close>

definition leave_run :: "Configure \<Rightarrow> 'm machine \<Rightarrow> 'm run \<Rightarrow> 'm machine" where
  "leave_run cfg mc r =
     \<lparr>mc_fs = fold (\<lambda>db fs. closeDB fs db) (rev (world_dbs (fst r))) (w_fs (fst r)),
      mc_dbs = fold (\<lambda>(n, db) disk. disk(n \<mapsto> levelDBObj db)) (zip (db_names cfg) (world_dbs (fst r))) (mc_dbs mc),
      mc_mongo = snd r\<rparr>"

definition arg :: "bytes list \<Rightarrow> nat \<Rightarrow> bytes option" where
  "arg argv i = (if i < length argv then Some (argv ! i) else None)"

definition command :: "'m environment \<Rightarrow> bytes list \<Rightarrow> StorageCore \<Rightarrow> 'm run \<Rightarrow> 'm run result option" where
  "command ev argv s r =
     (case arg argv 1 of
        None \<Rightarrow> Some (Inl OutOfBounds)
      | Some a \<Rightarrow>
          if a = str ''-c'' then opt_then (Some (need_string (arg argv 2))) (\<lambda>f. cmd_c ev f s r)
          else if a = str ''-rw'' then cmd_rw ev r
          else if a = str ''-rs'' then cmd_rs ev (arg argv 2) r
          else cmd_pair ev a (arg argv 2) s r)"

text \<open>\<open>main\<close> returns 0.  The first storage object is made before the databases are opened; its
  constructor reads files only.\<close>

definition main :: "'m environment \<Rightarrow> bytes list \<Rightarrow> 'm machine \<Rightarrow> (int \<times> 'm machine) result option" where
  "main ev argv mc =
     opt_then (Some (new_storage ev 0 (start_world (mc_fs mc) (replicate 4 no_database)))) (\<lambda>s.
     opt_then (Some (open_dbs (mc_fs mc) (mc_dbs mc) (ev_opens ev) (db_names (ev_config ev)))) (\<lambda>dbs.
     opt_then (command ev argv s (start_world (mc_fs mc) dbs, mc_mongo mc)) (\<lambda>r.
       Some (Inr (0, leave_run (ev_config ev) mc r)))))"

text \<open>The handler of the interrupt: both storage objects are deleted, then \<open>exit(0)\<close>.\<close>

definition delete_if :: "StorageCore option \<Rightarrow> world \<Rightarrow> world result" where
  "delete_if p w = (case p of None \<Rightarrow> Inr w | Some s \<Rightarrow> deleteStorageCore s w)"

definition CTRLC :: "StorageCore option \<Rightarrow> StorageCore option \<Rightarrow> world \<Rightarrow> (int \<times> world) result" where
  "CTRLC storageObj sstorageObj w =
     and_then (delete_if storageObj w) (\<lambda>w1. and_then (delete_if sstorageObj w1) (\<lambda>w2. Inr (0, w2)))"

end
