(* ===== verification/Index_File.thy ===== *)
theory Index_File
  imports Chunker_Properties
begin

text \<open>
  The file of an index (\<open>Chunker::saveToFile\<close> and \<open>Chunker::loadIndex\<close>): the index that is saved
  is loaded again.
\<close>

text \<open>An index whose counters are those of its vectors and whose structures can be in memory.\<close>

definition index_ok :: "Index \<Rightarrow> bool" where
  "index_ok x \<longleftrightarrow> idx_containernumber x = int (length (idx_container x)) \<and> in_int (idx_containernumber x)
     \<and> idx_segmentnumber x = int (length (idx_segment x)) \<and> in_int (idx_segmentnumber x)
     \<and> idx_chunknumber x = int (length (idx_chunk x)) \<and> in_int (idx_chunknumber x)
     \<and> length (idx_fileNameHash x) = FILE_NAME_HASH_SIZE
     \<and> (\<forall>c \<in> set (idx_container x). L6_ok c) \<and> (\<forall>s \<in> set (idx_segment x). LP_ok s)
     \<and> (\<forall>k \<in> set (idx_chunk x). L0_ok k)"

lemma saveToFile_Inr:
  assumes "writable fs (indexPath f)" and "idx_containernumber (fileindex c) \<le> int (length (idx_container (fileindex c)))"
    and "idx_segmentnumber (fileindex c) \<le> int (length (idx_segment (fileindex c)))"
    and "idx_chunknumber (fileindex c) \<le> int (length (idx_chunk (fileindex c)))"
  shows "saveToFile f c fs = Inr (True, fs\<lparr>files := (files fs)(indexPath f \<mapsto>
     (let x = fileindex c in int_bytes (idx_containernumber x) @ int_bytes (idx_segmentnumber x)
        @ int_bytes (idx_chunknumber x) @ idx_fileNameHash x
        @ concat (map L6_bytes (take (nat (idx_containernumber x)) (idx_container x)))
        @ concat (map LP_bytes (take (nat (idx_segmentnumber x)) (idx_segment x)))
        @ concat (map L0_bytes (take (nat (idx_chunknumber x)) (idx_chunk x)))))\<rparr>)"
  using assms by (simp add: saveToFile_def write_items_def Let_def fs_write_def)

text \<open>The head of the file.\<close>

lemma index_head:
  fixes r :: bytes
  assumes "in_int a" "in_int b" "in_int n" and "length h = FILE_NAME_HASH_SIZE"
  defines "f \<equiv> int_bytes a @ int_bytes b @ int_bytes n @ h @ r"
  shows "12 + FILE_NAME_HASH_SIZE \<le> length f" and "int_of_bytes (slice 0 4 f) = a"
    and "int_of_bytes (slice 4 4 f) = b" and "int_of_bytes (slice 8 4 f) = n"
    and "slice 12 FILE_NAME_HASH_SIZE f = h" and "drop (12 + FILE_NAME_HASH_SIZE) f = r"
  using assms(1-4) unfolding f_def by (simp_all add: struct_layout)

lemma loadIndex_parts:
  assumes fs: "files fs (indexPath p) = Some f" "writable fs (indexPath p)"
    and f: "f = int_bytes (idx_containernumber x) @ int_bytes (idx_segmentnumber x) @ int_bytes (idx_chunknumber x)
      @ idx_fileNameHash x @ r"
    and n: "in_int (idx_containernumber x)" "in_int (idx_segmentnumber x)" "in_int (idx_chunknumber x)"
      "length (idx_fileNameHash x) = FILE_NAME_HASH_SIZE"
    and rd: "read_structs sizeof_L L6_of_bytes (nat (idx_containernumber x)) r = Inr (cs, r1)"
      "read_structs sizeof_L LP_of_bytes (nat (idx_segmentnumber x)) r1 = Inr (ss, r2)"
      "read_structs sizeof_L L0_of_bytes (nat (idx_chunknumber x)) r2 = Inr (ks, r3)"
  shows "loadIndex fs p = Inr (x\<lparr>idx_container := cs, idx_segment := ss, idx_chunk := ks\<rparr>)"
proof -
  note h = index_head [OF n, of r, folded f]
  have "\<not> length f < 12 + FILE_NAME_HASH_SIZE" using h(1) by simp
  then show ?thesis
    using fs rd h(2-6) by (simp add: loadIndex_def Let_def)
qed

text \<open>C26: the index written to its file is read back as it was.\<close>

theorem index_round_trip:
  assumes "index_ok (fileindex c)" and "writable fs (indexPath p)"
  shows "\<exists>fs'. saveToFile p c fs = Inr (True, fs') \<and> loadIndex fs' p = Inr (returnindex c)
    \<and> (\<forall>q. q \<noteq> indexPath p \<longrightarrow> files fs' q = files fs q) \<and> writable fs' = writable fs"
proof -
  let ?x = "fileindex c"
  have n: "in_int (idx_containernumber ?x)" "in_int (idx_segmentnumber ?x)" "in_int (idx_chunknumber ?x)"
    "length (idx_fileNameHash ?x) = FILE_NAME_HASH_SIZE"
    and l: "idx_containernumber ?x = int (length (idx_container ?x))"
      "idx_segmentnumber ?x = int (length (idx_segment ?x))" "idx_chunknumber ?x = int (length (idx_chunk ?x))"
    and v: "\<forall>a \<in> set (idx_container ?x). L6_ok a" "\<forall>a \<in> set (idx_segment ?x). LP_ok a"
      "\<forall>a \<in> set (idx_chunk ?x). L0_ok a"
    using assms(1) unfolding index_ok_def by blast+
  let ?r = "concat (map L6_bytes (idx_container ?x)) @ concat (map LP_bytes (idx_segment ?x))
    @ concat (map L0_bytes (idx_chunk ?x))"
  let ?f = "int_bytes (idx_containernumber ?x) @ int_bytes (idx_segmentnumber ?x) @ int_bytes (idx_chunknumber ?x)
    @ idx_fileNameHash ?x @ ?r"
  let ?fs = "fs\<lparr>files := (files fs)(indexPath p \<mapsto> ?f)\<rparr>"
  have s: "saveToFile p c fs = Inr (True, ?fs)"
    using saveToFile_Inr [OF assms(2), of c] l by (simp add: Let_def)
  have "loadIndex ?fs p = Inr (?x\<lparr>idx_container := idx_container ?x, idx_segment := idx_segment ?x,
      idx_chunk := idx_chunk ?x\<rparr>)"
  proof (rule loadIndex_parts [OF _ _ refl n])
    show "read_structs sizeof_L L6_of_bytes (nat (idx_containernumber ?x)) ?r
        = Inr (idx_container ?x, concat (map LP_bytes (idx_segment ?x)) @ concat (map L0_bytes (idx_chunk ?x)))"
      using L6l.read_structs_concat [OF v(1)] l by simp
    show "read_structs sizeof_L LP_of_bytes (nat (idx_segmentnumber ?x))
        (concat (map LP_bytes (idx_segment ?x)) @ concat (map L0_bytes (idx_chunk ?x)))
        = Inr (idx_segment ?x, concat (map L0_bytes (idx_chunk ?x)))"
      using LPl.read_structs_concat [OF v(2)] l by simp
    show "read_structs sizeof_L L0_of_bytes (nat (idx_chunknumber ?x)) (concat (map L0_bytes (idx_chunk ?x)))
        = Inr (idx_chunk ?x, [])"
      using L0l.read_structs_concat [OF v(3), of "[]"] l by simp
  qed (use assms(2) in simp_all)
  then show ?thesis using s by (simp add: returnindex_def)
qed

definition toy_saved :: Chunker where
  "toy_saved = toy_blank\<lparr>fileindex := \<lparr>idx_fileNameHash = replicate 32 1, idx_segmentnumber = 1,
     idx_containernumber = 1, idx_chunknumber = 2,
     idx_chunk = [\<lparr>L0_chunkID = 0, L0_size = 5, L0_unique = 1, L0_fingerprint = replicate 32 2\<rparr>,
       \<lparr>L0_chunkID = 1, L0_size = - 7, L0_unique = 0, L0_fingerprint = replicate 32 3\<rparr>],
     idx_segment = [\<lparr>LP_segmentID = 0, LP_startChunkID = 0, LP_endChunkID = 2, LP_hash = replicate 32 4\<rparr>],
     idx_container = [\<lparr>L6_containerID = 0, L6_startSegmentID = 0, L6_endSegmentID = 0,
       L6_hash = replicate 32 5\<rparr>]\<rparr>\<rparr>"

theorem index_round_trip_witness:
  "\<exists>fs'. saveToFile (str ''f-0'') toy_saved (w_fs toy_world) = Inr (True, fs')
     \<and> loadIndex fs' (str ''f-0'') = Inr (returnindex toy_saved)"
proof -
  have ok: "index_ok (fileindex toy_saved)"
    by (simp add: index_ok_def toy_saved_def in_int_def L6_ok_def LP_ok_def L0_ok_def size_defs)
  have wr: "writable (w_fs toy_world) (indexPath (str ''f-0''))" by (simp add: toy_world_def)
  show ?thesis using index_round_trip [OF ok wr] by blast
qed

section \<open>The index of a run\<close>

lemma read_structs_ok:
  "n * width \<le> length s \<Longrightarrow> \<exists>xs. read_structs width dec n s = Inr (xs, drop (n * width) s)"
proof (induction n arbitrary: s)
  case 0
  then show ?case by simp
next
  case (Suc n)
  then have "n * width \<le> length (drop width s)" by simp
  from Suc.IH [OF this] obtain xs where "read_structs width dec n (drop width s) = Inr (xs, drop (Suc n * width) s)"
    by (auto simp: add.commute)
  then show ?case using Suc.prems by auto
qed

lemma chunk_records_length:
  assumes "map L0_fingerprint ks = map (fpr e) ds" and "evp_digest_ok e"
  shows "length (concat (map L0_bytes ks)) = length ds * sizeof_L"
  using assms(1)
proof (induction ks arbitrary: ds)
  case Nil
  then show ?case by simp
next
  case (Cons k ks)
  then obtain d ds' where ds: "ds = d # ds'" "L0_fingerprint k = fpr e d" "map L0_fingerprint ks = map (fpr e) ds'"
    by (cases ds) auto
  have "length (L0_bytes k) = sizeof_L"
    using fpr_facts(2) [OF assms(2), of d] ds(2) by (simp add: L0_bytes_def struct_layout)
  then show ?case using Cons.IH [OF ds(3)] ds(1) by simp
qed

text \<open>The index of a run in the flat mode, as it is loaded again: the hash of the file name and the
  number of chunks.\<close>

lemma flat_index_file:
  assumes ci: "chunks_inv (map (fpr e) ds) (fileindex c)" and fl: "flat_index (fileindex c)"
    and dig: "evp_digest_ok e" and h: "length (idx_fileNameHash (fileindex c)) = FILE_NAME_HASH_SIZE"
    and few: "length ds < 2 ^ 31" and wr: "writable fs (indexPath p)"
  obtains d where "saveToFile p c fs = Inr (True, fs\<lparr>files := (files fs)(indexPath p \<mapsto> d)\<rparr>)"
    and "\<forall>fs'. files fs' (indexPath p) = Some d \<and> writable fs' (indexPath p) \<longrightarrow>
      (\<exists>x. loadIndex fs' p = Inr x \<and> idx_fileNameHash x = idx_fileNameHash (fileindex c)
         \<and> idx_chunknumber x = int (length ds))"
proof -
  let ?x = "fileindex c"
  have len: "length (idx_chunk ?x) = length ds"
    using ci by (auto simp: chunks_inv_def dest: map_eq_imp_length_eq)
  then have num: "idx_chunknumber ?x = int (length ds)" "idx_containernumber ?x = 0" "idx_segmentnumber ?x = 0"
    using ci fl by (simp_all add: chunks_inv_def numbered_def flat_index_def)
  let ?r = "concat (map L0_bytes (idx_chunk ?x))"
  let ?f = "int_bytes (idx_containernumber ?x) @ int_bytes (idx_segmentnumber ?x) @ int_bytes (idx_chunknumber ?x)
    @ idx_fileNameHash ?x @ ?r"
  have sv: "saveToFile p c fs = Inr (True, fs\<lparr>files := (files fs)(indexPath p \<mapsto> ?f)\<rparr>)"
    using saveToFile_Inr [OF wr, of c] num len by (simp add: Let_def)
  have l: "length ?r = length ds * sizeof_L"
    using ci dig by (intro chunk_records_length) (simp_all add: chunks_inv_def)
  have ii: "in_int (idx_containernumber ?x)" "in_int (idx_segmentnumber ?x)" "in_int (idx_chunknumber ?x)"
    using num few by (simp_all add: in_int_def)
  show ?thesis
  proof (rule that [OF sv], intro allI impI, elim conjE)
    fix fs' :: filesystem
    assume f: "files fs' (indexPath p) = Some ?f" "writable fs' (indexPath p)"
    obtain ks where ks: "read_structs sizeof_L L0_of_bytes (length ds) ?r = Inr (ks, drop (length ds * sizeof_L) ?r)"
      using read_structs_ok [of "length ds" sizeof_L ?r] l by auto
    show "\<exists>x. loadIndex fs' p = Inr x \<and> idx_fileNameHash x = idx_fileNameHash ?x \<and> idx_chunknumber x = int (length ds)"
      using loadIndex_parts [OF f refl ii h, of "[]" ?r "[]" ?r ks] ks num by simp
  qed
qed

end
