(* ===== verification/Main_Properties.thy ===== *)
theory Main_Properties
  imports Sim_Main Index_File
begin

text \<open>
  Whole runs of the program: a file stored by \<open>-c\<close> is written back by \<open>-rs\<close>, in a second run that
  opens everything again.
\<close>

section \<open>Opening and closing the databases\<close>

definition opened :: "(bytes \<Rightarrow> leveldb option) \<Rightarrow> bytes \<Rightarrow> database" where
  "opened disk n = \<lparr>dbName = n, levelDBObj = (case disk n of Some l \<Rightarrow> l
     | None \<Rightarrow> \<lparr>ldb_entries = [], ldb_bg_error = False\<rparr>)\<rparr>"

definition lockPath :: "bytes \<Rightarrow> bytes" where
  "lockPath n = str ''.'' @ n @ str ''.lock''"

definition can_open :: "'m environment \<Rightarrow> 'm machine \<Rightarrow> bool" where
  "can_open ev mc \<longleftrightarrow> distinct (db_names (ev_config ev))
     \<and> (\<forall>n \<in> set (db_names (ev_config ev)). ev_opens ev n \<and> files (mc_fs mc) (lockPath n) = None)"

definition machine_world :: "Configure \<Rightarrow> 'm machine \<Rightarrow> world" where
  "machine_world cfg mc = start_world (mc_fs mc) (map (opened (mc_dbs mc)) (db_names cfg))"

lemma open_dbs_ok:
  assumes "distinct ns" and "\<forall>n \<in> set ns. opens n \<and> files fs (lockPath n) = None"
  shows "open_dbs fs disk opens ns = Inr (map (opened disk) ns)"
  using assms
proof (induction ns arbitrary: opens)
  case Nil
  show ?case by simp
next
  case (Cons n ns)
  then have "open_dbs fs disk (opens(n := False)) ns = Inr (map (opened disk) ns)"
    by (intro Cons.IH) auto
  then show ?case using Cons.prems by (simp add: openDB_def lockPath_def opened_def)
qed

lemma new_storage_start: "new_storage ev i (start_world fs a) = new_storage ev i (start_world fs b)"
  unfolding new_storage_def by (rule newStorageCore_cong) (simp_all add: start_world_def)

lemma w_fs_machine_world [simp]: "w_fs (machine_world cfg mc) = mc_fs mc"
  by (simp add: machine_world_def start_world_def)

lemma main_runs:
  assumes "can_open ev mc" and "new_storage ev 0 (machine_world (ev_config ev) mc) = Inr s"
  shows "main ev argv mc =
    opt_then (command ev argv s (machine_world (ev_config ev) mc, mc_mongo mc)) (\<lambda>r.
      Some (Inr (0, leave_run (ev_config ev) mc r)))"
proof -
  have "new_storage ev 0 (start_world (mc_fs mc) (replicate 4 no_database)) = Inr s"
    using assms(2) new_storage_start unfolding machine_world_def by metis
  moreover have "open_dbs (mc_fs mc) (mc_dbs mc) (ev_opens ev) (db_names (ev_config ev))
      = Inr (map (opened (mc_dbs mc)) (db_names (ev_config ev)))"
    using assms(1) by (intro open_dbs_ok) (simp_all add: can_open_def)
  ultimately show ?thesis by (simp add: main_def machine_world_def)
qed

text \<open>What a run finds again: the contents of the databases, and every file that is not a lock file,
  which all end in \<open>k\<close>.\<close>

definition not_lock :: "bytes \<Rightarrow> bool" where
  "not_lock p \<longleftrightarrow> p = [] \<or> List.last p \<noteq> 107"

definition same_data :: "world \<Rightarrow> world \<Rightarrow> bool" where
  "same_data w w' \<longleftrightarrow> levelDBObj (fp2ChunkDB w') = levelDBObj (fp2ChunkDB w)
     \<and> levelDBObj (fileName2metaDB w') = levelDBObj (fileName2metaDB w)
     \<and> levelDBObj (containerDB w') = levelDBObj (containerDB w)
     \<and> writable (w_fs w') = writable (w_fs w)
     \<and> (\<forall>p. not_lock p \<longrightarrow> files (w_fs w') p = files (w_fs w) p)"

lemma closeDB_not_lock [simp]:
  "not_lock p \<Longrightarrow> files (closeDB fs db) p = files fs p"
  "writable (closeDB fs db) = writable fs"
  by (auto simp: closeDB_def fs_remove_def not_lock_def str_def)

lemma leave_run_data:
  assumes "distinct (db_names cfg)"
  shows "same_data (fst r) (machine_world cfg (leave_run cfg mc r))"
  using assms
  by (simp add: same_data_def machine_world_def start_world_def leave_run_def db_names_def world_dbs_def
      opened_def)

lemma leave_run_files:
  "files (mc_fs (leave_run cfg mc r)) p =
     (if p \<in> (\<lambda>db. lockPath (dbName db)) ` set (world_dbs (fst r)) then None else files (w_fs (fst r)) p)"
  by (auto simp: leave_run_def world_dbs_def closeDB_def fs_remove_def lockPath_def)

lemma leave_run_can_open:
  assumes "can_open ev mc" and "\<forall>n \<in> set (db_names (ev_config ev)). files (w_fs (fst r)) (lockPath n) = None"
  shows "can_open ev (leave_run (ev_config ev) mc r)"
  using assms by (auto simp: can_open_def leave_run_files)

lemma same_dataD:
  assumes "same_data w w'"
  shows "query (fp2ChunkDB w') = query (fp2ChunkDB w)" "query (fileName2metaDB w') = query (fileName2metaDB w)"
    "database_inv (fp2ChunkDB w') = database_inv (fp2ChunkDB w)"
    "database_inv (containerDB w') = database_inv (containerDB w)"
    "writable (w_fs w') = writable (w_fs w)" "not_lock p \<Longrightarrow> files (w_fs w') p = files (w_fs w) p"
  using assms by (simp_all add: same_data_def fun_eq_iff query_def database_inv_def)

lemma made_with_paths:
  assumes "made_with cfg s"
  shows "not_lock (containerPath s n)" "not_lock (recipePath s n)"
  using assms by (simp_all add: made_with_def not_lock_def containerPath_def recipePath_def str_def)

lemma same_data_storage:
  assumes "same_data w w'" and "made_with cfg s"
  shows "storage_inv w' s = storage_inv w s" "abs_store w' s = abs_store w s"
    "has_recipe w' s = has_recipe w s" "newStorageCore cfg b1 b2 w' = newStorageCore cfg b1 b2 w"
proof -
  note d = same_dataD [OF assms(1)] and n = made_with_paths [OF assms(2)]
  show "storage_inv w' s = storage_inv w s"
    by (simp add: storage_inv_def placed_def cache_ok_def d n)
  have "content w' s k = content w s k" for k by (simp add: content_def d n)
  then show "abs_store w' s = abs_store w s" by (simp add: abs_store_def fun_eq_iff d)
  show "has_recipe w' s = has_recipe w s" by (simp add: has_recipe_def fun_eq_iff d n)
  have "not_lock (str ''.StorageConfig'')" by (simp add: not_lock_def str_def)
  then show "newStorageCore cfg b1 b2 w' = newStorageCore cfg b1 b2 w"
    by (intro newStorageCore_cong) (simp_all add: d n made_with_path [OF assms(2)])
qed

section \<open>Storing a file\<close>

lemma loadIndex_cong:
  assumes "files fs' (indexPath p) = files fs (indexPath p)" "writable fs' = writable fs"
  shows "loadIndex fs' p = loadIndex fs p"
  unfolding loadIndex_def assms ..

lemma next_version_new: "files fs (indexPath (versionName base v)) = None \<Longrightarrow> next_version fs base v = Some v"
  by (subst next_version.simps) simp

lemma versionName_0: "versionName base 0 = base @ [45, 48]"
  by (simp add: versionName_def str_def to_string_def dec_of_nat.simps)

text \<open>What \<open>-c\<close> needs: the run of the chunker is possible, its recipe and its index are new, and the
  files can be written.\<close>

definition storing :: "'m environment \<Rightarrow> bytes \<Rightarrow> Chunker \<Rightarrow> StorageCore \<Rightarrow> world \<Rightarrow> bool" where
  "storing ev path c s w \<longleftrightarrow> not_flag ev = 0
     \<and> newChunker (ev_evp ev) (ev_config ev) (w_fs w) (ev_chunker ev 0) path 0 = Inr c
     \<and> run_ready (ev_evp ev) (ev_md5 ev) (ev_locals ev 0) (ev_config ev) c s w \<and> recipe_free c s w
     \<and> length (ref_chunks c (v_winFp (ev_locals ev 0)) (chunkingFile c)) < 2 ^ 31
     \<and> files (w_fs w) (indexPath (versionName (but_two path) 0)) = None
     \<and> writable (w_fs w) (indexPath (versionName (but_two path) 0)) \<and> writable (w_fs w) (str ''.StorageConfig'')"

lemma index_path_last: "List.last (indexPath (versionName base 0)) = 48"
  by (simp add: indexPath_def versionName_0)

lemma index_path_other:
  assumes "made_with cfg s"
  shows "indexPath (versionName base 0) \<noteq> containerPath s n" "indexPath (versionName base 0) \<noteq> recipePath s n"
    "indexPath (versionName base 0) \<noteq> str ''.StorageConfig''" "indexPath (versionName base 0) \<noteq> lockPath n"
    "not_lock (indexPath (versionName base 0))"
proof -
  have "List.last (containerPath s n) \<noteq> 48" "List.last (recipePath s n) \<noteq> 48"
    "List.last (str ''.StorageConfig'') \<noteq> 48" "List.last (lockPath n) \<noteq> 48"
    using assms by (simp_all add: made_with_def containerPath_def recipePath_def lockPath_def str_def)
  then show "indexPath (versionName base 0) \<noteq> containerPath s n" "indexPath (versionName base 0) \<noteq> recipePath s n"
    "indexPath (versionName base 0) \<noteq> str ''.StorageConfig''" "indexPath (versionName base 0) \<noteq> lockPath n"
    using index_path_last [of base] by metis+
  show "not_lock (indexPath (versionName base 0))"
    using index_path_last [of base] by (simp add: not_lock_def)
qed

lemma init_var_size_keeps:
  "init_var_size cfg c = Inr c' \<Longrightarrow> recipe c' = recipe c \<and> fileindex c' = fileindex c \<and> fileindex_flag c' = fileindex_flag c"
  by (auto simp: init_var_size_def Let_def res_simps split: if_split_asm)

lemma init_fix_size_keeps:
  "init_fix_size cfg c = Inr c' \<Longrightarrow> recipe c' = recipe c \<and> fileindex c' = fileindex c \<and> fileindex_flag c' = fileindex_flag c"
  by (auto simp: init_fix_size_def Let_def res_simps split: if_split_asm)

lemma newChunker_hash:
  assumes "newChunker e cfg fs c0 path flag = Inr c"
  shows "frh_fileNameHash (fileRecipeHead (recipe c)) = path_hash e path" "idx_fileNameHash (fileindex c) = path_hash e path"
    "fileindex_flag c = flag"
  using assms
  by (auto simp: newChunker_def loadChunkFile_def ChunkerInit_def Let_def res_simps
      dest!: init_var_size_keeps init_fix_size_keeps split: option.split_asm if_split_asm)

text \<open>A world whose storage objects hold a recipe and its chunks.\<close>

definition holds_recipe :: "Configure \<Rightarrow> evp \<Rightarrow> bytes \<Rightarrow> bytes list \<Rightarrow> world \<Rightarrow> StorageCore \<Rightarrow> bool" where
  "holds_recipe cfg e h ds w s \<longleftrightarrow> storage_inv w s \<and> made_with cfg s
     \<and> (\<exists>head. has_recipe w s h head (chunk_entries e ds))
     \<and> list_all2 (entry_stored w s) (chunk_entries e ds) (map stored_form ds)"

lemma holds_recipe_restart:
  assumes hr: "holds_recipe cfg e h ds w s" and wr: "writable (w_fs w) (str ''.StorageConfig'')"
  obtains w' where "deleteStorageCore s w = Inr w'"
    and "\<forall>b1 b2. \<exists>s'. newStorageCore cfg b1 b2 w' = Inr s' \<and> holds_recipe cfg e h ds w' s'"
    and "\<forall>p. (\<forall>n. p \<noteq> containerPath s n) \<longrightarrow> p \<noteq> str ''.StorageConfig'' \<longrightarrow> files (w_fs w') p = files (w_fs w) p"
    and "writable (w_fs w') = writable (w_fs w)"
proof -
  have inv: "storage_inv w s" and made: "made_with cfg s" using hr by (simp_all add: holds_recipe_def)
  obtain w' where w': "deleteStorageCore s w = Inr w'"
    "\<forall>p. (\<forall>n. p \<noteq> containerPath s n) \<longrightarrow> p \<noteq> str ''.StorageConfig'' \<longrightarrow> files (w_fs w') p = files (w_fs w) p"
    "fileName2metaDB w' = fileName2metaDB w" "writable (w_fs w') = writable (w_fs w)"
    by (rule restart_ok [OF inv made wr])
  have "List.last (recipePath s n) \<noteq> List.last (str ''.StorageConfig'')" for n
    using made by (simp add: made_with_def recipePath_def str_def)
  then have rf: "files (w_fs w') (recipePath s n) = files (w_fs w) (recipePath s n)" for n
    using w'(2) recipe_path_not_container [OF made] by metis
  have "\<exists>s'. newStorageCore cfg b1 b2 w' = Inr s' \<and> holds_recipe cfg e h ds w' s'" for b1 b2
  proof -
    obtain w2 s' where s': "deleteStorageCore s w = Inr w2" "newStorageCore cfg b1 b2 w2 = Inr s'"
      "storage_inv w2 s'" "made_with cfg s'" "abs_store w2 s' = abs_store w s" "recipePath s' = recipePath s"
      by (rule restart_ok [OF inv made wr])
    have w2: "w2 = w'" using s'(1) w'(1) by simp
    have "has_recipe w' s' = has_recipe w s"
      by (simp add: has_recipe_def fun_eq_iff s'(6) rf w'(3))
    moreover have "entry_stored w' s' = entry_stored w s"
      using s'(5) w2 by (simp add: entry_stored_def fun_eq_iff)
    ultimately show ?thesis using s'(2-4) hr w2 by (simp add: holds_recipe_def)
  qed
  then show ?thesis using that w' by blast
qed

lemma holds_recipe_other_file:
  assumes "holds_recipe cfg e h ds w s" and "\<forall>n. p \<noteq> containerPath s n" and "\<forall>n. p \<noteq> recipePath s n"
  shows "holds_recipe cfg e h ds (w\<lparr>w_fs := (w_fs w)\<lparr>files := (files (w_fs w))(p := d)\<rparr>\<rparr>) s"
proof -
  have inv: "storage_inv w s" using assms(1) by (simp add: holds_recipe_def)
  note o = storage_inv_other_file [OF inv assms(2), of d]
  have "has_recipe (w\<lparr>w_fs := (w_fs w)\<lparr>files := (files (w_fs w))(p := d)\<rparr>\<rparr>) s = has_recipe w s"
    using assms(3) by (simp add: has_recipe_def fun_eq_iff) metis
  then show ?thesis using assms(1) o entry_stored_cong [OF o(2)] by (simp add: holds_recipe_def)
qed

text \<open>The world after a first \<open>-c\<close>: a storage object made from it holds the recipe and the chunks,
  and the index file can be loaded.\<close>

definition holds_file :: "Configure \<Rightarrow> evp \<Rightarrow> bytes \<Rightarrow> bytes \<Rightarrow> bytes list \<Rightarrow> world \<Rightarrow> bool" where
  "holds_file cfg e h version ds w \<longleftrightarrow>
     (\<forall>b1 b2. \<exists>s. newStorageCore cfg b1 b2 w = Inr s \<and> holds_recipe cfg e h ds w s)
     \<and> (\<exists>x. loadIndex (w_fs w) version = Inr x \<and> idx_fileNameHash x = h \<and> idx_chunknumber x = int (length ds))"

lemma holds_file_same:
  assumes sd: "same_data w w'" and hf: "holds_file cfg e h version ds w" and nl: "not_lock (indexPath version)"
  shows "holds_file cfg e h version ds w'"
proof -
  have "loadIndex (w_fs w') version = loadIndex (w_fs w) version"
    by (rule loadIndex_cong) (simp_all add: same_dataD [OF sd] nl)
  moreover have "\<exists>s. newStorageCore cfg b1 b2 w' = Inr s \<and> holds_recipe cfg e h ds w' s" for b1 b2
  proof -
    obtain s where s: "newStorageCore cfg b1 b2 w = Inr s" "holds_recipe cfg e h ds w s"
      using hf by (auto simp: holds_file_def)
    then have made: "made_with cfg s" by (simp add: holds_recipe_def)
    note d = same_data_storage [OF sd made]
    show ?thesis using s d entry_stored_cong [OF d(2)] by (auto simp: holds_recipe_def)
  qed
  ultimately show ?thesis using hf by (simp add: holds_file_def)
qed

lemma holds_file_index:
  assumes hr: "\<forall>b1 b2. \<exists>s. newStorageCore cfg b1 b2 w = Inr s \<and> holds_recipe cfg e h ds w s"
    and v: "v = versionName base 0"
    and ld: "loadIndex ((w_fs w)\<lparr>files := (files (w_fs w))(indexPath v \<mapsto> d)\<rparr>) v = Inr x"
      "idx_fileNameHash x = h" "idx_chunknumber x = int (length ds)"
  shows "holds_file cfg e h v ds (w\<lparr>w_fs := (w_fs w)\<lparr>files := (files (w_fs w))(indexPath v \<mapsto> d)\<rparr>\<rparr>)"
    (is "holds_file cfg e h v ds ?w'")
proof -
  have "\<exists>s. newStorageCore cfg b1 b2 ?w' = Inr s \<and> holds_recipe cfg e h ds ?w' s" for b1 b2
  proof -
    obtain s where s: "newStorageCore cfg b1 b2 w = Inr s" "holds_recipe cfg e h ds w s" using hr by blast
    have made: "made_with cfg s" using s(2) by (simp add: holds_recipe_def)
    note io = index_path_other [OF made, of base, folded v]
    have "newStorageCore cfg b1 b2 ?w' = newStorageCore cfg b1 b2 w"
      using io by (intro newStorageCore_cong) (simp_all add: made_with_path [OF made] not_sym)
    then show ?thesis using s holds_recipe_other_file [OF s(2)] io by simp
  qed
  then show ?thesis using ld by (simp add: holds_file_def)
qed

lemma cmd_c_new:
  assumes st: "storing ev path c s w" and made: "made_with (ev_config ev) s"
  defines "ds \<equiv> ref_chunks c (v_winFp (ev_locals ev 0)) (chunkingFile c)" and "v \<equiv> versionName (but_two path) 0"
  obtains w' where "cmd_c ev path s (w, m) = Some (Inr (w', m))"
    and "holds_file (ev_config ev) (ev_evp ev) (path_hash (ev_evp ev) path) v ds w'"
    and "writable (w_fs w') = writable (w_fs w)"
    and "\<forall>p. (\<forall>n. p \<noteq> containerPath s n \<and> p \<noteq> recipePath s n) \<longrightarrow> p \<noteq> str ''.StorageConfig'' \<longrightarrow> p \<noteq> indexPath v
       \<longrightarrow> files (w_fs w') p = files (w_fs w) p"
proof -
  let ?cfg = "ev_config ev" and ?e = "ev_evp ev" and ?h = "path_hash (ev_evp ev) path"
  have nc: "newChunker ?e ?cfg (w_fs w) (ev_chunker ev 0) path 0 = Inr c" and flag: "not_flag ev = 0"
    and rdy: "run_ready ?e (ev_md5 ev) (ev_locals ev 0) ?cfg c s w" and free: "recipe_free c s w"
    and few: "length ds < 2 ^ 31" "length ds < 2 ^ 32"
    and ix: "files (w_fs w) (indexPath v) = None" "writable (w_fs w) (indexPath v)"
    and wr: "writable (w_fs w) (str ''.StorageConfig'')"
    using st by (simp_all add: storing_def ds_def v_def)
  have hash: "frh_fileNameHash (fileRecipeHead (recipe c)) = ?h" "idx_fileNameHash (fileindex c) = ?h"
    "fileindex_flag c = 0"
    using newChunker_hash [OF nc] by simp_all
  have len: "length ?h = FILE_NAME_HASH_SIZE" and dig: "evp_digest_ok ?e"
    using free rdy hash by (auto simp: recipe_free_def Recipe_ok_def run_ready_def)
  let ?H = "frh_fileNameHash (fileRecipeHead (recipe c))"
    and ?D = "ref_chunks c (v_winFp (ev_locals ev 0)) (chunkingFile c)"
  obtain c1 s1 w1 where r0: "chunking ?e (ev_md5 ev) (ev_locals ev 0) c s w = Some (Inr (c1, s1, w1))"
    "storage_inv w1 s1" "made_with ?cfg s1" "has_recipe w1 s1 ?H (recipe c1) (chunk_entries ?e ?D)"
    "list_all2 (entry_stored w1 s1) (chunk_entries ?e ?D) (map stored_form ?D)"
    "chunks_inv (map (fpr ?e) ?D) (fileindex c1)" "idx_fileNameHash (fileindex c1) = idx_fileNameHash (fileindex c)"
    "fileindex_flag c = 0 \<longrightarrow> flat_index (fileindex c1)" "writable (w_fs w1) = writable (w_fs w)"
    "\<forall>p. (\<forall>n. p \<noteq> containerPath s n \<and> p \<noteq> recipePath s n) \<longrightarrow> files (w_fs w1) p = files (w_fs w) p"
    "containerPath s1 = containerPath s" "recipePath s1 = recipePath s"
    by (rule run_restores [OF rdy free few(2) [unfolded ds_def]])
  note r = r0 [unfolded hash, folded ds_def]
  have wr1: "writable (w_fs w1) (str ''.StorageConfig'')" using wr r(9) by simp
  have hr: "holds_recipe ?cfg ?e ?h ds w1 s1" using r(2-5) by (auto simp: holds_recipe_def)
  obtain w2 where w2: "deleteStorageCore s1 w1 = Inr w2"
    "\<forall>b1 b2. \<exists>s'. newStorageCore ?cfg b1 b2 w2 = Inr s' \<and> holds_recipe ?cfg ?e ?h ds w2 s'"
    "\<forall>p. (\<forall>n. p \<noteq> containerPath s1 n) \<longrightarrow> p \<noteq> str ''.StorageConfig'' \<longrightarrow> files (w_fs w2) p = files (w_fs w1) p"
    "writable (w_fs w2) = writable (w_fs w1)"
    by (rule holds_recipe_restart [OF hr wr1])
  note io = index_path_other [of ?cfg _ "but_two path", folded v_def]
  have f1: "files (w_fs w2) (indexPath v) = None" "writable (w_fs w2) (indexPath v)"
    using w2(3,4) r(9-11) ix io [OF made] by simp_all
  have fl: "flat_index (fileindex c1)" using r(8) by simp
  have h1: "length (idx_fileNameHash (fileindex c1)) = FILE_NAME_HASH_SIZE" using len r(7) by simp
  obtain d where d: "saveToFile v c1 (w_fs w2) = Inr (True, (w_fs w2)\<lparr>files := (files (w_fs w2))(indexPath v \<mapsto> d)\<rparr>)"
    "\<forall>fs'. files fs' (indexPath v) = Some d \<and> writable fs' (indexPath v) \<longrightarrow>
      (\<exists>x. loadIndex fs' v = Inr x \<and> idx_fileNameHash x = idx_fileNameHash (fileindex c1)
         \<and> idx_chunknumber x = int (length ds))"
    by (rule flat_index_file [OF r(6) fl dig h1 few(1) f1(2)])
  let ?w3 = "w2\<lparr>w_fs := (w_fs w2)\<lparr>files := (files (w_fs w2))(indexPath v \<mapsto> d)\<rparr>\<rparr>"
  show thesis
  proof (rule that)
    have "chunk_file ev 0 path s w = Some (Inr (c1, s1, w1))" using nc flag r(1) by (simp add: chunk_file_def)
    then show "cmd_c ev path s (w, m) = Some (Inr (?w3, m))"
      using w2(1) d(1) next_version_new [OF f1(1) [unfolded v_def]] by (simp add: cmd_c_def v_def)
    obtain x where "loadIndex ((w_fs w2)\<lparr>files := (files (w_fs w2))(indexPath v \<mapsto> d)\<rparr>) v = Inr x"
      "idx_fileNameHash x = ?h" "idx_chunknumber x = int (length ds)"
      using d(2) [rule_format, of "(w_fs w2)\<lparr>files := (files (w_fs w2))(indexPath v \<mapsto> d)\<rparr>"] f1(2) r(7) by auto
    then show "holds_file ?cfg ?e ?h v ds ?w3"
      by (rule holds_file_index [OF w2(2) v_def [THEN meta_eq_to_obj_eq]])
  qed (use w2(3,4) r(9-12) in simp_all)
qed

section \<open>Restoring a file\<close>

lemma write_chunks_bytes:
  assumes "\<forall>c \<in> set cs. 0 \<le> chunk_logicDataSize c \<and> chunk_logicDataSize c \<le> int MAX_CHUNK_SIZE"
  shows "write_chunks cs out = Inr (out @ chunk_bytes cs)"
  using assms by (induction cs arbitrary: out) (auto simp: chunk_bytes_def)

lemma restored_sizes:
  assumes "\<forall>d \<in> set ds. length d \<le> MAX_CHUNK_SIZE"
  shows "\<forall>c \<in> set (map2 (restored_chunk junk) (chunk_entries e ds) (map stored_form ds)).
    0 \<le> chunk_logicDataSize c \<and> chunk_logicDataSize c \<le> int MAX_CHUNK_SIZE"
  using assms
proof (induction ds rule: rev_induct)
  case Nil
  show ?case by (simp add: chunk_entries_def)
next
  case (snoc d ds)
  have "length (chunk_entries e ds) = length ds" by (simp add: chunk_entries_def)
  then show ?case using snoc by (simp add: chunk_entries_snoc restored_chunk_def chunk_entry_def)
qed

lemma but_two_version: "but_two (versionName base 0) = base"
  by (simp add: but_two_def versionName_0)

lemma cmd_rs_restores:
  assumes hf: "holds_file (ev_config ev) (ev_evp ev) h (versionName base 0) ds w"
    and len: "\<forall>d \<in> set ds. length d \<le> MAX_CHUNK_SIZE" and few: "length ds < 2 ^ 31"
    and cfg: "var_config_ok (ev_config ev)" and stub: "files (w_fs w) (versionName base 0) = Some stub"
    and wr: "writable (w_fs w) base"
    and base: "\<And>s n. made_with (ev_config ev) s \<Longrightarrow> base \<noteq> containerPath s n \<and> base \<noteq> recipePath s n"
  shows "cmd_rs ev (Some (versionName base 0)) (w, m) = Some (Inr (w\<lparr>w_fs := (w_fs w)\<lparr>files :=
    (files (w_fs w))(base \<mapsto> concat (map stored_form ds))\<rparr>\<rparr>, m))"
proof -
  let ?w = "w\<lparr>w_fs := (w_fs w)\<lparr>files := (files (w_fs w))(base \<mapsto> [])\<rparr>\<rparr>"
  obtain s x where s: "new_storage ev 1 w = Inr s" "holds_recipe (ev_config ev) (ev_evp ev) h ds w s"
    and x: "loadIndex (w_fs w) (versionName base 0) = Inr x" "idx_fileNameHash x = h"
      "idx_chunknumber x = int (length ds)"
    using hf unfolding holds_file_def new_storage_def by blast
  have one: "(1 :: int) = 0 \<or> (1 :: int) = 1" by simp
  obtain c where c: "newChunker (ev_evp ev) (ev_config ev) (w_fs w) (ev_chunker ev 0) (versionName base 0) 1 = Inr c"
    by (rule newChunker_ok [OF cfg stub one])
  have made: "made_with (ev_config ev) s" using s(2) by (simp add: holds_recipe_def)
  have "holds_recipe (ev_config ev) (ev_evp ev) h ds ?w s"
    using holds_recipe_other_file [OF s(2)] base [OF made] by simp
  then obtain head where hr: "storage_inv ?w s" "has_recipe ?w s h head (chunk_entries (ev_evp ev) ds)"
    "list_all2 (entry_stored ?w s) (chunk_entries (ev_evp ev) ds) (map stored_form ds)"
    by (auto simp: holds_recipe_def)
  let ?cs = "map2 (restored_chunk (ev_junk ev)) (chunk_entries (ev_evp ev) ds) (map stored_form ds)"
  have l: "length (chunk_entries (ev_evp ev) ds) = length ds" by (simp add: chunk_entries_def)
  obtain s' where r: "restoreRecipeAndChunk (ev_delta_apply ev) (ev_junk ev) h 0 (word_of_int (int (length ds))) [] s ?w
      = Some (Inr (True, ?cs, s'))"
    using restoreRecipeAndChunk_all [OF hr(1,2) _ hr(3), of "ev_delta_apply ev" "ev_junk ev" "[]"] few l by auto
  have "write_chunks ?cs [] = Inr (concat (map stored_form ds))"
    using write_chunks_bytes [OF restored_sizes [OF len]] chunk_bytes_restored [OF len] by simp
  then show ?thesis
    using s(1) c x r wr by (simp add: cmd_rs_def need_string_def but_two_version fs_try_write_def fs_write_def)
qed

section \<open>Two runs\<close>

text \<open>The name of the output is not the name of a container, of a recipe or of a lock file.\<close>

definition free_name :: "Configure \<Rightarrow> bytes \<Rightarrow> bool" where
  "free_name cfg p \<longleftrightarrow> (\<forall>n. p \<noteq> getContainerRootPath cfg @ n @ str ''.container''
     \<and> p \<noteq> getRecipeRootPath cfg @ n @ str ''.recipe'') \<and> p \<notin> lockPath ` set (db_names cfg)"

lemma free_name_made:
  "free_name cfg p \<Longrightarrow> made_with cfg s \<Longrightarrow> p \<noteq> containerPath s n \<and> p \<noteq> recipePath s n"
  by (simp add: free_name_def made_with_def containerPath_def recipePath_def)

lemma command_c: "command ev [prog, str ''-c'', path] s r = cmd_c ev path s r"
  by (simp add: command_def arg_def need_string_def)

lemma command_rs: "command ev [prog, str ''-rs'', f] s r = cmd_rs ev (Some f) r"
  by (simp add: command_def arg_def str_def)

text \<open>The machine after a first \<open>-c\<close>.\<close>

lemma main_c_new:
  assumes op: "can_open ev mc" and s: "new_storage ev 0 (machine_world (ev_config ev) mc) = Inr s"
    and st: "storing ev path c s (machine_world (ev_config ev) mc)"
  defines "v \<equiv> versionName (but_two path) 0"
  obtains mc1 where "main ev [prog, str ''-c'', path] mc = Some (Inr (0, mc1))" and "can_open ev mc1"
    and "holds_file (ev_config ev) (ev_evp ev) (path_hash (ev_evp ev) path) v
      (ref_chunks c (v_winFp (ev_locals ev 0)) (chunkingFile c)) (machine_world (ev_config ev) mc1)"
    and "files (mc_fs mc1) v = files (mc_fs mc) v" and "writable (mc_fs mc1) = writable (mc_fs mc)"
proof -
  let ?cfg = "ev_config ev" and ?w = "machine_world (ev_config ev) mc" and ?h = "path_hash (ev_evp ev) path"
  let ?ds = "ref_chunks c (v_winFp (ev_locals ev 0)) (chunkingFile c)"
  have made: "made_with ?cfg s" using st by (simp add: storing_def run_ready_def)
  obtain w' where w': "cmd_c ev path s (?w, mc_mongo mc) = Some (Inr (w', mc_mongo mc))"
    "holds_file ?cfg (ev_evp ev) ?h v ?ds w'" "writable (w_fs w') = writable (w_fs ?w)"
    "\<forall>p. (\<forall>n. p \<noteq> containerPath s n \<and> p \<noteq> recipePath s n) \<longrightarrow> p \<noteq> str ''.StorageConfig'' \<longrightarrow> p \<noteq> indexPath v
       \<longrightarrow> files (w_fs w') p = files (w_fs ?w) p"
    unfolding v_def by (rule cmd_c_new [OF st made])
  let ?mc = "leave_run ?cfg mc (w', mc_mongo mc)"
  have keep: "files (w_fs w') p = files (mc_fs mc) p" if "List.last p = 107 \<or> p = v" for p
  proof -
    have v: "List.last v = 48" "v \<noteq> indexPath v"
      using arg_cong [of v "indexPath v" length] by (auto simp: v_def versionName_0 indexPath_def str_def)
    have last: "List.last (containerPath s n) = 114" "List.last (recipePath s n) = 101"
      "List.last (str ''.StorageConfig'') = 103" "List.last (indexPath v) = 48" for n
      using made index_path_last
      by (simp_all add: made_with_def containerPath_def recipePath_def str_def v_def)
    have p: "List.last p = 107 \<or> List.last p = 48" using that v by auto
    then have "p \<noteq> containerPath s n" "p \<noteq> recipePath s n" "p \<noteq> str ''.StorageConfig''" for n
      using last(1) [of n] last(2) [of n] last(3) by auto
    moreover have "p \<noteq> indexPath v" using that v last(4) by auto
    ultimately show ?thesis using w'(4) by simp
  qed
  have nl: "not_lock (indexPath v)" using index_path_other(5) [OF made] by (simp add: v_def)
  have d: "same_data w' (machine_world ?cfg ?mc)"
    using leave_run_data [of ?cfg "(w', mc_mongo mc)" mc] op by (simp add: can_open_def)
  show thesis
  proof (rule that)
    show "main ev [prog, str ''-c'', path] mc = Some (Inr (0, ?mc))"
      using main_runs [OF op s] w'(1) by (simp add: command_c)
    have "files (w_fs w') (lockPath n) = files (mc_fs mc) (lockPath n)" for n
      by (rule keep) (simp add: lockPath_def str_def)
    then show "can_open ev ?mc" using op by (intro leave_run_can_open [OF op]) (simp add: can_open_def)
    show "holds_file ?cfg (ev_evp ev) ?h v ?ds (machine_world ?cfg ?mc)"
      by (rule holds_file_same [OF d w'(2) nl])
    have "not_lock v" by (simp add: not_lock_def v_def versionName_0)
    then show "files (mc_fs ?mc) v = files (mc_fs mc) v" using same_dataD(6) [OF d] keep [of v] by simp
    show "writable (mc_fs ?mc) = writable (mc_fs mc)" using same_dataD(5) [OF d] w'(3) by simp
  qed
qed

text \<open>C1: a file stored by one run of the program is written back by another.  After \<open>-c\<close> on a file
  with no earlier version, \<open>-rs\<close> on the name of its index writes the chunks of the file to the name
  without its version, with the zero bytes of each chunk before its last two places replaced by
  \<open>0x80\<close>; a file without zero bytes is written back as it was.  It needs a file with the name of the
  index in the working directory, which \<open>-rs\<close> opens and does not read.\<close>

theorem stored_file_written_back:
  assumes "can_open ev mc" and "new_storage ev 0 (machine_world (ev_config ev) mc) = Inr s"
    and "storing ev path c s (machine_world (ev_config ev) mc)" and "var_config_ok (ev_config ev)"
    and "files (mc_fs mc) (versionName (but_two path) 0) = Some stub"
    and "free_name (ev_config ev) (but_two path)" and "writable (mc_fs mc) (but_two path)"
  shows "\<exists>mc1 mc2. main ev [prog, str ''-c'', path] mc = Some (Inr (0, mc1))
    \<and> main ev [prog, str ''-rs'', versionName (but_two path) 0] mc1 = Some (Inr (0, mc2))
    \<and> files (mc_fs mc2) (but_two path)
       = Some (concat (map stored_form (ref_chunks c (v_winFp (ev_locals ev 0)) (chunkingFile c))))
    \<and> (0 \<notin> set (chunkingFile c) \<longrightarrow> files (mc_fs mc2) (but_two path) = Some (chunkingFile c))"
proof -
  let ?ds = "ref_chunks c (v_winFp (ev_locals ev 0)) (chunkingFile c)" and ?cfg = "ev_config ev"
  let ?base = "but_two path" and ?v = "versionName (but_two path) 0"
  obtain mc1 where c1: "main ev [prog, str ''-c'', path] mc = Some (Inr (0, mc1))" "can_open ev mc1"
    "holds_file ?cfg (ev_evp ev) (path_hash (ev_evp ev) path) ?v ?ds (machine_world ?cfg mc1)"
    "files (mc_fs mc1) ?v = files (mc_fs mc) ?v" "writable (mc_fs mc1) = writable (mc_fs mc)"
    by (rule main_c_new [OF assms(1-3)])
  obtain s1 where s1: "new_storage ev 0 (machine_world ?cfg mc1) = Inr s1"
    using c1(3) unfolding holds_file_def new_storage_def by blast
  have ok: "chunker_ok c" "length ?ds < 2 ^ 31"
    using assms(3) by (auto simp: storing_def run_ready_def fresh_chunker_def)
  have len: "\<forall>d \<in> set ?ds. length d \<le> MAX_CHUNK_SIZE"
    using ref_chunks_sizes(2) [of c "v_winFp (ev_locals ev 0)" "chunkingFile c"] ok(1) by (fastforce simp: chunker_ok_def)
  let ?w = "(machine_world ?cfg mc1)\<lparr>w_fs := (mc_fs mc1)\<lparr>files := (files (mc_fs mc1))(?base \<mapsto>
    concat (map stored_form ?ds))\<rparr>\<rparr>"
  have "cmd_rs ev (Some ?v) (machine_world ?cfg mc1, mc_mongo mc1) = Some (Inr (?w, mc_mongo mc1))"
    using cmd_rs_restores [OF c1(3) len ok(2) assms(4), of stub "mc_mongo mc1"] c1(4,5) assms(5,7)
      free_name_made [OF assms(6)] by simp
  then have m2: "main ev [prog, str ''-rs'', ?v] mc1 = Some (Inr (0, leave_run ?cfg mc1 (?w, mc_mongo mc1)))"
    using main_runs [OF c1(2) s1] by (simp add: command_rs)
  have "?base \<notin> (\<lambda>db. lockPath (dbName db)) ` set (world_dbs ?w)"
    using assms(6)
    by (auto simp: free_name_def world_dbs_def machine_world_def start_world_def opened_def db_names_def)
  then have "files (mc_fs (leave_run ?cfg mc1 (?w, mc_mongo mc1))) ?base = Some (concat (map stored_form ?ds))"
    by (simp add: leave_run_files)
  then obtain mc2 where "main ev [prog, str ''-rs'', ?v] mc1 = Some (Inr (0, mc2))"
    "files (mc_fs mc2) ?base = Some (concat (map stored_form ?ds))"
    using m2 by blast
  moreover have "0 \<notin> set (chunkingFile c) \<longrightarrow> concat (map stored_form ?ds) = chunkingFile c"
    using stored_form_concat_id [of ?ds] ref_chunks_concat [of c "v_winFp (ev_locals ev 0)" "chunkingFile c"] by simp
  ultimately show ?thesis using c1(1) by auto
qed

text \<open>C27: without a file of that name \<open>-rs\<close> ends in \<open>exit(1)\<close> and restores nothing: the constructor of
  the chunker that loads the index opens the name it is given, and \<open>-c\<close> makes no such file.\<close>

theorem restore_exits:
  assumes "can_open ev mc" and "new_storage ev 0 (machine_world (ev_config ev) mc) = Inr s"
    and "storing ev path c s (machine_world (ev_config ev) mc)"
    and "files (mc_fs mc) (versionName (but_two path) 0) = None"
  shows "\<exists>mc1. main ev [prog, str ''-c'', path] mc = Some (Inr (0, mc1))
    \<and> main ev [prog, str ''-rs'', versionName (but_two path) 0] mc1 = Some (Inl (Exit 1))"
proof -
  let ?ds = "ref_chunks c (v_winFp (ev_locals ev 0)) (chunkingFile c)" and ?cfg = "ev_config ev"
  let ?v = "versionName (but_two path) 0"
  obtain mc1 where c1: "main ev [prog, str ''-c'', path] mc = Some (Inr (0, mc1))" "can_open ev mc1"
    "holds_file ?cfg (ev_evp ev) (path_hash (ev_evp ev) path) ?v ?ds (machine_world ?cfg mc1)"
    "files (mc_fs mc1) ?v = files (mc_fs mc) ?v"
    by (rule main_c_new [OF assms(1-3)])
  obtain s0 s1 where s: "new_storage ev 0 (machine_world ?cfg mc1) = Inr s0" "new_storage ev 1 (machine_world ?cfg mc1) = Inr s1"
    using c1(3) unfolding holds_file_def new_storage_def by meson
  have "newChunker (ev_evp ev) ?cfg (mc_fs mc1) (ev_chunker ev 0) ?v 1 = Inl (Exit 1)"
    using c1(4) assms(4) by (simp add: newChunker_def loadChunkFile_def)
  then have "cmd_rs ev (Some ?v) (machine_world ?cfg mc1, mc_mongo mc1) = Some (Inl (Exit 1))"
    using s(2) by (simp add: cmd_rs_def need_string_def)
  then show ?thesis using c1(1) main_runs [OF c1(2) s(1)] by (simp add: command_rs)
qed

section \<open>A concrete pair of runs\<close>

definition toy_environment :: "unit environment" where
  "toy_environment = \<lparr>ev_config = toy_config, ev_evp = toy_evp, ev_md5 = toy_md5,
     ev_delta_create = (\<lambda>_ _. []), ev_delta_apply = (\<lambda>_ _. []), ev_features = (\<lambda>_ _. []),
     ev_mongo = \<lparr>insert_one = (\<lambda>_ m. m), find_group_number = (\<lambda>_. []), aggregate_group = (\<lambda>_ _. []),
       find_hash = (\<lambda>_ _ _. []), update_group = (\<lambda>_ _ m. m)\<rparr>,
     ev_junk = toy_restored, ev_locals = (\<lambda>_. toy_locals), ev_chunker = (\<lambda>_. toy_blank), ev_body = (\<lambda>_ _. 0),
     ev_stack = (\<lambda>_. toy_key), ev_opens = (\<lambda>_. True)\<rparr>"

text \<open>A fresh machine with the file \<open>f.c\<close>, whose index will be \<open>f-0\<close>, and with or without a file \<open>f-0\<close>.\<close>

definition toy_machine :: "bytes option \<Rightarrow> unit machine" where
  "toy_machine stub = \<lparr>mc_fs = \<lparr>files = (\<lambda>p. if p = str ''f.c'' then Some toy_file
       else if p = str ''f-0'' then stub else None), writable = (\<lambda>_. True)\<rparr>,
     mc_dbs = Map.empty, mc_mongo = ()\<rparr>"

definition toy_run :: "bytes option \<Rightarrow> world" where
  "toy_run stub = machine_world toy_config (toy_machine stub)"

lemma toy_run_facts:
  shows "storage_inv (toy_run stub) toy_storage" and "abs_store (toy_run stub) toy_storage = Map.empty"
    and "new_storage toy_environment 0 (toy_run stub) = Inr toy_storage"
    and "files (w_fs (toy_run stub)) (str ''f.c'') = Some toy_file"
    and "writable (w_fs (toy_run stub)) p" and "fileName2metaDB (toy_run stub) = empty_db (str ''db2'')"
    and "files (w_fs (toy_run stub)) (recipePath toy_storage n) = None"
    and "files (w_fs (toy_run stub)) (indexPath q) = None"
proof -
  have db: "fp2ChunkDB (toy_run stub) = fp2ChunkDB toy_world" "containerDB (toy_run stub) = containerDB toy_world"
    "fileName2metaDB (toy_run stub) = empty_db (str ''db2'')"
    by (simp_all add: toy_run_def machine_world_def start_world_def toy_machine_def db_names_def opened_def
        toy_config_def config_defs toy_world_def empty_db_def)
  have np: "files (w_fs (toy_run stub)) p = None" if "p \<noteq> str ''f.c''" "p \<noteq> str ''f-0''" for p
    using that by (simp add: toy_run_def toy_machine_def)
  have c: "files (w_fs (toy_run stub)) (containerPath toy_storage n) = None" for n
    by (rule np) (simp_all add: containerPath_def toy_storage_eq str_def)
  show "files (w_fs (toy_run stub)) (recipePath toy_storage n) = None"
    by (rule np) (simp_all add: recipePath_def toy_storage_eq str_def)
  show "files (w_fs (toy_run stub)) (indexPath q) = None" by (rule np) (simp_all add: indexPath_def str_def)
  show "storage_inv (toy_run stub) toy_storage" "abs_store (toy_run stub) toy_storage = Map.empty"
    using db by (auto simp: storage_inv_def abs_store_def fun_eq_iff toy_storage_eq toy_world_def cache_ok_def
        initial_name_facts size_defs toy_run_def toy_machine_def)
  have "files (w_fs (toy_run stub)) (str ''.StorageConfig'') = None" by (rule np) (simp_all add: str_def)
  then show "new_storage toy_environment 0 (toy_run stub) = Inr toy_storage"
    by (simp add: new_storage_def newStorageCore_def toy_environment_def toy_storage_eq blankStorageCore_def
        toy_config_def config_defs)
  show "files (w_fs (toy_run stub)) (str ''f.c'') = Some toy_file" "writable (w_fs (toy_run stub)) p"
    by (simp_all add: toy_run_def toy_machine_def)
  show "fileName2metaDB (toy_run stub) = empty_db (str ''db2'')" by (rule db)
qed

lemma toy_can_open: "can_open toy_environment (toy_machine stub)"
  by (simp add: can_open_def toy_environment_def toy_machine_def db_names_def toy_config_def config_defs lockPath_def
      str_def)

lemma toy_storing:
  obtains c where "storing toy_environment (str ''f.c'') c toy_storage (toy_run stub)" and "chunkingFile c = toy_file"
proof -
  let ?w = "toy_run stub"
  have zero: "(0 :: int) = 0 \<or> (0 :: int) = 1" by simp
  obtain c where c: "newChunker toy_evp toy_config (w_fs ?w) toy_blank (str ''f.c'') 0 = Inr c"
    "fresh_chunker c" "chunkingFile c = toy_file" "chunk_end c = chunk_end toy_settings" "Recipe_ok (recipe c)"
    by (rule toy_new_chunker [OF toy_run_facts(4) [of stub] zero])
  have ds: "ref_chunks c 0 toy_file = [[1, 2, 3, 4, 5, 6, 7, 8], [9, 10, 11, 12]]"
    using toy_settings_chunks(1) unfolding ref_chunks_chunk_end [OF c(4)] .
  have "run_ready toy_evp toy_md5 toy_locals toy_config c toy_storage ?w"
    using toy_evp_ok(2) c(2,3) ds toy_run_facts(1) toy_made toy_storable [OF disjI1 [OF refl] toy_run_facts(2)]
    by (simp add: run_ready_def toy_locals_def md5_ok_def toy_md5_def)
  moreover have "recipe_free c toy_storage ?w" using c(5) by (simp add: recipe_free_def toy_run_facts)
  ultimately have "storing toy_environment (str ''f.c'') c toy_storage ?w"
    using c(1,3) ds
    by (simp add: storing_def not_flag_def toy_environment_def toy_run_facts toy_locals_def toy_config_def config_defs)
  then show ?thesis using that c(3) by blast
qed

lemma toy_file_names: "but_two (str ''f.c'') = str ''f''" "versionName (str ''f'') 0 = str ''f-0''"
  by (simp_all add: but_two_def versionName_0 str_def)

theorem stored_file_written_back_witness:
  "\<exists>mc1 mc2. main toy_environment [[], str ''-c'', str ''f.c''] (toy_machine (Some [])) = Some (Inr (0, mc1))
    \<and> main toy_environment [[], str ''-rs'', str ''f-0''] mc1 = Some (Inr (0, mc2))
    \<and> files (mc_fs mc2) (str ''f'') = Some toy_file"
proof -
  obtain c where c: "storing toy_environment (str ''f.c'') c toy_storage (toy_run (Some []))" "chunkingFile c = toy_file"
    by (rule toy_storing)
  have cfg: "ev_config toy_environment = toy_config" by (simp add: toy_environment_def)
  have "0 \<notin> set toy_file" by (simp add: toy_file_def)
  moreover have "free_name toy_config (str ''f'')"
    by (auto simp: free_name_def toy_config_def config_defs str_def lockPath_def db_names_def)
  moreover have "files (mc_fs (toy_machine (Some []))) (str ''f-0'') = Some []" "writable (mc_fs (toy_machine (Some []))) (str ''f'')"
    by (simp_all add: toy_machine_def str_def)
  ultimately show ?thesis
    using stored_file_written_back [OF toy_can_open toy_run_facts(3) [unfolded toy_run_def, folded cfg]
        c(1) [unfolded toy_run_def, folded cfg], of "[]" "[]"]
      toy_config_ok c(2) unfolding toy_file_names cfg by auto
qed

theorem restore_exits_witness:
  "\<exists>mc1. main toy_environment [[], str ''-c'', str ''f.c''] (toy_machine None) = Some (Inr (0, mc1))
    \<and> main toy_environment [[], str ''-rs'', str ''f-0''] mc1 = Some (Inl (Exit 1))"
proof -
  obtain c where c: "storing toy_environment (str ''f.c'') c toy_storage (toy_run None)"
    by (rule toy_storing)
  have cfg: "ev_config toy_environment = toy_config" by (simp add: toy_environment_def)
  have "files (mc_fs (toy_machine None)) (str ''f-0'') = None" by (simp add: toy_machine_def str_def)
  then show ?thesis
    using restore_exits [OF toy_can_open toy_run_facts(3) [unfolded toy_run_def, folded cfg]
        c [unfolded toy_run_def, folded cfg], of "[]"] unfolding toy_file_names by simp
qed

end
