(* ===== verification/Ldb_Coding.thy ===== *)
theory Ldb_Coding
  imports Sim_Prelude
begin

text \<open>
  The byte encodings of LevelDB (\<open>lib/leveldb/util/coding.cc\<close>): fixed and variable length integers
  and length-prefixed strings; and the order of keys, the contract of \<open>Comparator\<close> and the bytewise
  comparator (\<open>include/leveldb/slice.h\<close>, \<open>util/comparator.cc\<close>).  A pointer into a buffer with its limit
  is the list of the bytes between them; a null pointer is \<open>None\<close>.
\<close>

section \<open>Fixed-length integers\<close>

text \<open>The bytes of the value in memory, on a little-endian machine and, byte by byte, on any other.
  The decoders read as many bytes as the type has; their callers see to it that these are there.\<close>

definition EncodeFixed32 :: "u32 \<Rightarrow> bytes" where
  "EncodeFixed32 v = le_bytes 4 v"

definition EncodeFixed64 :: "u64 \<Rightarrow> bytes" where
  "EncodeFixed64 v = le_bytes 8 v"

definition PutFixed32 :: "bytes \<Rightarrow> u32 \<Rightarrow> bytes" where
  "PutFixed32 dst v = dst @ EncodeFixed32 v"

definition PutFixed64 :: "bytes \<Rightarrow> u64 \<Rightarrow> bytes" where
  "PutFixed64 dst v = dst @ EncodeFixed64 v"

definition DecodeFixed32 :: "bytes \<Rightarrow> u32" where
  "DecodeFixed32 p = of_le (take 4 p)"

definition DecodeFixed64 :: "bytes \<Rightarrow> u64" where
  "DecodeFixed64 p = of_le (take 8 p)"

lemma length_EncodeFixed [simp]: "length (EncodeFixed32 v) = 4" "length (EncodeFixed64 x) = 8"
  by (simp_all add: EncodeFixed32_def EncodeFixed64_def)

lemma DecodeFixed_Encode [simp]:
  "DecodeFixed32 (EncodeFixed32 v @ r) = v" "DecodeFixed64 (EncodeFixed64 x @ r) = x"
  by (simp_all add: DecodeFixed32_def EncodeFixed32_def DecodeFixed64_def EncodeFixed64_def of_le_bytes)

lemma DecodeFixed_Encode_nil [simp]:
  "DecodeFixed32 (EncodeFixed32 v) = v" "DecodeFixed64 (EncodeFixed64 x) = x"
  using DecodeFixed_Encode(1) [of v "[]"] DecodeFixed_Encode(2) [of x "[]"] by simp_all

section \<open>Variable-length integers\<close>

definition low_byte :: "'a::len word \<Rightarrow> byte" where
  "low_byte v = ucast v"

definition EncodeVarint32 :: "u32 \<Rightarrow> bytes" where
  "EncodeVarint32 v =
     (if v < 2 ^ 7 then [low_byte v]
      else if v < 2 ^ 14 then [low_byte (v OR 128), low_byte (drop_bit 7 v)]
      else if v < 2 ^ 21 then [low_byte (v OR 128), low_byte (drop_bit 7 v OR 128), low_byte (drop_bit 14 v)]
      else if v < 2 ^ 28 then
        [low_byte (v OR 128), low_byte (drop_bit 7 v OR 128), low_byte (drop_bit 14 v OR 128),
         low_byte (drop_bit 21 v)]
      else
        [low_byte (v OR 128), low_byte (drop_bit 7 v OR 128), low_byte (drop_bit 14 v OR 128),
         low_byte (drop_bit 21 v OR 128), low_byte (drop_bit 28 v)])"

definition PutVarint32 :: "bytes \<Rightarrow> u32 \<Rightarrow> bytes" where
  "PutVarint32 dst v = dst @ EncodeVarint32 v"

text \<open>A value of at least 128 gets smaller when it is shifted.\<close>

lemma drop_bit_7_less:
  assumes "128 \<le> (v :: 'a::len word)" and "7 < LENGTH('a)"
  shows "unat (drop_bit 7 v) < unat v"
proof -
  have "unat (128 :: 'a word) = 128"
  proof -
    have "(2 :: nat) ^ 8 \<le> 2 ^ LENGTH('a)" using assms(2) by (intro power_increasing) simp_all
    then show ?thesis using unat_of_nat [of 128, where ?'a = 'a] by (simp add: take_bit_nat_eq_self)
  qed
  then have "0 < unat v" using assms(1) by (simp add: word_le_nat_alt)
  moreover have "unat (drop_bit 7 v) = unat v div 2 ^ 7" by (subst unat_drop_bit_eq) (rule drop_bit_eq_div)
  ultimately show ?thesis by simp
qed

function EncodeVarint64 :: "u64 \<Rightarrow> bytes" where
  "EncodeVarint64 v =
     (if v \<ge> 128 then low_byte ((v AND 127) OR 128) # EncodeVarint64 (drop_bit 7 v) else [low_byte v])"
  by auto
termination by (relation "measure unat") (auto intro: drop_bit_7_less)

declare EncodeVarint64.simps [simp del]

definition PutVarint64 :: "bytes \<Rightarrow> u64 \<Rightarrow> bytes" where
  "PutVarint64 dst v = dst @ EncodeVarint64 v"

function VarintLength :: "u64 \<Rightarrow> int" where
  "VarintLength v = (if v \<ge> 128 then 1 + VarintLength (drop_bit 7 v) else 1)"
  by auto
termination by (relation "measure unat") (auto intro: drop_bit_7_less)

declare VarintLength.simps [simp del]

text \<open>The decoding loop, which both widths share: \<open>shift\<close> runs in steps of seven up to a limit.\<close>

fun varint_loop :: "nat \<Rightarrow> nat \<Rightarrow> 'a::len word \<Rightarrow> bytes \<Rightarrow> ('a word \<times> bytes) option" where
  "varint_loop lim shift r [] = None"
| "varint_loop lim shift r (b # p) =
     (if shift > lim then None
      else if b AND 128 \<noteq> 0 then varint_loop lim (shift + 7) (r OR push_bit shift (ucast b AND 127)) p
      else Some (r OR push_bit shift (ucast b), p))"

definition GetVarint32PtrFallback :: "bytes \<Rightarrow> (u32 \<times> bytes) option" where
  "GetVarint32PtrFallback p = varint_loop 28 0 0 p"

definition GetVarint32Ptr :: "bytes \<Rightarrow> (u32 \<times> bytes) option" where
  "GetVarint32Ptr p = (case p of
       [] \<Rightarrow> GetVarint32PtrFallback p
     | b # q \<Rightarrow> if b AND 128 = 0 then Some (ucast b, q) else GetVarint32PtrFallback p)"

definition GetVarint64Ptr :: "bytes \<Rightarrow> (u64 \<times> bytes) option" where
  "GetVarint64Ptr p = varint_loop 63 0 0 p"

text \<open>\<open>GetVarint32\<close> and \<open>GetVarint64\<close> advance a slice: the value and what is left of it.\<close>

definition GetVarint32 :: "bytes \<Rightarrow> (u32 \<times> bytes) option" where
  "GetVarint32 input = GetVarint32Ptr input"

definition GetVarint64 :: "bytes \<Rightarrow> (u64 \<times> bytes) option" where
  "GetVarint64 input = GetVarint64Ptr input"

section \<open>Length-prefixed strings\<close>

definition PutLengthPrefixedSlice :: "bytes \<Rightarrow> bytes \<Rightarrow> bytes" where
  "PutLengthPrefixedSlice dst value = PutVarint32 dst (of_nat (length value)) @ value"

definition GetLengthPrefixedSlice :: "bytes \<Rightarrow> (bytes \<times> bytes) option" where
  "GetLengthPrefixedSlice input = (case GetVarint32 input of
       None \<Rightarrow> None
     | Some (len, p) \<Rightarrow> if length p \<ge> unat len then Some (take (unat len) p, drop (unat len) p) else None)"

section \<open>Round trips\<close>

text \<open>The reference encoding of a number: seven bits a byte, the low ones first, and the high bit of a
  byte set when another follows.\<close>

fun varint :: "nat \<Rightarrow> bytes" where
  "varint n = (if n \<ge> 128 then of_nat (n mod 128 + 128) # varint (n div 128) else [of_nat n])"

declare varint.simps [simp del]

lemma high_bit_set: "m < 128 \<Longrightarrow> (of_nat (m + 128) :: byte) AND 128 \<noteq> 0"
proof -
  assume "m < 128"
  then have "(m + 128) div 2 ^ 7 = 1" by (intro div_nat_eqI) simp_all
  then have "bit (m + 128) 7" by (simp only: bit_iff_odd) simp
  then have "bit (of_nat (m + 128) :: byte) 7" by (simp only: bit_of_nat_iff) simp
  then show ?thesis using and_exp_eq_0_iff_not_bit [of "of_nat (m + 128) :: byte" 7] by simp
qed

lemma high_bit_clear: "m < 128 \<Longrightarrow> (of_nat m :: byte) AND 128 = 0"
proof -
  assume "m < 128"
  then have "\<not> bit m 7" by (simp add: bit_iff_odd)
  then have "\<not> bit (of_nat m :: byte) 7" by (simp only: bit_of_nat_iff) simp
  then show ?thesis using and_exp_eq_0_iff_not_bit [of "of_nat m :: byte" 7] by simp
qed

lemma ucast_byte: "m < 256 \<Longrightarrow> (ucast (of_nat m :: byte) :: 'a::len word) = of_nat m"
  by (rule unsigned_of_nat [THEN trans]) (simp add: take_bit_nat_eq_self)

lemma low_seven: "m < 128 \<Longrightarrow> (ucast (of_nat (m + 128) :: byte) AND 127 :: 'a::len word) = of_nat m"
proof -
  assume m: "m < 128"
  have "(127 :: 'a word) = mask 7" by (simp add: mask_eq_exp_minus_1)
  then have "(ucast (of_nat (m + 128) :: byte) AND 127 :: 'a word) = take_bit 7 (of_nat (m + 128))"
    using ucast_byte [of "m + 128", where ?'a = 'a] m by (simp only: take_bit_eq_mask)
  also have "\<dots> = of_nat (take_bit 7 (m + 128))" by (rule take_bit_of_nat)
  also have "take_bit 7 (m + 128) = m" using m by (simp add: take_bit_eq_mod)
  finally show ?thesis .
qed

lemma of_nat_split: "(of_nat n :: 'a::len word) = of_nat (n mod 128) OR push_bit 7 (of_nat (n div 128))"
proof -
  have "n = push_bit 7 (drop_bit 7 n) OR take_bit 7 n" by (rule bit_eqI) (auto simp: bit_simps)
  then have "n = n mod 128 OR push_bit 7 (n div 128)"
    by (simp add: take_bit_eq_mod drop_bit_eq_div or.commute)
  then have "(of_nat n :: 'a word) = of_nat (n mod 128 OR push_bit 7 (n div 128))" by simp
  then show ?thesis by (simp only: of_nat_or_eq push_bit_of_nat)
qed

lemma varint_loop_varint:
  assumes "n * 2 ^ (7 * i) < 2 ^ LENGTH('a::len)" and "LENGTH('a) \<le> 7 * j + 7" and "i \<le> j"
  shows "varint_loop (7 * j) (7 * i) (r :: 'a word) (varint n @ p) = Some (r OR push_bit (7 * i) (of_nat n), p)"
  using assms
proof (induction n arbitrary: i r rule: varint.induct)
  case (1 n)
  show ?case
  proof (cases "n \<ge> 128")
    case True
    have "2 ^ (7 * i + 7) \<le> n * 2 ^ (7 * i)" using True by (simp add: power_add)
    also have "\<dots> < 2 ^ LENGTH('a)" by (rule 1(2))
    finally have "7 * i + 7 < LENGTH('a)" by simp
    then have i: "Suc i \<le> j" using 1(3) by linarith
    have "n div 128 * 2 ^ (7 * Suc i) = n div 128 * 128 * 2 ^ (7 * i)" by (simp add: power_add)
    also have "\<dots> \<le> n * 2 ^ (7 * i)" by (intro mult_right_mono) simp_all
    finally have "n div 128 * 2 ^ (7 * Suc i) < 2 ^ LENGTH('a)" using 1(2) by linarith
    note ih = 1(1) [OF True this 1(3) i]
    have "push_bit (7 * i) (of_nat n :: 'a word)
        = push_bit (7 * i) (of_nat (n mod 128)) OR push_bit (7 * Suc i) (of_nat (n div 128))"
      by (subst of_nat_split) (simp add: push_bit_or add.commute)
    then show ?thesis
      using True 1(4) high_bit_set [of "n mod 128"] low_seven [of "n mod 128", where ?'a = 'a]
        ih [of "r OR push_bit (7 * i) (of_nat (n mod 128))"]
      by (subst varint.simps) (simp add: add.commute or.assoc)
  next
    case False
    then show ?thesis
      using 1(4) high_bit_clear [of n] ucast_byte [of n, where ?'a = 'a] by (subst varint.simps) simp
  qed
qed

text \<open>The encoders of the code are the reference.\<close>

lemma varint_word:
  fixes v :: "'a::len word"
  assumes "unat (128 :: 'a word) = 128"
  shows "varint (unat v) = (if v \<ge> 128
    then of_nat (unat v mod 128 + 128) # varint (unat (drop_bit 7 v)) else [low_byte v])"
proof -
  have "unat (drop_bit 7 v) = unat v div 2 ^ 7" by (subst unat_drop_bit_eq) (rule drop_bit_eq_div)
  moreover have "low_byte v = of_nat (unat v)" by (simp add: low_byte_def)
  moreover have "128 \<le> v \<longleftrightarrow> 128 \<le> unat v" using assms by (simp add: word_le_nat_alt)
  ultimately show ?thesis by (subst varint.simps) simp
qed

lemma take_bit_plus_exp: "take_bit n a + 2 ^ n = take_bit n a OR 2 ^ n" for a :: nat
  by (rule disjunctive_add_eq_or, rule bit_eqI) (auto simp: bit_simps)

lemma low_byte_or_exp:
  fixes v :: "'a::len word"
  assumes "Suc n = 8" and "n < LENGTH('a)"
  shows "low_byte (v OR 2 ^ n) = of_nat (take_bit n (unat v) OR 2 ^ n)"
    "low_byte ((v AND mask n) OR 2 ^ n) = of_nat (take_bit n (unat v) OR 2 ^ n)"
proof -
  have k: "k < 8 \<longleftrightarrow> k < n \<or> k = n" for k using assms(1) by linarith
  show "low_byte (v OR 2 ^ n) = of_nat (take_bit n (unat v) OR 2 ^ n)"
    "low_byte ((v AND mask n) OR 2 ^ n) = of_nat (take_bit n (unat v) OR 2 ^ n)"
    using assms(2) by (rule_tac bit_eqI; auto simp: low_byte_def bit_simps k)+
qed

lemma low_byte_or:
  fixes v :: "'a::len word"
  assumes "7 < LENGTH('a)"
  shows "low_byte (v OR 128) = of_nat (unat v mod 128 + 128)"
    "low_byte ((v AND 127) OR 128) = of_nat (unat v mod 128 + 128)"
proof -
  have "of_nat (unat v mod 128 + 128) = (of_nat (take_bit 7 (unat v) OR 2 ^ 7) :: byte)"
    using take_bit_plus_exp [of 7 "unat v"] by (simp add: take_bit_eq_mod)
  moreover have "(127 :: 'a word) = mask 7" "(128 :: 'a word) = 2 ^ 7" by (simp_all add: mask_eq_exp_minus_1)
  ultimately show "low_byte (v OR 128) = of_nat (unat v mod 128 + 128)"
    "low_byte ((v AND 127) OR 128) = of_nat (unat v mod 128 + 128)"
    using low_byte_or_exp [of 7 v] assms by simp_all
qed

lemma EncodeVarint64_varint: "EncodeVarint64 v = varint (unat v)"
proof (induction v rule: EncodeVarint64.induct)
  case (1 v)
  then show ?case
    using varint_word [of v] by (subst EncodeVarint64.simps) (simp add: low_byte_or(2))
qed

lemma unat_exp32: "n < 32 \<Longrightarrow> unat (2 ^ n :: u32) = 2 ^ n"
proof -
  assume "n < 32"
  then have "(2 :: nat) ^ n < 2 ^ 32" by (intro power_strict_increasing) simp_all
  then show ?thesis using unat_of_nat [of "2 ^ n", where ?'a = 32] by (simp add: take_bit_nat_eq_self)
qed

lemma unat_u32_less: "unat (v :: u32) < 4294967296"
  using unsigned_less [of v] by simp

lemma unat_u64_less: "unat (v :: u64) < 18446744073709551616"
  using unsigned_less [of v] by simp

lemma unat_drop_bit_32: "unat (drop_bit n v) = unat v div 2 ^ n" for v :: u32
  by (subst unat_drop_bit_eq) (rule drop_bit_eq_div)

lemma drop_bit_less: "drop_bit n v < 2 ^ 7 \<longleftrightarrow> v < 2 ^ (n + 7)" if "n + 7 < 32" for v :: u32
proof -
  have "unat v div 2 ^ n < 2 ^ 7 \<longleftrightarrow> unat v < 2 ^ 7 * 2 ^ n" by (rule div_less_iff_less_mult) simp
  then show ?thesis
    using that unat_exp32 [of 7] unat_exp32 [of "n + 7"]
    by (simp only: word_less_nat_alt unat_drop_bit_32 power_add) (simp add: mult.commute)
qed

lemma EncodeVarint32_varint: "EncodeVarint32 v = varint (unat v)"
proof -
  have w: "varint (unat x) = (if x < 2 ^ 7 then [low_byte x] else low_byte (x OR 128) # varint (unat (drop_bit 7 x)))"
    for x :: u32
    using varint_word [of x] low_byte_or(1) [of x] by (cases "128 \<le> x") (auto simp: not_less dest: leD)
  have "unat v div 2 ^ 28 < 2 ^ 7" using unat_u32_less [of v] by simp
  then have last: "drop_bit 28 v < 2 ^ 7" using unat_exp32 [of 7] by (simp only: word_less_nat_alt unat_drop_bit_32)
  have d: "drop_bit 7 v < 2 ^ 7 \<longleftrightarrow> v < 2 ^ 14" "drop_bit 14 v < 2 ^ 7 \<longleftrightarrow> v < 2 ^ 21" "drop_bit 21 v < 2 ^ 7 \<longleftrightarrow> v < 2 ^ 28"
    using drop_bit_less [of 7 v] drop_bit_less [of 14 v] drop_bit_less [of 21 v] by simp_all
  have dd: "drop_bit 7 (drop_bit 7 v) = drop_bit 14 v" "drop_bit 7 (drop_bit 14 v) = drop_bit 21 v"
    "drop_bit 7 (drop_bit 21 v) = drop_bit 28 v" by simp_all
  note e = w [of v] w [of "drop_bit 7 v", unfolded dd d] w [of "drop_bit 14 v", unfolded dd d]
    w [of "drop_bit 21 v", unfolded dd d] w [of "drop_bit 28 v"]
  show ?thesis unfolding EncodeVarint32_def e using last by simp
qed

lemma length_varint: "n < 128 ^ Suc k \<Longrightarrow> length (varint n) \<le> Suc k"
proof (induction k arbitrary: n)
  case 0
  then show ?case by (simp add: varint.simps)
next
  case (Suc k)
  then have "n div 128 < 128 ^ Suc k" by (simp add: div_less_iff_less_mult)
  with Suc.IH [of "n div 128"] show ?case by (subst varint.simps) simp
qed

lemma VarintLength_varint: "VarintLength v = int (length (varint (unat v)))"
proof (induction v rule: VarintLength.induct)
  case (1 v)
  then show ?case using varint_word [of v] by (subst VarintLength.simps) simp
qed

lemma varint_not_empty [simp]: "varint n \<noteq> []"
  by (subst varint.simps) simp

lemma GetVarint32_Encode: "GetVarint32 (EncodeVarint32 v @ p) = Some (v, p)"
proof -
  have n: "unat v * 2 ^ (7 * 0) < 2 ^ LENGTH(32)" using unsigned_less [of v] by simp
  have f: "GetVarint32PtrFallback (varint (unat v) @ p) = Some (v, p)"
    using varint_loop_varint [OF n, of 4 0 p] by (simp add: GetVarint32PtrFallback_def)
  have "GetVarint32Ptr (varint (unat v) @ p) = GetVarint32PtrFallback (varint (unat v) @ p)"
  proof (cases "varint (unat v) @ p")
    case (Cons b q)
    then show ?thesis by (simp add: GetVarint32Ptr_def GetVarint32PtrFallback_def)
  qed simp
  then show ?thesis using f by (simp add: GetVarint32_def EncodeVarint32_varint)
qed

lemma GetVarint64_Encode: "GetVarint64 (EncodeVarint64 v @ p) = Some (v, p)"
proof -
  have n: "unat v * 2 ^ (7 * 0) < 2 ^ LENGTH(64)" using unsigned_less [of v] by simp
  show ?thesis
    using varint_loop_varint [OF n, of 9 0 p]
    by (simp add: GetVarint64_def GetVarint64Ptr_def EncodeVarint64_varint)
qed

lemma GetLengthPrefixedSlice_Put:
  assumes "length s < 2 ^ 32"
  shows "GetLengthPrefixedSlice (PutLengthPrefixedSlice [] s @ p) = Some (s, p)"
proof -
  have "unat (of_nat (length s) :: u32) = length s" using assms by (simp add: unat_of_nat)
  then show ?thesis
    using GetVarint32_Encode [of "of_nat (length s)" "s @ p"]
    by (simp add: GetLengthPrefixedSlice_def PutLengthPrefixedSlice_def PutVarint32_def)
qed

text \<open>C33: the variable-length encodings are read back as they were, whatever follows them: integers
  of 32 and of 64 bits, and strings with their length in front.  An encoded integer has at most
  five or ten bytes, the size of the buffers it is written to, and the length \<open>VarintLength\<close> says.\<close>

theorem varint_round_trip:
  shows "GetVarint32 (PutVarint32 [] v @ p) = Some (v, p) \<and> GetVarint64 (PutVarint64 [] x @ p) = Some (x, p)
    \<and> (length s < 2 ^ 32 \<longrightarrow> GetLengthPrefixedSlice (PutLengthPrefixedSlice [] s @ p) = Some (s, p))
    \<and> length (EncodeVarint32 v) \<le> 5 \<and> length (EncodeVarint64 x) \<le> 10
    \<and> VarintLength x = int (length (EncodeVarint64 x)) \<and> VarintLength (ucast v) = int (length (EncodeVarint32 v))"
proof -
  have "unat v < 128 ^ Suc 4" using unat_u32_less [of v] by simp
  then have "length (EncodeVarint32 v) \<le> 5" using length_varint [of "unat v" 4] by (simp add: EncodeVarint32_varint)
  moreover have "unat x < 128 ^ Suc 9" using unat_u64_less [of x] by simp
  then have "length (EncodeVarint64 x) \<le> 10" using length_varint [of "unat x" 9] by (simp add: EncodeVarint64_varint)
  moreover have "unat (ucast v :: u64) = unat v"
    using unat_u32_less [of v] by (simp add: unsigned_ucast_eq take_bit_nat_eq_self)
  ultimately show ?thesis
    using GetVarint32_Encode GetVarint64_Encode GetLengthPrefixedSlice_Put
    by (simp add: PutVarint32_def PutVarint64_def VarintLength_varint EncodeVarint64_varint EncodeVarint32_varint)
qed

theorem varint_round_trip_witness:
  "GetVarint32 (PutVarint32 [] 300 @ [7]) = Some (300, [7]) \<and> PutVarint32 [] 300 = [172, 2]
    \<and> GetLengthPrefixedSlice (PutLengthPrefixedSlice [] [1, 2, 3] @ [9]) = Some ([1, 2, 3], [9])"
proof -
  have "PutVarint32 [] 300 = [172, 2]" by code_simp
  then show ?thesis using varint_round_trip [of 300 "[7]"] varint_round_trip [of 0 "[9]" 0 "[1, 2, 3]"] by simp
qed

end
