(* ===== verification/Ldb_Keys.thy ===== *)
theory Ldb_Keys
  imports Ldb_Coding
begin

text \<open>
  The order of keys in LevelDB: \<open>Slice::compare\<close> (\<open>include/leveldb/slice.h\<close>), the bytewise comparator
  (\<open>util/comparator.cc\<close>), internal keys and their comparator (\<open>db/dbformat.h\<close>, \<open>db/dbformat.cc\<close>).  The
  locale \<open>comparator\<close> is the contract of the class \<open>Comparator\<close> that the skip list relies on.
\<close>

section \<open>The contract of a comparator\<close>

text \<open>A three-way comparison that is a total preorder; keys that compare equal may differ.\<close>

locale comparator =
  fixes cmp :: "'k \<Rightarrow> 'k \<Rightarrow> int"
  assumes cmp_sym: "cmp a b < 0 \<longleftrightarrow> 0 < cmp b a"
    and cmp_trans: "cmp a b \<le> 0 \<Longrightarrow> cmp b c \<le> 0 \<Longrightarrow> cmp a c \<le> 0"
begin

lemma cmp_refl: "cmp a a = 0"
  using cmp_sym [of a a] by linarith

lemma cmp_less_trans: "cmp a b < 0 \<Longrightarrow> cmp b c \<le> 0 \<Longrightarrow> cmp a c < 0"
  using cmp_trans [of b c a] cmp_sym [of a b] cmp_sym [of a c] by linarith

lemma cmp_trans_less: "cmp a b \<le> 0 \<Longrightarrow> cmp b c < 0 \<Longrightarrow> cmp a c < 0"
  using cmp_trans [of c a b] cmp_sym [of b c] cmp_sym [of a c] by linarith

lemma cmp_eq_sym: "cmp a b = 0 \<longleftrightarrow> cmp b a = 0"
  using cmp_sym [of a b] cmp_sym [of b a] by linarith

end

section \<open>Slices and the bytewise comparator\<close>

fun memcmp :: "bytes \<Rightarrow> bytes \<Rightarrow> int" where
  "memcmp (a # as) (b # bs) = (if a = b then memcmp as bs else if a < b then - 1 else 1)"
| "memcmp as bs = 0"

text \<open>\<open>const int min_len\<close> is the smaller length as long as it is below \<open>2 ^ 31\<close>; for longer slices it is
  negative and \<open>memcmp\<close> leaves both of them.  The definition is that of the shorter slices, and the theorems
  about tables that compare with it bound the keys accordingly.\<close>

definition slice_compare :: "bytes \<Rightarrow> bytes \<Rightarrow> int" where
  "slice_compare a b =
     (let min_len = (if length a < length b then length a else length b);
          r = memcmp (take min_len a) (take min_len b) in
      if r = 0 then (if length a < length b then - 1 else if length a > length b then 1 else 0) else r)"

lemma slice_compare_nil [simp]: "slice_compare [] b = (if b = [] then 0 else - 1)" "slice_compare (x # a) [] = 1"
  by (simp_all add: slice_compare_def)

lemma slice_compare_cons [simp]:
  "slice_compare (x # a) (y # b) = (if x = y then slice_compare a b else if x < y then - 1 else 1)"
  by (simp add: slice_compare_def Let_def)

lemma slice_compare_order:
  "slice_compare a b < 0 \<longleftrightarrow> a < b" "slice_compare a b = 0 \<longleftrightarrow> a = b" "0 < slice_compare a b \<longleftrightarrow> b < a"
proof -
  have "(slice_compare a b < 0 \<longleftrightarrow> a < b) \<and> (slice_compare a b = 0 \<longleftrightarrow> a = b) \<and> (0 < slice_compare a b \<longleftrightarrow> b < a)"
  proof (induction a arbitrary: b)
    case Nil
    then show ?case by (cases b) auto
  next
    case (Cons x a)
    show ?case
    proof (cases b)
      case (Cons y b')
      show ?thesis using Cons.IH [of b'] Cons by (cases rule: linorder_cases [of x y]) auto
    qed simp
  qed
  then show "slice_compare a b < 0 \<longleftrightarrow> a < b" "slice_compare a b = 0 \<longleftrightarrow> a = b" "0 < slice_compare a b \<longleftrightarrow> b < a"
    by auto
qed

lemma slice_compare_le: "slice_compare a b \<le> 0 \<longleftrightarrow> a \<le> b"
  using slice_compare_order [of a b] by (auto simp: order_le_less)

interpretation bytewise: comparator slice_compare
  by unfold_locales (auto simp: slice_compare_order slice_compare_le)

text \<open>The index of the first difference.\<close>

fun diff_index :: "bytes \<Rightarrow> bytes \<Rightarrow> nat" where
  "diff_index (a # as) (b # bs) = (if a = b then Suc (diff_index as bs) else 0)"
| "diff_index as bs = 0"

definition FindShortestSeparator :: "bytes \<Rightarrow> bytes \<Rightarrow> bytes" where
  "FindShortestSeparator start limit =
     (let d = diff_index start limit in
      if d \<ge> min (length start) (length limit) then start
      else if start ! d < 255 \<and> unat (start ! d) + 1 < unat (limit ! d)
      then take (d + 1) (start[d := start ! d + 1])
      else start)"

text \<open>The first byte that can be incremented is, and the rest is dropped.\<close>

fun FindShortSuccessor :: "bytes \<Rightarrow> bytes" where
  "FindShortSuccessor [] = []"
| "FindShortSuccessor (b # key) = (if b \<noteq> 255 then [b + 1] else b # FindShortSuccessor key)"

lemma byte_less_Suc: "(b :: byte) \<noteq> 255 \<Longrightarrow> b < b + 1 \<and> unat (b + 1) = unat b + 1"
proof -
  assume "b \<noteq> 255"
  then have "unat b \<noteq> unat (255 :: byte)" unfolding word_unat_eq_iff .
  then have "unat b \<noteq> 255" by simp
  moreover have "unat b < 256" using unsigned_less [of b] by simp
  ultimately show ?thesis by (simp add: word_less_nat_alt unat_word_ariths)
qed

lemma FindShortestSeparator_Cons:
  "FindShortestSeparator (a # as) (b # bs) = (if a = b then a # FindShortestSeparator as bs
     else if a < 255 \<and> unat a + 1 < unat b then [a + 1] else a # as)"
  by (simp add: FindShortestSeparator_def Let_def)

lemma FindShortestSeparator_between:
  assumes "start < limit"
  shows "start \<le> FindShortestSeparator start limit" "FindShortestSeparator start limit < limit"
    "length (FindShortestSeparator start limit) \<le> length start"
proof -
  have "start \<le> FindShortestSeparator start limit \<and> FindShortestSeparator start limit < limit
    \<and> length (FindShortestSeparator start limit) \<le> length start"
    using assms
  proof (induction start limit rule: diff_index.induct)
    case (1 a as b bs)
    show ?case
    proof (cases "a = b")
      case True
      with 1 show ?thesis by (simp add: FindShortestSeparator_Cons)
    next
      case False
      then have "a < b" using 1(2) by simp
      moreover have "a < a + 1 \<and> unat (a + 1) = unat a + 1" if "a < 255" using byte_less_Suc [of a] that by blast
      ultimately show ?thesis using False by (auto simp: FindShortestSeparator_Cons word_less_nat_alt)
    qed
  qed (auto simp: FindShortestSeparator_def)
  then show "start \<le> FindShortestSeparator start limit" "FindShortestSeparator start limit < limit"
    "length (FindShortestSeparator start limit) \<le> length start" by auto
qed

lemma FindShortSuccessor_above: "key \<le> FindShortSuccessor key" "length (FindShortSuccessor key) \<le> length key"
  using byte_less_Suc by (induction key) auto

section \<open>Internal keys\<close>

datatype ValueType = kTypeDeletion | kTypeValue

definition type_byte :: "ValueType \<Rightarrow> u64" where
  "type_byte t = (case t of kTypeDeletion \<Rightarrow> 0 | kTypeValue \<Rightarrow> 1)"

definition kValueTypeForSeek :: ValueType where
  "kValueTypeForSeek = kTypeValue"

definition kMaxSequenceNumber :: u64 where
  "kMaxSequenceNumber = push_bit 56 1 - 1"

record ParsedInternalKey =
  pik_user_key :: bytes
  pik_sequence :: u64
  pik_type :: ValueType

text \<open>\<open>PackSequenceAndType\<close>; an assertion that fails ends the program.\<close>

definition pack :: "u64 \<Rightarrow> ValueType \<Rightarrow> u64" where
  "pack seq t = push_bit 8 seq OR type_byte t"

definition PackSequenceAndType :: "u64 \<Rightarrow> ValueType \<Rightarrow> u64 result" where
  "PackSequenceAndType seq t = (if seq \<le> kMaxSequenceNumber then Inr (pack seq t) else Inl (Thrown ''assert''))"

definition AppendInternalKey :: "bytes \<Rightarrow> ParsedInternalKey \<Rightarrow> bytes result" where
  "AppendInternalKey result key =
     and_then (PackSequenceAndType (pik_sequence key) (pik_type key)) (\<lambda>p. Inr (PutFixed64 (result @ pik_user_key key) p))"

text \<open>A key has at least eight bytes.\<close>

definition ExtractUserKey :: "bytes \<Rightarrow> bytes" where
  "ExtractUserKey k = take (length k - 8) k"

definition key_tag :: "bytes \<Rightarrow> u64" where
  "key_tag k = DecodeFixed64 (drop (length k - 8) k)"

definition ParseInternalKey :: "bytes \<Rightarrow> ParsedInternalKey option" where
  "ParseInternalKey k =
     (if length k < 8 then None
      else let num = key_tag k; c = num AND 255 in
        if c = 0 then Some \<lparr>pik_user_key = ExtractUserKey k, pik_sequence = drop_bit 8 num, pik_type = kTypeDeletion\<rparr>
        else if c = 1 then Some \<lparr>pik_user_key = ExtractUserKey k, pik_sequence = drop_bit 8 num, pik_type = kTypeValue\<rparr>
        else None)"

definition InternalKeyCompare :: "bytes \<Rightarrow> bytes \<Rightarrow> int" where
  "InternalKeyCompare akey bkey =
     (let r = slice_compare (ExtractUserKey akey) (ExtractUserKey bkey) in
      if r = 0 then (let anum = key_tag akey; bnum = key_tag bkey in
        if anum > bnum then - 1 else if anum < bnum then 1 else r) else r)"

text \<open>Increasing user key, then decreasing tag.\<close>

lemma InternalKeyCompare_order:
  "InternalKeyCompare a b < 0 \<longleftrightarrow> ExtractUserKey a < ExtractUserKey b
     \<or> ExtractUserKey a = ExtractUserKey b \<and> key_tag a > key_tag b"
  "InternalKeyCompare a b = 0 \<longleftrightarrow> ExtractUserKey a = ExtractUserKey b \<and> key_tag a = key_tag b"
  "0 < InternalKeyCompare a b \<longleftrightarrow> ExtractUserKey b < ExtractUserKey a
     \<or> ExtractUserKey a = ExtractUserKey b \<and> key_tag a < key_tag b"
  using slice_compare_order [of "ExtractUserKey a" "ExtractUserKey b"]
  by (auto simp: InternalKeyCompare_def Let_def)

interpretation internal: comparator InternalKeyCompare
proof
  fix a b c
  show "InternalKeyCompare a b < 0 \<longleftrightarrow> 0 < InternalKeyCompare b a" by (auto simp: InternalKeyCompare_order)
  assume "InternalKeyCompare a b \<le> 0" "InternalKeyCompare b c \<le> 0"
  then have "\<not> 0 < InternalKeyCompare a b" "\<not> 0 < InternalKeyCompare b c" by simp_all
  then have "\<not> 0 < InternalKeyCompare a c" by (auto simp: InternalKeyCompare_order)
  then show "InternalKeyCompare a c \<le> 0" by simp
qed

definition internal_FindShortestSeparator :: "bytes \<Rightarrow> bytes \<Rightarrow> bytes result" where
  "internal_FindShortestSeparator start limit =
     (let user_start = ExtractUserKey start; user_limit = ExtractUserKey limit;
          tmp = FindShortestSeparator user_start user_limit in
      if length tmp < length user_start \<and> slice_compare user_start tmp < 0 then
        and_then (PackSequenceAndType kMaxSequenceNumber kValueTypeForSeek) (\<lambda>p.
          (let t = PutFixed64 tmp p in
           if InternalKeyCompare start t < 0 \<and> InternalKeyCompare t limit < 0 then Inr t else Inl (Thrown ''assert'')))
      else Inr start)"

definition internal_FindShortSuccessor :: "bytes \<Rightarrow> bytes result" where
  "internal_FindShortSuccessor key =
     (let user_key = ExtractUserKey key; tmp = FindShortSuccessor user_key in
      if length tmp < length user_key \<and> slice_compare user_key tmp < 0 then
        and_then (PackSequenceAndType kMaxSequenceNumber kValueTypeForSeek) (\<lambda>p.
          (let t = PutFixed64 tmp p in
           if InternalKeyCompare key t < 0 then Inr t else Inl (Thrown ''assert'')))
      else Inr key)"

lemma internal_key_parts [simp]:
  "ExtractUserKey (k @ EncodeFixed64 x) = k" "key_tag (k @ EncodeFixed64 x) = x"
  "ExtractUserKey (PutFixed64 k x) = k" "key_tag (PutFixed64 k x) = x"
  by (simp_all add: ExtractUserKey_def key_tag_def PutFixed64_def)

lemma FindShortestSeparator_same [simp]: "FindShortestSeparator k k = k"
  by (induction k) (simp_all add: FindShortestSeparator_Cons, simp add: FindShortestSeparator_def)

text \<open>Shortening a separator is sound.  For internal keys \<open>start < limit\<close> the assertions of the code
  hold and the separator it makes is at least \<open>start\<close>, below \<open>limit\<close> and no longer than \<open>start\<close>; the short
  successor of a key is no smaller than the key.\<close>

theorem separator_between:
  assumes "InternalKeyCompare start limit < 0"
  shows "\<exists>r. internal_FindShortestSeparator start limit = Inr r \<and> InternalKeyCompare start r \<le> 0
    \<and> InternalKeyCompare r limit < 0 \<and> length r \<le> length start
    \<and> (\<exists>q. internal_FindShortSuccessor start = Inr q \<and> InternalKeyCompare start q \<le> 0 \<and> length q \<le> length start)"
proof -
  let ?s = "ExtractUserKey start" and ?l = "ExtractUserKey limit"
  have pk: "PackSequenceAndType kMaxSequenceNumber kValueTypeForSeek = Inr (pack kMaxSequenceNumber kValueTypeForSeek)"
    by (simp add: PackSequenceAndType_def)
  have len: "length k < length ?s \<Longrightarrow> length (PutFixed64 k x) \<le> length start" for k x
    by (simp add: PutFixed64_def ExtractUserKey_def)
  have "\<exists>r. internal_FindShortestSeparator start limit = Inr r \<and> InternalKeyCompare start r \<le> 0
    \<and> InternalKeyCompare r limit < 0 \<and> length r \<le> length start"
  proof (cases "?s < ?l")
    case True
    then show ?thesis
      using assms FindShortestSeparator_between [OF True] len
      by (auto simp: internal_FindShortestSeparator_def Let_def pk InternalKeyCompare_order slice_compare_order
          internal.cmp_refl order_less_imp_le)
  next
    case False
    then have "?l = ?s" using assms by (simp add: InternalKeyCompare_order)
    then show ?thesis using assms by (simp add: internal_FindShortestSeparator_def internal.cmp_refl)
  qed
  moreover have "\<exists>q. internal_FindShortSuccessor start = Inr q \<and> InternalKeyCompare start q \<le> 0 \<and> length q \<le> length start"
    using FindShortSuccessor_above [of ?s] len
    by (auto simp: internal_FindShortSuccessor_def Let_def pk InternalKeyCompare_order slice_compare_order
        internal.cmp_refl order_less_imp_le)
  ultimately show ?thesis by blast
qed

theorem separator_between_witness:
  "InternalKeyCompare ([1, 2, 3] @ EncodeFixed64 5) ([1, 7] @ EncodeFixed64 9) < 0
    \<and> internal_FindShortestSeparator ([1, 2, 3] @ EncodeFixed64 5) ([1, 7] @ EncodeFixed64 9)
      = Inr ([1, 3] @ EncodeFixed64 (pack kMaxSequenceNumber kTypeValue))
    \<and> InternalKeyCompare ([1, 3] @ EncodeFixed64 (pack kMaxSequenceNumber kTypeValue)) ([1, 7] @ EncodeFixed64 9) < 0"
proof -
  let ?a = "[1, 2, 3] @ EncodeFixed64 5" and ?b = "[1, 7] @ EncodeFixed64 9"
  have lt: "InternalKeyCompare ?a ?b < 0"
    by (simp only: InternalKeyCompare_order internal_key_parts) simp
  have sep: "internal_FindShortestSeparator ?a ?b = Inr ([1, 3] @ EncodeFixed64 (pack kMaxSequenceNumber kTypeValue))"
    by code_simp
  show ?thesis using separator_between [OF lt] lt sep by auto
qed

end
