(* ===== verification/Ldb_Skip_List.thy ===== *)
theory Ldb_Skip_List
  imports Ldb_Keys
begin

text \<open>
  The skip list of the memtable (\<open>lib/leveldb/db/skiplist.h\<close>) and the random numbers that choose its
  heights (\<open>util/random.h\<close>).  A node is an entry of a list and its address the index of the entry; the
  head is node 0.  The list is written by one thread at a time, so the barriers of the code are left
  out.  The loops that follow the links are partial functions: on links that go round in a circle
  they have no value.
\<close>

section \<open>Random heights\<close>

definition newRandom :: "u32 \<Rightarrow> u32" where
  "newRandom s = (let seed = s AND 0x7fffffff in if seed = 0 \<or> seed = 2147483647 then 1 else seed)"

definition Random_Next :: "u32 \<Rightarrow> u32" where
  "Random_Next seed =
     (let M = 2147483647; product = ucast seed * (16807 :: u64);
          s = ucast (drop_bit 31 product + (product AND 2147483647)) in
      if s > M then s - M else s)"

definition kMaxHeight :: nat where
  "kMaxHeight = 12"

definition kBranching :: u32 where
  "kBranching = 4"

function random_height :: "nat \<Rightarrow> u32 \<Rightarrow> nat \<times> u32" where
  "random_height height seed =
     (if height < kMaxHeight then
        (let s = Random_Next seed in if s mod kBranching = 0 then random_height (height + 1) s else (height, s))
      else (height, seed))"
  by auto
termination by (relation "measure (\<lambda>(h, _). kMaxHeight - h)") auto

declare random_height.simps [simp del]

definition RandomHeight :: "u32 \<Rightarrow> nat \<times> u32" where
  "RandomHeight seed = random_height 1 seed"

section \<open>Nodes and links\<close>

record 'k node =
  nd_key :: 'k
  nd_next :: "nat option list"

record 'k skiplist =
  sl_nodes :: "'k node list"
  sl_max_height :: nat
  sl_rnd :: u32

definition sl_height :: "'k skiplist \<Rightarrow> nat \<Rightarrow> nat" where
  "sl_height l x = length (nd_next (sl_nodes l ! x))"

definition sl_key :: "'k skiplist \<Rightarrow> nat \<Rightarrow> 'k" where
  "sl_key l x = nd_key (sl_nodes l ! x)"

definition link :: "'k skiplist \<Rightarrow> nat \<Rightarrow> nat \<Rightarrow> nat option" where
  "link l x n = nd_next (sl_nodes l ! x) ! n"

definition Node_Next :: "'k skiplist \<Rightarrow> nat \<Rightarrow> nat \<Rightarrow> nat option result" where
  "Node_Next l x n =
     (if x < length (sl_nodes l) \<and> n < sl_height l x then Inr (link l x n) else Inl OutOfBounds)"

definition Node_SetNext :: "nat \<Rightarrow> nat \<Rightarrow> nat option \<Rightarrow> 'k skiplist \<Rightarrow> 'k skiplist" where
  "Node_SetNext x n p l =
     l\<lparr>sl_nodes := (sl_nodes l)[x := (sl_nodes l ! x)\<lparr>nd_next := (nd_next (sl_nodes l ! x))[n := p]\<rparr>]\<rparr>"

text \<open>A new list: a head with all links null; its key is never looked at.\<close>

definition newSkipList :: "'k \<Rightarrow> 'k skiplist" where
  "newSkipList any_key = \<lparr>sl_nodes = [\<lparr>nd_key = any_key, nd_next = replicate kMaxHeight None\<rparr>],
     sl_max_height = 1, sl_rnd = newRandom 0xdeadbeef\<rparr>"

section \<open>Searching\<close>

definition KeyIsAfterNode :: "('k \<Rightarrow> 'k \<Rightarrow> int) \<Rightarrow> 'k skiplist \<Rightarrow> 'k \<Rightarrow> nat option \<Rightarrow> bool" where
  "KeyIsAfterNode cmp l key n = (case n of None \<Rightarrow> False | Some y \<Rightarrow> cmp (sl_key l y) key < 0)"

text \<open>\<open>prev\<close> is the array of the predecessors at each level.\<close>

partial_function (option) find_ge ::
  "('k \<Rightarrow> 'k \<Rightarrow> int) \<Rightarrow> 'k skiplist \<Rightarrow> 'k \<Rightarrow> nat \<Rightarrow> nat \<Rightarrow> nat list \<Rightarrow> (nat option \<times> nat list) result option" where
  "find_ge cmp l key x level prev =
     opt_then (Some (Node_Next l x level)) (\<lambda>nxt.
       if KeyIsAfterNode cmp l key nxt then find_ge cmp l key (the nxt) level prev
       else if level = 0 then Some (Inr (nxt, prev[level := x]))
       else find_ge cmp l key x (level - 1) (prev[level := x]))"

definition FindGreaterOrEqual ::
  "('k \<Rightarrow> 'k \<Rightarrow> int) \<Rightarrow> 'k skiplist \<Rightarrow> 'k \<Rightarrow> nat list \<Rightarrow> (nat option \<times> nat list) result option" where
  "FindGreaterOrEqual cmp l key prev = find_ge cmp l key 0 (sl_max_height l - 1) prev"

partial_function (option) find_less ::
  "('k \<Rightarrow> 'k \<Rightarrow> int) \<Rightarrow> 'k skiplist \<Rightarrow> 'k \<Rightarrow> nat \<Rightarrow> nat \<Rightarrow> nat result option" where
  "find_less cmp l key x level =
     opt_then (Some (Node_Next l x level)) (\<lambda>nxt.
       if nxt = None \<or> cmp (sl_key l (the nxt)) key \<ge> 0
       then (if level = 0 then Some (Inr x) else find_less cmp l key x (level - 1))
       else find_less cmp l key (the nxt) level)"

definition FindLessThan :: "('k \<Rightarrow> 'k \<Rightarrow> int) \<Rightarrow> 'k skiplist \<Rightarrow> 'k \<Rightarrow> nat result option" where
  "FindLessThan cmp l key = find_less cmp l key 0 (sl_max_height l - 1)"

partial_function (option) find_last :: "'k skiplist \<Rightarrow> nat \<Rightarrow> nat \<Rightarrow> nat result option" where
  "find_last l x level =
     opt_then (Some (Node_Next l x level)) (\<lambda>nxt. case nxt of
         None \<Rightarrow> if level = 0 then Some (Inr x) else find_last l x (level - 1)
       | Some y \<Rightarrow> find_last l y level)"

definition FindLast :: "'k skiplist \<Rightarrow> nat result option" where
  "FindLast l = find_last l 0 (sl_max_height l - 1)"

definition Contains :: "('k \<Rightarrow> 'k \<Rightarrow> int) \<Rightarrow> 'k skiplist \<Rightarrow> 'k \<Rightarrow> bool result option" where
  "Contains cmp l key =
     opt_then (FindGreaterOrEqual cmp l key (replicate kMaxHeight 0)) (\<lambda>(x, _).
       Some (Inr (case x of None \<Rightarrow> False | Some y \<Rightarrow> cmp key (sl_key l y) = 0)))"

section \<open>Inserting\<close>

text \<open>The loop over the levels of the new node \<open>x\<close>.\<close>

fun link_levels :: "nat \<Rightarrow> nat list \<Rightarrow> nat list \<Rightarrow> 'k skiplist \<Rightarrow> 'k skiplist result" where
  "link_levels x prev [] l = Inr l"
| "link_levels x prev (i # is) l =
     and_then (Node_Next l (prev ! i) i) (\<lambda>nxt.
       link_levels x prev is (Node_SetNext (prev ! i) i (Some x) (Node_SetNext x i nxt l)))"

text \<open>The links of a new node are indeterminate; each is written before it is read.\<close>

definition NewNode :: "'k \<Rightarrow> nat \<Rightarrow> 'k skiplist \<Rightarrow> 'k skiplist" where
  "NewNode key height l = l\<lparr>sl_nodes := sl_nodes l @ [\<lparr>nd_key = key, nd_next = replicate height None\<rparr>]\<rparr>"

definition raise_height :: "nat \<Rightarrow> nat list \<Rightarrow> 'k skiplist \<Rightarrow> nat list \<times> 'k skiplist" where
  "raise_height height prev l =
     (if height > sl_max_height l
      then (fold (\<lambda>i p. p[i := 0]) [sl_max_height l..<height] prev, l\<lparr>sl_max_height := height\<rparr>)
      else (prev, l))"

text \<open>\<open>junk\<close> is the content of the local array \<open>Node* prev[kMaxHeight]\<close>, which is not initialised: the
  search writes the levels of the list and \<open>raise_height\<close> those above it.\<close>

definition Insert ::
  "('k \<Rightarrow> 'k \<Rightarrow> int) \<Rightarrow> (nat \<Rightarrow> nat) \<Rightarrow> 'k \<Rightarrow> 'k skiplist \<Rightarrow> 'k skiplist result option" where
  "Insert cmp junk key l =
     opt_then (FindGreaterOrEqual cmp l key (map junk [0..<kMaxHeight])) (\<lambda>(x, prev).
       if x \<noteq> None \<and> cmp key (sl_key l (the x)) = 0 then Some (Inl (Thrown ''assert''))
       else (let (height, rnd) = RandomHeight (sl_rnd l);
                 (prev1, l1) = raise_height height prev (l\<lparr>sl_rnd := rnd\<rparr>) in
             Some (link_levels (length (sl_nodes l1)) prev1 [0..<height] (NewNode key height l1))))"

section \<open>The invariant\<close>

text \<open>The links of a level lead from a node through a list of nodes to the null pointer.\<close>

fun path :: "(nat \<Rightarrow> nat option) \<Rightarrow> nat \<Rightarrow> nat list \<Rightarrow> bool" where
  "path next x [] \<longleftrightarrow> next x = None"
| "path next x (y # ys) \<longleftrightarrow> next x = Some y \<and> path next y ys"

definition at_level :: "'k skiplist \<Rightarrow> nat \<Rightarrow> nat list \<Rightarrow> nat list" where
  "at_level l i xs = filter (\<lambda>x. i < sl_height l x) xs"

definition before :: "('k \<Rightarrow> 'k \<Rightarrow> int) \<Rightarrow> 'k skiplist \<Rightarrow> nat \<Rightarrow> nat \<Rightarrow> bool" where
  "before cmp l a b \<longleftrightarrow> cmp (sl_key l a) (sl_key l b) < 0"

text \<open>\<open>xs\<close> lists the nodes in the order of their keys; at each level the links lead through the nodes
  of \<open>xs\<close> that reach it.\<close>

definition sl_inv :: "('k \<Rightarrow> 'k \<Rightarrow> int) \<Rightarrow> 'k skiplist \<Rightarrow> nat list \<Rightarrow> bool" where
  "sl_inv cmp l xs \<longleftrightarrow> sl_nodes l \<noteq> [] \<and> distinct xs \<and> set xs = {1..<length (sl_nodes l)}
     \<and> sl_height l 0 = kMaxHeight \<and> 1 \<le> sl_max_height l \<and> sl_max_height l \<le> kMaxHeight
     \<and> (\<forall>x \<in> set xs. 1 \<le> sl_height l x \<and> sl_height l x \<le> sl_max_height l)
     \<and> sorted_wrt (before cmp l) xs
     \<and> (\<forall>i < kMaxHeight. path (\<lambda>x. link l x i) 0 (at_level l i xs))"

definition sl_keys :: "'k skiplist \<Rightarrow> nat list \<Rightarrow> 'k list" where
  "sl_keys l xs = map (sl_key l) xs"

lemma sl_keys_Nil [simp]: "sl_keys l [] = []"
  by (simp add: sl_keys_def)

lemma path_append: "path next x (as @ bs) \<Longrightarrow> path next (List.last (x # as)) bs"
  by (induction as arbitrary: x) auto

lemma RandomHeight_bounds:
  assumes "RandomHeight seed = (h, s)"
  shows "1 \<le> h \<and> h \<le> kMaxHeight"
proof -
  have "k \<le> fst (random_height k seed) \<and> fst (random_height k seed) \<le> kMaxHeight" if "k \<le> kMaxHeight" for k
    using that
  proof (induction k seed rule: random_height.induct)
    case (1 k seed)
    show ?case
    proof (cases "k < kMaxHeight \<and> Random_Next seed mod kBranching = 0")
      case True
      then have "random_height k seed = random_height (k + 1) (Random_Next seed)"
        by (subst random_height.simps) (simp add: Let_def)
      then show ?thesis using 1(1) [OF _ refl] True by (auto intro: Suc_leD)
    next
      case False
      then have "fst (random_height k seed) = k"
        by (subst random_height.simps) (auto simp: Let_def)
      then show ?thesis using 1(2) by simp
    qed
  qed
  from this [of 1] show ?thesis using assms by (simp add: RandomHeight_def kMaxHeight_def)
qed

lemma sl_invD:
  assumes "sl_inv cmp l xs"
  shows "sl_nodes l \<noteq> []" "distinct xs" "set xs = {1..<length (sl_nodes l)}" "sl_height l 0 = kMaxHeight"
    "1 \<le> sl_max_height l" "sl_max_height l \<le> kMaxHeight"
    "x \<in> set xs \<Longrightarrow> 1 \<le> sl_height l x \<and> sl_height l x \<le> sl_max_height l"
    "sorted_wrt (before cmp l) xs" "i < kMaxHeight \<Longrightarrow> path (\<lambda>x. link l x i) 0 (at_level l i xs)"
  using assms by (auto simp: sl_inv_def)

lemma at_level_0: "sl_inv cmp l xs \<Longrightarrow> at_level l 0 xs = xs"
  by (auto simp: at_level_def filter_id_conv dest: sl_invD(7))

lemma at_level_top: "sl_inv cmp l xs \<Longrightarrow> sl_max_height l \<le> i \<Longrightarrow> at_level l i xs = []"
  by (fastforce simp: at_level_def filter_empty_conv dest: sl_invD(7))

text \<open>Cutting a sorted list at a key commutes with choosing a level.\<close>

lemma takeWhile_filter:
  assumes "sorted_wrt (\<lambda>a b. P b \<longrightarrow> P a) xs"
  shows "filter Q (takeWhile P xs) = takeWhile P (filter Q xs)" "filter Q (dropWhile P xs) = dropWhile P (filter Q xs)"
proof -
  have "filter Q (takeWhile P xs) = takeWhile P (filter Q xs) \<and> filter Q (dropWhile P xs) = dropWhile P (filter Q xs)"
    using assms
  proof (induction xs)
    case (Cons x xs)
    then have n: "\<not> P x \<Longrightarrow> \<forall>y \<in> set (filter Q xs). \<not> P y" by auto
    have "\<not> P x \<Longrightarrow> takeWhile P (filter Q xs) = [] \<and> dropWhile P (filter Q xs) = filter Q xs"
      using n by (cases "filter Q xs") auto
    then show ?case using Cons by auto
  qed simp
  then show "filter Q (takeWhile P xs) = takeWhile P (filter Q xs)" "filter Q (dropWhile P xs) = dropWhile P (filter Q xs)"
    by simp_all
qed

lemma dropWhile_ConsD: "dropWhile P xs = y # ys \<Longrightarrow> y \<in> set xs \<and> \<not> P y"
  by (induction xs) (auto split: if_split_asm)

lemma dropWhile_obtain:
  assumes "x \<in> set (dropWhile P xs)"
  obtains y ys where "dropWhile P xs = y # ys" "x = y \<or> x \<in> set ys"
  using assms by (induction xs) (auto split: if_split_asm)

section \<open>Searching is right\<close>

definition below :: "('k \<Rightarrow> 'k \<Rightarrow> int) \<Rightarrow> 'k skiplist \<Rightarrow> 'k \<Rightarrow> nat \<Rightarrow> bool" where
  "below cmp l key x \<longleftrightarrow> cmp (sl_key l x) key < 0"

definition first :: "nat list \<Rightarrow> nat option" where
  "first xs = (case xs of [] \<Rightarrow> None | x # _ \<Rightarrow> Some x)"

text \<open>The last node of a level below a key, or the head.\<close>

definition pred_at :: "('k \<Rightarrow> 'k \<Rightarrow> int) \<Rightarrow> 'k skiplist \<Rightarrow> 'k \<Rightarrow> nat list \<Rightarrow> nat \<Rightarrow> nat" where
  "pred_at cmp l key xs i = List.last (0 # takeWhile (below cmp l key) (at_level l i xs))"

lemma path_first: "path next x ys \<Longrightarrow> next x = first ys"
  by (cases ys) (simp_all add: first_def)

context comparator
begin

lemma below_closed:
  assumes "sl_inv cmp l xs"
  shows "sorted_wrt (\<lambda>a b. below cmp l key b \<longrightarrow> below cmp l key a) xs"
  using sl_invD(8) [OF assms] by (rule sorted_wrt_mono_rel [rotated])
    (auto simp: before_def below_def intro: cmp_less_trans)

text \<open>Going down a level at a node below the key.\<close>

lemma level_down:
  assumes inv: "sl_inv cmp l xs" and at: "at_level l (Suc i) xs = as @ bs" and as: "\<forall>a \<in> set as. below cmp l key a"
  obtains as' bs' where "at_level l i xs = as' @ bs'" and "List.last (0 # as') = List.last (0 # as)"
    and "\<forall>a \<in> set as'. below cmp l key a"
proof (cases "as = []")
  case True
  then show ?thesis using that [of "[]" "at_level l i xs"] by simp
next
  case False
  let ?x = "List.last as"
  have "?x \<in> set (at_level l (Suc i) xs)" using False at by simp
  then have "?x \<in> set (at_level l i xs)" by (auto simp: at_level_def)
  then obtain a1 b1 where s: "at_level l i xs = a1 @ ?x # b1" by (meson split_list)
  have "sorted_wrt (\<lambda>a b. below cmp l key b \<longrightarrow> below cmp l key a) (at_level l i xs)"
    unfolding at_level_def by (rule sorted_wrt_filter [OF below_closed [OF inv]])
  moreover have "below cmp l key ?x" using False as by simp
  ultimately have "\<forall>a \<in> set (a1 @ [?x]). below cmp l key a" by (auto simp: s sorted_wrt_append)
  then show ?thesis using that [of "a1 @ [?x]" b1] s False by simp
qed

lemma node_ok:
  assumes inv: "sl_inv cmp l xs" and at: "at_level l i xs = as @ bs" and i: "i < sl_max_height l"
  shows "Node_Next l (List.last (0 # as)) i = Inr (first bs)"
proof -
  have k: "i < kMaxHeight" using i sl_invD(6) [OF inv] by simp
  have "path (\<lambda>x. link l x i) (List.last (0 # as)) bs"
    using path_append [of "\<lambda>x. link l x i" 0 as bs] sl_invD(9) [OF inv k] at by simp
  then have "link l (List.last (0 # as)) i = first bs" by (rule path_first)
  moreover have "List.last (0 # as) < length (sl_nodes l) \<and> i < sl_height l (List.last (0 # as))"
  proof (cases "as = []")
    case True
    then show ?thesis using k sl_invD(1,4) [OF inv] by simp
  next
    case False
    then have "List.last as \<in> set (at_level l i xs)" by (simp add: at)
    then show ?thesis using False sl_invD(3) [OF inv] by (simp add: at_level_def)
  qed
  ultimately show ?thesis by (simp add: Node_Next_def)
qed

text \<open>At one level the search walks to the last node below the key, and stops there.\<close>

lemma find_ge_walk:
  assumes inv: "sl_inv cmp l xs" and i: "i < sl_max_height l" and "at_level l i xs = as @ bs"
    and "\<forall>a \<in> set as. below cmp l key a"
  shows "find_ge cmp l key (List.last (0 # as)) i prev = find_ge cmp l key (pred_at cmp l key xs i) i prev"
  using assms(3,4)
proof (induction bs arbitrary: as)
  case Nil
  then have "takeWhile (below cmp l key) (at_level l i xs) = as" by (simp add: takeWhile_eq_all_conv)
  then show ?case by (simp add: pred_at_def)
next
  case (Cons b bs)
  show ?case
  proof (cases "below cmp l key b")
    case True
    have "find_ge cmp l key (List.last (0 # as)) i prev = find_ge cmp l key (List.last (0 # as @ [b])) i prev"
      using node_ok [OF inv Cons.prems(1) i] True
      by (subst find_ge.simps) (simp add: first_def KeyIsAfterNode_def below_def)
    then show ?thesis using Cons.IH [of "as @ [b]"] Cons.prems True by simp
  next
    case False
    then have "takeWhile (below cmp l key) (at_level l i xs) = as" using Cons.prems by (simp add: takeWhile_append2)
    then show ?thesis by (simp add: pred_at_def)
  qed
qed

lemma find_ge_stop:
  assumes inv: "sl_inv cmp l xs" and i: "i < sl_max_height l"
  shows "find_ge cmp l key (pred_at cmp l key xs i) i prev =
    (if i = 0 then Some (Inr (first (dropWhile (below cmp l key) xs), prev[0 := pred_at cmp l key xs 0]))
     else find_ge cmp l key (pred_at cmp l key xs i) (i - 1) (prev[i := pred_at cmp l key xs i]))"
proof -
  let ?ds = "dropWhile (below cmp l key) (at_level l i xs)"
  have n: "Node_Next l (pred_at cmp l key xs i) i = Inr (first ?ds)"
    unfolding pred_at_def by (rule node_ok [OF inv _ i]) simp
  have "\<not> KeyIsAfterNode cmp l key (first ?ds)"
  proof (cases ?ds)
    case Nil
    show ?thesis unfolding Nil by (simp add: first_def KeyIsAfterNode_def)
  next
    case (Cons y ys)
    then have "\<not> below cmp l key y" using hd_dropWhile [of "below cmp l key" "at_level l i xs"] by simp
    then show ?thesis unfolding Cons by (simp add: first_def KeyIsAfterNode_def below_def)
  qed
  then show ?thesis using n at_level_0 [OF inv] by (subst find_ge.simps) simp
qed

lemma find_ge_ok:
  assumes inv: "sl_inv cmp l xs" and "i < sl_max_height l" and "length prev = kMaxHeight"
  shows "\<exists>prev'. find_ge cmp l key (pred_at cmp l key xs i) i prev
      = Some (Inr (first (dropWhile (below cmp l key) xs), prev')) \<and> length prev' = kMaxHeight
    \<and> (\<forall>j \<le> i. prev' ! j = pred_at cmp l key xs j) \<and> (\<forall>j > i. prev' ! j = prev ! j)"
  using assms(2,3)
proof (induction i arbitrary: prev)
  case 0
  then show ?case using find_ge_stop [OF inv 0(1), of key prev] by (simp add: kMaxHeight_def)
next
  case (Suc i)
  let ?p = "pred_at cmp l key xs (Suc i)"
  have k: "Suc i < kMaxHeight" "i < sl_max_height l" using Suc.prems(1) sl_invD(6) [OF inv] by simp_all
  have at: "at_level l (Suc i) xs = takeWhile (below cmp l key) (at_level l (Suc i) xs)
      @ dropWhile (below cmp l key) (at_level l (Suc i) xs)" by simp
  obtain as' bs' where d: "at_level l i xs = as' @ bs'" "List.last (0 # as') = ?p" "\<forall>a \<in> set as'. below cmp l key a"
    using level_down [OF inv at, of key] unfolding pred_at_def by (auto dest: set_takeWhileD)
  have "find_ge cmp l key ?p (Suc i) prev = find_ge cmp l key (pred_at cmp l key xs i) i (prev[Suc i := ?p])"
    using find_ge_stop [OF inv Suc.prems(1), of key prev] find_ge_walk [OF inv k(2) d(1,3), of "prev[Suc i := ?p]"] d(2)
    by simp
  moreover obtain prev' where "find_ge cmp l key (pred_at cmp l key xs i) i (prev[Suc i := ?p])
      = Some (Inr (first (dropWhile (below cmp l key) xs), prev'))" "length prev' = kMaxHeight"
    "\<forall>j \<le> i. prev' ! j = pred_at cmp l key xs j" "\<forall>j > i. prev' ! j = prev[Suc i := ?p] ! j"
    using Suc.IH [OF k(2), of "prev[Suc i := ?p]"] Suc.prems(2) by auto
  ultimately show ?case using k(1) Suc.prems(2) by (auto simp: le_Suc_eq)
qed

lemma FindGreaterOrEqual_ok:
  assumes inv: "sl_inv cmp l xs" and "length prev = kMaxHeight"
  obtains prev' where "FindGreaterOrEqual cmp l key prev = Some (Inr (first (dropWhile (below cmp l key) xs), prev'))"
    and "length prev' = kMaxHeight" and "\<forall>j < sl_max_height l. prev' ! j = pred_at cmp l key xs j"
proof -
  have m: "sl_max_height l - 1 < sl_max_height l" using sl_invD(5) [OF inv] by simp
  have "find_ge cmp l key 0 (sl_max_height l - 1) prev
      = find_ge cmp l key (pred_at cmp l key xs (sl_max_height l - 1)) (sl_max_height l - 1) prev"
    using find_ge_walk [OF inv m, of "[]"] by simp
  then show ?thesis
    using find_ge_ok [OF inv m assms(2), of key] that m unfolding FindGreaterOrEqual_def
    by (auto simp: less_Suc_eq_le)
qed

end

section \<open>Inserting is right\<close>

text \<open>What linking the new node at the levels below \<open>j\<close> changes.\<close>

definition linked :: "nat list \<Rightarrow> nat \<Rightarrow> nat \<Rightarrow> 'k skiplist \<Rightarrow> 'k skiplist \<Rightarrow> bool" where
  "linked prev n j l l' \<longleftrightarrow> length (sl_nodes l') = length (sl_nodes l) \<and> sl_max_height l' = sl_max_height l
     \<and> (\<forall>x. sl_key l' x = sl_key l x \<and> sl_height l' x = sl_height l x)
     \<and> (\<forall>x i. link l' x i = (if i < j then (if x = n then link l (prev ! i) i
            else if x = prev ! i then Some n else link l x i) else link l x i))"

lemma SetNext_simps [simp]:
  "length (sl_nodes (Node_SetNext x n p l)) = length (sl_nodes l)"
  "sl_max_height (Node_SetNext x n p l) = sl_max_height l"
  by (simp_all add: Node_SetNext_def)

lemma SetNext_node [simp]:
  "sl_key (Node_SetNext x n p l) y = sl_key l y" "sl_height (Node_SetNext x n p l) y = sl_height l y"
  unfolding Node_SetNext_def sl_key_def sl_height_def
  by (cases "x < length (sl_nodes l)"; simp add: nth_list_update list_update_beyond not_less)+

lemma link_SetNext:
  assumes "x < length (sl_nodes l)" and "n < sl_height l x"
  shows "link (Node_SetNext x n p l) y i = (if y = x \<and> i = n then p else link l y i)"
  using assms by (auto simp: Node_SetNext_def link_def sl_height_def nth_list_update)

lemma link_levels_append:
  "link_levels x prev (is @ js) l = and_then (link_levels x prev is l) (link_levels x prev js)"
proof (induction "is" arbitrary: l)
  case (Cons i "is")
  then show ?case by (cases "Node_Next l (prev ! i) i") simp_all
qed simp

lemma link_levels_ok:
  assumes n: "n < length (sl_nodes l)" and h: "h \<le> sl_height l n"
    and p: "\<forall>i < h. prev ! i < length (sl_nodes l) \<and> i < sl_height l (prev ! i) \<and> prev ! i \<noteq> n"
  shows "\<exists>l'. link_levels n prev [0..<h] l = Inr l' \<and> linked prev n h l l'"
  using h p
proof (induction h)
  case 0
  then show ?case by (simp add: linked_def)
next
  case (Suc h)
  then obtain l' where l': "link_levels n prev [0..<h] l = Inr l'" "linked prev n h l l'" by auto
  let ?p = "prev ! h" and ?l1 = "Node_SetNext n h (link l' (prev ! h) h) l'"
  have b: "?p < length (sl_nodes l')" "h < sl_height l' ?p" "n < length (sl_nodes l')" "h < sl_height l' n" "?p \<noteq> n"
    using l'(2) Suc.prems n by (auto simp: linked_def)
  then have nx: "Node_Next l' ?p h = Inr (link l' ?p h)" by (simp add: Node_Next_def)
  have "link_levels n prev [0..<Suc h] l = Inr (Node_SetNext ?p h (Some n) ?l1)"
    using l'(1) nx by (simp add: link_levels_append)
  moreover have "link (Node_SetNext ?p h (Some n) ?l1) x i =
      (if i = h \<and> x = n then link l' ?p h else if i = h \<and> x = ?p then Some n else link l' x i)" for x i
    using b by (simp add: link_SetNext)
  then have "linked prev n (Suc h) l (Node_SetNext ?p h (Some n) ?l1)"
    using l'(2) by (auto simp: linked_def less_Suc_eq)
  ultimately show ?case by blast
qed

lemma path_cong: "\<forall>y \<in> set (x # ys). next' y = next y \<Longrightarrow> path next' x ys = path next x ys"
  by (induction ys arbitrary: x) auto

lemma path_insert:
  assumes "path next x (as @ bs)" and "distinct (x # as @ bs)" and "n \<notin> set (x # as @ bs)"
    and "\<forall>y \<in> set (n # x # as @ bs). next' y = (if y = n then next (List.last (x # as))
      else if y = List.last (x # as) then Some n else next y)"
  shows "path next' x (as @ n # bs)"
  using assms
proof (induction as arbitrary: x)
  case Nil
  have "next' n = next x" "next' x = Some n" using Nil(3,4) by simp_all
  moreover have "next x = None" if "bs = []" using Nil(1) that by simp
  moreover have "next x = Some b \<and> path next' b bs'" if "bs = b # bs'" for b bs'
  proof -
    have "\<forall>y \<in> set (b # bs'). next' y = next y" using Nil(2-4) that by auto
    then show ?thesis using Nil(1) that path_cong [of b bs' next' "next"] by simp
  qed
  ultimately show ?case by (cases bs) simp_all
next
  case (Cons a as)
  have "next' x = next x" using Cons.prems(2-4) by auto
  then have "next' x = Some a" using Cons.prems(1) by simp
  moreover have "path next' a (as @ n # bs)"
    by (rule Cons.IH) (use Cons.prems in auto)
  ultimately show ?case by simp
qed

lemma NewNode_simps [simp]:
  "length (sl_nodes (NewNode key h l)) = Suc (length (sl_nodes l))" "sl_max_height (NewNode key h l) = sl_max_height l"
  "sl_key (NewNode key h l) (length (sl_nodes l)) = key" "sl_height (NewNode key h l) (length (sl_nodes l)) = h"
  "x < length (sl_nodes l) \<Longrightarrow> sl_key (NewNode key h l) x = sl_key l x"
  "x < length (sl_nodes l) \<Longrightarrow> sl_height (NewNode key h l) x = sl_height l x"
  "x < length (sl_nodes l) \<Longrightarrow> link (NewNode key h l) x i = link l x i"
  by (simp_all add: NewNode_def sl_key_def sl_height_def link_def nth_append)

lemma length_fold_zero [simp]: "length (fold (\<lambda>i p. p[i := 0]) [a..<b] p) = length p"
  by (induction b) auto

lemma fold_zero:
  "i < length p \<Longrightarrow> fold (\<lambda>i p. p[i := 0]) [a..<b] p ! i = (if a \<le> i \<and> i < b then (0 :: nat) else p ! i)"
  by (induction b) (auto simp: nth_list_update less_Suc_eq)

text \<open>The nodes the new one is linked behind.\<close>

lemma pred_at_node:
  assumes "sl_inv cmp l xs" and "i < kMaxHeight"
  shows "pred_at cmp l key xs i < length (sl_nodes l)" "i < sl_height l (pred_at cmp l key xs i)"
proof -
  let ?as = "takeWhile (below cmp l key) (at_level l i xs)"
  have "pred_at cmp l key xs i < length (sl_nodes l) \<and> i < sl_height l (pred_at cmp l key xs i)"
  proof (cases "?as = []")
    case True
    then show ?thesis using assms sl_invD(1,4) [OF assms(1)] by (simp add: pred_at_def)
  next
    case False
    then have "List.last ?as \<in> set (at_level l i xs)" by (rule set_takeWhileD [OF last_in_set, THEN conjunct1])
    then show ?thesis using False sl_invD(3) [OF assms(1)] by (simp add: pred_at_def at_level_def)
  qed
  then show "pred_at cmp l key xs i < length (sl_nodes l)" "i < sl_height l (pred_at cmp l key xs i)" by simp_all
qed

lemma raise_height_ok:
  assumes inv: "sl_inv cmp l xs" and h: "1 \<le> h" "h \<le> kMaxHeight" and len: "length prev = kMaxHeight"
    and prev: "\<forall>j < sl_max_height l. prev ! j = pred_at cmp l key xs j"
  obtains prev' where "raise_height h prev (l\<lparr>sl_rnd := r\<rparr>)
      = (prev', l\<lparr>sl_rnd := r, sl_max_height := max h (sl_max_height l)\<rparr>)"
    and "\<forall>i < h. prev' ! i = pred_at cmp l key xs i"
proof -
  have top: "pred_at cmp l key xs i = 0" if "sl_max_height l \<le> i" for i
    using at_level_top [OF inv that] by (simp add: pred_at_def)
  show ?thesis
  proof (cases "h > sl_max_height l")
    case True
    let ?prev = "fold (\<lambda>i p. p[i := 0]) [sl_max_height l..<h] prev"
    have "?prev ! i = pred_at cmp l key xs i" if "i < h" for i
      using that h(2) len prev top [of i] fold_zero [of i prev "sl_max_height l" h] by (cases "sl_max_height l \<le> i") auto
    then show ?thesis using that [of ?prev] True by (simp add: raise_height_def max_def)
  next
    case False
    then show ?thesis using that [of prev] prev by (simp add: raise_height_def max_def)
  qed
qed

lemma sl_settings [simp]:
  "sl_key (l\<lparr>sl_rnd := r, sl_max_height := m\<rparr>) x = sl_key l x"
  "sl_height (l\<lparr>sl_rnd := r, sl_max_height := m\<rparr>) x = sl_height l x"
  "link (l\<lparr>sl_rnd := r, sl_max_height := m\<rparr>) x i = link l x i"
  by (simp_all add: sl_key_def sl_height_def link_def)

text \<open>A node added behind the nodes \<open>prev\<close>: the old nodes keep their keys and heights.\<close>

definition added :: "'k \<Rightarrow> nat \<Rightarrow> nat list \<Rightarrow> 'k skiplist \<Rightarrow> 'k skiplist \<Rightarrow> bool" where
  "added key h prev l l' \<longleftrightarrow> (let n = length (sl_nodes l) in
     length (sl_nodes l') = Suc n \<and> sl_max_height l' = max h (sl_max_height l)
     \<and> sl_key l' n = key \<and> sl_height l' n = h
     \<and> (\<forall>x < n. sl_key l' x = sl_key l x \<and> sl_height l' x = sl_height l x)
     \<and> (\<forall>i < h. link l' n i = link l (prev ! i) i)
     \<and> (\<forall>x < n. \<forall>i. link l' x i = (if i < h \<and> x = prev ! i then Some n else link l x i)))"

lemma linked_added:
  assumes "linked prev (length (sl_nodes l)) h (NewNode key h (l\<lparr>sl_rnd := r, sl_max_height := m\<rparr>)) l'"
    and "m = max h (sl_max_height l)" and "\<forall>i < h. prev ! i < length (sl_nodes l)"
  shows "added key h prev l l'"
  using assms NewNode_simps(3,4) [of key h "l\<lparr>sl_rnd := r, sl_max_height := m\<rparr>"]
  by (auto simp: added_def linked_def Let_def)

lemma addedD:
  assumes "added key h prev l l'"
  shows "length (sl_nodes l') = Suc (length (sl_nodes l))" "sl_max_height l' = max h (sl_max_height l)"
    "sl_key l' (length (sl_nodes l)) = key" "sl_height l' (length (sl_nodes l)) = h"
    "x < length (sl_nodes l) \<Longrightarrow> sl_key l' x = sl_key l x" "x < length (sl_nodes l) \<Longrightarrow> sl_height l' x = sl_height l x"
    "i < h \<Longrightarrow> link l' (length (sl_nodes l)) i = link l (prev ! i) i"
    "x < length (sl_nodes l) \<Longrightarrow> link l' x i = (if i < h \<and> x = prev ! i then Some (length (sl_nodes l)) else link l x i)"
  using assms by (simp_all add: added_def Let_def)

lemma added_path:
  assumes inv: "sl_inv cmp l xs" and ad: "added key h prev l l'" and i: "i < kMaxHeight"
    and pv: "\<forall>i < h. prev ! i = pred_at cmp l key xs i" and at: "at_level l i xs = as @ bs"
    and as: "as = takeWhile (below cmp l key) (at_level l i xs)"
  shows "path (\<lambda>x. link l' x i) 0 (as @ (if i < h then [length (sl_nodes l)] else []) @ bs)"
proof -
  let ?n = "length (sl_nodes l)"
  have p: "path (\<lambda>x. link l x i) 0 (as @ bs)" using sl_invD(9) [OF inv i] at by simp
  have "set (as @ bs) \<subseteq> set xs" unfolding at [symmetric] by (auto simp: at_level_def)
  then have lt: "\<forall>x \<in> set (as @ bs). 1 \<le> x \<and> x < ?n" using sl_invD(3) [OF inv] by auto
  have d: "distinct (as @ bs)" unfolding at [symmetric] using sl_invD(2) [OF inv] by (simp add: at_level_def)
  have pos: "0 < ?n" using sl_invD(1) [OF inv] by simp
  show ?thesis
  proof (cases "i < h")
    case True
    then have q: "prev ! i = List.last (0 # as)" using pv as by (simp add: pred_at_def)
    have new: "link l' ?n i = link l (List.last (0 # as)) i" unfolding q [symmetric] by (rule addedD(7) [OF ad True])
    have old: "link l' y i = (if y = List.last (0 # as) then Some ?n else link l y i)" if "y < ?n" for y
      unfolding q [symmetric] using addedD(8) [OF ad that] True by simp
    have "path (\<lambda>x. link l' x i) 0 (as @ ?n # bs)"
    proof (rule path_insert [OF p])
      show "distinct (0 # as @ bs)" "?n \<notin> set (0 # as @ bs)" using d lt pos by auto
      show "\<forall>y \<in> set (?n # 0 # as @ bs). link l' y i = (if y = ?n then link l (List.last (0 # as)) i
          else if y = List.last (0 # as) then Some ?n else link l y i)"
      proof
        fix y assume y: "y \<in> set (?n # 0 # as @ bs)"
        show "link l' y i = (if y = ?n then link l (List.last (0 # as)) i
          else if y = List.last (0 # as) then Some ?n else link l y i)"
        proof (cases "y = ?n")
          case False
          then have "y < ?n" using y lt pos by auto
          then show ?thesis using old False by (simp del: last.simps)
        qed (simp add: new del: last.simps)
      qed
    qed
    then show ?thesis using True by simp
  next
    case False
    then have "\<forall>y \<in> set (0 # as @ bs). link l' y i = link l y i" using lt pos addedD(8) [OF ad] by auto
    then show ?thesis using p False path_cong [of 0 "as @ bs" "\<lambda>x. link l' x i" "\<lambda>x. link l x i"] by simp
  qed
qed

context comparator
begin

lemma added_inv:
  assumes inv: "sl_inv cmp l xs" and ad: "added key h prev l l'" and h: "1 \<le> h" "h \<le> kMaxHeight"
    and pv: "\<forall>i < h. prev ! i = pred_at cmp l key xs i" and fresh: "\<forall>x \<in> set xs. cmp key (sl_key l x) \<noteq> 0"
  shows "sl_inv cmp l' (takeWhile (below cmp l key) xs @ length (sl_nodes l) # dropWhile (below cmp l key) xs)"
    (is "sl_inv cmp l' (?A @ ?n # ?B)")
proof -
  note cl = below_closed [OF inv, of key]
  have lt: "x < ?n" if "x \<in> set xs" for x using sl_invD(3) [OF inv] that by auto
  have AB: "xs = ?A @ ?B" by simp
  have sA: "x \<in> set xs \<and> below cmp l key x" if "x \<in> set ?A" for x using that by (auto dest: set_takeWhileD)
  have sB: "x \<in> set xs" if "x \<in> set ?B" for x using that by (rule set_dropWhileD)
  have nB: "\<not> below cmp l key x" if "x \<in> set ?B" for x
  proof -
    have "sorted_wrt (\<lambda>a b. below cmp l key b \<longrightarrow> below cmp l key a) ?B"
      using cl AB by (metis sorted_wrt_append)
    moreover obtain b bs where b: "?B = b # bs" using dropWhile_obtain [OF \<open>x \<in> set ?B\<close>] by blast
    moreover have "\<not> below cmp l key b" using dropWhile_ConsD [OF b] by simp
    ultimately show ?thesis using that by auto
  qed
  have kB: "cmp key (sl_key l x) < 0" if "x \<in> set ?B" for x
    using nB [OF that] fresh sB [OF that] cmp_sym [of "sl_key l x" key] cmp_sym [of key "sl_key l x"]
    by (force simp: below_def)
  have key: "sl_key l' x = sl_key l x" "sl_height l' x = sl_height l x" if "x \<in> set xs" for x
    using addedD(5,6) [OF ad] lt [OF that] by simp_all
  have "sorted_wrt (before cmp l) (?A @ ?B)" using sl_invD(8) [OF inv] by simp
  note s = this [unfolded sorted_wrt_append]
  have srt: "sorted_wrt (before cmp l') (?A @ ?n # ?B)"
    unfolding sorted_wrt_append sorted_wrt.simps
  proof (intro conjI ballI)
    show "sorted_wrt (before cmp l') ?A" "sorted_wrt (before cmp l') ?B"
      using s key(1) sA sB by (auto simp: before_def intro: sorted_wrt_mono_rel [of _ "before cmp l"])
  next
    fix b assume "b \<in> set ?B"
    then show "before cmp l' ?n b" using kB key(1) sB addedD(3) [OF ad] by (simp add: before_def)
  next
    fix a b assume a: "a \<in> set ?A" and "b \<in> set (?n # ?B)"
    then consider "b = ?n" | "b \<in> set ?B" by auto
    then show "before cmp l' a b"
    proof cases
      case 1
      then show ?thesis using sA [OF a] key(1) addedD(3) [OF ad] by (simp add: before_def below_def)
    next
      case 2
      then have "before cmp l a b" using s a by blast
      then show ?thesis using 2 key(1) sA [OF a] sB by (simp add: before_def)
    qed
  qed
  have at: "at_level l' i (?A @ ?n # ?B) = takeWhile (below cmp l key) (at_level l i xs)
      @ (if i < h then [?n] else []) @ dropWhile (below cmp l key) (at_level l i xs)" for i
  proof -
    have "filter (\<lambda>x. i < sl_height l' x) ?A = filter (\<lambda>x. i < sl_height l x) ?A"
      "filter (\<lambda>x. i < sl_height l' x) ?B = filter (\<lambda>x. i < sl_height l x) ?B"
      using key(2) sA sB by (auto intro: filter_cong)
    then show ?thesis
      using addedD(4) [OF ad] takeWhile_filter [OF cl] by (simp add: at_level_def)
  qed
  have "set xs = set ?A \<union> set ?B" using AB by (metis set_append)
  then have "set (?A @ ?n # ?B) = insert ?n (set xs)" by simp
  moreover have "{1..<Suc ?n} = insert ?n {1..<?n}" using sl_invD(1) [OF inv] by (auto simp: Suc_le_eq)
  ultimately have set: "set (?A @ ?n # ?B) = {1..<Suc ?n}" using sl_invD(3) [OF inv] by simp
  have "distinct (?A @ ?B)" using sl_invD(2) [OF inv] by simp
  moreover have "?n \<notin> set ?A" "?n \<notin> set ?B" using lt [of ?n] sA [of ?n] sB [of ?n] by blast+
  ultimately have dst: "distinct (?A @ ?n # ?B)" unfolding distinct_append by simp
  have hts: "1 \<le> sl_height l' x \<and> sl_height l' x \<le> max h (sl_max_height l)" if x: "x \<in> set (?A @ ?n # ?B)" for x
  proof -
    consider "x = ?n" | "x \<in> set xs" using x sA sB by auto
    then show ?thesis using sl_invD(7) [OF inv] key(2) addedD(4) [OF ad] h(1) by cases (auto simp: le_max_iff_disj)
  qed
  have "sl_height l' 0 = kMaxHeight"
    using addedD(6) [OF ad, of 0] sl_invD(1,4) [OF inv] by simp
  moreover have "path (\<lambda>x. link l' x i) 0 (at_level l' i (?A @ ?n # ?B))" if "i < kMaxHeight" for i
    unfolding at by (rule added_path [OF inv ad that pv _ refl]) simp
  ultimately show ?thesis
    unfolding sl_inv_def using set dst srt hts addedD(1,2) [OF ad] h sl_invD(5,6) [OF inv] by auto
qed

text \<open>Inserting a key that is not there puts it at its place; inserting one that is there fails the
  assertion.\<close>

lemma insert_ok:
  assumes inv: "sl_inv cmp l xs" and fresh: "\<forall>x \<in> set xs. cmp key (sl_key l x) \<noteq> 0"
  obtains l' where "Insert cmp junk key l = Some (Inr l')"
    and "sl_inv cmp l' (takeWhile (below cmp l key) xs @ length (sl_nodes l) # dropWhile (below cmp l key) xs)"
    and "sl_keys l' (takeWhile (below cmp l key) xs @ length (sl_nodes l) # dropWhile (below cmp l key) xs)
      = takeWhile (\<lambda>k. cmp k key < 0) (sl_keys l xs) @ key # dropWhile (\<lambda>k. cmp k key < 0) (sl_keys l xs)"
proof -
  obtain prev where f: "FindGreaterOrEqual cmp l key (map junk [0..<kMaxHeight])
        = Some (Inr (first (dropWhile (below cmp l key) xs), prev))"
    and len: "length prev = kMaxHeight" and pr: "\<forall>j < sl_max_height l. prev ! j = pred_at cmp l key xs j"
    by (rule FindGreaterOrEqual_ok [OF inv, of "map junk [0..<kMaxHeight]" key]) simp_all
  obtain h r where hr: "RandomHeight (sl_rnd l) = (h, r)" by (cases "RandomHeight (sl_rnd l)")
  have h: "1 \<le> h" "h \<le> kMaxHeight" using RandomHeight_bounds [OF hr] by simp_all
  obtain prev' where rh: "raise_height h prev (l\<lparr>sl_rnd := r\<rparr>)
      = (prev', l\<lparr>sl_rnd := r, sl_max_height := max h (sl_max_height l)\<rparr>)"
    and pv: "\<forall>i < h. prev' ! i = pred_at cmp l key xs i"
    by (rule raise_height_ok [OF inv h len pr])
  let ?l1 = "l\<lparr>sl_rnd := r, sl_max_height := max h (sl_max_height l)\<rparr>" and ?n = "length (sl_nodes l)"
  have p: "\<forall>i < h. prev' ! i < ?n \<and> i < sl_height l (prev' ! i)"
    using pv pred_at_node [OF inv] h(2) by simp
  obtain l' where ll: "link_levels ?n prev' [0..<h] (NewNode key h ?l1) = Inr l'"
    and li: "linked prev' ?n h (NewNode key h ?l1) l'"
    using link_levels_ok [of ?n "NewNode key h ?l1" h prev'] p NewNode_simps(4) [of key h ?l1] by fastforce
  have ad: "added key h prev' l l'" by (rule linked_added [OF li refl]) (use p in blast)
  have "\<not> (first (dropWhile (below cmp l key) xs) \<noteq> None
      \<and> cmp key (sl_key l (the (first (dropWhile (below cmp l key) xs)))) = 0)"
    using fresh by (auto simp: first_def dest: dropWhile_ConsD split: list.split)
  then have "Insert cmp junk key l = Some (Inr l')" by (auto simp: Insert_def f hr rh ll)
  then show ?thesis
  proof (rule that)
    show "sl_inv cmp l' (takeWhile (below cmp l key) xs @ ?n # dropWhile (below cmp l key) xs)"
      by (rule added_inv [OF inv ad h pv fresh])
    have lt: "x < ?n" if "x \<in> set xs" for x using sl_invD(3) [OF inv] that by auto
    have "map (sl_key l') (takeWhile (below cmp l key) xs) = map (sl_key l) (takeWhile (below cmp l key) xs)"
      "map (sl_key l') (dropWhile (below cmp l key) xs) = map (sl_key l) (dropWhile (below cmp l key) xs)"
      using addedD(5) [OF ad] lt by (auto dest!: set_takeWhileD set_dropWhileD)
    then show "sl_keys l' (takeWhile (below cmp l key) xs @ ?n # dropWhile (below cmp l key) xs)
      = takeWhile (\<lambda>k. cmp k key < 0) (sl_keys l xs) @ key # dropWhile (\<lambda>k. cmp k key < 0) (sl_keys l xs)"
      using addedD(3) [OF ad] by (simp add: sl_keys_def takeWhile_map dropWhile_map comp_def below_def [abs_def])
  qed
qed

text \<open>In the order of the keys, the first node not below a key is the only one that can equal it.\<close>

lemma first_equal:
  assumes inv: "sl_inv cmp l xs"
  shows "(case first (dropWhile (below cmp l key) xs) of None \<Rightarrow> False | Some y \<Rightarrow> cmp key (sl_key l y) = 0)
    \<longleftrightarrow> (\<exists>k \<in> set (sl_keys l xs). cmp key k = 0)"
proof
  assume "case first (dropWhile (below cmp l key) xs) of None \<Rightarrow> False | Some y \<Rightarrow> cmp key (sl_key l y) = 0"
  then show "\<exists>k \<in> set (sl_keys l xs). cmp key k = 0"
    by (auto simp: first_def sl_keys_def dest: dropWhile_ConsD split: list.split_asm)
next
  assume "\<exists>k \<in> set (sl_keys l xs). cmp key k = 0"
  then obtain x where x: "x \<in> set xs" "cmp key (sl_key l x) = 0" by (auto simp: sl_keys_def)
  have e: "cmp (sl_key l x) key = 0" using x(2) cmp_eq_sym by blast
  then have "x \<notin> set (takeWhile (below cmp l key) xs)" by (auto simp: below_def dest: set_takeWhileD)
  then have "x \<in> set (dropWhile (below cmp l key) xs)" using x(1) by (metis Un_iff set_append takeWhile_dropWhile_id)
  then obtain y ys where y: "dropWhile (below cmp l key) xs = y # ys" and xy: "x = y \<or> x \<in> set ys"
    by (rule dropWhile_obtain)
  have "\<not> below cmp l key y" using dropWhile_ConsD [OF y] by simp
  moreover have "sorted_wrt (before cmp l) (y # ys)"
    using sl_invD(8) [OF inv] y by (metis sorted_wrt_append takeWhile_dropWhile_id)
  ultimately have "x = y"
    using xy e cmp_trans_less cmp_less_trans by (fastforce simp: before_def below_def)
  then show "case first (dropWhile (below cmp l key) xs) of None \<Rightarrow> False | Some y \<Rightarrow> cmp key (sl_key l y) = 0"
    using y x(2) by (simp add: first_def)
qed

text \<open>The node a search returns: the first one not below the key.\<close>

lemma first_least:
  assumes inv: "sl_inv cmp l xs" and f: "first (dropWhile (below cmp l key) xs) = Some y"
  shows "sl_key l y \<in> set (sl_keys l xs)" "0 \<le> cmp (sl_key l y) key"
    "k \<in> set (sl_keys l xs) \<Longrightarrow> 0 \<le> cmp k key \<Longrightarrow> cmp (sl_key l y) k \<le> 0"
proof -
  obtain ys where y: "dropWhile (below cmp l key) xs = y # ys"
    using f by (auto simp: first_def split: list.split_asm)
  show "sl_key l y \<in> set (sl_keys l xs)" "0 \<le> cmp (sl_key l y) key"
    using dropWhile_ConsD [OF y] by (simp_all add: sl_keys_def below_def)
  assume "k \<in> set (sl_keys l xs)" and k: "0 \<le> cmp k key"
  then obtain x where x: "x \<in> set xs" "k = sl_key l x" by (auto simp: sl_keys_def)
  then have "x \<notin> set (takeWhile (below cmp l key) xs)" using k by (auto simp: below_def dest: set_takeWhileD)
  then have "x \<in> set (y # ys)" using x(1) y by (metis Un_iff set_append takeWhile_dropWhile_id)
  moreover have "sorted_wrt (before cmp l) (y # ys)"
    using sl_invD(8) [OF inv] y by (metis sorted_wrt_append takeWhile_dropWhile_id)
  ultimately show "cmp (sl_key l y) k \<le> 0" by (auto simp: x(2) before_def cmp_refl order_less_imp_le)
qed

lemma first_none:
  "first (dropWhile (below cmp l key) xs) = None \<Longrightarrow> k \<in> set (sl_keys l xs) \<Longrightarrow> cmp k key < 0"
  by (auto simp: first_def sl_keys_def below_def split: list.split_asm)

lemma Contains_ok:
  assumes inv: "sl_inv cmp l xs"
  shows "Contains cmp l key = Some (Inr (\<exists>k \<in> set (sl_keys l xs). cmp key k = 0))"
proof -
  obtain prev where "FindGreaterOrEqual cmp l key (replicate kMaxHeight 0)
      = Some (Inr (first (dropWhile (below cmp l key) xs), prev))"
    by (rule FindGreaterOrEqual_ok [OF inv, of "replicate kMaxHeight 0" key]) simp_all
  then show ?thesis by (simp add: Contains_def first_equal [OF inv])
qed

lemma insert_twice:
  assumes inv: "sl_inv cmp l xs" and "\<exists>k \<in> set (sl_keys l xs). cmp key k = 0"
  shows "Insert cmp junk key l = Some (Inl (Thrown ''assert''))"
proof -
  obtain prev where "FindGreaterOrEqual cmp l key (map junk [0..<kMaxHeight])
      = Some (Inr (first (dropWhile (below cmp l key) xs), prev))"
    by (rule FindGreaterOrEqual_ok [OF inv, of "map junk [0..<kMaxHeight]" key]) simp_all
  then show ?thesis using first_equal [OF inv, of key] assms(2)
    by (auto simp: Insert_def split: option.split_asm)
qed

end

lemma newSkipList_inv: "sl_inv cmp (newSkipList k) []"
  by (auto simp: sl_inv_def newSkipList_def sl_height_def at_level_def link_def kMaxHeight_def)

section \<open>The contract\<close>

text \<open>C30: \<open>Insert\<close> and \<open>Contains\<close> of the skip list, for any comparator that keeps its contract.  On a
  well-formed list every search returns; inserting a key equal to one of the list fails the assertion;
  any other key is put at its place in the order, the list stays well formed at all levels whatever
  height the random numbers give and whatever the uninitialised array of predecessors held, and afterwards exactly the new key and the old ones are contained.\<close>

theorem skip_list_insert:
  assumes c: "comparator cmp" and inv: "sl_inv cmp l xs"
  shows "Contains cmp l key = Some (Inr (\<exists>k \<in> set (sl_keys l xs). cmp key k = 0))
    \<and> (if \<exists>k \<in> set (sl_keys l xs). cmp key k = 0 then Insert cmp junk key l = Some (Inl (Thrown ''assert''))
       else \<exists>l' xs'. Insert cmp junk key l = Some (Inr l') \<and> sl_inv cmp l' xs'
         \<and> sl_keys l' xs' = takeWhile (\<lambda>k. cmp k key < 0) (sl_keys l xs) @ key # dropWhile (\<lambda>k. cmp k key < 0) (sl_keys l xs)
         \<and> Contains cmp l' q = Some (Inr (cmp q key = 0 \<or> (\<exists>k \<in> set (sl_keys l xs). cmp q k = 0))))"
proof (cases "\<exists>k \<in> set (sl_keys l xs). cmp key k = 0")
  case True
  then show ?thesis using comparator.Contains_ok [OF c inv] comparator.insert_twice [OF c inv] by simp
next
  case False
  then have "\<forall>x \<in> set xs. cmp key (sl_key l x) \<noteq> 0" by (simp add: sl_keys_def)
  then obtain l' xs' where l': "Insert cmp junk key l = Some (Inr l')" "sl_inv cmp l' xs'"
    "sl_keys l' xs' = takeWhile (\<lambda>k. cmp k key < 0) (sl_keys l xs) @ key # dropWhile (\<lambda>k. cmp k key < 0) (sl_keys l xs)"
    by (rule comparator.insert_ok [OF c inv])
  have "set (sl_keys l' xs') = insert key (set (takeWhile (\<lambda>k. cmp k key < 0) (sl_keys l xs) @ dropWhile (\<lambda>k. cmp k key < 0) (sl_keys l xs)))"
    by (simp only: l'(3) set_append list.set) blast
  then have "set (sl_keys l' xs') = insert key (set (sl_keys l xs))" by simp
  then have "Contains cmp l' q = Some (Inr (cmp q key = 0 \<or> (\<exists>k \<in> set (sl_keys l xs). cmp q k = 0)))"
    using comparator.Contains_ok [OF c l'(2), of q] by simp
  then show ?thesis using comparator.Contains_ok [OF c inv] False l' by auto
qed

theorem skip_list_insert_witness:
  "comparator slice_compare \<and> sl_inv slice_compare (newSkipList []) []
    \<and> (\<exists>l' xs'. Insert slice_compare (\<lambda>i. 99 - i) [7] (newSkipList []) = Some (Inr l') \<and> sl_keys l' xs' = [[7]])"
  using skip_list_insert [OF bytewise.comparator_axioms newSkipList_inv [of slice_compare "[]"], of "[7]" "\<lambda>i. 99 - i" "[7]"]
    bytewise.comparator_axioms newSkipList_inv [of slice_compare "[]"]
  by auto

end
