(* ===== verification/Ldb_Write_Batch.thy ===== *)
theory Ldb_Write_Batch
  imports Ldb_Keys
begin

text \<open>
  Write batches (\<open>lib/leveldb/db/write_batch.cc\<close>).  A batch is the byte string \<open>rep_\<close>: the sequence number
  of its first update, the number of updates, and the updates.  \<open>Iterate\<close> hands the updates to a
  handler, a function on a state of its own; the handler has seen the updates before the first
  malformed one.  The count is an \<open>int\<close>: batches have fewer than \<open>2 ^ 31\<close> updates.
\<close>

datatype status = StatusOK | StatusNotFound | StatusIOError | Corruption string | InvalidArgument string

definition kHeader :: nat where
  "kHeader = 12"

definition batch_Clear :: bytes where
  "batch_Clear = replicate kHeader 0"

definition batch_Count :: "bytes \<Rightarrow> int" where
  "batch_Count rep = sint (DecodeFixed32 (drop 8 rep))"

definition SetCount :: "int \<Rightarrow> bytes \<Rightarrow> bytes" where
  "SetCount n rep = take 8 rep @ EncodeFixed32 (of_int n) @ drop 12 rep"

definition batch_Sequence :: "bytes \<Rightarrow> u64" where
  "batch_Sequence rep = DecodeFixed64 rep"

definition SetSequence :: "u64 \<Rightarrow> bytes \<Rightarrow> bytes" where
  "SetSequence seq rep = EncodeFixed64 seq @ drop 8 rep"

definition batch_Put :: "bytes \<Rightarrow> bytes \<Rightarrow> bytes \<Rightarrow> bytes" where
  "batch_Put key val rep =
     PutLengthPrefixedSlice (PutLengthPrefixedSlice (SetCount (batch_Count rep + 1) rep @ [1]) key) val"

definition batch_Delete :: "bytes \<Rightarrow> bytes \<Rightarrow> bytes" where
  "batch_Delete key rep = PutLengthPrefixedSlice (SetCount (batch_Count rep + 1) rep @ [0]) key"

definition SetContents :: "bytes \<Rightarrow> bytes result" where
  "SetContents contents = (if length contents \<ge> kHeader then Inr contents else Inl (Thrown ''assert''))"

definition batch_Append :: "bytes \<Rightarrow> bytes \<Rightarrow> bytes result" where
  "batch_Append dst src =
     (let d = SetCount (batch_Count dst + batch_Count src) dst in
      if length src \<ge> kHeader then Inr (d @ drop kHeader src) else Inl (Thrown ''assert''))"

section \<open>Iterating\<close>

text \<open>The calls of the handler.\<close>

datatype update = PutOp bytes bytes | DeleteOp bytes

lemma varint_loop_length: "varint_loop lim shift r p = Some (v, q) \<Longrightarrow> length q < length p"
  by (induction lim shift r p rule: varint_loop.induct) (auto split: if_split_asm)

lemma GetLengthPrefixedSlice_length:
  "GetLengthPrefixedSlice p = Some (s, q) \<Longrightarrow> length q < length p"
  by (auto simp: GetLengthPrefixedSlice_def GetVarint32_def GetVarint32Ptr_def GetVarint32PtrFallback_def
      dest!: varint_loop_length split: option.split_asm if_split_asm list.split_asm)

text \<open>The loop returns the state of the handler with the number of updates or the error.\<close>

function batch_loop ::
  "(update \<Rightarrow> 's \<Rightarrow> 's result option) \<Rightarrow> bytes \<Rightarrow> int \<Rightarrow> 's \<Rightarrow> ('s \<times> (status + int)) result option" where
  "batch_loop h [] found s = Some (Inr (s, Inr found))"
| "batch_loop h (tag # input) found s =
     (if tag = 1 then (case GetLengthPrefixedSlice input of
          None \<Rightarrow> Some (Inr (s, Inl (Corruption ''bad WriteBatch Put'')))
        | Some (key, input1) \<Rightarrow> (case GetLengthPrefixedSlice input1 of
            None \<Rightarrow> Some (Inr (s, Inl (Corruption ''bad WriteBatch Put'')))
          | Some (val, input2) \<Rightarrow> opt_then (h (PutOp key val) s) (batch_loop h input2 (found + 1))))
      else if tag = 0 then (case GetLengthPrefixedSlice input of
          None \<Rightarrow> Some (Inr (s, Inl (Corruption ''bad WriteBatch Delete'')))
        | Some (key, input1) \<Rightarrow> opt_then (h (DeleteOp key) s) (batch_loop h input1 (found + 1)))
      else Some (Inr (s, Inl (Corruption ''unknown WriteBatch tag''))))"
  by pat_completeness auto
termination
  by (relation "measure (\<lambda>(h, p, f, s). length p)") (auto dest!: GetLengthPrefixedSlice_length)

definition batch_Iterate :: "(update \<Rightarrow> 's \<Rightarrow> 's result option) \<Rightarrow> bytes \<Rightarrow> 's \<Rightarrow> ('s \<times> status) result option" where
  "batch_Iterate h rep s =
     (if length rep < kHeader then Some (Inr (s, Corruption ''malformed WriteBatch (too small)''))
      else opt_then (batch_loop h (drop kHeader rep) 0 s) (\<lambda>(s, r). Some (Inr (s, case r of
          Inl e \<Rightarrow> e
        | Inr found \<Rightarrow> if found \<noteq> batch_Count rep then Corruption ''WriteBatch has wrong count'' else StatusOK))))"

section \<open>What a batch holds\<close>

definition batch_update :: "update \<Rightarrow> bytes \<Rightarrow> bytes" where
  "batch_update u rep = (case u of PutOp key val \<Rightarrow> batch_Put key val rep | DeleteOp key \<Rightarrow> batch_Delete key rep)"

text \<open>A batch made by a client and given its sequence number.\<close>

definition make_batch :: "u64 \<Rightarrow> update list \<Rightarrow> bytes" where
  "make_batch seq us = SetSequence seq (fold batch_update us batch_Clear)"

fun run_updates :: "(update \<Rightarrow> 's \<Rightarrow> 's result option) \<Rightarrow> update list \<Rightarrow> 's \<Rightarrow> 's result option" where
  "run_updates h [] s = Some (Inr s)"
| "run_updates h (u # us) s = opt_then (h u s) (run_updates h us)"

fun update_ok :: "update \<Rightarrow> bool" where
  "update_ok (PutOp key val) \<longleftrightarrow> length key < 2 ^ 32 \<and> length val < 2 ^ 32"
| "update_ok (DeleteOp key) \<longleftrightarrow> length key < 2 ^ 32"

text \<open>The format of an update, and of a batch with header bytes \<open>hd8\<close> for the sequence number.\<close>

fun update_bytes :: "update \<Rightarrow> bytes" where
  "update_bytes (PutOp key val) = 1 # PutLengthPrefixedSlice [] key @ PutLengthPrefixedSlice [] val"
| "update_bytes (DeleteOp key) = 0 # PutLengthPrefixedSlice [] key"

definition batch_bytes :: "bytes \<Rightarrow> update list \<Rightarrow> bytes" where
  "batch_bytes hd8 us = hd8 @ EncodeFixed32 (of_nat (length us)) @ concat (map update_bytes us)"

lemma PutLengthPrefixedSlice_append: "PutLengthPrefixedSlice d s = d @ PutLengthPrefixedSlice [] s"
  by (simp add: PutLengthPrefixedSlice_def PutVarint32_def)

lemma sint_of_nat: "n < 2 ^ 31 \<Longrightarrow> sint (of_nat n :: u32) = int n"
proof -
  assume n: "n < 2 ^ 31"
  have "sint (of_nat n :: u32) = signed_take_bit 31 (int n)"
    using sint_sbintrunc' [of "int n", where ?'a = 32] by simp
  also have "\<dots> = int n" by (rule signed_take_bit_int_eq_self) (use n in auto)
  finally show ?thesis .
qed

lemma batch_Count_bytes: "length hd8 = 8 \<Longrightarrow> length us < 2 ^ 31 \<Longrightarrow> batch_Count (batch_bytes hd8 us) = int (length us)"
  by (simp add: batch_Count_def batch_bytes_def sint_of_nat)

lemma SetCount_bytes:
  "length hd8 = 8 \<Longrightarrow> SetCount n (batch_bytes hd8 us) = hd8 @ EncodeFixed32 (of_int n) @ concat (map update_bytes us)"
  by (simp add: SetCount_def batch_bytes_def)

lemma batch_update_bytes:
  assumes "length hd8 = 8" and "length us < 2 ^ 31"
  shows "batch_update u (batch_bytes hd8 us) = batch_bytes hd8 (us @ [u])"
  using batch_Count_bytes [OF assms] SetCount_bytes [OF assms(1), of "int (length us) + 1" us]
    PutLengthPrefixedSlice_append [of "_ @ _"]
  by (cases u) (simp_all add: batch_update_def batch_Put_def batch_Delete_def batch_bytes_def ac_simps)

lemma fold_batch_update:
  assumes "length hd8 = 8" and "length us + length vs < 2 ^ 31"
  shows "fold batch_update vs (batch_bytes hd8 us) = batch_bytes hd8 (us @ vs)"
  using assms(2)
proof (induction vs arbitrary: us)
  case (Cons v vs)
  then show ?case using batch_update_bytes [OF assms(1), of us v] Cons.IH [of "us @ [v]"] by simp
qed simp

lemma make_batch_bytes:
  assumes "length us < 2 ^ 31"
  shows "make_batch seq us = batch_bytes (EncodeFixed64 seq) us"
proof -
  have "batch_Clear = batch_bytes (replicate 8 0) []" by code_simp
  then have "fold batch_update us batch_Clear = batch_bytes (replicate 8 0) us"
    using fold_batch_update [of "replicate 8 0" "[]" us] assms by simp
  then show ?thesis by (simp add: make_batch_def SetSequence_def batch_bytes_def)
qed

lemma batch_loop_bytes:
  assumes "\<forall>u \<in> set us. update_ok u"
  shows "batch_loop h (concat (map update_bytes us)) found s
    = opt_then (run_updates h us s) (\<lambda>s. Some (Inr (s, Inr (found + int (length us)))))"
  using assms
proof (induction us arbitrary: found s)
  case (Cons u us)
  have a: "opt_then (opt_then m f) g = opt_then m (\<lambda>x. opt_then (f x) g)"
    for m :: "'a result option" and f and g :: "'a \<Rightarrow> ('a \<times> (status + int)) result option"
    by (cases m) (auto simp: opt_then_def split: sum.splits)
  have "batch_loop h (update_bytes u @ p) found s = opt_then (h u s) (batch_loop h p (found + 1))" for p
    using Cons.prems by (cases u) (simp_all add: GetLengthPrefixedSlice_Put)
  moreover have "batch_loop h (concat (map update_bytes us)) f
      = (\<lambda>s. opt_then (run_updates h us s) (\<lambda>s. Some (Inr (s, Inr (f + int (length us))))))" for f
    using Cons by auto
  ultimately show ?case by (simp add: a ac_simps)
qed simp

text \<open>Reading on: what a prefix is read as does not depend on what follows it.\<close>

lemma varint_loop_append: "varint_loop lim shift r p = Some (v, q) \<Longrightarrow> varint_loop lim shift r (p @ t) = Some (v, q @ t)"
  by (induction lim shift r p rule: varint_loop.induct) (auto split: if_split_asm)

lemma GetLengthPrefixedSlice_more:
  assumes "GetLengthPrefixedSlice p = Some (s, q)"
  shows "GetLengthPrefixedSlice (p @ t) = Some (s, q @ t)"
proof -
  have "GetVarint32 (p @ t) = Some (len, r @ t)" if "GetVarint32 p = Some (len, r)" for len r
    using that varint_loop_append [of 28 0 0 p len r t]
    by (cases p) (auto simp: GetVarint32_def GetVarint32Ptr_def GetVarint32PtrFallback_def split: if_split_asm)
  then show ?thesis
    using assms by (fastforce simp: GetLengthPrefixedSlice_def split: option.split_asm if_split_asm prod.split_asm)
qed

lemma batch_loop_append:
  "batch_loop h p found s = Some (Inr (s', Inr f)) \<Longrightarrow> batch_loop h (p @ q) found s = batch_loop h q f s'"
proof (induction h p found s rule: batch_loop.induct)
  case (2 h tag input found s)
  then show ?case
    by (auto simp: opt_then_Some_Inr GetLengthPrefixedSlice_more split: option.split_asm if_split_asm prod.split_asm)
qed simp

lemma batch_loop_counts:
  "batch_loop h p found s = Some (Inr (s', Inr f)) \<Longrightarrow> (if p = [] then f = found else found < f)"
proof (induction h p found s rule: batch_loop.induct)
  case (2 h tag input found s)
  then show ?case
    by (fastforce simp: opt_then_Some_Inr split: option.split_asm if_split_asm prod.split_asm)
qed simp

lemma batch_of_updates:
  assumes "\<forall>u \<in> set us. update_ok u" and "length us < 2 ^ 31"
  shows "batch_Iterate h (make_batch seq us) s = opt_then (run_updates h us s) (\<lambda>s. Some (Inr (s, StatusOK)))"
    "batch_Sequence (make_batch seq us) = seq"
proof -
  note mb = make_batch_bytes [OF assms(2)] and c = batch_Count_bytes [OF length_EncodeFixed(2) assms(2)]
  have "drop kHeader (batch_bytes (EncodeFixed64 x) ws) = concat (map update_bytes ws)"
    and "kHeader \<le> length (batch_bytes (EncodeFixed64 x) ws)" for x ws
    by (simp_all add: batch_bytes_def kHeader_def)
  note p = this
  have "batch_Iterate h (make_batch seq us) s
      = opt_then (opt_then (run_updates h us s) (\<lambda>s. Some (Inr (s, Inr (int (length us))))))
          (\<lambda>(s, r). Some (Inr (s, case r of Inl e \<Rightarrow> e
            | Inr found \<Rightarrow> if found \<noteq> int (length us) then Corruption ''WriteBatch has wrong count'' else StatusOK)))"
    using p(2) [of seq us] unfolding mb batch_Iterate_def p(1) c batch_loop_bytes [OF assms(1)] by simp
  also have "\<dots> = opt_then (run_updates h us s) (\<lambda>s. Some (Inr (s, StatusOK)))"
    by (cases "run_updates h us s") (auto simp: opt_then_def split: sum.splits)
  finally show "batch_Iterate h (make_batch seq us) s = opt_then (run_updates h us s) (\<lambda>s. Some (Inr (s, StatusOK)))" .
  show "batch_Sequence (make_batch seq us) = seq" by (simp add: mb batch_Sequence_def batch_bytes_def)
qed

lemma batch_Append_batches:
  assumes "length us + length vs < 2 ^ 31"
  shows "batch_Append (make_batch seq us) (make_batch seq' vs) = Inr (make_batch seq (us @ vs))"
proof -
  have us: "length us < 2 ^ 31" and vs: "length vs < 2 ^ 31" using assms by simp_all
  show ?thesis
    using assms SetCount_bytes [OF length_EncodeFixed(2)]
    by (simp add: make_batch_bytes us vs batch_Append_def batch_Count_bytes) (simp add: batch_bytes_def kHeader_def)
qed

text \<open>C31: what a batch is given is what its handler gets: iterating over a batch of updates calls the
  handler with exactly these updates in their order and reports success, the sequence number is
  read back, and appending a batch to another is the batch of all their updates.\<close>

theorem batch_round_trip:
  assumes "\<forall>u \<in> set us. update_ok u" and "length us + length vs < 2 ^ 31"
  shows "batch_Iterate h (make_batch seq us) s = opt_then (run_updates h us s) (\<lambda>s. Some (Inr (s, StatusOK)))
    \<and> batch_Sequence (make_batch seq us) = seq
    \<and> batch_Append (make_batch seq us) (make_batch seq' vs) = Inr (make_batch seq (us @ vs))"
  using batch_of_updates [OF assms(1)] batch_Append_batches [OF assms(2)] assms(2) by simp

theorem batch_round_trip_witness:
  "batch_Iterate (\<lambda>u us. Some (Inr (us @ [u]))) (make_batch 5 [PutOp [1] [2, 3], DeleteOp [4]]) []
    = Some (Inr ([PutOp [1] [2, 3], DeleteOp [4]], StatusOK))"
  using batch_round_trip [of "[PutOp [1] [2, 3], DeleteOp [4]]" "[]" "\<lambda>u us. Some (Inr (us @ [u]))" 5 "[]"] by simp

lemma batch_loop_error: "batch_loop h p found s = Some (Inr (s', Inl e)) \<Longrightarrow> e \<noteq> StatusOK"
proof (induction h p found s rule: batch_loop.induct)
  case (2 h tag input found s)
  then show ?case
    by (fastforce simp: opt_then_Some_Inr split: option.split_asm if_split_asm prod.split_asm)
qed simp

lemma batch_Iterate_OK:
  "batch_Iterate h rep s = Some (Inr (s', StatusOK)) \<longleftrightarrow>
     kHeader \<le> length rep \<and> batch_loop h (drop kHeader rep) 0 s = Some (Inr (s', Inr (batch_Count rep)))"
proof -
  have "(case r of Inl e \<Rightarrow> e | Inr found \<Rightarrow> if found \<noteq> c then Corruption m else StatusOK) = StatusOK
      \<longleftrightarrow> r = Inr c \<or> r = Inl StatusOK" for r :: "status + int" and c m
    by (cases r) auto
  then show ?thesis
    by (auto simp: batch_Iterate_def opt_then_Some_Inr dest: batch_loop_error)
qed

text \<open>C32: no batch that was cut short is accepted.  When iterating over some bytes succeeds, iterating
  over any proper prefix of them reports an error.\<close>

theorem batch_prefix_rejected:
  assumes ok: "batch_Iterate h rep s = Some (Inr (s1, StatusOK))" and n: "n < length rep"
    and cut: "batch_Iterate h (take n rep) s = Some (Inr (s2, st))"
  shows "st \<noteq> StatusOK"
proof
  assume st: "st = StatusOK"
  have k: "kHeader \<le> n" using cut st n by (auto simp: batch_Iterate_def split: if_split_asm)
  have "batch_Count (take n rep) = batch_Count rep"
    using k by (simp add: batch_Count_def DecodeFixed32_def kHeader_def drop_take min_def)
  then have f: "batch_loop h (take (n - kHeader) (drop kHeader rep)) 0 s = Some (Inr (s2, Inr (batch_Count rep)))"
    using cut by (simp add: st batch_Iterate_OK drop_take)
  have "batch_loop h (drop (n - kHeader) (drop kHeader rep)) (batch_Count rep) s2 = Some (Inr (s1, Inr (batch_Count rep)))"
    using ok batch_loop_append [OF f, of "drop (n - kHeader) (drop kHeader rep)"]
    by (simp only: batch_Iterate_OK append_take_drop_id)
  from batch_loop_counts [OF this] show False using k n by (simp split: if_split_asm)
qed

theorem batch_prefix_rejected_witness:
  "batch_Iterate (\<lambda>u us. Some (Inr (us @ [u]))) (make_batch 5 [PutOp [1] [2]]) [] = Some (Inr ([PutOp [1] [2]], StatusOK))
    \<and> batch_Iterate (\<lambda>u us. Some (Inr (us @ [u]))) (take 12 (make_batch 5 [PutOp [1] [2]])) []
      = Some (Inr ([], Corruption ''WriteBatch has wrong count''))
    \<and> Corruption ''WriteBatch has wrong count'' \<noteq> StatusOK"
proof -
  let ?h = "\<lambda>u us. Some (Inr (us @ [u]))" and ?b = "make_batch 5 [PutOp [1] [2]]"
  have ok: "batch_Iterate ?h ?b [] = Some (Inr ([PutOp [1] [2]], StatusOK))" by code_simp
  have cut: "batch_Iterate ?h (take 12 ?b) [] = Some (Inr ([], Corruption ''WriteBatch has wrong count''))" by code_simp
  have n: "12 < length ?b" by code_simp
  show ?thesis using ok cut batch_prefix_rejected [OF ok n cut] by simp
qed

end
