(* ===== verification/Ldb_Memtable.thy ===== *)
theory Ldb_Memtable
  imports Ldb_Skip_List Ldb_Write_Batch Database
begin

text \<open>
  The memtable of LevelDB (\<open>lib/leveldb/db/memtable.cc\<close>) and the insertion of batches into it
  (\<open>MemTableInserter\<close> in \<open>db/write_batch.cc\<close>).  An entry is one byte string, and the pointers of the code
  into it are what follows of the string.  The entries come from \<open>Add\<close>; bytes that are no entry
  are read as an empty slice, where the code assumes that there are none.  The arena is not part
  of the model: an entry stays where it was put.
\<close>

section \<open>Entries and lookup keys\<close>

type_synonym memtable = "bytes skiplist"

definition mem_slice :: "bytes \<Rightarrow> bytes" where
  "mem_slice data = (case GetVarint32Ptr data of None \<Rightarrow> [] | Some (len, p) \<Rightarrow> take (unat len) p)"

definition KeyComparator :: "bytes \<Rightarrow> bytes \<Rightarrow> int" where
  "KeyComparator aptr bptr = InternalKeyCompare (mem_slice aptr) (mem_slice bptr)"

definition EncodeKey :: "bytes \<Rightarrow> bytes" where
  "EncodeKey target = PutVarint32 [] (of_nat (length target)) @ target"

text \<open>The buffer of a \<open>LookupKey\<close> and the offset \<open>kstart_\<close> of the internal key in it.\<close>

record lookup_key =
  lk_start :: bytes
  lk_kstart :: nat

definition LookupKey :: "bytes \<Rightarrow> u64 \<Rightarrow> lookup_key result" where
  "LookupKey user_key s =
     and_then (PackSequenceAndType s kValueTypeForSeek) (\<lambda>tag.
       (let klength = EncodeVarint32 (of_nat (length user_key + 8)) in
        Inr \<lparr>lk_start = klength @ user_key @ EncodeFixed64 tag, lk_kstart = length klength\<rparr>))"

definition memtable_key :: "lookup_key \<Rightarrow> bytes" where
  "memtable_key k = lk_start k"

definition lookup_internal_key :: "lookup_key \<Rightarrow> bytes" where
  "lookup_internal_key k = drop (lk_kstart k) (lk_start k)"

definition lookup_user_key :: "lookup_key \<Rightarrow> bytes" where
  "lookup_user_key k = take (length (lk_start k) - lk_kstart k - 8) (drop (lk_kstart k) (lk_start k))"

section \<open>Operations\<close>

definition newMemTable :: memtable where
  "newMemTable = newSkipList []"

text \<open>\<open>junk\<close> gives the content of the uninitialised array of predecessors in each insertion.\<close>

definition MemTable_Add :: "(memtable \<Rightarrow> nat \<Rightarrow> nat) \<Rightarrow> u64 \<Rightarrow> ValueType \<Rightarrow> bytes \<Rightarrow> bytes \<Rightarrow> memtable \<Rightarrow> memtable result option" where
  "MemTable_Add junk s t key val mem =
     (let internal_key_size = length key + 8;
          encoded_len = VarintLength (of_nat internal_key_size) + int internal_key_size
            + VarintLength (of_nat (length val)) + int (length val);
          buf = EncodeVarint32 (of_nat internal_key_size) @ key @ EncodeFixed64 (push_bit 8 s OR type_byte t)
            @ EncodeVarint32 (of_nat (length val)) @ val in
      if int (length buf) = encoded_len then Insert KeyComparator (junk mem) buf mem else Some (Inl (Thrown ''assert'')))"

text \<open>\<open>Get\<close> returns \<open>None\<close> for \<open>false\<close>; otherwise the value, or the status \<open>NotFound\<close>.\<close>

definition MemTable_Get :: "lookup_key \<Rightarrow> memtable \<Rightarrow> (status + bytes) option result option" where
  "MemTable_Get key mem =
     opt_then (FindGreaterOrEqual KeyComparator mem (memtable_key key) (replicate kMaxHeight 0)) (\<lambda>(node, _).
       case node of None \<Rightarrow> Some (Inr None) | Some x \<Rightarrow>
         (case GetVarint32Ptr (sl_key mem x) of
            None \<Rightarrow> Some (Inl OutOfBounds)
          | Some (klength, key_ptr) \<Rightarrow>
              if slice_compare (take (unat (klength - 8)) key_ptr) (lookup_user_key key) = 0 then
                (let tag = DecodeFixed64 (drop (unat (klength - 8)) key_ptr) AND 255 in
                 if tag = 1 then Some (Inr (Some (Inr (mem_slice (drop (unat klength) key_ptr)))))
                 else if tag = 0 then Some (Inr (Some (Inl StatusNotFound)))
                 else Some (Inr None))
              else Some (Inr None)))"

text \<open>The handler that inserts a batch: the sequence number of the next update and the table.\<close>

definition MemTableInserter :: "(memtable \<Rightarrow> nat \<Rightarrow> nat) \<Rightarrow> update \<Rightarrow> u64 \<times> memtable \<Rightarrow> (u64 \<times> memtable) result option" where
  "MemTableInserter junk u st = (case st of (seq, mem) \<Rightarrow>
     (case u of
        PutOp key val \<Rightarrow> opt_then (MemTable_Add junk seq kTypeValue key val mem) (\<lambda>mem. Some (Inr (seq + 1, mem)))
      | DeleteOp key \<Rightarrow> opt_then (MemTable_Add junk seq kTypeDeletion key [] mem) (\<lambda>mem. Some (Inr (seq + 1, mem)))))"

definition InsertInto :: "(memtable \<Rightarrow> nat \<Rightarrow> nat) \<Rightarrow> bytes \<Rightarrow> memtable \<Rightarrow> (memtable \<times> status) result option" where
  "InsertInto junk rep mem =
     opt_then (batch_Iterate (MemTableInserter junk) rep (batch_Sequence rep, mem)) (\<lambda>((_, mem), st). Some (Inr (mem, st)))"

section \<open>The history of a memtable\<close>

text \<open>A write: its sequence number and its update.\<close>

type_synonym mem_write = "u64 \<times> update"

definition write_key :: "mem_write \<Rightarrow> bytes" where
  "write_key w = (case snd w of PutOp key _ \<Rightarrow> key | DeleteOp key \<Rightarrow> key)"

definition write_type :: "mem_write \<Rightarrow> ValueType" where
  "write_type w = (case snd w of PutOp _ _ \<Rightarrow> kTypeValue | DeleteOp _ \<Rightarrow> kTypeDeletion)"

definition write_value :: "mem_write \<Rightarrow> bytes" where
  "write_value w = (case snd w of PutOp _ val \<Rightarrow> val | DeleteOp _ \<Rightarrow> [])"

definition entry :: "mem_write \<Rightarrow> bytes" where
  "entry w = EncodeVarint32 (of_nat (length (write_key w) + 8)) @ write_key w @ EncodeFixed64 (pack (fst w) (write_type w))
     @ EncodeVarint32 (of_nat (length (write_value w))) @ write_value w"

definition write_ok :: "mem_write \<Rightarrow> bool" where
  "write_ok w \<longleftrightarrow> length (write_key w) + 8 < 2 ^ 31 \<and> length (write_value w) < 2 ^ 32 \<and> fst w \<le> kMaxSequenceNumber"

text \<open>The table holds the entries of the writes \<open>ws\<close>, which are in the order they were made.\<close>

definition mem_holds :: "memtable \<Rightarrow> mem_write list \<Rightarrow> bool" where
  "mem_holds mem ws \<longleftrightarrow> (\<exists>xs. sl_inv KeyComparator mem xs \<and> set (sl_keys mem xs) = entry ` set ws)
     \<and> (\<forall>w \<in> set ws. write_ok w) \<and> sorted_wrt (\<lambda>a b. fst a < fst b) ws"

text \<open>The newest write of a key no newer than a sequence number.\<close>

definition newest :: "bytes \<Rightarrow> u64 \<Rightarrow> mem_write list \<Rightarrow> mem_write option" where
  "newest key s ws = find (\<lambda>w. write_key w = key \<and> fst w \<le> s) (rev ws)"

definition outcome :: "mem_write option \<Rightarrow> (status + bytes) option" where
  "outcome w = (case w of None \<Rightarrow> None
     | Some w \<Rightarrow> Some (case snd w of PutOp _ val \<Rightarrow> Inr val | DeleteOp _ \<Rightarrow> Inl StatusNotFound))"

interpretation mem: comparator KeyComparator
  by unfold_locales (auto simp: KeyComparator_def internal.cmp_sym intro: internal.cmp_trans)

section \<open>Reading entries back\<close>

lemma unat_pack: "s \<le> kMaxSequenceNumber \<Longrightarrow> unat (pack s t) = 256 * unat s + unat (type_byte t)"
proof -
  assume "s \<le> kMaxSequenceNumber"
  moreover have "unat kMaxSequenceNumber = 2 ^ 56 - 1" by (simp add: kMaxSequenceNumber_def)
  ultimately have s: "unat s < 2 ^ 56" by (simp add: word_le_nat_alt)
  then have p: "unat (push_bit 8 s) = 256 * unat s"
    by (simp add: push_bit_eq_mult unat_word_ariths)
  have "push_bit 8 s OR 1 = push_bit 8 s + 1" by (simp add: or_one_eq)
  moreover have "unat (push_bit 8 s + 1) = unat (push_bit 8 s) + 1"
    using s p by (simp add: unat_word_ariths)
  ultimately show ?thesis using p by (simp add: pack_def type_byte_def split: ValueType.split)
qed

lemma pack_le_iff:
  assumes "s \<le> kMaxSequenceNumber" and "s' \<le> kMaxSequenceNumber"
  shows "pack s t \<le> pack s' kTypeValue \<longleftrightarrow> s \<le> s'" "s < s' \<Longrightarrow> pack s t < pack s' t'"
  using unat_pack [OF assms(1), of t] unat_pack [OF assms(2)]
  by (cases t; cases t'; simp add: word_le_nat_alt word_less_nat_alt type_byte_def; linarith)+

lemma pack_type: "pack s t AND 255 = type_byte t"
proof -
  have "(push_bit 8 s OR type_byte t) AND 255 = (push_bit 8 s OR type_byte t) AND mask 8" by (simp add: mask_eq_exp_minus_1)
  also have "\<dots> = take_bit 8 (push_bit 8 s) OR take_bit 8 (type_byte t)" by (simp add: take_bit_eq_mask [symmetric])
  also have "\<dots> = type_byte t" by (simp add: take_bit_push_bit type_byte_def split: ValueType.split)
  finally show ?thesis by (simp add: pack_def)
qed

lemma mem_slice_Encode:
  assumes "length k < 2 ^ 32"
  shows "mem_slice (EncodeVarint32 (of_nat (length k)) @ k @ p) = k"
  using assms GetVarint32_Encode [of "of_nat (length k)" "k @ p"]
  by (simp add: mem_slice_def GetVarint32_def unat_of_nat)

text \<open>What \<open>Get\<close> reads out of an entry.\<close>

lemma entry_ok:
  assumes "write_ok w"
  shows "mem_slice (entry w) = write_key w @ EncodeFixed64 (pack (fst w) (write_type w))"
    "GetVarint32Ptr (entry w) = Some (of_nat (length (write_key w) + 8), write_key w
       @ EncodeFixed64 (pack (fst w) (write_type w)) @ EncodeVarint32 (of_nat (length (write_value w))) @ write_value w)"
    "mem_slice (EncodeVarint32 (of_nat (length (write_value w))) @ write_value w) = write_value w"
proof -
  have "length (write_key w) + 8 < 2 ^ 32" "length (write_value w) < 2 ^ 32" using assms by (simp_all add: write_ok_def)
  then show "mem_slice (entry w) = write_key w @ EncodeFixed64 (pack (fst w) (write_type w))"
    "mem_slice (EncodeVarint32 (of_nat (length (write_value w))) @ write_value w) = write_value w"
    using mem_slice_Encode [of "write_key w @ EncodeFixed64 (pack (fst w) (write_type w))"]
      mem_slice_Encode [of "write_value w" "[]"]
    by (simp_all add: entry_def)
qed (simp add: entry_def GetVarint32_Encode [unfolded GetVarint32_def])

lemma key_size:
  assumes "write_ok w"
  shows "unat (of_nat (length (write_key w) + 8) - 8 :: u32) = length (write_key w)"
    "unat (of_nat (length (write_key w) + 8) :: u32) = length (write_key w) + 8"
proof -
  have n: "length (write_key w) + 8 < 2 ^ 32" using assms by (simp add: write_ok_def)
  have "of_nat (length (write_key w) + 8) - 8 = (of_nat (length (write_key w)) :: u32)" by simp
  then show "unat (of_nat (length (write_key w) + 8) - 8 :: u32) = length (write_key w)"
    using n by (simp only: unat_of_nat) simp
  show "unat (of_nat (length (write_key w) + 8) :: u32) = length (write_key w) + 8"
    unfolding unat_of_nat using n by simp
qed

lemma Add_Insert:
  assumes "write_ok (s, u)"
  shows "MemTable_Add junk s (write_type (s, u)) (write_key (s, u)) (write_value (s, u)) mem = Insert KeyComparator (junk mem) (entry (s, u)) mem"
proof -
  let ?k = "length (write_key (s, u)) + 8" and ?v = "length (write_value (s, u))"
  have "?k < 2 ^ 32" "?v < 2 ^ 32" using assms by (simp_all add: write_ok_def)
  then have "unat (of_nat ?k :: u32) = unat (of_nat ?k :: u64)" "unat (of_nat ?v :: u32) = unat (of_nat ?v :: u64)"
    by (simp_all only: unat_of_nat) simp_all
  then have "int (length (EncodeVarint32 (of_nat ?k))) = VarintLength (of_nat ?k)"
    "int (length (EncodeVarint32 (of_nat ?v))) = VarintLength (of_nat ?v)"
    by (simp_all only: EncodeVarint32_varint VarintLength_varint)
  then show ?thesis
    by (simp add: MemTable_Add_def Let_def entry_def pack_def)
qed

lemma LookupKey_ok:
  assumes "s \<le> kMaxSequenceNumber" and "length k + 8 < 2 ^ 32"
  obtains lk where "LookupKey k s = Inr lk" and "lookup_user_key lk = k"
    and "mem_slice (memtable_key lk) = k @ EncodeFixed64 (pack s kTypeValue)"
    and "lookup_internal_key lk = k @ EncodeFixed64 (pack s kTypeValue)"
proof -
  let ?lk = "\<lparr>lk_start = EncodeVarint32 (of_nat (length k + 8)) @ k @ EncodeFixed64 (pack s kTypeValue),
    lk_kstart = length (EncodeVarint32 (of_nat (length k + 8)))\<rparr>"
  show ?thesis
    by (rule that [of ?lk])
      (use assms mem_slice_Encode [of "k @ EncodeFixed64 (pack s kTypeValue)" "[]"] in
        \<open>simp_all add: LookupKey_def PackSequenceAndType_def kValueTypeForSeek_def lookup_user_key_def memtable_key_def
          lookup_internal_key_def Let_def\<close>)
qed

section \<open>Looking up\<close>

lemma entry_compare:
  assumes "write_ok w" and "mem_slice k = key @ EncodeFixed64 tag"
  shows "0 \<le> KeyComparator (entry w) k \<longleftrightarrow> key < write_key w \<or> write_key w = key \<and> pack (fst w) (write_type w) \<le> tag"
  using InternalKeyCompare_order(1) [of "write_key w @ EncodeFixed64 (pack (fst w) (write_type w))" "key @ EncodeFixed64 tag"]
  by (auto simp: KeyComparator_def entry_ok [OF assms(1)] assms(2) not_less simp flip: not_less)

lemma entry_order:
  assumes "write_ok v" and "write_ok w" and "KeyComparator (entry v) (entry w) \<le> 0"
  shows "write_key v < write_key w \<or> write_key v = write_key w \<and> pack (fst w) (write_type w) \<le> pack (fst v) (write_type v)"
  using assms(3) InternalKeyCompare_order(3) [of "write_key v @ EncodeFixed64 (pack (fst v) (write_type v))"
      "write_key w @ EncodeFixed64 (pack (fst w) (write_type w))"]
  by (auto simp: KeyComparator_def entry_ok [OF assms(1)] entry_ok [OF assms(2)])

lemma find_split:
  assumes "find P xs = Some x"
  obtains as bs where "xs = as @ x # bs" and "P x" and "\<forall>a \<in> set as. \<not> P a"
proof -
  have "\<exists>as bs. xs = as @ x # bs \<and> P x \<and> (\<forall>a \<in> set as. \<not> P a)" using assms
  proof (induction xs)
    case (Cons y ys)
    show ?case
    proof (cases "P y")
      case True
      then show ?thesis using Cons.prems by (intro exI [of _ "[]"] exI [of _ ys]) simp
    next
      case False
      then obtain as bs where "ys = as @ x # bs" "P x" "\<forall>a \<in> set as. \<not> P a" using Cons by auto
      then show ?thesis using False by (intro exI [of _ "y # as"] exI [of _ bs]) simp
    qed
  qed simp
  then show ?thesis using that by blast
qed

lemma newest_Some:
  assumes "sorted_wrt (\<lambda>a b. fst a < fst b) ws" and "newest key s ws = Some w"
  shows "w \<in> set ws" "write_key w = key" "fst w \<le> s"
    "v \<in> set ws \<Longrightarrow> write_key v = key \<Longrightarrow> fst v \<le> s \<Longrightarrow> v = w \<or> fst v < fst w"
proof -
  obtain as bs where s: "rev ws = as @ w # bs" "\<forall>a \<in> set as. \<not> (write_key a = key \<and> fst a \<le> s)"
    and w: "write_key w = key" "fst w \<le> s"
    using assms(2) unfolding newest_def by (rule find_split) blast
  have "w \<in> set (rev ws)" by (simp only: s(1)) simp
  then show "w \<in> set ws" "write_key w = key" "fst w \<le> s" using w by simp_all
  have "sorted_wrt (\<lambda>a b. fst b < fst a) (rev ws)" using assms(1) by (simp add: sorted_wrt_rev)
  then have "\<forall>b \<in> set bs. fst b < fst w" unfolding s(1) by (simp add: sorted_wrt_append)
  moreover have "set ws = set as \<union> insert w (set bs)" using arg_cong [OF s(1), of set] by simp
  ultimately show "v = w \<or> fst v < fst w" if "v \<in> set ws" "write_key v = key" "fst v \<le> s"
    using that s(2) by blast
qed

lemma Get_entry:
  assumes w: "write_ok w" and x: "sl_key mem x = entry w"
    and f: "FindGreaterOrEqual KeyComparator mem (memtable_key lk) (replicate kMaxHeight 0) = Some (Inr (Some x, prev))"
  shows "MemTable_Get lk mem = Some (Inr (if write_key w = lookup_user_key lk then outcome (Some w) else None))"
proof -
  have "write_type w = kTypeValue \<Longrightarrow> outcome (Some w) = Some (Inr (write_value w))"
    "write_type w = kTypeDeletion \<Longrightarrow> outcome (Some w) = Some (Inl StatusNotFound)"
    by (auto simp: write_type_def write_value_def outcome_def split: update.splits)
  then show ?thesis
    by (cases "write_type w")
      (simp_all only: MemTable_Get_def f x opt_then_simps prod.case option.case entry_ok [OF w] key_size [OF w] slice_compare_order,
       simp_all add: Let_def entry_ok(3) [OF w] pack_type type_byte_def)
qed

lemma Get_newest:
  assumes holds: "mem_holds mem ws" and s: "s \<le> kMaxSequenceNumber" and len: "length key + 8 < 2 ^ 31"
  obtains lk where "LookupKey key s = Inr lk" and "MemTable_Get lk mem = Some (Inr (outcome (newest key s ws)))"
proof -
  obtain xs where inv: "sl_inv KeyComparator mem xs" and keys: "set (sl_keys mem xs) = entry ` set ws"
    and ok: "w \<in> set ws \<Longrightarrow> write_ok w" and srt: "sorted_wrt (\<lambda>a b. fst a < fst b) ws" for w
    using holds unfolding mem_holds_def by blast
  have len': "length key + 8 < 2 ^ 32" using len by simp
  obtain lk where lk: "LookupKey key s = Inr lk" "lookup_user_key lk = key"
      "mem_slice (memtable_key lk) = key @ EncodeFixed64 (pack s kTypeValue)"
    by (rule LookupKey_ok [OF s len'])
  have ge: "0 \<le> KeyComparator (entry w) (memtable_key lk) \<longleftrightarrow> key < write_key w \<or> write_key w = key \<and> fst w \<le> s"
    if "w \<in> set ws" for w
    using entry_compare [OF ok [OF that] lk(3)] pack_le_iff(1) [OF _ s] ok [OF that] by (auto simp: write_ok_def)
  obtain node prev where f: "FindGreaterOrEqual KeyComparator mem (memtable_key lk) (replicate kMaxHeight 0) = Some (Inr (node, prev))"
    and node: "node = first (dropWhile (below KeyComparator mem (memtable_key lk)) xs)"
    by (rule mem.FindGreaterOrEqual_ok [OF inv, of "replicate kMaxHeight 0" "memtable_key lk"]) simp_all
  have "MemTable_Get lk mem = Some (Inr (outcome (newest key s ws)))"
  proof (cases node)
    case None
    have "newest key s ws = None"
    proof (cases "newest key s ws")
      case (Some w)
      note n = newest_Some [OF srt Some]
      have "KeyComparator (entry w) (memtable_key lk) < 0"
        by (rule mem.first_none [OF node [symmetric, unfolded None]]) (use n keys in auto)
      then show ?thesis using ge [OF n(1)] n by simp
    qed
    then show ?thesis using f None by (simp add: MemTable_Get_def outcome_def)
  next
    case (Some x)
    note least = mem.first_least [OF inv node [symmetric, unfolded Some]]
    obtain v where v: "v \<in> set ws" "sl_key mem x = entry v" using least(1) keys by auto
    have g: "key < write_key v \<or> write_key v = key \<and> fst v \<le> s" using least(2) ge [OF v(1)] v(2) by simp
    have get: "MemTable_Get lk mem = Some (Inr (if write_key v = key then outcome (Some v) else None))"
      using Get_entry [OF ok [OF v(1)] v(2) f [unfolded Some]] lk(2) by simp
    show ?thesis
    proof (cases "newest key s ws")
      case None
      then have "write_key v \<noteq> key" using g v(1) by (cases v) (auto simp: newest_def find_None_iff)
      then show ?thesis using get None by (simp add: outcome_def)
    next
      case (Some w)
      note n = newest_Some [OF srt Some]
      have "KeyComparator (entry v) (entry w) \<le> 0"
        using least(3) [of "entry w"] keys n ge [OF n(1)] v(2) by simp
      from entry_order [OF ok [OF v(1)] ok [OF n(1)] this] n(2) g
      have k: "write_key v = key" "fst v \<le> s" and p: "pack (fst w) (write_type w) \<le> pack (fst v) (write_type v)" by auto
      have "\<not> fst v < fst w"
        using p pack_le_iff(2) [of "fst v" "fst w"] ok [OF v(1)] ok [OF n(1)] by (auto simp: write_ok_def not_less [symmetric])
      then have "v = w" using n(4) [OF v(1) k] by simp
      then show ?thesis using get k Some by simp
    qed
  qed
  then show ?thesis using that lk(1) by blast
qed

section \<open>Adding\<close>

text \<open>The writes of a batch: its updates with consecutive sequence numbers.\<close>

fun stamp :: "u64 \<Rightarrow> update list \<Rightarrow> mem_write list" where
  "stamp s [] = []"
| "stamp s (u # us) = (s, u) # stamp (s + 1) us"

fun update_fits :: "update \<Rightarrow> bool" where
  "update_fits (PutOp key val) \<longleftrightarrow> length key + 8 < 2 ^ 31 \<and> length val < 2 ^ 32"
| "update_fits (DeleteOp key) \<longleftrightarrow> length key + 8 < 2 ^ 31"

lemma write_ok_fits: "write_ok (s, u) \<longleftrightarrow> update_fits u \<and> s \<le> kMaxSequenceNumber"
  by (cases u) (simp_all add: write_ok_def write_key_def write_value_def)

lemma update_fits_ok: "update_fits u \<Longrightarrow> update_ok u"
  by (cases u) simp_all

lemma Inserter_Insert:
  assumes "write_ok (s, u)"
  shows "MemTableInserter junk u (s, mem) = opt_then (Insert KeyComparator (junk mem) (entry (s, u)) mem) (\<lambda>mem. Some (Inr (s + 1, mem)))"
  using Add_Insert [OF assms, of junk mem]
  by (cases u) (simp_all add: MemTableInserter_def write_type_def write_key_def write_value_def)

lemma entry_fresh:
  assumes "write_ok v" and "write_ok w" and "fst v < fst w"
  shows "KeyComparator (entry w) (entry v) \<noteq> 0"
  using assms pack_le_iff(2) [of "fst v" "fst w" "write_type v" "write_type w"]
    InternalKeyCompare_order(2) [of "write_key w @ EncodeFixed64 (pack (fst w) (write_type w))"
      "write_key v @ EncodeFixed64 (pack (fst v) (write_type v))"]
  by (auto simp: KeyComparator_def entry_ok write_ok_def)

lemma insert_holds:
  assumes holds: "mem_holds mem ws" and ok: "write_ok (s, u)" and new: "\<forall>w \<in> set ws. fst w < s"
  obtains mem' where "MemTableInserter junk u (s, mem) = Some (Inr (s + 1, mem'))" and "mem_holds mem' (ws @ [(s, u)])"
proof -
  obtain xs where inv: "sl_inv KeyComparator mem xs" and keys: "set (sl_keys mem xs) = entry ` set ws"
    and oks: "\<forall>w \<in> set ws. write_ok w" and srt: "sorted_wrt (\<lambda>a b. fst a < fst b) ws"
    using holds unfolding mem_holds_def by blast
  have "KeyComparator (entry (s, u)) k \<noteq> 0" if "k \<in> set (sl_keys mem xs)" for k
    using that entry_fresh [OF _ ok] oks new unfolding keys by auto
  then have "\<forall>x \<in> set xs. KeyComparator (entry (s, u)) (sl_key mem x) \<noteq> 0" by (simp add: sl_keys_def)
  then obtain mem' xs' where m: "Insert KeyComparator (junk mem) (entry (s, u)) mem = Some (Inr mem')" "sl_inv KeyComparator mem' xs'"
    "sl_keys mem' xs' = takeWhile (\<lambda>k. KeyComparator k (entry (s, u)) < 0) (sl_keys mem xs) @ entry (s, u)
      # dropWhile (\<lambda>k. KeyComparator k (entry (s, u)) < 0) (sl_keys mem xs)"
    by (rule mem.insert_ok [OF inv])
  have "set (sl_keys mem' xs') = insert (entry (s, u)) (set (sl_keys mem xs))"
    using arg_cong [OF m(3), of set] by (metis Un_insert_right list.simps(15) set_append takeWhile_dropWhile_id)
  then have "mem_holds mem' (ws @ [(s, u)])"
    using m(2) oks ok srt new keys by (auto simp: mem_holds_def sorted_wrt_append)
  then show ?thesis using that m(1) Inserter_Insert [OF ok] by simp
qed

lemma run_holds:
  assumes "mem_holds mem ws" and "\<forall>w \<in> set ws. fst w < s" and "\<forall>u \<in> set us. update_fits u"
    and "unat s + length us \<le> 2 ^ 56"
  shows "\<exists>mem'. run_updates (MemTableInserter junk) us (s, mem) = Some (Inr (s + of_nat (length us), mem')) \<and> mem_holds mem' (ws @ stamp s us)"
  using assms
proof (induction us arbitrary: mem ws s)
  case (Cons u us)
  have s: "unat s < 2 ^ 56" using Cons.prems(4) by simp
  then have s1: "unat (s + 1) = unat s + 1" by (simp add: unat_word_ariths)
  have "s \<le> kMaxSequenceNumber" using s by (simp add: word_le_nat_alt kMaxSequenceNumber_def)
  then have ok: "write_ok (s, u)" using Cons.prems(3) by (simp add: write_ok_fits)
  obtain mem1 where m: "MemTableInserter junk u (s, mem) = Some (Inr (s + 1, mem1))" "mem_holds mem1 (ws @ [(s, u)])"
    by (rule insert_holds [OF Cons.prems(1) ok Cons.prems(2)])
  have "\<forall>w \<in> set (ws @ [(s, u)]). fst w < s + 1" using Cons.prems(2) s1 by (auto simp: word_less_nat_alt)
  from Cons.IH [OF m(2) this] obtain mem' where
    "run_updates (MemTableInserter junk) us (s + 1, mem1) = Some (Inr (s + 1 + of_nat (length us), mem'))"
    "mem_holds mem' (ws @ [(s, u)] @ stamp (s + 1) us)"
    using Cons.prems(3,4) s1 by auto
  then show ?case using m(1) by (simp add: ac_simps)
qed simp

lemma InsertInto_holds:
  assumes "mem_holds mem ws" and "\<forall>w \<in> set ws. fst w < seq" and "\<forall>u \<in> set us. update_fits u"
    and "unat seq + length us \<le> 2 ^ 56" and "length us < 2 ^ 31"
  obtains mem' where "InsertInto junk (make_batch seq us) mem = Some (Inr (mem', StatusOK))"
    and "mem_holds mem' (ws @ stamp seq us)"
proof -
  have u: "\<forall>u \<in> set us. update_ok u" using assms(3) update_fits_ok by blast
  obtain mem' where "run_updates (MemTableInserter junk) us (seq, mem) = Some (Inr (seq + of_nat (length us), mem'))"
    and h: "mem_holds mem' (ws @ stamp seq us)"
    using run_holds [OF assms(1-4)] by blast
  then have "InsertInto junk (make_batch seq us) mem = Some (Inr (mem', StatusOK))"
    by (simp add: InsertInto_def batch_of_updates [OF u assms(5)])
  then show ?thesis using that h by blast
qed

lemma newMemTable_holds: "mem_holds newMemTable []"
  unfolding mem_holds_def newMemTable_def by (auto intro: exI [of _ "[]"] newSkipList_inv)

text \<open>C28: for user keys short enough that the comparator can hold their length in an \<open>int\<close>, the memtable answers from the newest write a reader may see.  Inserting a batch whose
  sequence numbers are above those of the table succeeds and keeps the table well formed; then \<open>Get\<close>
  at any snapshot returns the value of the newest write of the key no newer than the snapshot, the
  status \<open>NotFound\<close> when this write is a deletion, and \<open>false\<close> when there is none.\<close>

theorem memtable_snapshot_read:
  assumes "mem_holds mem ws" and "\<forall>w \<in> set ws. fst w < seq" and "\<forall>u \<in> set us. update_fits u"
    and "unat seq + length us \<le> 2 ^ 56" and "length us < 2 ^ 31"
    and "s \<le> kMaxSequenceNumber" and "length key + 8 < 2 ^ 31"
  shows "\<exists>mem' lk. InsertInto junk (make_batch seq us) mem = Some (Inr (mem', StatusOK))
    \<and> mem_holds mem' (ws @ stamp seq us) \<and> LookupKey key s = Inr lk
    \<and> MemTable_Get lk mem' = Some (Inr (outcome (newest key s (ws @ stamp seq us))))"
proof -
  obtain mem' where m: "InsertInto junk (make_batch seq us) mem = Some (Inr (mem', StatusOK))"
    "mem_holds mem' (ws @ stamp seq us)"
    by (rule InsertInto_holds [OF assms(1-5)])
  obtain lk where "LookupKey key s = Inr lk"
    "MemTable_Get lk mem' = Some (Inr (outcome (newest key s (ws @ stamp seq us))))"
    by (rule Get_newest [OF m(2) assms(6,7)])
  with m show ?thesis by blast
qed

theorem memtable_snapshot_read_witness:
  "\<exists>mem' lk. InsertInto (\<lambda>_ i. i + 5) (make_batch 7 [PutOp [1] [10], DeleteOp [1], PutOp [1] [20]]) newMemTable
      = Some (Inr (mem', StatusOK))
    \<and> LookupKey [1] 8 = Inr lk \<and> MemTable_Get lk mem' = Some (Inr (Some (Inl StatusNotFound)))"
proof -
  have "(8 :: u64) \<le> kMaxSequenceNumber" by code_simp
  moreover have "outcome (newest [1] 8 ([] @ stamp 7 [PutOp [1] [10], DeleteOp [1], PutOp [1] [20]])) = Some (Inl StatusNotFound)"
    by code_simp
  ultimately show ?thesis
    using memtable_snapshot_read [OF newMemTable_holds, of 7 "[PutOp [1] [10], DeleteOp [1], PutOp [1] [20]]" 8 "[1]" "\<lambda>_ i. i + 5"] by auto
qed

section \<open>Refinement of the database\<close>

text \<open>The same updates on the map that stands for LevelDB in the storage components.\<close>

definition db_update :: "update \<Rightarrow> database \<Rightarrow> database" where
  "db_update u db = (case u of PutOp key val \<Rightarrow> snd (insert_db db key val) | DeleteOp key \<Rightarrow> snd (delete_db db key))"

definition found_value :: "(status + bytes) option \<Rightarrow> bytes option" where
  "found_value r = (case r of Some (Inr val) \<Rightarrow> Some val | _ \<Rightarrow> None)"

definition mem_refines :: "memtable \<Rightarrow> mem_write list \<Rightarrow> database \<Rightarrow> bool" where
  "mem_refines mem ws db \<longleftrightarrow> mem_holds mem ws \<and> database_inv db
     \<and> (\<forall>key. query db key = found_value (outcome (newest key kMaxSequenceNumber ws)))"

lemma newest_snoc:
  "newest key s (ws @ [w]) = (if write_key w = key \<and> fst w \<le> s then Some w else newest key s ws)"
  by (simp add: newest_def)

lemma db_update_ok:
  assumes "database_inv db"
  shows "database_inv (db_update u db)"
    "query (db_update u db) key = (if write_key (s, u) = key then found_value (outcome (Some (s, u))) else query db key)"
  using assms kv.inv_put [OF assms] kv.inv_del [OF assms] kv.get_put [OF assms] kv.get_del [OF assms]
  by (cases u; simp add: db_update_def write_key_def found_value_def outcome_def)+

lemma stamp_fits:
  assumes "unat s + length us \<le> 2 ^ 56"
  shows "\<forall>w \<in> set (stamp s us). fst w \<le> kMaxSequenceNumber"
  using assms
proof (induction us arbitrary: s)
  case (Cons u us)
  have s: "unat s < 2 ^ 56" using Cons.prems by simp
  then have "unat (s + 1) = unat s + 1" by (simp add: unat_word_ariths)
  then show ?case using Cons.IH [of "s + 1"] Cons.prems s by (simp add: word_le_nat_alt kMaxSequenceNumber_def)
qed simp

lemma newest_fold:
  assumes "database_inv db" and "\<forall>w \<in> set (stamp s us). fst w \<le> kMaxSequenceNumber"
    and "\<forall>key. query db key = found_value (outcome (newest key kMaxSequenceNumber ws))"
  shows "database_inv (fold db_update us db)
    \<and> query (fold db_update us db) key = found_value (outcome (newest key kMaxSequenceNumber (ws @ stamp s us)))"
  using assms
proof (induction us arbitrary: db ws s)
  case (Cons u us)
  have "\<forall>key. query (db_update u db) key = found_value (outcome (newest key kMaxSequenceNumber (ws @ [(s, u)])))"
    using db_update_ok(2) [OF Cons.prems(1), of u _ s] Cons.prems(2,3) by (simp add: newest_snoc)
  then show ?case
    using Cons.IH [OF db_update_ok(1) [OF Cons.prems(1)], of "s + 1" u "ws @ [(s, u)]"] Cons.prems(2) by simp
qed simp

text \<open>C29: the memtable refines the database the storage components use.  An empty table stands for
  an empty database; a batch inserted into a table that stands for a database gives a table that
  stands for the database after the same updates; and \<open>Get\<close> at the newest snapshot finds exactly
  the value \<open>query\<close> finds.\<close>

theorem memtable_refines_database:
  assumes "mem_refines mem ws db" and "\<forall>w \<in> set ws. fst w < seq" and "\<forall>u \<in> set us. update_fits u"
    and "unat seq + length us \<le> 2 ^ 56" and "length us < 2 ^ 31" and "length key + 8 < 2 ^ 31"
  shows "mem_refines newMemTable [] \<lparr>dbName = n, levelDBObj = \<lparr>ldb_entries = [], ldb_bg_error = False\<rparr>\<rparr>
    \<and> (\<exists>mem' lk r. InsertInto junk (make_batch seq us) mem = Some (Inr (mem', StatusOK))
        \<and> mem_refines mem' (ws @ stamp seq us) (fold db_update us db)
        \<and> LookupKey key kMaxSequenceNumber = Inr lk \<and> MemTable_Get lk mem' = Some (Inr r)
        \<and> found_value r = query (fold db_update us db) key)"
proof -
  have h: "mem_holds mem ws" and d: "database_inv db"
    and q: "\<forall>key. query db key = found_value (outcome (newest key kMaxSequenceNumber ws))"
    using assms(1) by (simp_all add: mem_refines_def)
  obtain mem' where m: "InsertInto junk (make_batch seq us) mem = Some (Inr (mem', StatusOK))"
    "mem_holds mem' (ws @ stamp seq us)"
    by (rule InsertInto_holds [OF h assms(2-5)])
  obtain lk where lk: "LookupKey key kMaxSequenceNumber = Inr lk"
    "MemTable_Get lk mem' = Some (Inr (outcome (newest key kMaxSequenceNumber (ws @ stamp seq us))))"
    by (rule Get_newest [OF m(2) order_refl assms(6)])
  have n: "database_inv (fold db_update us db)
      \<and> query (fold db_update us db) k = found_value (outcome (newest k kMaxSequenceNumber (ws @ stamp seq us)))" for k
    by (rule newest_fold [OF d stamp_fits [OF assms(4)] q])
  have "mem_refines newMemTable [] \<lparr>dbName = n, levelDBObj = \<lparr>ldb_entries = [], ldb_bg_error = False\<rparr>\<rparr>"
    using newMemTable_holds
    by (simp add: mem_refines_def database_inv_def leveldb_inv_def query_def newest_def outcome_def found_value_def)
  moreover have "mem_refines mem' (ws @ stamp seq us) (fold db_update us db)"
    unfolding mem_refines_def using m(2) n by blast
  ultimately show ?thesis using m(1) lk n by auto
qed

theorem memtable_refines_database_witness:
  "\<exists>mem' lk. InsertInto (\<lambda>_ i. i + 5) (make_batch 1 [PutOp [4] [40], PutOp [5] [50], DeleteOp [4]]) newMemTable = Some (Inr (mem', StatusOK))
    \<and> LookupKey [5] kMaxSequenceNumber = Inr lk \<and> (\<exists>r. MemTable_Get lk mem' = Some (Inr r) \<and> found_value r = Some [50])"
proof -
  let ?us = "[PutOp [4] [40], PutOp [5] [50], DeleteOp [4]]"
    and ?db = "\<lparr>dbName = [], levelDBObj = \<lparr>ldb_entries = [], ldb_bg_error = False\<rparr>\<rparr>"
  have r: "mem_refines newMemTable [] ?db"
    using newMemTable_holds
    by (simp add: mem_refines_def database_inv_def leveldb_inv_def query_def newest_def outcome_def found_value_def)
  have "query (fold db_update ?us ?db) [5] = Some [50]" by code_simp
  then show ?thesis using memtable_refines_database [OF r, of 1 ?us "[5]" "[]" "\<lambda>_ i. i + 5"] by auto
qed

end
