(* ===== verification/Ldb_Log.thy ===== *)
theory Ldb_Log
  imports Ldb_Crc Ldb_Write_Batch
begin

text \<open>
  The log of LevelDB: its writer (\<open>lib/leveldb/db/log_writer.cc\<close>) and its reader (\<open>db/log_reader.cc\<close>).  The
  files are those of the environment of LevelDB, an interface.  A writable file is the bytes
  appended to it; \<open>app\<close> says whether it takes more bytes and whether it can be flushed.  A sequential
  file is the bytes not yet read; \<open>rd\<close> says whether reading it on succeeds, and then it gives as
  many bytes as asked for or all there are; a read that fails gives none.  \<open>pv\<close> is the address of the bytes a checksum is taken of.
\<close>

section \<open>Format\<close>

definition kZeroType :: nat where "kZeroType = 0"
definition kFullType :: nat where "kFullType = 1"
definition kFirstType :: nat where "kFirstType = 2"
definition kMiddleType :: nat where "kMiddleType = 3"
definition kLastType :: nat where "kLastType = 4"
definition kMaxRecordType :: nat where "kMaxRecordType = kLastType"
definition kEof :: nat where "kEof = kMaxRecordType + 1"
definition kBadRecord :: nat where "kBadRecord = kMaxRecordType + 2"
definition kBlockSize :: nat where "kBlockSize = 32768"
definition kHeaderSize :: nat where "kHeaderSize = 4 + 1 + 2"

lemmas log_consts = kZeroType_def kFullType_def kFirstType_def kMiddleType_def kLastType_def kMaxRecordType_def
  kEof_def kBadRecord_def kBlockSize_def kHeaderSize_def

section \<open>Writer\<close>

record file_api =
  fa_takes :: "bytes \<Rightarrow> bytes \<Rightarrow> bool"
  fa_flushes :: "bytes \<Rightarrow> bool"

definition file_Append :: "file_api \<Rightarrow> bytes \<Rightarrow> bytes \<Rightarrow> status \<times> bytes" where
  "file_Append app data f = (if fa_takes app f data then (StatusOK, f @ data) else (StatusIOError, f))"

record log_writer =
  lw_dest :: bytes
  lw_block_offset :: nat
  lw_type_crc :: "u32 list"

definition newWriter :: "nat \<Rightarrow> bytes \<Rightarrow> log_writer" where
  "newWriter pv dest = \<lparr>lw_dest = dest, lw_block_offset = 0,
     lw_type_crc = map (\<lambda>i. crc_Value pv [of_nat i]) [0..<kMaxRecordType + 1]\<rparr>"

definition EmitPhysicalRecord ::
  "file_api \<Rightarrow> nat \<Rightarrow> nat \<Rightarrow> bytes \<Rightarrow> log_writer \<Rightarrow> (status \<times> log_writer) result" where
  "EmitPhysicalRecord app pv t data w =
     (let n = length data in
      if n > 0xffff \<or> lw_block_offset w + kHeaderSize + n > kBlockSize then Inl (Thrown ''assert'')
      else let crc = Mask (Extend pv (lw_type_crc w ! t) data);
               buf = EncodeFixed32 crc @ [of_nat (n mod 256), of_nat (n div 256), of_nat t];
               (s1, f1) = file_Append app buf (lw_dest w);
               (s2, f2) = (if s1 = StatusOK then file_Append app data f1 else (s1, f1));
               s3 = (if s2 = StatusOK then (if fa_flushes app f2 then StatusOK else StatusIOError) else s2) in
        Inr (s3, w\<lparr>lw_dest := f2, lw_block_offset := lw_block_offset w + kHeaderSize + n\<rparr>))"

text \<open>The start of a round of \<open>AddRecord\<close>: a block with no room for a header is filled up and left.  The
  status of that write is not looked at.\<close>

definition switch_block :: "file_api \<Rightarrow> log_writer \<Rightarrow> log_writer" where
  "switch_block app w =
     (let leftover = kBlockSize - lw_block_offset w in
      if leftover < kHeaderSize
      then w\<lparr>lw_dest := (if leftover > 0 then snd (file_Append app (replicate leftover 0) (lw_dest w)) else lw_dest w),
             lw_block_offset := 0\<rparr>
      else w)"

definition fragment_type :: "bool \<Rightarrow> bool \<Rightarrow> nat" where
  "fragment_type at_begin at_end =
     (if at_begin \<and> at_end then kFullType else if at_begin then kFirstType else if at_end then kLastType else kMiddleType)"

lemma Emit_offset:
  "EmitPhysicalRecord app pv t data w = Inr (s, w') \<Longrightarrow> lw_block_offset w' = lw_block_offset w + kHeaderSize + length data
    \<and> lw_block_offset w' \<le> kBlockSize"
  by (auto simp: EmitPhysicalRecord_def Let_def split: if_split_asm prod.split_asm)

function add_loop :: "file_api \<Rightarrow> nat \<Rightarrow> bool \<Rightarrow> bytes \<Rightarrow> log_writer \<Rightarrow> (status \<times> log_writer) result" where
  "add_loop app pv at_begin data w =
     (if lw_block_offset w > kBlockSize then Inl (Thrown ''assert'')
      else let w1 = switch_block app w;
               avail = kBlockSize - lw_block_offset w1 - kHeaderSize;
               n = (if length data < avail then length data else avail) in
        and_then (EmitPhysicalRecord app pv (fragment_type at_begin (length data = n)) (take n data) w1) (\<lambda>(s, w2).
          if s = StatusOK \<and> length data - n > 0 then add_loop app (pv + n) False (drop n data) w2 else Inr (s, w2)))"
  by auto
termination
proof (relation "measures [\<lambda>(app, pv, b, data, w). length data, \<lambda>(app, pv, b, data, w). kBlockSize - lw_block_offset w]",
    goal_cases)
  case (2 app pv b data w w1 avail n p s w2)
  then have e: "lw_block_offset w2 = lw_block_offset w1 + kHeaderSize + length (take n data)" "lw_block_offset w2 \<le> kBlockSize"
    using Emit_offset by (metis prod.collapse prod.sel)+
  have "n = 0 \<Longrightarrow> lw_block_offset w1 = lw_block_offset w"
    using 2 by (auto simp: switch_block_def Let_def log_consts split: if_split_asm)
  then show ?case using 2 e by (auto simp: log_consts split: if_split_asm)
qed simp

declare add_loop.simps [simp del]

definition AddRecord :: "file_api \<Rightarrow> nat \<Rightarrow> bytes \<Rightarrow> log_writer \<Rightarrow> (status \<times> log_writer) result" where
  "AddRecord app pv rec w = add_loop app pv True rec w"

section \<open>Reader\<close>

record log_reader =
  lr_file :: bytes
  lr_reporter :: bool
  lr_checksum :: bool
  lr_buffer :: bytes
  lr_eof :: bool
  lr_last_record_offset :: u64
  lr_end_of_buffer_offset :: u64
  lr_initial_offset :: u64
  lr_reports :: "(nat \<times> bytes) list"

definition newReader :: "bytes \<Rightarrow> bool \<Rightarrow> bool \<Rightarrow> u64 \<Rightarrow> log_reader" where
  "newReader contents reporter checksum initial_offset =
     \<lparr>lr_file = contents, lr_reporter = reporter, lr_checksum = checksum, lr_buffer = [], lr_eof = False,
      lr_last_record_offset = 0, lr_end_of_buffer_offset = 0, lr_initial_offset = initial_offset, lr_reports = []\<rparr>"

text \<open>A report is the number of the dropped bytes and the reason.\<close>

definition ReportDrop :: "nat \<Rightarrow> bytes \<Rightarrow> log_reader \<Rightarrow> log_reader" where
  "ReportDrop n reason r =
     (if lr_reporter r \<and> lr_end_of_buffer_offset r - of_nat (length (lr_buffer r)) - of_nat n \<ge> lr_initial_offset r
      then r\<lparr>lr_reports := lr_reports r @ [(n, reason)]\<rparr> else r)"

definition ReportCorruption :: "nat \<Rightarrow> string \<Rightarrow> log_reader \<Rightarrow> log_reader" where
  "ReportCorruption n reason r = ReportDrop n (str reason) r"

text \<open>Skipping past the end of a file leaves nothing to read.\<close>

definition SkipToInitialBlock :: "(bytes \<Rightarrow> bool) \<Rightarrow> log_reader \<Rightarrow> bool \<times> log_reader" where
  "SkipToInitialBlock rd r =
     (let off = unat (lr_initial_offset r) mod kBlockSize;
          start = lr_initial_offset r - of_nat off;
          block_start = (if off > kBlockSize - 6 then start + of_nat kBlockSize else start);
          r1 = r\<lparr>lr_end_of_buffer_offset := block_start\<rparr> in
      if block_start > 0 then
        if rd (lr_file r1) then (True, r1\<lparr>lr_file := drop (unat block_start) (lr_file r1)\<rparr>)
        else (False, ReportDrop (unat block_start) (str ''IO error'') r1)
      else (True, r1))"

definition parse_physical :: "nat \<Rightarrow> log_reader \<Rightarrow> nat \<times> bytes \<times> log_reader" where
  "parse_physical pv r =
     (let header = lr_buffer r;
          a = unat (header ! 4); b = unat (header ! 5);
          t = unat (scast (header ! 6) :: u32);
          len = a + 256 * b in
      if kHeaderSize + len > length header
      then (kBadRecord, [], ReportCorruption (length header) ''bad record length'' (r\<lparr>lr_buffer := []\<rparr>))
      else if t = kZeroType \<and> len = 0 then (kBadRecord, [], r\<lparr>lr_buffer := []\<rparr>)
      else if lr_checksum r \<and> crc_Value pv (take (1 + len) (drop 6 header)) \<noteq> Unmask (DecodeFixed32 header)
      then (kBadRecord, [], ReportCorruption (length header) ''checksum mismatch'' (r\<lparr>lr_buffer := []\<rparr>))
      else let r1 = r\<lparr>lr_buffer := drop (kHeaderSize + len) header\<rparr> in
        if lr_end_of_buffer_offset r1 - of_nat (length (lr_buffer r1)) - of_nat kHeaderSize - of_nat len < lr_initial_offset r1
        then (kBadRecord, [], r1)
        else (t, take len (drop kHeaderSize header), r1))"

text \<open>The type of the record, its payload and the reader.  Reading on goes round the loop again.\<close>

function ReadPhysicalRecord :: "(bytes \<Rightarrow> bool) \<Rightarrow> nat \<Rightarrow> log_reader \<Rightarrow> nat \<times> bytes \<times> log_reader" where
  "ReadPhysicalRecord rd pv r =
     (if length (lr_buffer r) < kHeaderSize then
        (if \<not> lr_eof r then
           (if rd (lr_file r) then
              (let buf = take kBlockSize (lr_file r);
                   r1 = r\<lparr>lr_buffer := buf, lr_file := drop kBlockSize (lr_file r),
                     lr_end_of_buffer_offset := lr_end_of_buffer_offset r + of_nat (length buf)\<rparr> in
               ReadPhysicalRecord rd pv (if length buf < kBlockSize then r1\<lparr>lr_eof := True\<rparr> else r1))
            else (kEof, [], (ReportDrop kBlockSize (str ''IO error'') (r\<lparr>lr_buffer := []\<rparr>))\<lparr>lr_eof := True\<rparr>))
         else if lr_buffer r = [] then (kEof, [], r)
         else (kEof, [], ReportCorruption (length (lr_buffer r)) ''truncated record at end of file'' (r\<lparr>lr_buffer := []\<rparr>)))
      else parse_physical pv r)"
  by auto
termination
  by (relation "measure (\<lambda>(rd, pv, r). (if lr_eof r then 0 else 1) + (if length (lr_buffer r) < kHeaderSize then 1 else 0))")
    (auto simp: log_consts)

declare ReadPhysicalRecord.simps [simp del]

lemma Report_simps [simp]:
  "lr_buffer (ReportDrop n x r) = lr_buffer r" "lr_file (ReportDrop n x r) = lr_file r"
  "lr_buffer (ReportCorruption n y r) = lr_buffer r" "lr_file (ReportCorruption n y r) = lr_file r"
  "lr_eof (ReportDrop n x r) = lr_eof r" "lr_eof (ReportCorruption n y r) = lr_eof r"
  by (simp_all add: ReportCorruption_def ReportDrop_def)

lemma parse_consumes:
  "parse_physical pv r = (t, d, r') \<Longrightarrow> kHeaderSize \<le> length (lr_buffer r) \<Longrightarrow>
    length (lr_buffer r') < length (lr_buffer r) \<and> lr_file r' = lr_file r"
  by (auto simp: parse_physical_def Let_def log_consts split: if_split_asm)

lemma ReadPhysicalRecord_consumes:
  "ReadPhysicalRecord rd pv r = (t, d, r') \<Longrightarrow> t \<noteq> kEof \<Longrightarrow>
    length (lr_buffer r') + length (lr_file r') < length (lr_buffer r) + length (lr_file r)"
proof (induction rd pv r rule: ReadPhysicalRecord.induct)
  case (1 rd pv r)
  show ?case
  proof (cases "length (lr_buffer r) < kHeaderSize")
    case True
    let ?b = "take kBlockSize (lr_file r)"
    let ?r1 = "r\<lparr>lr_buffer := ?b, lr_file := drop kBlockSize (lr_file r),
        lr_end_of_buffer_offset := lr_end_of_buffer_offset r + of_nat (length ?b)\<rparr>"
    let ?r2 = "if length ?b < kBlockSize then ?r1\<lparr>lr_eof := True\<rparr> else ?r1"
    have c: "\<not> lr_eof r" "rd (lr_file r)" "ReadPhysicalRecord rd pv ?r2 = (t, d, r')"
      using 1(2,3) True unfolding ReadPhysicalRecord.simps [of rd pv r] by (auto simp: Let_def split: if_split_asm)
    then have "length (lr_buffer r') + length (lr_file r') < length (lr_buffer ?r2) + length (lr_file ?r2)"
      using 1(1) [OF True c(1,2) refl refl c(3) 1(3)] by simp
    then show ?thesis by (auto split: if_split_asm)
  next
    case False
    then show ?thesis using 1(2) parse_consumes [of pv r t d r'] unfolding ReadPhysicalRecord.simps [of rd pv r] by simp
  qed
qed

lemma physical_less:
  "(t, y) = ReadPhysicalRecord rd pv r \<Longrightarrow> (d, r') = y \<Longrightarrow> t \<noteq> kEof \<Longrightarrow>
    length (lr_buffer r') + length (lr_file r') < length (lr_buffer r) + length (lr_file r)"
  using ReadPhysicalRecord_consumes [of rd pv r t d r'] by simp

function log_read_loop :: "(bytes \<Rightarrow> bool) \<Rightarrow> nat \<Rightarrow> bool \<Rightarrow> bytes \<Rightarrow> u64 \<Rightarrow> log_reader \<Rightarrow> bytes option \<times> log_reader" where
  "log_read_loop rd pv in_frag scratch offset r =
     (let phys = lr_end_of_buffer_offset r - of_nat (length (lr_buffer r)) in
      case ReadPhysicalRecord rd pv r of (t, fragment, r1) \<Rightarrow>
        if t = kFullType then
          (Some fragment,
            (if in_frag \<and> scratch \<noteq> [] then ReportCorruption (length scratch) ''partial record without end(1)'' r1 else r1)
              \<lparr>lr_last_record_offset := phys\<rparr>)
        else if t = kFirstType then
          log_read_loop rd pv True fragment phys
            (if in_frag \<and> scratch \<noteq> [] then ReportCorruption (length scratch) ''partial record without end(2)'' r1 else r1)
        else if t = kMiddleType then
          (if \<not> in_frag
           then log_read_loop rd pv in_frag scratch offset
             (ReportCorruption (length fragment) ''missing start of fragmented record(1)'' r1)
           else log_read_loop rd pv in_frag (scratch @ fragment) offset r1)
        else if t = kLastType then
          (if \<not> in_frag
           then log_read_loop rd pv in_frag scratch offset
             (ReportCorruption (length fragment) ''missing start of fragmented record(2)'' r1)
           else (Some (scratch @ fragment), r1\<lparr>lr_last_record_offset := offset\<rparr>))
        else if t = kEof then
          (None, if in_frag then ReportCorruption (length scratch) ''partial record without end(3)'' r1 else r1)
        else if t = kBadRecord then
          (if in_frag
           then log_read_loop rd pv False [] offset (ReportCorruption (length scratch) ''error in middle of record'' r1)
           else log_read_loop rd pv in_frag scratch offset r1)
        else log_read_loop rd pv False [] offset
          (ReportDrop (length fragment + (if in_frag then length scratch else 0))
            (str ''unknown record type '' @ dec_of_nat t) r1))"
  by auto
termination
  by (relation "measure (\<lambda>(rd, pv, f, s, off, r). length (lr_buffer r) + length (lr_file r))",
      simp_all only: in_measure prod.case wf_measure)
    (drule (1) physical_less, simp add: log_consts, simp)+

declare log_read_loop.simps [simp del]

definition ReadRecord :: "(bytes \<Rightarrow> bool) \<Rightarrow> nat \<Rightarrow> log_reader \<Rightarrow> bytes option \<times> log_reader" where
  "ReadRecord rd pv r =
     (if lr_last_record_offset r < lr_initial_offset r then
        (case SkipToInitialBlock rd r of (ok, r1) \<Rightarrow> if ok then log_read_loop rd pv False [] 0 r1 else (None, r1))
      else log_read_loop rd pv False [] 0 r)"

section \<open>Physical records\<close>

text \<open>The format of a record, and a reader whose file has the bytes \<open>rest\<close> from the offset \<open>off\<close> of a block on.\<close>

definition physical :: "nat \<Rightarrow> bytes \<Rightarrow> bytes" where
  "physical t d = EncodeFixed32 (Mask (crc32c_reference 0 (of_nat t # d)))
     @ [of_nat (length d mod 256), of_nat (length d div 256), of_nat t] @ d"

definition in_sync :: "log_reader \<Rightarrow> nat \<Rightarrow> bytes \<Rightarrow> bool" where
  "in_sync r off rest \<longleftrightarrow> off \<le> kBlockSize \<and> lr_buffer r = take (kBlockSize - off) rest
     \<and> lr_file r = drop (kBlockSize - off) rest \<and> (lr_eof r \<longleftrightarrow> off + length rest < kBlockSize) \<and> lr_initial_offset r = 0"

definition trailer :: "nat \<Rightarrow> bytes" where
  "trailer off = (if kBlockSize - off < kHeaderSize then replicate (kBlockSize - off) 0 else [])"

definition next_offset :: "nat \<Rightarrow> nat" where
  "next_offset off = (if kBlockSize - off < kHeaderSize then 0 else off)"

lemma length_physical [simp]: "length (physical t d) = kHeaderSize + length d"
  by (simp add: physical_def log_consts)

lemma header_bytes:
  assumes "length d \<le> 0xffff"
  shows "unat ((physical t d @ q) ! 4) + 256 * unat ((physical t d @ q) ! 5) = length d"
    "(physical t d @ q) ! 6 = of_nat t" "DecodeFixed32 (physical t d @ q) = Mask (crc32c_reference 0 (of_nat t # d))"
    "drop 6 (physical t d @ q) = of_nat t # d @ q" "drop kHeaderSize (physical t d @ q) = d @ q"
proof -
  have b: "unat (of_nat (length d mod 256) :: byte) = length d mod 256" "unat (of_nat (length d div 256) :: byte) = length d div 256"
    using assms by (simp_all add: unat_of_nat)
  have n: "(physical t d @ q) ! 4 = of_nat (length d mod 256)" "(physical t d @ q) ! 5 = of_nat (length d div 256)"
    "(physical t d @ q) ! 6 = of_nat t"
    by (simp_all add: physical_def nth_append)
  show "unat ((physical t d @ q) ! 4) + 256 * unat ((physical t d @ q) ! 5) = length d"
    unfolding n b by simp
  show "(physical t d @ q) ! 6 = of_nat t" by (rule n)
qed (simp_all add: physical_def log_consts)

lemma type_of_byte: "t \<in> {1, 2, 3, 4} \<Longrightarrow> unat (scast (of_nat t :: byte) :: u32) = t"
  by auto

lemma parse_physical_ok:
  assumes "lr_buffer r = physical t d @ q" and d: "length d \<le> 0xffff" and t: "t \<in> {1, 2, 3, 4}" and "lr_initial_offset r = 0"
  shows "parse_physical pv r = (t, d, r\<lparr>lr_buffer := q\<rparr>)"
  using assms header_bytes [OF d, of t q] type_of_byte [OF t] t
  by (auto simp: parse_physical_def Let_def crc_Value_def Extend_reference Unmask_Mask log_consts)

lemma switch_read:
  assumes s: "in_sync r off (trailer off @ rest)" and rd: "\<forall>f. rd f"
  obtains r' where "ReadPhysicalRecord rd pv r = ReadPhysicalRecord rd pv r'" and "in_sync r' (next_offset off) rest"
    and "lr_reports r' = lr_reports r"
proof (cases "kBlockSize - off < kHeaderSize")
  case True
  have b: "length (lr_buffer r) < kHeaderSize" "lr_file r = rest" "\<not> lr_eof r" "lr_initial_offset r = 0"
    using s True by (auto simp: in_sync_def trailer_def)
  let ?b = "take kBlockSize rest"
  let ?r1 = "r\<lparr>lr_buffer := ?b, lr_file := drop kBlockSize rest,
      lr_end_of_buffer_offset := lr_end_of_buffer_offset r + of_nat (length ?b)\<rparr>"
  let ?r2 = "if length ?b < kBlockSize then ?r1\<lparr>lr_eof := True\<rparr> else ?r1"
  show ?thesis
  proof (rule that [of ?r2])
    show "ReadPhysicalRecord rd pv r = ReadPhysicalRecord rd pv ?r2"
      using b rd by (subst ReadPhysicalRecord.simps) (simp add: Let_def)
    show "in_sync ?r2 (next_offset off) rest" "lr_reports ?r2 = lr_reports r"
      using True b by (auto simp: in_sync_def next_offset_def)
  qed
next
  case False
  then show ?thesis using that [of r] s by (simp add: trailer_def next_offset_def)
qed

lemma fragment_read:
  assumes s: "in_sync r off (trailer off @ physical t d @ rest)" and fits: "next_offset off + kHeaderSize + length d \<le> kBlockSize"
    and t: "t \<in> {1, 2, 3, 4}" and rd: "\<forall>f. rd f"
  obtains r' where "ReadPhysicalRecord rd pv r = (t, d, r')" and "in_sync r' (next_offset off + kHeaderSize + length d) rest"
    and "lr_reports r' = lr_reports r"
proof -
  obtain r1 where r1: "ReadPhysicalRecord rd pv r = ReadPhysicalRecord rd pv r1"
    "in_sync r1 (next_offset off) (physical t d @ rest)" "lr_reports r1 = lr_reports r"
    by (rule switch_read [OF s rd])
  let ?q = "take (kBlockSize - (next_offset off + kHeaderSize + length d)) rest"
  have b: "lr_buffer r1 = physical t d @ ?q" "lr_initial_offset r1 = 0"
    "lr_file r1 = drop (kBlockSize - (next_offset off + kHeaderSize + length d)) rest"
    "lr_eof r1 \<longleftrightarrow> next_offset off + kHeaderSize + length d + length rest < kBlockSize"
    using r1(2) fits by (simp_all add: in_sync_def diff_diff_add add.assoc)
  have d: "length d \<le> 0xffff" using fits by (simp add: log_consts)
  have "ReadPhysicalRecord rd pv r1 = (t, d, r1\<lparr>lr_buffer := ?q\<rparr>)"
    using parse_physical_ok [OF b(1) d t b(2), of pv] b(1) by (subst ReadPhysicalRecord.simps) simp
  then show ?thesis
    using that [of "r1\<lparr>lr_buffer := ?q\<rparr>"] r1(1,3) b fits by (simp add: in_sync_def)
qed

text \<open>At the end of the file nothing more is returned, whatever is left of a record.\<close>

lemma end_read:
  assumes "lr_eof r" and "length (lr_buffer r) < kHeaderSize"
  shows "fst (log_read_loop rd pv f scratch po r) = None"
    "lr_buffer r = [] \<Longrightarrow> log_read_loop rd pv False scratch po r = (None, r)"
proof -
  have "\<exists>r'. ReadPhysicalRecord rd pv r = (kEof, [], r')"
    using assms by (subst ReadPhysicalRecord.simps) simp
  then show "fst (log_read_loop rd pv f scratch po r) = None"
    by (subst log_read_loop.simps) (auto simp: Let_def log_consts)
  assume "lr_buffer r = []"
  then have "ReadPhysicalRecord rd pv r = (kEof, [], r)" using assms by (subst ReadPhysicalRecord.simps) simp
  then show "log_read_loop rd pv False scratch po r = (None, r)" by (subst log_read_loop.simps) (simp add: Let_def log_consts)
qed

definition stops :: "nat \<times> bytes \<times> log_reader \<Rightarrow> bool" where
  "stops x \<longleftrightarrow> (case x of (t, d, r) \<Rightarrow> t = kEof \<or> t = kBadRecord \<and> lr_eof r \<and> lr_buffer r = [])"

lemma stops_read:
  assumes "stops (ReadPhysicalRecord rd pv r)"
  shows "fst (log_read_loop rd pv f scratch po r) = None"
proof -
  obtain t d r' where r': "ReadPhysicalRecord rd pv r = (t, d, r')" by (cases "ReadPhysicalRecord rd pv r")
  have "fst (log_read_loop rd pv g s o1 (ReportCorruption n x r')) = None" "fst (log_read_loop rd pv g s o1 r') = None"
    if "lr_eof r'" "lr_buffer r' = []" for g s o1 n x
    using that by (intro end_read(1); simp add: log_consts)+
  then show ?thesis
    using assms r' by (subst log_read_loop.simps) (auto simp: stops_def Let_def log_consts)
qed

lemma end_stops: "lr_eof r \<Longrightarrow> length (lr_buffer r) < kHeaderSize \<Longrightarrow> stops (ReadPhysicalRecord rd pv r)"
  by (subst ReadPhysicalRecord.simps) (simp add: stops_def)

lemma cut_record_stops:
  assumes buf: "lr_buffer r = take j (physical t d)" and j: "j < kHeaderSize + length d" and d: "length d \<le> 0xffff" and eof: "lr_eof r"
  shows "stops (ReadPhysicalRecord rd pv r)"
proof (cases "j < kHeaderSize")
  case True
  then show ?thesis using end_stops [OF eof] buf by simp
next
  case False
  have l: "length (lr_buffer r) = j" using buf j by simp
  have "lr_buffer r ! 4 = (physical t d @ []) ! 4" "lr_buffer r ! 5 = (physical t d @ []) ! 5"
    using False buf by (simp_all add: log_consts)
  then have "unat (lr_buffer r ! 4) + 256 * unat (lr_buffer r ! 5) = length d" using header_bytes(1) [OF d, of t "[]"] by simp
  then show ?thesis
    using l j False eof by (subst ReadPhysicalRecord.simps) (simp add: parse_physical_def Let_def stops_def)
qed

lemma cut_read:
  assumes s: "in_sync r off (take n (trailer off @ physical t d))" and n: "n < length (trailer off @ physical t d)"
    and fits: "next_offset off + kHeaderSize + length d \<le> kBlockSize" and rd: "\<forall>f. rd f"
  shows "fst (log_read_loop rd pv f scratch po r) = None"
proof (cases "n < length (trailer off)")
  case True
  then have t: "kBlockSize - off < kHeaderSize" "n < kBlockSize - off" by (auto simp: trailer_def split: if_split_asm)
  then have "lr_eof r" "length (lr_buffer r) < kHeaderSize" using s True by (auto simp: in_sync_def trailer_def)
  then show ?thesis by (rule end_read(1))
next
  case False
  let ?j = "n - length (trailer off)"
  have q: "in_sync r off (trailer off @ take ?j (physical t d))" using s False by simp
  obtain r1 where r1: "ReadPhysicalRecord rd pv r = ReadPhysicalRecord rd pv r1"
    "in_sync r1 (next_offset off) (take ?j (physical t d))"
    by (rule switch_read [OF q rd])
  have j: "?j < kHeaderSize + length d" using n False by simp
  have b: "lr_buffer r1 = take ?j (physical t d)" "lr_eof r1"
    using r1(2) j fits by (simp_all add: in_sync_def min_def)
  have d: "length d \<le> 0xffff" using fits by (simp add: log_consts)
  have "stops (ReadPhysicalRecord rd pv r)" unfolding r1(1) by (rule cut_record_stops [OF b(1) j d b(2)])
  then show ?thesis by (rule stops_read)
qed

section \<open>Records\<close>

definition good_file :: "file_api \<Rightarrow> bool" where
  "good_file app \<longleftrightarrow> (\<forall>f d. fa_takes app f d) \<and> (\<forall>f. fa_flushes app f)"

definition writer_ok :: "log_writer \<Rightarrow> bool" where
  "writer_ok w \<longleftrightarrow> lw_block_offset w \<le> kBlockSize \<and> (\<forall>t \<in> {1, 2, 3, 4}. lw_type_crc w ! t = crc32c_reference 0 [of_nat t])"

lemma Emit_ok:
  assumes "good_file app" and "writer_ok w" and "t \<in> {1, 2, 3, 4}" and "lw_block_offset w + kHeaderSize + length d \<le> kBlockSize"
  shows "EmitPhysicalRecord app pv t d w = Inr (StatusOK, w\<lparr>lw_dest := lw_dest w @ physical t d,
    lw_block_offset := lw_block_offset w + kHeaderSize + length d\<rparr>)"
proof -
  have "length d \<le> 0xffff" using assms(4) by (simp add: log_consts)
  moreover have "Extend pv (lw_type_crc w ! t) d = crc32c_reference 0 (of_nat t # d)"
    using assms(2,3) crc32c_reference_append [of 0 "[of_nat t]" d] by (auto simp: writer_ok_def Extend_reference)
  ultimately show ?thesis
    using assms(1,4) by (simp add: EmitPhysicalRecord_def Let_def file_Append_def good_file_def physical_def not_less)
qed

lemma switch_block_ok:
  assumes "good_file app" and "lw_block_offset w \<le> kBlockSize"
  shows "switch_block app w = w\<lparr>lw_dest := lw_dest w @ trailer (lw_block_offset w), lw_block_offset := next_offset (lw_block_offset w)\<rparr>"
  using assms by (auto simp: switch_block_def Let_def trailer_def next_offset_def file_Append_def good_file_def)

lemma fragment_type_range: "fragment_type x y \<in> {1, 2, 3, 4}"
  by (simp add: fragment_type_def log_consts)

text \<open>What a record is in the file from the offset \<open>off\<close> of a block on: it is returned when all of it is
  there, and nothing is when it was cut short.\<close>

definition readable_as :: "(bytes \<Rightarrow> bool) \<Rightarrow> nat \<Rightarrow> bool \<Rightarrow> bytes \<Rightarrow> nat \<Rightarrow> nat \<Rightarrow> bytes \<Rightarrow> bool" where
  "readable_as rd pv b data off off' out \<longleftrightarrow> out \<noteq> []
     \<and> (\<forall>r rest scratch po. in_sync r off (out @ rest) \<longrightarrow> (b \<longrightarrow> scratch = []) \<longrightarrow>
          (\<exists>r'. log_read_loop rd pv (\<not> b) scratch po r = (Some (scratch @ data), r') \<and> in_sync r' off' rest
             \<and> lr_reports r' = lr_reports r))
     \<and> (\<forall>r n scratch po. in_sync r off (take n out) \<longrightarrow> n < length out \<longrightarrow> fst (log_read_loop rd pv (\<not> b) scratch po r) = None)"

lemma readable_asD:
  assumes "readable_as rd pv b data off off' out"
  shows "out \<noteq> []"
    "in_sync r off (out @ rest) \<Longrightarrow> b \<longrightarrow> scratch = [] \<Longrightarrow>
      \<exists>r'. log_read_loop rd pv (\<not> b) scratch po r = (Some (scratch @ data), r') \<and> in_sync r' off' rest \<and> lr_reports r' = lr_reports r"
    "in_sync r off (take n out) \<Longrightarrow> n < length out \<Longrightarrow> fst (log_read_loop rd pv (\<not> b) scratch po r) = None"
  using assms unfolding readable_as_def by blast+

lemma last_fragment:
  assumes rd: "\<forall>f. rd f" and fits: "next_offset off + kHeaderSize + length d \<le> kBlockSize"
  shows "readable_as rd pv b d off (next_offset off + kHeaderSize + length d) (trailer off @ physical (fragment_type b True) d)"
  unfolding readable_as_def
proof (intro conjI allI impI)
  fix r rest and scratch :: bytes and po
  assume s: "in_sync r off ((trailer off @ physical (fragment_type b True) d) @ rest)" and c: "b \<longrightarrow> scratch = []"
  obtain r' where r': "ReadPhysicalRecord rd pv r = (fragment_type b True, d, r')"
    "in_sync r' (next_offset off + kHeaderSize + length d) rest" "lr_reports r' = lr_reports r"
    by (rule fragment_read [OF s [unfolded append_assoc] fits fragment_type_range rd])
  then show "\<exists>r'. log_read_loop rd pv (\<not> b) scratch po r = (Some (scratch @ d), r')
      \<and> in_sync r' (next_offset off + kHeaderSize + length d) rest \<and> lr_reports r' = lr_reports r"
    using c by (subst log_read_loop.simps) (auto simp: Let_def fragment_type_def log_consts in_sync_def)
next
  show "trailer off @ physical (fragment_type b True) d \<noteq> []" by (simp add: physical_def)
  show "fst (log_read_loop rd pv (\<not> b) scratch po r) = None"
    if "in_sync r off (take n (trailer off @ physical (fragment_type b True) d))"
      "n < length (trailer off @ physical (fragment_type b True) d)" for r n scratch po
    by (rule cut_read [OF that fits rd])
qed

lemma read_on:
  assumes "ReadPhysicalRecord rd pv r = (fragment_type b False, d, r1)"
  shows "log_read_loop rd pv (\<not> b) scratch po r = log_read_loop rd pv True (if b then d else scratch @ d)
    (if b then lr_end_of_buffer_offset r - of_nat (length (lr_buffer r)) else po) r1"
  using assms by (subst log_read_loop.simps) (simp add: Let_def fragment_type_def log_consts)

lemma more_fragments:
  assumes rd: "\<forall>f. rd f" and fits: "next_offset off + kHeaderSize + length d \<le> kBlockSize"
    and rest: "readable_as rd pv False data (next_offset off + kHeaderSize + length d) off' out"
  shows "readable_as rd pv b (d @ data) off off' (trailer off @ physical (fragment_type b False) d @ out)"
  unfolding readable_as_def
proof (intro conjI allI impI)
  fix r more and scratch :: bytes and po
  assume s: "in_sync r off ((trailer off @ physical (fragment_type b False) d @ out) @ more)" and c: "b \<longrightarrow> scratch = []"
  obtain r1 where r1: "ReadPhysicalRecord rd pv r = (fragment_type b False, d, r1)"
    "in_sync r1 (next_offset off + kHeaderSize + length d) (out @ more)" "lr_reports r1 = lr_reports r"
    by (rule fragment_read [OF s [unfolded append_assoc] fits fragment_type_range rd])
  have "(if b then d else scratch @ d) = scratch @ d" using c by simp
  with read_on [OF r1(1), of scratch po] readable_asD(2) [OF rest r1(2), of "scratch @ d"] r1(3) show "\<exists>r'. log_read_loop rd pv (\<not> b) scratch po r = (Some (scratch @ d @ data), r')
      \<and> in_sync r' off' more \<and> lr_reports r' = lr_reports r"
    by simp
next
  show "trailer off @ physical (fragment_type b False) d @ out \<noteq> []" by (simp add: physical_def)
  fix r n and scratch :: bytes and po
  let ?one = "trailer off @ physical (fragment_type b False) d"
  assume s: "in_sync r off (take n (trailer off @ physical (fragment_type b False) d @ out))"
    and n: "n < length (trailer off @ physical (fragment_type b False) d @ out)"
  show "fst (log_read_loop rd pv (\<not> b) scratch po r) = None"
  proof (cases "n < length ?one")
    case True
    then show ?thesis using cut_read [OF _ True fits rd] s by simp
  next
    case False
    then have s': "in_sync r off (trailer off @ physical (fragment_type b False) d @ take (n - length ?one) out)" using s by simp
    obtain r1 where r1: "ReadPhysicalRecord rd pv r = (fragment_type b False, d, r1)"
      "in_sync r1 (next_offset off + kHeaderSize + length d) (take (n - length ?one) out)"
      by (rule fragment_read [OF s' fits fragment_type_range rd])
    have "n - length ?one < length out" using n False by simp
    then show ?thesis
      using readable_asD(3) [OF rest r1(2)] unfolding read_on [OF r1(1), of scratch po] by simp
  qed
qed

lemma add_loop_ok:
  assumes app: "good_file app" and rd: "\<forall>f. rd f" and "writer_ok w"
  shows "\<exists>w' out. add_loop app pv b data w = Inr (StatusOK, w') \<and> lw_dest w' = lw_dest w @ out \<and> writer_ok w'
    \<and> readable_as rd pv' b data (lw_block_offset w) (lw_block_offset w') out"
  using assms(1,3)
proof (induction app pv b data w rule: add_loop.induct)
  case (1 app pv b data w)
  let ?off = "lw_block_offset w"
  let ?w1 = "switch_block app w"
  let ?avail = "kBlockSize - lw_block_offset ?w1 - kHeaderSize"
  let ?n = "if length data < ?avail then length data else ?avail"
  let ?d = "take ?n data" and ?t = "fragment_type b (length data = ?n)"
  have off: "?off \<le> kBlockSize" using 1(3) by (simp add: writer_ok_def)
  have w1: "?w1 = w\<lparr>lw_dest := lw_dest w @ trailer ?off, lw_block_offset := next_offset ?off\<rparr>"
    by (rule switch_block_ok [OF 1(2) off])
  then have ok1: "writer_ok ?w1" using 1(3) off by (auto simp: writer_ok_def next_offset_def)
  have room: "next_offset ?off + kHeaderSize \<le> kBlockSize" using off by (auto simp: next_offset_def log_consts)
  have ld: "length ?d = ?n" by simp
  have fits: "next_offset ?off + kHeaderSize + length ?d \<le> kBlockSize" using room w1 unfolding ld by (simp add: less_diff_conv)
  let ?w2 = "?w1\<lparr>lw_dest := lw_dest ?w1 @ physical ?t ?d, lw_block_offset := lw_block_offset ?w1 + kHeaderSize + length ?d\<rparr>"
  have em: "EmitPhysicalRecord app pv ?t ?d ?w1 = Inr (StatusOK, ?w2)"
    by (rule Emit_ok [OF 1(2) ok1 fragment_type_range]) (use fits w1 in simp)
  have ok2: "writer_ok ?w2" using ok1 fits w1 by (simp add: writer_ok_def)
  have o2: "lw_block_offset ?w2 = next_offset ?off + kHeaderSize + length ?d" using w1 by simp
  have d2: "lw_dest ?w2 = lw_dest w @ trailer ?off @ physical ?t ?d" using w1 by simp
  show ?case
  proof (cases "length data - ?n > 0")
    case True
    have loop: "add_loop app pv b data w = add_loop app (pv + ?n) False (drop ?n data) ?w2"
      using off True em by (subst add_loop.simps) (simp only: Let_def and_then.simps prod.case not_less simp_thms if_True if_False, simp)
    obtain w' out where ih: "add_loop app (pv + ?n) False (drop ?n data) ?w2 = Inr (StatusOK, w')"
        "lw_dest w' = lw_dest ?w2 @ out" "writer_ok w'"
        "readable_as rd pv' False (drop ?n data) (lw_block_offset ?w2) (lw_block_offset w') out"
      using 1(1) [OF leD [OF off] refl refl refl em refl conjI [OF refl True] 1(2) ok2] by (elim exE conjE)
    have "(length data = ?n) = False" using True by auto
    then have t: "?t = fragment_type b False" by (rule arg_cong)
    show ?thesis
      using more_fragments [OF rd fits ih(4) [unfolded o2], of b, folded t] loop ih(1-3) d2
      by (intro exI [of _ w'] exI [of _ "trailer ?off @ physical ?t ?d @ out"]) (simp only: append_take_drop_id append_assoc simp_thms)
  next
    case False
    then have e: "length data = ?n" "?d = data" by auto
    have "add_loop app pv b data w = Inr (StatusOK, ?w2)"
      using off False em by (subst add_loop.simps) (simp only: Let_def and_then.simps prod.case not_less simp_thms if_True if_False, simp)
    moreover have "(length data = ?n) = True" using e(1) by (rule eqTrueI)
    then have t: "?t = fragment_type b True" by (rule arg_cong)
    have "readable_as rd pv' b data ?off (lw_block_offset ?w2) (trailer ?off @ physical ?t ?d)"
      using last_fragment [OF rd fits, of pv' b, folded t] unfolding o2 by (simp only: e(2))
    ultimately show ?thesis using d2 ok2 by blast
  qed
qed

section \<open>Recovery\<close>

text \<open>Writing records one after the other, and reading them: \<open>log_reads\<close> gives the reader at the end when
  exactly these records are returned.\<close>

fun add_records :: "file_api \<Rightarrow> nat \<Rightarrow> bytes list \<Rightarrow> log_writer \<Rightarrow> (status \<times> log_writer) result" where
  "add_records app pv [] w = Inr (StatusOK, w)"
| "add_records app pv (x # xs) w =
     and_then (AddRecord app pv x w) (\<lambda>(s, w1). if s = StatusOK then add_records app pv xs w1 else Inr (s, w1))"

fun log_reads :: "(bytes \<Rightarrow> bool) \<Rightarrow> nat \<Rightarrow> log_reader \<Rightarrow> bytes list \<Rightarrow> log_reader option" where
  "log_reads rd pv r [] = (case ReadRecord rd pv r of (None, r1) \<Rightarrow> Some r1 | _ \<Rightarrow> None)"
| "log_reads rd pv r (x # xs) =
     (case ReadRecord rd pv r of (Some y, r1) \<Rightarrow> if y = x then log_reads rd pv r1 xs else None | _ \<Rightarrow> None)"

lemma ReadRecord_sync: "in_sync r off q \<Longrightarrow> ReadRecord rd pv r = log_read_loop rd pv False [] 0 r"
  by (simp add: ReadRecord_def in_sync_def)

lemma ReadRecord_none:
  "in_sync r off q \<Longrightarrow> fst (log_read_loop rd pv False [] 0 r) = None \<Longrightarrow> \<exists>r'. log_reads rd pv r [] = Some r'"
  by (cases "log_read_loop rd pv False [] 0 r") (simp add: ReadRecord_sync)

text \<open>The end of a whole log: nothing is returned and nothing reported.\<close>

lemma end_of_log:
  assumes s: "in_sync r off []" and rd: "\<forall>f. rd f"
  obtains r' where "log_read_loop rd pv False [] 0 r = (None, r')" and "lr_reports r' = lr_reports r"
proof (cases "lr_eof r")
  case True
  then have "log_read_loop rd pv False [] 0 r = (None, r)" using s by (intro end_read(2)) (auto simp: in_sync_def log_consts)
  then show ?thesis using that by blast
next
  case False
  let ?r1 = "r\<lparr>lr_buffer := [], lr_file := [], lr_eof := True\<rparr>"
  have b: "lr_buffer r = []" "lr_file r = []" using s by (simp_all add: in_sync_def)
  have "ReadPhysicalRecord rd pv ?r1 = (kEof, [], ?r1)" by (subst ReadPhysicalRecord.simps) (simp add: log_consts)
  then have "ReadPhysicalRecord rd pv r = (kEof, [], ?r1)"
    using b False rd by (subst ReadPhysicalRecord.simps) (simp add: Let_def log_consts)
  then have "log_read_loop rd pv False [] 0 r = (None, ?r1)" by (subst log_read_loop.simps) (simp add: Let_def log_consts)
  then show ?thesis using that by simp
qed

lemma records_read:
  assumes app: "good_file app" and rd: "\<forall>f. rd f" and "writer_ok w"
  shows "\<exists>w' out. add_records app pv xs w = Inr (StatusOK, w') \<and> lw_dest w' = lw_dest w @ out
    \<and> (\<forall>r n. in_sync r (lw_block_offset w) (take n out) \<longrightarrow> (\<exists>k r'. log_reads rd pv' r (take k xs) = Some r'
         \<and> (length out \<le> n \<longrightarrow> length xs \<le> k \<and> lr_reports r' = lr_reports r)))"
  using assms(3)
proof (induction xs arbitrary: w)
  case Nil
  have "\<exists>r'. log_reads rd pv' r [] = Some r' \<and> lr_reports r' = lr_reports r" if "in_sync r off []" for r off
    by (rule end_of_log [OF that rd, of pv']) (simp add: ReadRecord_sync [OF that])
  then show ?case by (simp add: exI [of _ "[]"])
next
  case (Cons x xs)
  obtain w1 out1 where w1: "AddRecord app pv x w = Inr (StatusOK, w1)" "lw_dest w1 = lw_dest w @ out1" "writer_ok w1"
    and ra: "readable_as rd pv' True x (lw_block_offset w) (lw_block_offset w1) out1"
    using add_loop_ok [OF app rd Cons.prems, of pv True x pv'] unfolding AddRecord_def by blast
  obtain w2 out2 where w2: "add_records app pv xs w1 = Inr (StatusOK, w2)" "lw_dest w2 = lw_dest w1 @ out2"
    and ih: "\<forall>r n. in_sync r (lw_block_offset w1) (take n out2) \<longrightarrow> (\<exists>k r'. log_reads rd pv' r (take k xs) = Some r'
         \<and> (length out2 \<le> n \<longrightarrow> length xs \<le> k \<and> lr_reports r' = lr_reports r))"
    using Cons.IH [OF w1(3)] by blast
  have "\<exists>k r'. log_reads rd pv' r (take k (x # xs)) = Some r'
      \<and> (length (out1 @ out2) \<le> n \<longrightarrow> length (x # xs) \<le> k \<and> lr_reports r' = lr_reports r)"
    if s: "in_sync r (lw_block_offset w) (take n (out1 @ out2))" for r n
  proof (cases "n < length out1")
    case True
    then have s1: "in_sync r (lw_block_offset w) (take n out1)" using s by simp
    have "\<exists>r'. log_reads rd pv' r [] = Some r'"
      by (rule ReadRecord_none [OF s1]) (use readable_asD(3) [OF ra s1 True, of "[]" 0] in simp)
    then show ?thesis using True by (intro exI [of _ 0]) simp
  next
    case False
    then have "in_sync r (lw_block_offset w) (out1 @ take (n - length out1) out2)" using s by simp
    from readable_asD(2) [OF ra this, of "[]" 0] obtain r1 where
      r1: "log_read_loop rd pv' False [] 0 r = (Some x, r1)" "in_sync r1 (lw_block_offset w1) (take (n - length out1) out2)"
        "lr_reports r1 = lr_reports r" by auto
    obtain k r' where "log_reads rd pv' r1 (take k xs) = Some r'"
      "length out2 \<le> n - length out1 \<longrightarrow> length xs \<le> k \<and> lr_reports r' = lr_reports r1"
      using ih r1(2) by blast
    then show ?thesis using r1 False ReadRecord_sync [OF s] by (intro exI [of _ "Suc k"] exI [of _ r']) auto
  qed
  then show ?case using w1(1,2) w2 by (intro exI [of _ w2] exI [of _ "out1 @ out2"]) simp
qed

text \<open>A new log: writing starts at the start of a block, reading before the first block is read.\<close>

lemma add_loop_block:
  "add_loop app pv b data (w\<lparr>lw_block_offset := 0\<rparr>) = add_loop app pv b data (w\<lparr>lw_block_offset := kBlockSize\<rparr>)"
proof -
  have "switch_block app (w\<lparr>lw_block_offset := 0\<rparr>) = switch_block app (w\<lparr>lw_block_offset := kBlockSize\<rparr>)"
    by (simp add: switch_block_def log_consts)
  then show ?thesis by (subst (1 2) add_loop.simps) (simp only: Let_def, simp)
qed

lemma newReader_sync: "in_sync (newReader f rep chk 0) kBlockSize f"
  by (simp add: in_sync_def newReader_def)

text \<open>C36: the log survives a crash.  Writing any records to a file that takes them succeeds.  Reading the
  file gives back exactly these records, however they were cut into fragments and blocks, and reports
  no corruption; reading what is left when the file was cut short anywhere gives a prefix of the
  records, and never a piece of one or anything else.\<close>

theorem log_recovery:
  assumes "good_file app" and "\<forall>f. rd f"
  shows "\<exists>w. add_records app pv xs (newWriter p []) = Inr (StatusOK, w)
    \<and> (\<exists>r. log_reads rd pv' (newReader (lw_dest w) rep chk 0) xs = Some r \<and> lr_reports r = [])
    \<and> (\<forall>n. \<exists>k r. log_reads rd pv' (newReader (take n (lw_dest w)) rep chk 0) (take k xs) = Some r)"
proof -
  let ?w = "(newWriter p [])\<lparr>lw_block_offset := kBlockSize\<rparr>"
  have type: "[0..<5] = [0, 1, 2, 3, 4 :: nat]" by (simp add: upt_rec)
  have "writer_ok ?w"
    by (simp add: writer_ok_def newWriter_def kMaxRecordType_def kLastType_def type crc_Value_def Extend_reference)
  from records_read [OF assms this, of pv xs pv'] obtain w out where
    w: "add_records app pv xs ?w = Inr (StatusOK, w)" "lw_dest w = out"
    and rd: "\<And>r n. in_sync r kBlockSize (take n out) \<Longrightarrow> \<exists>k r'. log_reads rd pv' r (take k xs) = Some r'
      \<and> (length out \<le> n \<longrightarrow> length xs \<le> k \<and> lr_reports r' = lr_reports r)"
    by (auto simp: newWriter_def)
  have "\<exists>w'. add_records app pv xs (newWriter p []) = Inr (StatusOK, w') \<and> lw_dest w' = out"
  proof (cases xs)
    case Nil
    then show ?thesis using w by (auto simp: newWriter_def)
  next
    case (Cons x ys)
    have "newWriter p [] = (newWriter p [])\<lparr>lw_block_offset := 0\<rparr>" by (simp add: newWriter_def)
    then have "AddRecord app pv x (newWriter p []) = AddRecord app pv x ?w"
      unfolding AddRecord_def by (metis add_loop_block)
    then show ?thesis using w Cons by simp
  qed
  then obtain w' where w': "add_records app pv xs (newWriter p []) = Inr (StatusOK, w')" "lw_dest w' = out" by blast
  have "lr_reports (newReader f rep chk 0) = []" for f by (simp add: newReader_def)
  then have "\<exists>r. log_reads rd pv' (newReader out rep chk 0) xs = Some r \<and> lr_reports r = []"
    using rd [of "newReader out rep chk 0" "length out"] newReader_sync [of out] by auto
  moreover have "\<exists>k r. log_reads rd pv' (newReader (take n out) rep chk 0) (take k xs) = Some r" for n
    using rd [OF newReader_sync] by blast
  ultimately show ?thesis using w' by blast
qed

theorem log_recovery_witness:
  "\<exists>w. add_records \<lparr>fa_takes = \<lambda>_ _. True, fa_flushes = \<lambda>_. True\<rparr> 0 [[1, 2], [], replicate 40000 7] (newWriter 0 []) = Inr (StatusOK, w)
    \<and> (\<exists>r. log_reads (\<lambda>_. True) 0 (newReader (lw_dest w) True True 0) [[1, 2], [], replicate 40000 7] = Some r \<and> lr_reports r = [])"
  using log_recovery [of "\<lparr>fa_takes = \<lambda>_ _. True, fa_flushes = \<lambda>_. True\<rparr>" "\<lambda>_. True" 0 "[[1, 2], [], replicate 40000 7]" 0 0 True True]
  by (auto simp: good_file_def)

end
