(* ===== verification/Ldb_Skip_Iter.thy ===== *)
theory Ldb_Skip_Iter
  imports Ldb_Skip_List
begin

text \<open>
  The iterator of the skip list (\<open>SkipList::Iterator\<close> in \<open>lib/leveldb/db/skiplist.h\<close>): a node, or the null
  pointer when it is not valid.
\<close>

section \<open>Operations\<close>

definition iter_Valid :: "nat option \<Rightarrow> bool" where
  "iter_Valid it \<longleftrightarrow> it \<noteq> None"

definition iter_key :: "'k skiplist \<Rightarrow> nat option \<Rightarrow> 'k result" where
  "iter_key l it = (case it of None \<Rightarrow> Inl (Thrown ''assert'') | Some x \<Rightarrow> Inr (sl_key l x))"

definition iter_Next :: "'k skiplist \<Rightarrow> nat option \<Rightarrow> nat option result" where
  "iter_Next l it = (case it of None \<Rightarrow> Inl (Thrown ''assert'') | Some x \<Rightarrow> Node_Next l x 0)"

definition iter_Prev :: "('k \<Rightarrow> 'k \<Rightarrow> int) \<Rightarrow> 'k skiplist \<Rightarrow> nat option \<Rightarrow> nat option result option" where
  "iter_Prev cmp l it = (case it of None \<Rightarrow> Some (Inl (Thrown ''assert''))
     | Some x \<Rightarrow> opt_then (FindLessThan cmp l (sl_key l x)) (\<lambda>y. Some (Inr (if y = 0 then None else Some y))))"

definition iter_Seek :: "('k \<Rightarrow> 'k \<Rightarrow> int) \<Rightarrow> 'k skiplist \<Rightarrow> 'k \<Rightarrow> nat option result option" where
  "iter_Seek cmp l target =
     opt_then (FindGreaterOrEqual cmp l target (replicate kMaxHeight 0)) (\<lambda>(x, _). Some (Inr x))"

definition iter_SeekToFirst :: "'k skiplist \<Rightarrow> nat option result" where
  "iter_SeekToFirst l = Node_Next l 0 0"

definition iter_SeekToLast :: "'k skiplist \<Rightarrow> nat option result option" where
  "iter_SeekToLast l = opt_then (FindLast l) (\<lambda>y. Some (Inr (if y = 0 then None else Some y)))"

section \<open>Searching backwards\<close>

text \<open>\<open>FindLessThan\<close> follows the same links as \<open>FindGreaterOrEqual\<close> and stops at the last predecessor.\<close>

lemma find_less_step:
  assumes "Node_Next l x level = Inr nxt"
  shows "find_less cmp l key x level = (if KeyIsAfterNode cmp l key nxt then find_less cmp l key (the nxt) level
    else if level = 0 then Some (Inr x) else find_less cmp l key x (level - 1))"
  using assms by (subst find_less.simps) (auto simp: KeyIsAfterNode_def split: option.split)

context comparator
begin

lemma find_less_walk:
  assumes inv: "sl_inv cmp l xs" and i: "i < sl_max_height l" and "at_level l i xs = as @ bs"
    and "\<forall>a \<in> set as. below cmp l key a"
  shows "find_less cmp l key (List.last (0 # as)) i
    = (if i = 0 then Some (Inr (pred_at cmp l key xs i)) else find_less cmp l key (pred_at cmp l key xs i) (i - 1))"
  using assms(3,4)
proof (induction bs arbitrary: as)
  case Nil
  then have "takeWhile (below cmp l key) (at_level l i xs) = as" by (simp add: takeWhile_eq_all_conv)
  then have p: "pred_at cmp l key xs i = List.last (0 # as)" by (simp only: pred_at_def)
  show ?case
    using find_less_step [OF node_ok [OF inv Nil(1) i]] unfolding p by (simp add: first_def KeyIsAfterNode_def del: last.simps)
next
  case (Cons b bs)
  note step = find_less_step [OF node_ok [OF inv Cons.prems(1) i], of cmp key]
  show ?case
  proof (cases "below cmp l key b")
    case True
    then show ?thesis
      using step Cons.IH [of "as @ [b]"] Cons.prems by (simp add: first_def KeyIsAfterNode_def below_def)
  next
    case False
    then have "takeWhile (below cmp l key) (at_level l i xs) = as" using Cons.prems by (simp add: takeWhile_append2)
    then have p: "pred_at cmp l key xs i = List.last (0 # as)" by (simp only: pred_at_def)
    show ?thesis using step False unfolding p by (simp add: first_def KeyIsAfterNode_def below_def del: last.simps)
  qed
qed

lemma find_less_ok:
  assumes inv: "sl_inv cmp l xs" and "i < sl_max_height l" and "at_level l i xs = as @ bs" and "\<forall>a \<in> set as. below cmp l key a"
  shows "find_less cmp l key (List.last (0 # as)) i = Some (Inr (pred_at cmp l key xs 0))"
  using assms(2-4)
proof (induction i arbitrary: as bs)
  case 0
  then show ?case using find_less_walk [OF inv 0] by simp
next
  case (Suc i)
  let ?A = "at_level l (Suc i) xs"
  have at: "?A = takeWhile (below cmp l key) ?A @ dropWhile (below cmp l key) ?A" by simp
  obtain as' bs' where d: "at_level l i xs = as' @ bs'" "List.last (0 # as') = pred_at cmp l key xs (Suc i)"
      "\<forall>a \<in> set as'. below cmp l key a"
    using level_down [OF inv at, of key] unfolding pred_at_def by (auto dest: set_takeWhileD)
  show ?case using find_less_walk [OF inv Suc.prems] Suc.IH [OF _ d(1,3)] Suc.prems(1) d(2) by simp
qed

lemma FindLessThan_ok:
  assumes inv: "sl_inv cmp l xs"
  shows "FindLessThan cmp l key = Some (Inr (pred_at cmp l key xs 0))"
  using find_less_ok [OF inv, of "sl_max_height l - 1" "[]"] sl_invD(5) [OF inv] by (simp add: FindLessThan_def)

lemma find_last_walk:
  assumes inv: "sl_inv cmp l xs" and i: "i < sl_max_height l" and "at_level l i xs = as @ bs"
  shows "find_last l (List.last (0 # as)) i = find_last l (List.last (0 # at_level l i xs)) i"
  using assms(3)
proof (induction bs arbitrary: as)
  case (Cons b bs)
  have "find_last l (List.last (0 # as)) i = find_last l (List.last (0 # as @ [b])) i"
    using node_ok [OF inv Cons.prems i] by (subst find_last.simps) (simp add: first_def)
  then show ?case using Cons.IH [of "as @ [b]"] Cons.prems by simp
qed simp

lemma find_last_ok:
  assumes inv: "sl_inv cmp l xs" and "i < sl_max_height l"
  shows "find_last l (List.last (0 # at_level l i xs)) i = Some (Inr (List.last (0 # xs)))"
  using assms(2)
proof (induction i)
  case 0
  then show ?case
    using node_ok [OF inv, of 0 "at_level l 0 xs" "[]"] at_level_0 [OF inv]
    by (subst find_last.simps) (simp add: first_def)
next
  case (Suc i)
  let ?x = "List.last (0 # at_level l (Suc i) xs)"
  have "find_last l ?x (Suc i) = find_last l ?x i"
    using node_ok [OF inv _ Suc.prems, of "at_level l (Suc i) xs" "[]"]
    by (subst find_last.simps) (simp add: first_def)
  moreover obtain as bs where "at_level l i xs = as @ bs" "List.last (0 # as) = ?x"
  proof (cases "at_level l (Suc i) xs = []")
    case True
    then show ?thesis using that [of "[]" "at_level l i xs"] by simp
  next
    case False
    then have "List.last (at_level l (Suc i) xs) \<in> set (at_level l (Suc i) xs)" by simp
    then have "List.last (at_level l (Suc i) xs) \<in> set (at_level l i xs)" by (auto simp: at_level_def)
    then obtain as bs where "at_level l i xs = as @ List.last (at_level l (Suc i) xs) # bs" by (meson split_list)
    then show ?thesis using that [of "as @ [List.last (at_level l (Suc i) xs)]" bs] False by simp
  qed
  ultimately show ?case using find_last_walk [OF inv, of i as bs] Suc by simp
qed

lemma FindLast_ok:
  assumes inv: "sl_inv cmp l xs"
  shows "FindLast l = Some (Inr (List.last (0 # xs)))"
proof -
  have m: "sl_max_height l - 1 < sl_max_height l" using sl_invD(5) [OF inv] by simp
  show ?thesis
    using find_last_walk [OF inv m, of "[]"] find_last_ok [OF inv m] by (simp add: FindLast_def)
qed

end

section \<open>The iterator walks the keys in order\<close>

lemma pred_at_nth:
  assumes c: "comparator cmp" and inv: "sl_inv cmp l xs" and i: "i < length xs"
  shows "pred_at cmp l (sl_key l (xs ! i)) xs 0 = (0 # xs) ! i"
proof -
  let ?P = "below cmp l (sl_key l (xs ! i))"
  have xs: "xs = take i xs @ xs ! i # drop (Suc i) xs" using i by (rule id_take_nth_drop)
  have "sorted_wrt (before cmp l) (take i xs @ xs ! i # drop (Suc i) xs)" using sl_invD(8) [OF inv] xs by simp
  then have "\<forall>x \<in> set (take i xs). ?P x" unfolding sorted_wrt_append by (auto simp: before_def below_def)
  moreover have "\<not> ?P (xs ! i)" using comparator.cmp_refl [OF c] by (simp add: below_def)
  ultimately have "takeWhile ?P xs = take i xs"
    by (subst xs) simp
  then show ?thesis using i by (cases i) (auto simp: pred_at_def at_level_0 [OF inv] last_conv_nth)
qed

text \<open>C39: the iterator of the skip list.  On a well-formed list every move returns; from the first node
  \<open>Next\<close> leads through all nodes in the order of their keys to the end, \<open>Prev\<close> leads back the same way,
  \<open>SeekToLast\<close> and \<open>Seek\<close> stop at the last node and at the first one not below the target, and moving an
  iterator that is not valid fails the assertion.\<close>

theorem skip_list_iterator:
  assumes c: "comparator cmp" and inv: "sl_inv cmp l xs"
  shows "iter_SeekToFirst l = Inr (first xs)
    \<and> iter_SeekToLast l = Some (Inr (if xs = [] then None else Some (List.last xs)))
    \<and> (\<exists>it. iter_Seek cmp l target = Some (Inr it) \<and> it = first (dropWhile (\<lambda>x. cmp (sl_key l x) target < 0) xs))
    \<and> (\<forall>i < length xs. iter_Next l (Some (xs ! i)) = Inr (first (drop (Suc i) xs))
         \<and> iter_Prev cmp l (Some (xs ! i)) = Some (Inr (if i = 0 then None else Some (xs ! (i - 1)))))
    \<and> iter_Next l None = Inl (Thrown ''assert'')"
proof -
  have b: "below cmp l k = (\<lambda>x. cmp (sl_key l x) k < 0)" for k by (simp add: below_def fun_eq_iff)
  have pos: "0 < sl_max_height l" using sl_invD(5) [OF inv] by simp
  note node = comparator.node_ok [OF c inv _ pos, unfolded at_level_0 [OF inv]]
  have nz: "x \<noteq> 0" if "x \<in> set xs" for x using sl_invD(3) [OF inv] that by auto
  have "iter_SeekToFirst l = Inr (first xs)" using node [of "[]" xs] by (simp add: iter_SeekToFirst_def)
  moreover have "iter_SeekToLast l = Some (Inr (if xs = [] then None else Some (List.last xs)))"
    using comparator.FindLast_ok [OF c inv] nz [OF last_in_set]
    by (cases "xs = []") (simp_all add: iter_SeekToLast_def)
  moreover obtain prev where "FindGreaterOrEqual cmp l target (replicate kMaxHeight 0)
      = Some (Inr (first (dropWhile (below cmp l target) xs), prev))"
    by (rule comparator.FindGreaterOrEqual_ok [OF c inv, of "replicate kMaxHeight 0" target]) simp_all
  then have "iter_Seek cmp l target = Some (Inr (first (dropWhile (\<lambda>x. cmp (sl_key l x) target < 0) xs)))"
    by (simp add: iter_Seek_def b)
  moreover have "iter_Next l (Some (xs ! i)) = Inr (first (drop (Suc i) xs))" if "i < length xs" for i
    using node [of "take (Suc i) xs" "drop (Suc i) xs"] id_take_nth_drop [OF that] that
    by (simp add: iter_Next_def take_Suc_conv_app_nth)
  moreover have "iter_Prev cmp l (Some (xs ! i)) = Some (Inr (if i = 0 then None else Some (xs ! (i - 1))))" if "i < length xs" for i
    using comparator.FindLessThan_ok [OF c inv] pred_at_nth [OF c inv that] that nz [of "xs ! (i - 1)"]
    by (auto simp: iter_Prev_def nth_Cons')
  ultimately show ?thesis by (simp add: iter_Next_def)
qed

theorem skip_list_iterator_witness:
  "\<exists>l. sl_inv slice_compare l [1] \<and> iter_SeekToFirst l = Inr (Some 1) \<and> iter_Next l (Some 1) = Inr None
    \<and> iter_Prev slice_compare l (Some 1) = Some (Inr None)"
proof -
  have n: "length (sl_nodes (newSkipList [] :: bytes skiplist)) = 1" by (simp add: newSkipList_def)
  obtain l where l: "sl_inv slice_compare l [1]"
    using bytewise.insert_ok [OF newSkipList_inv, of "[7]" "[]"] n by auto
  have "[1 :: nat] ! 0 = 1" by simp
  then show ?thesis
    using l skip_list_iterator [OF bytewise.comparator_axioms l, of "[]"] by (auto simp: first_def)
qed

end
