(* ===== verification/Ldb_Format.thy ===== *)
theory Ldb_Format
  imports Ldb_Log
begin

text \<open>
  The file format of tables (\<open>lib/leveldb/table/format.cc\<close>, \<open>table/format.h\<close>): block handles, the footer and
  the reading of a block with its trailer; and the random access files of the environment
  (\<open>util/env_posix.cc\<close>).  Snappy is a library that is not part of the sources: \<open>unsnap\<close> stands for it, \<open>None\<close>
  when it refuses its input or when it is not compiled in.
\<close>

section \<open>Block handles\<close>

record BlockHandle =
  bh_offset :: u64
  bh_size :: u64

definition newBlockHandle :: BlockHandle where
  "newBlockHandle = \<lparr>bh_offset = NOT 0, bh_size = NOT 0\<rparr>"

definition handle_EncodeTo :: "BlockHandle \<Rightarrow> bytes \<Rightarrow> bytes result" where
  "handle_EncodeTo h dst =
     (if bh_offset h = NOT 0 \<or> bh_size h = NOT 0 then Inl (Thrown ''assert'')
      else Inr (PutVarint64 (PutVarint64 dst (bh_offset h)) (bh_size h)))"

definition handle_DecodeFrom :: "bytes \<Rightarrow> status + BlockHandle \<times> bytes" where
  "handle_DecodeFrom input = (case GetVarint64 input of
       None \<Rightarrow> Inl (Corruption ''bad block handle'')
     | Some (off, input) \<Rightarrow> (case GetVarint64 input of
           None \<Rightarrow> Inl (Corruption ''bad block handle'')
         | Some (sz, input) \<Rightarrow> Inr (\<lparr>bh_offset = off, bh_size = sz\<rparr>, input)))"

section \<open>The footer\<close>

definition kMaxEncodedLength :: nat where "kMaxEncodedLength = 10 + 10"
definition kEncodedLength :: nat where "kEncodedLength = 2 * kMaxEncodedLength + 8"
definition kTableMagicNumber :: u64 where "kTableMagicNumber = 0xdb4775248b80fb57"
definition kBlockTrailerSize :: nat where "kBlockTrailerSize = 5"

record Footer =
  ft_metaindex_handle :: BlockHandle
  ft_index_handle :: BlockHandle

definition resize :: "nat \<Rightarrow> bytes \<Rightarrow> bytes" where
  "resize n s = take n s @ replicate (n - length s) 0"

definition footer_EncodeTo :: "Footer \<Rightarrow> bytes \<Rightarrow> bytes result" where
  "footer_EncodeTo f dst =
     and_then (handle_EncodeTo (ft_metaindex_handle f) dst) (\<lambda>s.
       and_then (handle_EncodeTo (ft_index_handle f) s) (\<lambda>s.
         let s = resize (2 * kMaxEncodedLength) s;
             s = PutFixed32 s (ucast (kTableMagicNumber AND 0xffffffff));
             s = PutFixed32 s (ucast (drop_bit 32 kTableMagicNumber)) in
         if length s = length dst + kEncodedLength then Inr s else Inl (Thrown ''assert'')))"

text \<open>The magic number is read before the length of the input is looked at: of a shorter input the bytes
  of the caller's buffer are read that were never written.\<close>

definition footer_DecodeFrom :: "bytes \<Rightarrow> (status + Footer \<times> bytes) result" where
  "footer_DecodeFrom input =
     (if length input < kEncodedLength then Inl Uninitialised
      else
        let magic_ptr = drop (kEncodedLength - 8) input;
            magic_lo = DecodeFixed32 magic_ptr;
            magic_hi = DecodeFixed32 (drop 4 magic_ptr);
            magic = (push_bit 32 (ucast magic_hi) OR ucast magic_lo :: u64) in
        if magic \<noteq> kTableMagicNumber then Inr (Inl (InvalidArgument ''not an sstable (bad magic number)''))
        else case handle_DecodeFrom input of
            Inl s \<Rightarrow> Inr (Inl s)
          | Inr (metaindex, p) \<Rightarrow> (case handle_DecodeFrom p of
                Inl s \<Rightarrow> Inr (Inl s)
              | Inr (index, p) \<Rightarrow>
                  Inr (Inr (\<lparr>ft_metaindex_handle = metaindex, ft_index_handle = index\<rparr>, drop kEncodedLength input))))"

section \<open>Random access files\<close>

type_synonym file_read = "nat \<Rightarrow> nat \<Rightarrow> (status + bytes) result"

text \<open>\<open>pread\<close> gives the bytes there are, or fails, as \<open>ok\<close> says; a mapped file refuses to read past its end.\<close>

definition pread_Read :: "(nat \<Rightarrow> nat \<Rightarrow> bool) \<Rightarrow> bytes \<Rightarrow> file_read" where
  "pread_Read ok contents off n = (if ok off n then Inr (Inr (slice off n contents)) else Inr (Inl StatusIOError))"

definition mmap_Read :: "bytes \<Rightarrow> file_read" where
  "mmap_Read contents off n =
     (if (off + n) mod 2 ^ 64 > length contents then Inr (Inl StatusIOError)
      else if off + n > length contents then Inl OutOfBounds
      else Inr (Inr (slice off n contents)))"

section \<open>Reading a block\<close>

definition kNoCompression :: nat where "kNoCompression = 0"
definition kSnappyCompression :: nat where "kSnappyCompression = 1"

record BlockContents =
  bc_data :: bytes
  bc_cachable :: bool
  bc_heap_allocated :: bool

text \<open>\<open>mapped\<close> says that the file hands out a pointer of its own instead of filling the buffer; \<open>pv\<close> is the
  address of the bytes a checksum is taken of.\<close>

definition ReadBlock ::
  "(bytes \<Rightarrow> bytes option) \<Rightarrow> nat \<Rightarrow> bool \<Rightarrow> file_read \<Rightarrow> bool \<Rightarrow> BlockHandle \<Rightarrow> (status + BlockContents) result" where
  "ReadBlock unsnap pv mapped rd verify_checksums handle =
     (let n = unat (bh_size handle); m = (n + kBlockTrailerSize) mod 2 ^ 64 in
      and_then (rd (unat (bh_offset handle)) m) (\<lambda>r. case r of
          Inl s \<Rightarrow> Inr (Inl s)
        | Inr data \<Rightarrow>
            if length data \<noteq> m then Inr (Inl (Corruption ''truncated block read''))
            else if m \<le> n then Inl OutOfBounds
            else if verify_checksums \<and> crc_Value pv (take (n + 1) data) \<noteq> Unmask (DecodeFixed32 (drop (n + 1) data))
            then Inr (Inl (Corruption ''block checksum mismatch''))
            else if unat (data ! n) = kNoCompression
            then Inr (Inr \<lparr>bc_data = take n data, bc_cachable = \<not> mapped, bc_heap_allocated = \<not> mapped\<rparr>)
            else if unat (data ! n) = kSnappyCompression
            then case unsnap (take n data) of
                None \<Rightarrow> Inr (Inl (Corruption ''corrupted compressed block contents''))
              | Some d \<Rightarrow> Inr (Inr \<lparr>bc_data = d, bc_cachable = True, bc_heap_allocated = True\<rparr>)
            else Inr (Inl (Corruption ''bad block type''))))"

section \<open>Round trips\<close>

definition handle_bytes :: "BlockHandle \<Rightarrow> bytes" where
  "handle_bytes h = EncodeVarint64 (bh_offset h) @ EncodeVarint64 (bh_size h)"

definition handle_set :: "BlockHandle \<Rightarrow> bool" where
  "handle_set h \<longleftrightarrow> bh_offset h \<noteq> NOT 0 \<and> bh_size h \<noteq> NOT 0"

lemma handle_EncodeTo_ok: "handle_set h \<Longrightarrow> handle_EncodeTo h dst = Inr (dst @ handle_bytes h)"
  by (simp add: handle_EncodeTo_def handle_set_def handle_bytes_def PutVarint64_def)

lemma handle_DecodeFrom_bytes [simp]: "handle_DecodeFrom (handle_bytes h @ r) = Inr (h, r)"
  using GetVarint64_Encode [of "bh_offset h" "EncodeVarint64 (bh_size h) @ r"] GetVarint64_Encode [of "bh_size h" r]
  by (simp add: handle_DecodeFrom_def handle_bytes_def)

lemma handle_DecodeFrom_bytes_nil [simp]: "handle_DecodeFrom (handle_bytes h) = Inr (h, [])"
  using handle_DecodeFrom_bytes [of h "[]"] by simp

lemma length_handle_bytes: "length (handle_bytes h) \<le> kMaxEncodedLength"
proof -
  have "length (EncodeVarint64 x) \<le> 10" for x
    using length_varint [of "unat x" 9] unat_u64_less [of x] by (simp add: EncodeVarint64_varint)
  from this [of "bh_offset h"] this [of "bh_size h"] show ?thesis by (simp add: handle_bytes_def kMaxEncodedLength_def)
qed

definition magic_bytes :: bytes where
  "magic_bytes = EncodeFixed32 0x8b80fb57 @ EncodeFixed32 0xdb477524"

definition footer_bytes :: "Footer \<Rightarrow> bytes" where
  "footer_bytes f = resize (2 * kMaxEncodedLength) (handle_bytes (ft_metaindex_handle f) @ handle_bytes (ft_index_handle f)) @ magic_bytes"

lemma length_resize [simp]: "length (resize n s) = n"
  by (simp add: resize_def)

lemma length_footer_bytes [simp]: "length (footer_bytes f) = kEncodedLength"
  by (simp add: footer_bytes_def magic_bytes_def kEncodedLength_def kMaxEncodedLength_def)

lemma footer_EncodeTo_ok:
  assumes "handle_set (ft_metaindex_handle f)" and "handle_set (ft_index_handle f)"
  shows "footer_EncodeTo f [] = Inr (footer_bytes f)"
proof -
  have "(ucast (kTableMagicNumber AND 0xffffffff) :: u32) = 0x8b80fb57" "(ucast (drop_bit 32 kTableMagicNumber) :: u32) = 0xdb477524"
    by code_simp+
  then show ?thesis
    using assms by (simp add: footer_EncodeTo_def handle_EncodeTo_ok PutFixed32_def Let_def footer_bytes_def magic_bytes_def
        kEncodedLength_def kMaxEncodedLength_def)
qed

lemma footer_DecodeFrom_ok: "footer_DecodeFrom (footer_bytes f) = Inr (Inr (f, []))"
proof -
  let ?m = "ft_metaindex_handle f" and ?i = "ft_index_handle f"
  have "length (handle_bytes ?m @ handle_bytes ?i) \<le> 2 * kMaxEncodedLength"
    using length_handle_bytes [of ?m] length_handle_bytes [of ?i] by simp
  then obtain pad where p: "footer_bytes f = handle_bytes ?m @ handle_bytes ?i @ pad" unfolding footer_bytes_def resize_def by simp
  have d: "drop (kEncodedLength - 8) (footer_bytes f) = magic_bytes" by (simp add: footer_bytes_def kEncodedLength_def)
  have "(push_bit 32 (ucast (0xdb477524 :: u32)) OR ucast (0x8b80fb57 :: u32) :: u64) = kTableMagicNumber" by code_simp
  then have "push_bit 32 (ucast (DecodeFixed32 (drop 4 magic_bytes))) OR ucast (DecodeFixed32 magic_bytes) = kTableMagicNumber"
    by (simp add: magic_bytes_def)
  moreover have "handle_DecodeFrom (footer_bytes f) = Inr (?m, handle_bytes ?i @ pad)" by (simp add: p)
  ultimately show ?thesis by (simp add: footer_DecodeFrom_def d Let_def)
qed

text \<open>A block in a file: its contents, the type, and the masked checksum of both.\<close>

definition trailer :: "byte \<Rightarrow> bytes \<Rightarrow> bytes" where
  "trailer t contents = t # EncodeFixed32 (Mask (crc32c_reference 0 (contents @ [t])))"

lemma length_trailer [simp]: "length (trailer t c) = kBlockTrailerSize"
  by (simp add: trailer_def kBlockTrailerSize_def)

locale random_access_file =
  fixes rd :: file_read and contents :: bytes
  assumes read_inside: "off + n \<le> length contents \<Longrightarrow> length contents < 2 ^ 64 \<Longrightarrow> rd off n = Inr (Inr (slice off n contents))"
begin

lemma ReadBlock_ok:
  assumes fl: "slice off (length c + kBlockTrailerSize) contents = c @ trailer t c"
    and small: "length contents < 2 ^ 64" "off + length c + kBlockTrailerSize \<le> length contents"
    and t: "t = of_nat kNoCompression \<and> d = c \<or> t = of_nat kSnappyCompression \<and> unsnap c = Some d"
    and h: "handle = \<lparr>bh_offset = of_nat off, bh_size = of_nat (length c)\<rparr>"
  shows "\<exists>r. ReadBlock unsnap pv mapped rd verify handle = Inr (Inr r) \<and> bc_data r = d"
proof -
  have u: "unat (bh_offset handle) = off" "unat (bh_size handle) = length c"
    using small unfolding h by (simp_all add: unat_of_nat)
  have m: "(length c + kBlockTrailerSize) mod 2 ^ 64 = length c + kBlockTrailerSize" using small by simp
  have r: "rd off (length c + kBlockTrailerSize) = Inr (Inr (c @ trailer t c))"
    using read_inside [of off "length c + kBlockTrailerSize"] small fl by simp
  have "crc_Value pv (c @ [t]) = Unmask (DecodeFixed32 (drop (length c + 1) (c @ trailer t c)))"
    by (simp add: trailer_def crc_Value_def Extend_reference Unmask_Mask)
  moreover have "take (length c + 1) (c @ trailer t c) = c @ [t]" "(c @ trailer t c) ! length c = t"
    by (simp_all add: trailer_def)
  ultimately show ?thesis
    using t unfolding ReadBlock_def u m r Let_def and_then.simps
    by (auto simp: kNoCompression_def kSnappyCompression_def) (auto simp: kBlockTrailerSize_def)
qed

lemma footer_read:
  assumes "contents = pre @ footer_bytes f" and "length contents < 2 ^ 64"
  shows "rd (length contents - kEncodedLength) kEncodedLength = Inr (Inr (footer_bytes f))"
  using read_inside [of "length pre" kEncodedLength] assms by (simp add: slice_def)

end

interpretation mmap: random_access_file "mmap_Read contents" contents
  by unfold_locales (simp add: mmap_Read_def)

interpretation pread: random_access_file "pread_Read (\<lambda>_ _. True) contents" contents
  by unfold_locales (simp add: pread_Read_def)

end
