(* ===== verification/Ldb_Bloom.thy ===== *)
theory Ldb_Bloom
  imports Ldb_Coding
begin

text \<open>
  The hash function of LevelDB (\<open>lib/leveldb/util/hash.cc\<close>) and its Bloom filter (\<open>util/bloom.cc\<close>).  A \<open>char\<close>
  is signed.  \<open>bits_per_key\<close> is not negative; the product with 0.69 is never an integer below the
  limit of 30 probes, so that rounding it down is exact.
\<close>

section \<open>Hash\<close>

definition hash_m :: u32 where
  "hash_m = 0xc6a4a793"

function hash_words :: "u32 \<Rightarrow> bytes \<Rightarrow> u32 \<times> bytes" where
  "hash_words h data =
     (if 4 \<le> length data then
        (let h1 = (h + DecodeFixed32 data) * hash_m in hash_words (h1 XOR drop_bit 16 h1) (drop 4 data))
      else (h, data))"
  by auto
termination by (relation "measure (\<lambda>(h, data). length data)") auto

declare hash_words.simps [simp del]

definition Hash :: "bytes \<Rightarrow> u32 \<Rightarrow> u32" where
  "Hash data seed =
     (case hash_words (seed XOR of_nat (length data) * hash_m) data of (h, rest) \<Rightarrow>
        if rest = [] then h
        else let h2 = (if length rest = 3 then h + push_bit 16 (scast (rest ! 2)) else h);
                 h1 = (if length rest \<ge> 2 then h2 + push_bit 8 (scast (rest ! 1)) else h2);
                 h0 = (h1 + scast (rest ! 0)) * hash_m in
          h0 XOR drop_bit 24 h0)"

section \<open>Filter\<close>

definition BloomHash :: "bytes \<Rightarrow> u32" where
  "BloomHash key = Hash key 0xbc9f1d34"

definition bloom_k :: "nat \<Rightarrow> nat" where
  "bloom_k bits_per_key = (let k = bits_per_key * 69 div 100 in if k < 1 then 1 else if k > 30 then 30 else k)"

definition rotate_17 :: "u32 \<Rightarrow> u32" where
  "rotate_17 h = drop_bit 17 h OR push_bit 15 h"

definition set_bit_at :: "nat \<Rightarrow> bytes \<Rightarrow> bytes" where
  "set_bit_at pos array = array[pos div 8 := array ! (pos div 8) OR push_bit (pos mod 8) 1]"

fun add_probes :: "nat \<Rightarrow> nat \<Rightarrow> u32 \<Rightarrow> u32 \<Rightarrow> bytes \<Rightarrow> bytes" where
  "add_probes 0 bits h delta array = array"
| "add_probes (Suc j) bits h delta array = add_probes j bits (h + delta) delta (set_bit_at (unat h mod bits) array)"

definition CreateFilter :: "nat \<Rightarrow> bytes list \<Rightarrow> bytes \<Rightarrow> bytes" where
  "CreateFilter bits_per_key keys dst =
     (let bits0 = length keys * bits_per_key;
          bits1 = (if bits0 < 64 then 64 else bits0);
          nbytes = (bits1 + 7) div 8;
          bits = nbytes * 8;
          k = bloom_k bits_per_key in
      dst @ fold (\<lambda>key. add_probes k bits (BloomHash key) (rotate_17 (BloomHash key))) keys (replicate nbytes 0 @ [of_nat k]))"

fun check_probes :: "nat \<Rightarrow> nat \<Rightarrow> u32 \<Rightarrow> u32 \<Rightarrow> bytes \<Rightarrow> bool" where
  "check_probes 0 bits h delta array = True"
| "check_probes (Suc j) bits h delta array =
     (let bitpos = unat h mod bits in
      if array ! (bitpos div 8) AND push_bit (bitpos mod 8) 1 = 0 then False
      else check_probes j bits (h + delta) delta array)"

definition KeyMayMatch :: "bytes \<Rightarrow> bytes \<Rightarrow> bool" where
  "KeyMayMatch key bloom_filter =
     (let len = length bloom_filter in
      if len < 2 then False
      else let bits = (len - 1) * 8; k = unat (scast (bloom_filter ! (len - 1)) :: u64) in
        if k > 30 then True
        else check_probes k bits (BloomHash key) (rotate_17 (BloomHash key)) bloom_filter)"

section \<open>No key is missed\<close>

definition bit_at :: "nat \<Rightarrow> bytes \<Rightarrow> bool" where
  "bit_at pos array = bit (array ! (pos div 8)) (pos mod 8)"

lemma bit_at_and: "array ! (pos div 8) AND 2 ^ (pos mod 8) = 0 \<longleftrightarrow> \<not> bit_at pos array"
proof -
  have "b AND 2 ^ n = 0 \<longleftrightarrow> \<not> bit b n" for b :: byte and n
  proof
    assume "b AND 2 ^ n = 0"
    then have "\<not> bit (b AND 2 ^ n) n" by simp
    then show "\<not> bit b n" by (auto simp: bit_and_iff bit_exp_iff dest: bit_imp_le_length)
  next
    assume "\<not> bit b n"
    then show "b AND 2 ^ n = 0" by (intro bit_word_eqI) (auto simp: bit_and_iff bit_exp_iff)
  qed
  then show ?thesis by (simp add: bit_at_def)
qed

lemma length_set_bit_at [simp]: "length (set_bit_at pos array) = length array"
  by (simp add: set_bit_at_def)

lemma bit_at_set: "pos div 8 < length array \<Longrightarrow> bit_at pos (set_bit_at pos array)"
  by (simp add: bit_at_def set_bit_at_def bit_or_iff bit_exp_iff)

lemma bit_at_keep: "bit_at q array \<Longrightarrow> bit_at q (set_bit_at pos array)"
  by (cases "pos div 8 < length array")
    (auto simp: bit_at_def set_bit_at_def nth_list_update bit_or_iff list_update_beyond not_less)

lemma last_set: "pos div 8 < n \<Longrightarrow> set_bit_at pos array ! n = array ! n"
  by (simp add: set_bit_at_def)

lemma length_add_probes [simp]: "length (add_probes j bits h delta array) = length array"
  by (induction j arbitrary: h array) auto

lemma add_probes_keep: "bit_at q array \<Longrightarrow> bit_at q (add_probes j bits h delta array)"
  by (induction j arbitrary: h array) (auto intro: bit_at_keep)

lemma probe_less: "n > 0 \<Longrightarrow> (x mod (n * 8)) div 8 < n" for x :: nat
  by (simp add: less_mult_imp_div_less)

lemma add_probes_last: "n > 0 \<Longrightarrow> add_probes j (n * 8) h delta array ! n = array ! n"
  by (induction j arbitrary: h array) (simp_all add: last_set probe_less)

lemma check_probes_mono:
  "check_probes j bits h delta array \<Longrightarrow> (\<And>q. bit_at q array \<Longrightarrow> bit_at q array') \<Longrightarrow> check_probes j bits h delta array'"
  by (induction j arbitrary: h) (auto simp: Let_def bit_at_and split: if_split_asm)

lemma check_add:
  "n > 0 \<Longrightarrow> n < length array \<Longrightarrow> check_probes j (n * 8) h delta (add_probes j (n * 8) h delta array)"
proof (induction j arbitrary: h array)
  case (Suc j)
  have p: "(unat h mod (n * 8)) div 8 < length array" using probe_less [OF Suc.prems(1)] Suc.prems(2) less_trans by blast
  then show ?case using Suc by (simp add: Let_def bit_at_and add_probes_keep bit_at_set)
qed simp

text \<open>The loop over the keys, for \<open>n\<close> bytes of bits and \<open>k\<close> probes.\<close>

definition add_keys :: "nat \<Rightarrow> nat \<Rightarrow> bytes list \<Rightarrow> bytes \<Rightarrow> bytes" where
  "add_keys k n keys = fold (\<lambda>key. add_probes k (n * 8) (BloomHash key) (rotate_17 (BloomHash key))) keys"

lemma add_keys_simps [simp]:
  "add_keys k n [] a = a"
  "add_keys k n (x # ks) a = add_keys k n ks (add_probes k (n * 8) (BloomHash x) (rotate_17 (BloomHash x)) a)"
  by (simp_all add: add_keys_def)

lemma length_add_keys [simp]: "length (add_keys k n ks a) = length a"
  by (induction ks arbitrary: a) auto

lemma add_keys_keep: "bit_at q a \<Longrightarrow> bit_at q (add_keys k n ks a)"
  by (induction ks arbitrary: a) (auto intro: add_probes_keep)

lemma add_keys_last: "n > 0 \<Longrightarrow> add_keys k n ks a ! n = a ! n"
  by (induction ks arbitrary: a) (simp_all add: add_probes_last)

lemma add_keys_check:
  assumes "n > 0" and "n < length a" and "key \<in> set keys"
  shows "check_probes k (n * 8) (BloomHash key) (rotate_17 (BloomHash key)) (add_keys k n keys a)"
  using assms(2,3)
proof (induction keys arbitrary: a)
  case (Cons x ks)
  show ?case
  proof (cases "key = x")
    case True
    then show ?thesis
      using check_probes_mono [OF check_add [OF assms(1) Cons.prems(1)] add_keys_keep] by simp
  next
    case False
    then show ?thesis using Cons by simp
  qed
qed simp

lemma char_of_small: "k < 128 \<Longrightarrow> unat (scast (of_nat k :: byte) :: u64) = k"
proof -
  assume k: "k < 128"
  have "sint (of_nat k :: byte) = signed_take_bit 7 (int k)"
    using sint_sbintrunc' [of "int k", where ?'a = 8] by simp
  also have "\<dots> = int k" by (rule signed_take_bit_int_eq_self) (use k in auto)
  finally have "scast (of_nat k :: byte) = (of_nat k :: u64)" by (simp add: scast_eq)
  then show ?thesis using k by (simp add: unat_of_nat)
qed

text \<open>The Bloom filter has no false negatives: a filter made for a set of keys matches each of them,
  whatever the number of bits for a key, and whatever was in the string it is appended to.\<close>

lemma bloom_matches:
  assumes "key \<in> set keys"
  shows "\<exists>f. CreateFilter bits_per_key keys dst = dst @ f \<and> KeyMayMatch key f"
proof -
  let ?b = "length keys * bits_per_key" and ?k = "bloom_k bits_per_key"
  define n where "n = ((if ?b < 64 then 64 else ?b) + 7) div 8"
  let ?a = "replicate n 0 @ [of_nat ?k] :: bytes"
  have n: "n > 0" by (auto simp: n_def)
  have c: "check_probes ?k (n * 8) (BloomHash key) (rotate_17 (BloomHash key)) (add_keys ?k n keys ?a)"
    by (rule add_keys_check [OF n _ assms]) simp
  have k: "?k \<le> 30" by (simp add: bloom_k_def Let_def)
  have "add_keys ?k n keys ?a ! n = of_nat ?k" by (simp add: add_keys_last [OF n] nth_append)
  then have "KeyMayMatch key (add_keys ?k n keys ?a)"
    using c n k char_of_small [of ?k] by (simp add: KeyMayMatch_def Let_def)
  moreover have "CreateFilter bits_per_key keys dst = dst @ add_keys ?k n keys ?a"
    by (simp add: CreateFilter_def Let_def add_keys_def n_def)
  ultimately show ?thesis by blast
qed

end
