(* ===== verification/Ldb_Filter_Block.thy ===== *)
theory Ldb_Filter_Block
  imports Ldb_Bloom Ldb_Keys
begin

text \<open>
  The filter block of a table (\<open>lib/leveldb/table/filter_block.cc\<close>): one filter for the keys of the blocks
  that start in the same 2 KB of the file.  The locale \<open>no_false_negatives\<close> is the contract of the class
  \<open>FilterPolicy\<close>; the Bloom filter and its wrapper for internal keys (\<open>db/dbformat.cc\<close>) meet it.
\<close>

section \<open>Filter policies\<close>

record filter_policy =
  fp_Name :: bytes
  fp_CreateFilter :: "bytes list \<Rightarrow> bytes \<Rightarrow> bytes"
  fp_KeyMayMatch :: "bytes \<Rightarrow> bytes \<Rightarrow> bool"

definition BloomFilterPolicy :: "nat \<Rightarrow> filter_policy" where
  "BloomFilterPolicy bits_per_key = \<lparr>fp_Name = str ''leveldb.BuiltinBloomFilter'',
     fp_CreateFilter = CreateFilter bits_per_key, fp_KeyMayMatch = KeyMayMatch\<rparr>"

definition InternalFilterPolicy :: "filter_policy \<Rightarrow> filter_policy" where
  "InternalFilterPolicy user_policy = \<lparr>fp_Name = fp_Name user_policy,
     fp_CreateFilter = (\<lambda>keys dst. fp_CreateFilter user_policy (map ExtractUserKey keys) dst),
     fp_KeyMayMatch = (\<lambda>key f. fp_KeyMayMatch user_policy (ExtractUserKey key) f)\<rparr>"

lemma length_CreateFilter:
  "length (CreateFilter bits_per_key keys dst)
    = length dst + ((if length keys * bits_per_key < 64 then 64 else length keys * bits_per_key) + 7) div 8 + 1"
proof -
  have "length (fold (\<lambda>key. add_probes k n (BloomHash key) (rotate_17 (BloomHash key))) ks a) = length a" for k n ks a
    by (induction ks arbitrary: a) simp_all
  then show ?thesis by (simp add: CreateFilter_def Let_def)
qed

section \<open>The builder\<close>

definition kFilterBaseLg :: nat where
  "kFilterBaseLg = 11"

definition kFilterBase :: nat where
  "kFilterBase = 2 ^ kFilterBaseLg"

record filter_builder =
  fb_keys :: bytes
  fb_start :: "nat list"
  fb_result :: bytes
  fb_filter_offsets :: "u32 list"

definition newFilterBlockBuilder :: filter_builder where
  "newFilterBlockBuilder = \<lparr>fb_keys = [], fb_start = [], fb_result = [], fb_filter_offsets = []\<rparr>"

definition GenerateFilter :: "filter_policy \<Rightarrow> filter_builder \<Rightarrow> filter_builder" where
  "GenerateFilter policy b =
     (let num_keys = length (fb_start b) in
      if num_keys = 0 then b\<lparr>fb_filter_offsets := fb_filter_offsets b @ [of_nat (length (fb_result b))]\<rparr>
      else
        let start = fb_start b @ [length (fb_keys b)];
            tmp_keys = map (\<lambda>i. slice (start ! i) (start ! (i + 1) - start ! i) (fb_keys b)) [0..<num_keys] in
        b\<lparr>fb_filter_offsets := fb_filter_offsets b @ [of_nat (length (fb_result b))],
          fb_result := fp_CreateFilter policy tmp_keys (fb_result b), fb_keys := [], fb_start := []\<rparr>)"

lemma length_GenerateFilter [simp]:
  "length (fb_filter_offsets (GenerateFilter policy b)) = Suc (length (fb_filter_offsets b))"
  by (simp add: GenerateFilter_def Let_def)

function generate_until :: "filter_policy \<Rightarrow> nat \<Rightarrow> filter_builder \<Rightarrow> filter_builder" where
  "generate_until policy index b =
     (if index > length (fb_filter_offsets b) then generate_until policy index (GenerateFilter policy b) else b)"
  by auto
termination by (relation "measure (\<lambda>(policy, index, b). index - length (fb_filter_offsets b))") auto

declare generate_until.simps [simp del]

definition filter_StartBlock :: "filter_policy \<Rightarrow> nat \<Rightarrow> filter_builder \<Rightarrow> filter_builder result" where
  "filter_StartBlock policy block_offset b =
     (let filter_index = block_offset div kFilterBase in
      if \<not> filter_index \<ge> length (fb_filter_offsets b) then Inl (Thrown ''assert'')
      else Inr (generate_until policy filter_index b))"

definition filter_AddKey :: "bytes \<Rightarrow> filter_builder \<Rightarrow> filter_builder" where
  "filter_AddKey key b = b\<lparr>fb_start := fb_start b @ [length (fb_keys b)], fb_keys := fb_keys b @ key\<rparr>"

definition filter_Finish :: "filter_policy \<Rightarrow> filter_builder \<Rightarrow> bytes \<times> filter_builder" where
  "filter_Finish policy b =
     (let b = (if fb_start b \<noteq> [] then GenerateFilter policy b else b);
          array_offset = (of_nat (length (fb_result b)) :: u32);
          result = foldl PutFixed32 (fb_result b) (fb_filter_offsets b);
          result = PutFixed32 result array_offset;
          result = result @ [of_nat kFilterBaseLg] in
      (result, b\<lparr>fb_result := result\<rparr>))"

section \<open>The reader\<close>

text \<open>The pointers are offsets into the contents; they are only used when there are filters.\<close>

record filter_reader =
  fr_data :: bytes
  fr_offset :: nat
  fr_num :: nat
  fr_base_lg :: u64

definition newFilterBlockReader :: "bytes \<Rightarrow> filter_reader" where
  "newFilterBlockReader contents =
     (let n = length contents;
          r = \<lparr>fr_data = [], fr_offset = 0, fr_num = 0, fr_base_lg = 0\<rparr> in
      if n < 5 then r
      else
        let r = r\<lparr>fr_base_lg := scast (contents ! (n - 1))\<rparr>;
            last_word = unat (DecodeFixed32 (drop (n - 5) contents)) in
        if last_word > n - 5 then r
        else r\<lparr>fr_data := contents, fr_offset := last_word, fr_num := (n - 5 - last_word) div 4\<rparr>)"

definition filter_KeyMayMatch :: "filter_policy \<Rightarrow> filter_reader \<Rightarrow> u64 \<Rightarrow> bytes \<Rightarrow> bool result" where
  "filter_KeyMayMatch policy r block_offset key =
     (if fr_base_lg r \<ge> 64 then Inl BadShift
      else
        let index = unat (drop_bit (unat (fr_base_lg r)) block_offset) in
        if index < fr_num r then
          let start = unat (DecodeFixed32 (drop (fr_offset r + index * 4) (fr_data r)));
              limit = unat (DecodeFixed32 (drop (fr_offset r + index * 4 + 4) (fr_data r))) in
          if start \<le> limit \<and> limit \<le> fr_offset r
          then Inr (fp_KeyMayMatch policy key (slice start (limit - start) (fr_data r)))
          else if start = limit then Inr False else Inr True
        else Inr True)"

section \<open>The contract of a filter policy\<close>

locale no_false_negatives =
  fixes policy :: filter_policy
  assumes filter_matches: "key \<in> set keys \<Longrightarrow>
    \<exists>f. fp_CreateFilter policy keys dst = dst @ f \<and> fp_KeyMayMatch policy key f"

interpretation bloom: no_false_negatives "BloomFilterPolicy bits_per_key"
  by unfold_locales (simp add: BloomFilterPolicy_def bloom_matches)

lemma internal_no_false_negatives:
  assumes "no_false_negatives policy"
  shows "no_false_negatives (InternalFilterPolicy policy)"
  using no_false_negatives.filter_matches [OF assms] by unfold_locales (simp add: InternalFilterPolicy_def)

interpretation internal_bloom: no_false_negatives "InternalFilterPolicy (BloomFilterPolicy bits_per_key)"
  by (rule internal_no_false_negatives) (rule bloom.no_false_negatives_axioms)

section \<open>What the builder keeps\<close>

text \<open>The keys that wait for their filter lie one after the other in \<open>fb_keys\<close>.\<close>

definition starts :: "bytes list \<Rightarrow> nat list" where
  "starts ks = map (\<lambda>i. length (concat (take i ks))) [0..<length ks]"

text \<open>The bytes of a filter, by the true offsets of the filters.\<close>

definition segment :: "nat list \<Rightarrow> bytes \<Rightarrow> nat \<Rightarrow> bytes" where
  "segment os result j = slice ((os @ [length result]) ! j) ((os @ [length result]) ! Suc j - (os @ [length result]) ! j) result"

text \<open>\<open>K\<close> holds the keys added so far with the number of the filter they belong to.\<close>

definition filter_inv :: "filter_policy \<Rightarrow> filter_builder \<Rightarrow> nat list \<Rightarrow> bytes list \<Rightarrow> (nat \<times> bytes) set \<Rightarrow> bool" where
  "filter_inv policy b os ks K \<longleftrightarrow> fb_filter_offsets b = map of_nat os \<and> sorted (os @ [length (fb_result b)])
     \<and> fb_keys b = concat ks \<and> fb_start b = starts ks
     \<and> (\<forall>(j, k) \<in> K. if j < length os then fp_KeyMayMatch policy k (segment os (fb_result b) j)
                     else j = length os \<and> k \<in> set ks)"

lemma starts_snoc: "starts (ks @ [k]) = starts ks @ [length (concat ks)]"
  by (simp add: starts_def)

lemma starts_Nil [simp]: "starts ks = [] \<longleftrightarrow> ks = []" "length (starts ks) = length ks"
  by (simp_all add: starts_def)

lemma cut_keys:
  "map (\<lambda>i. slice ((starts ks @ [length (concat ks)]) ! i)
       ((starts ks @ [length (concat ks)]) ! (i + 1) - (starts ks @ [length (concat ks)]) ! i) (concat ks)) [0..<length ks] = ks"
proof (rule nth_equalityI)
  fix i
  let ?s = "starts ks @ [length (concat ks)]"
  assume "i < length (map (\<lambda>i. slice (?s ! i) (?s ! (i + 1) - ?s ! i) (concat ks)) [0..<length ks])"
  then have i: "i < length ks" by simp
  have s: "?s ! j = length (concat (take j ks))" if "j \<le> length ks" for j
    using that by (cases "j = length ks") (simp_all add: starts_def nth_append)
  have "ks = take i ks @ ks ! i # drop (Suc i) ks" using i by (rule id_take_nth_drop)
  then have c: "concat ks = concat (take i ks) @ ks ! i @ concat (drop (Suc i) ks)"
    using concat_append [of "take i ks" "ks ! i # drop (Suc i) ks"] by simp
  have "slice (length (concat (take i ks))) (length (ks ! i)) (concat ks) = ks ! i"
    by (subst c) (simp add: slice_def)
  then show "map (\<lambda>i. slice (?s ! i) (?s ! (i + 1) - ?s ! i) (concat ks)) [0..<length ks] ! i = ks ! i"
    using i s [of i] s [of "Suc i"] by (simp add: take_Suc_conv_app_nth)
qed simp

lemma segment_append:
  assumes "sorted (os @ [length r])" and "j < length os"
  shows "segment (os @ [length r]) (r @ f) j = segment os r j"
proof -
  have "(os @ [length r]) ! j \<le> (os @ [length r]) ! Suc j" "(os @ [length r]) ! Suc j \<le> (os @ [length r]) ! length os"
    using sorted_nth_mono [OF assms(1), of j "Suc j"] sorted_nth_mono [OF assms(1), of "Suc j" "length os"] assms(2) by simp_all
  then show ?thesis using assms(2) by (auto simp: segment_def nth_append slice_def split: if_splits)
qed

lemma segment_last: "segment (os @ [length r]) (r @ f) (length os) = f"
  by (simp add: segment_def nth_append slice_def)

context no_false_negatives
begin

lemma GenerateFilter_inv:
  assumes "filter_inv policy b os ks K"
  shows "filter_inv policy (GenerateFilter policy b) (os @ [length (fb_result b)]) [] K"
proof -
  note I = assms [unfolded filter_inv_def]
  obtain f where f: "fb_result (GenerateFilter policy b) = fb_result b @ f" "\<And>k. k \<in> set ks \<Longrightarrow> fp_KeyMayMatch policy k f"
  proof (cases "ks = []")
    case True
    then show ?thesis using I that [of "[]"] by (simp add: GenerateFilter_def)
  next
    case False
    then obtain k where "k \<in> set ks" by (cases ks) auto
    then obtain f where f: "fp_CreateFilter policy ks (fb_result b) = fb_result b @ f" using filter_matches by blast
    then have "fp_KeyMayMatch policy k f" if "k \<in> set ks" for k using filter_matches [OF that, of "fb_result b"] by auto
    then show ?thesis using that [of f] False I f cut_keys [of ks] by (simp add: GenerateFilter_def Let_def)
  qed
  have s: "sorted (os @ [length (fb_result b)])" using I by blast
  have "j < Suc (length os) \<and> fp_KeyMayMatch policy k (segment (os @ [length (fb_result b)]) (fb_result b @ f) j)"
    if "(j, k) \<in> K" for j k
  proof (cases "j < length os")
    case True
    then show ?thesis using that I segment_append [OF s True] by fastforce
  next
    case False
    then have "j = length os" "k \<in> set ks" using that I by fastforce+
    then show ?thesis using f(2) segment_last by simp
  qed
  moreover have "fb_filter_offsets (GenerateFilter policy b) = map of_nat (os @ [length (fb_result b)])"
    "fb_keys (GenerateFilter policy b) = []" "fb_start (GenerateFilter policy b) = []"
    using I by (auto simp: GenerateFilter_def Let_def)
  ultimately show ?thesis using s f(1) by (force simp: filter_inv_def starts_def sorted_append)
qed

lemma generate_until_inv:
  assumes "filter_inv policy b os ks K" and "length os \<le> index"
  shows "\<exists>os' ks'. filter_inv policy (generate_until policy index b) os' ks' K \<and> length os' = index"
  using assms
proof (induction "index - length os" arbitrary: b os ks)
  case 0
  then have "length (fb_filter_offsets b) = index" "length os = index" by (auto simp: filter_inv_def)
  then have "generate_until policy index b = b" by (subst generate_until.simps) simp
  then show ?case using 0 \<open>length os = index\<close> by auto
next
  case (Suc d)
  then have "length (fb_filter_offsets b) < index" by (auto simp: filter_inv_def)
  then show ?case
    using Suc.hyps(1) [OF _ GenerateFilter_inv [OF Suc.prems(1)]] Suc.hyps(2) by (subst generate_until.simps) simp
qed

lemma StartBlock_inv:
  assumes "filter_inv policy b os ks K" and "length os \<le> block_offset div kFilterBase"
  shows "\<exists>b' os' ks'. filter_StartBlock policy block_offset b = Inr b' \<and> filter_inv policy b' os' ks' K
    \<and> length os' = block_offset div kFilterBase"
  using generate_until_inv [OF assms] assms by (auto simp: filter_StartBlock_def filter_inv_def)

lemma AddKey_inv:
  assumes "filter_inv policy b os ks K"
  shows "filter_inv policy (filter_AddKey key b) os (ks @ [key]) (insert (length os, key) K)"
  using assms by (force simp: filter_inv_def filter_AddKey_def starts_snoc)

text \<open>The finished filters, with the keys that were still waiting.\<close>

lemma finish_inv:
  assumes "filter_inv policy b os ks K"
  shows "\<exists>b' os'. filter_inv policy b' os' [] K \<and> fst (filter_Finish policy b)
    = fb_result b' @ concat (map (\<lambda>x. EncodeFixed32 (of_nat x)) os') @ EncodeFixed32 (of_nat (length (fb_result b'))) @ [11]"
proof -
  have fold: "foldl PutFixed32 r ws = r @ concat (map EncodeFixed32 ws)" for r ws
    by (induction ws arbitrary: r) (simp_all add: PutFixed32_def)
  let ?b = "if fb_start b \<noteq> [] then GenerateFilter policy b else b"
  have "\<exists>os'. filter_inv policy ?b os' [] K"
  proof (cases "ks = []")
    case True
    then have "fb_start b = []" using assms by (simp add: filter_inv_def starts_def)
    then show ?thesis using assms True by auto
  next
    case False
    then have "fb_start b \<noteq> []" using assms by (simp add: filter_inv_def)
    then show ?thesis using GenerateFilter_inv [OF assms] by auto
  qed
  then obtain os' where i: "filter_inv policy ?b os' [] K" by blast
  then have "map EncodeFixed32 (fb_filter_offsets ?b) = map (\<lambda>x. EncodeFixed32 (of_nat x)) os'"
    by (simp add: filter_inv_def comp_def)
  then have "fst (filter_Finish policy b) = fb_result ?b @ concat (map (\<lambda>x. EncodeFixed32 (of_nat x)) os')
      @ EncodeFixed32 (of_nat (length (fb_result ?b))) @ [11]"
    by (simp add: filter_Finish_def Let_def fold PutFixed32_def kFilterBaseLg_def)
  then show ?thesis using i by blast
qed

end

lemma offset_word:
  assumes "j < length ws"
  shows "\<exists>r. drop (4 * j) (concat (map (\<lambda>x. EncodeFixed32 (of_nat x)) ws)) = EncodeFixed32 (of_nat (ws ! j)) @ r"
  using assms
proof (induction ws arbitrary: j)
  case (Cons w ws)
  then show ?case by (cases j) auto
qed simp

lemma length_offset_words [simp]: "length (concat (map (\<lambda>x. EncodeFixed32 (of_nat x)) ws)) = 4 * length ws"
  by (induction ws) simp_all

context no_false_negatives
begin

text \<open>The reader finds the offsets again, and with them the filter of a block.\<close>

lemma reader_segment:
  assumes i: "filter_inv policy b os [] K"
    and data: "data = fb_result b @ concat (map (\<lambda>x. EncodeFixed32 (of_nat x)) (os @ [length (fb_result b)])) @ [11]"
    and small: "length data < 2 ^ 32" and j: "j < length os" "unat (drop_bit 11 off) = j"
  shows "filter_KeyMayMatch policy (newFilterBlockReader data) off key = Inr (fp_KeyMayMatch policy key (segment os (fb_result b) j))"
proof -
  let ?r = "fb_result b" and ?ws = "os @ [length (fb_result b)]"
  let ?n = "length ?r"
  have s: "sorted ?ws" using i by (simp add: filter_inv_def)
  have len: "length data = ?n + 4 * length ?ws + 1" unfolding data by (simp del: map_append)
  have w: "unat (DecodeFixed32 (drop (?n + 4 * k) data)) = ?ws ! k" if k: "k < length ?ws" for k
  proof -
    obtain r where "drop (4 * k) (concat (map (\<lambda>x. EncodeFixed32 (of_nat x)) ?ws)) = EncodeFixed32 (of_nat (?ws ! k)) @ r"
      using offset_word [OF k] by blast
    then have "drop (?n + 4 * k) data = EncodeFixed32 (of_nat (?ws ! k)) @ r @ [11]"
      using k unfolding data by (simp del: map_append concat_append)
    moreover have "?ws ! k \<le> ?n" using sorted_nth_mono [OF s, of k "length os"] k by simp
    ultimately show ?thesis using small len by (simp add: unat_of_nat)
  qed
  have "drop (length data - 5) data = drop (?n + 4 * length os) data" using len by simp
  then have lw: "unat (DecodeFixed32 (drop (length data - 5) data)) = ?n" using w [of "length os"] by simp
  have "data ! (length data - 1) = 11" unfolding data by (simp add: nth_append)
  then have rd: "newFilterBlockReader data = \<lparr>fr_data = data, fr_offset = ?n, fr_num = length os, fr_base_lg = 11\<rparr>"
    using lw len by (simp add: newFilterBlockReader_def Let_def)
  have "start \<le> limit \<and> limit \<le> ?n \<Longrightarrow> slice start (limit - start) data = slice start (limit - start) ?r" for start limit
    unfolding data by (simp add: slice_def)
  moreover have "?ws ! j \<le> ?ws ! Suc j" "?ws ! Suc j \<le> ?n"
    using sorted_nth_mono [OF s, of j "Suc j"] sorted_nth_mono [OF s, of "Suc j" "length os"] j by simp_all
  moreover have "unat (DecodeFixed32 (drop (?n + j * 4) data)) = ?ws ! j"
      "unat (DecodeFixed32 (drop (?n + j * 4 + 4) data)) = ?ws ! Suc j"
    using w [of j] w [of "Suc j"] j by (simp_all add: ac_simps)
  ultimately show ?thesis using j by (simp add: filter_KeyMayMatch_def rd Let_def segment_def)
qed

lemma finished_matches:
  assumes i: "filter_inv policy b os ks K" and small: "length (fst (filter_Finish policy b)) < 2 ^ 32"
    and k: "(unat off div kFilterBase, key) \<in> K"
  shows "filter_KeyMayMatch policy (newFilterBlockReader (fst (filter_Finish policy b))) off key = Inr True"
proof -
  obtain b' os' where b': "filter_inv policy b' os' [] K" "fst (filter_Finish policy b)
      = fb_result b' @ concat (map (\<lambda>x. EncodeFixed32 (of_nat x)) os') @ EncodeFixed32 (of_nat (length (fb_result b'))) @ [11]"
    using finish_inv [OF i] by blast
  let ?j = "unat off div kFilterBase"
  have j: "?j < length os'" "fp_KeyMayMatch policy key (segment os' (fb_result b') ?j)"
    using b'(1) k by (fastforce simp: filter_inv_def split: if_splits)+
  have "unat (drop_bit 11 off) = ?j" by (subst unat_drop_bit_eq) (simp add: kFilterBase_def kFilterBaseLg_def drop_bit_eq_div)
  then show ?thesis using reader_segment [OF b'(1) _ small j(1)] b'(2) j(2) by simp
qed

end

section \<open>The filter block has no false negatives\<close>

text \<open>The calls that a table makes: a block is started and then its keys are added.\<close>

fun filter_blocks :: "filter_policy \<Rightarrow> (nat \<times> bytes list) list \<Rightarrow> filter_builder \<Rightarrow> filter_builder result" where
  "filter_blocks policy [] b = Inr b"
| "filter_blocks policy ((off, ks) # bs) b =
     and_then (filter_StartBlock policy off b) (\<lambda>b. filter_blocks policy bs (fold filter_AddKey ks b))"

context no_false_negatives
begin

lemma add_keys_inv:
  "filter_inv policy b os ks K \<Longrightarrow> \<exists>ks'. filter_inv policy (fold filter_AddKey ms b) os ks' (K \<union> {length os} \<times> set ms)"
proof (induction ms arbitrary: b ks K)
  case (Cons k ms)
  show ?case using Cons.IH [OF AddKey_inv [OF Cons.prems, of k]] by (simp add: insert_Times_insert Un_insert_left Sigma_Un_distrib2)
qed auto

lemma filter_blocks_inv:
  assumes "filter_inv policy b os ks K" and "sorted (map fst bs)" and "\<forall>x \<in> set bs. length os \<le> fst x div kFilterBase"
  shows "\<exists>b' os' ks'. filter_blocks policy bs b = Inr b'
    \<and> filter_inv policy b' os' ks' (K \<union> {(off div kFilterBase, k) | off k ms. (off, ms) \<in> set bs \<and> k \<in> set ms})"
  using assms
proof (induction bs arbitrary: b os ks K)
  case (Cons x bs)
  obtain off ms where x: "x = (off, ms)" by (cases x)
  obtain b1 os1 ks1 where 1: "filter_StartBlock policy off b = Inr b1" "filter_inv policy b1 os1 ks1 K" "length os1 = off div kFilterBase"
    using StartBlock_inv [OF Cons.prems(1), of off] Cons.prems(3) x by auto
  obtain ks2 where 2: "filter_inv policy (fold filter_AddKey ms b1) os1 ks2 (K \<union> {length os1} \<times> set ms)"
    using add_keys_inv [OF 1(2)] by blast
  have m: "\<forall>y \<in> set bs. length os1 \<le> fst y div kFilterBase" using Cons.prems(2) x 1(3) by (auto intro: div_le_mono)
  have e: "K \<union> {length os1} \<times> set ms \<union> {(off div kFilterBase, k) | off k ms. (off, ms) \<in> set bs \<and> k \<in> set ms}
    = K \<union> {(off div kFilterBase, k) | off k ms. (off, ms) \<in> set (x # bs) \<and> k \<in> set ms}"
    unfolding x using 1(3) by auto
  show ?case using Cons.IH [OF 2 _ m] Cons.prems(2) 1(1) x unfolding e by auto
qed auto

end

text \<open>C40: the filter block of a table has no false negatives.  For blocks whose offsets do not decrease the
  builder passes its assertions, and the reader of the block it writes says of every key that it may be
  in the block the key was added to, for every policy that keeps the contract, the Bloom filter with any
  number of bits for a key among them.\<close>

theorem filter_block_matches:
  assumes p: "no_false_negatives policy" and s: "sorted (map fst bs)"
  shows "\<exists>b. filter_blocks policy bs newFilterBlockBuilder = Inr b
    \<and> (length (fst (filter_Finish policy b)) < 2 ^ 32 \<longrightarrow> (unat off, ks) \<in> set bs \<longrightarrow> key \<in> set ks \<longrightarrow>
        filter_KeyMayMatch policy (newFilterBlockReader (fst (filter_Finish policy b))) off key = Inr True)
    \<and> no_false_negatives (BloomFilterPolicy bits_per_key)"
proof -
  let ?K = "{(off div kFilterBase, k) | off k ms. (off, ms) \<in> set bs \<and> k \<in> set ms}"
  have "filter_inv policy newFilterBlockBuilder [] [] {}" by (simp add: filter_inv_def newFilterBlockBuilder_def starts_def)
  then obtain b os ks' where b: "filter_blocks policy bs newFilterBlockBuilder = Inr b" "filter_inv policy b os ks' ({} \<union> ?K)"
    using no_false_negatives.filter_blocks_inv [OF p _ s, of newFilterBlockBuilder "[]" "[]" "{}"] by auto
  then show ?thesis
    using no_false_negatives.finished_matches [OF p b(2), of off key] bloom.no_false_negatives_axioms by auto
qed

theorem filter_block_matches_witness:
  "\<exists>b. filter_blocks (BloomFilterPolicy 10) [(0, [[1], [2]]), (5000, [[3]])] newFilterBlockBuilder = Inr b
    \<and> filter_KeyMayMatch (BloomFilterPolicy 10) (newFilterBlockReader (fst (filter_Finish (BloomFilterPolicy 10) b))) 5000 [3] = Inr True"
proof -
  let ?p = "BloomFilterPolicy 10" and ?bs = "[(0, [[1], [2]]), (5000, [[3]])] :: (nat \<times> bytes list) list"
  obtain b where b: "filter_blocks ?p ?bs newFilterBlockBuilder = Inr b"
    "length (fst (filter_Finish ?p b)) < 2 ^ 32 \<longrightarrow> (unat (5000 :: u64), [[3]]) \<in> set ?bs \<longrightarrow> [3] \<in> set [[3 :: byte]] \<longrightarrow>
      filter_KeyMayMatch ?p (newFilterBlockReader (fst (filter_Finish ?p b))) 5000 [3] = Inr True"
    using filter_block_matches [OF bloom.no_false_negatives_axioms, of ?bs 10 5000 "[[3]]" "[3]"] by auto
  have "length (fst (filter_Finish ?p b)) < 2 ^ 32"
    using b(1) by (auto simp: newFilterBlockBuilder_def filter_StartBlock_def filter_AddKey_def filter_Finish_def
        kFilterBase_def kFilterBaseLg_def generate_until.simps GenerateFilter_def BloomFilterPolicy_def Let_def
        PutFixed32_def length_CreateFilter)
  then show ?thesis using b by auto
qed

end
