(* ===== verification/Ldb_Block.thy ===== *)
theory Ldb_Block
  imports Ldb_Write_Batch Ldb_Keys
begin

text \<open>
  The blocks of a table: \<open>BlockBuilder\<close> (\<open>lib/leveldb/table/block_builder.cc\<close>), \<open>Block\<close> and its iterator
  (\<open>table/block.cc\<close>, \<open>table/iterator.cc\<close>).  Keys share a prefix with their predecessor; at restart points,
  whose offsets are listed at the end of the block, they are stored in full.  Offsets and sizes of the
  code are 32 bits wide: they are natural numbers here, cut to 32 bits where the code converts or adds.
\<close>

section \<open>The builder\<close>

definition trunc32 :: "nat \<Rightarrow> nat" where
  "trunc32 n = n mod 2 ^ 32"

record block_builder =
  bb_buffer :: bytes
  bb_restarts :: "nat list"
  bb_counter :: int
  bb_finished :: bool
  bb_last_key :: bytes

definition blank_builder :: block_builder where
  "blank_builder = \<lparr>bb_buffer = [], bb_restarts = [0], bb_counter = 0, bb_finished = False, bb_last_key = []\<rparr>"

definition newBlockBuilder :: "int \<Rightarrow> block_builder result" where
  "newBlockBuilder interval = (if \<not> interval \<ge> 1 then Inl (Thrown ''assert'') else Inr blank_builder)"

lemma newBlockBuilder_Inr: "newBlockBuilder interval = Inr b \<longleftrightarrow> 1 \<le> interval \<and> b = blank_builder"
  by (auto simp: newBlockBuilder_def)

definition builder_Reset :: "block_builder \<Rightarrow> block_builder" where
  "builder_Reset b = b\<lparr>bb_buffer := [], bb_restarts := [0], bb_counter := 0, bb_finished := False, bb_last_key := []\<rparr>"

definition CurrentSizeEstimate :: "block_builder \<Rightarrow> nat" where
  "CurrentSizeEstimate b = length (bb_buffer b) + length (bb_restarts b) * 4 + 4"

definition builder_Finish :: "block_builder \<Rightarrow> bytes \<times> block_builder" where
  "builder_Finish b =
     (let buf = foldl (\<lambda>buf r. PutFixed32 buf (of_nat r)) (bb_buffer b) (bb_restarts b);
          buf = PutFixed32 buf (of_nat (length (bb_restarts b))) in
      (buf, b\<lparr>bb_buffer := buf, bb_finished := True\<rparr>))"

text \<open>The restart offsets are kept in 32 bits.  The loop that counts the shared bytes is \<open>diff_index\<close>.\<close>

definition builder_Add :: "(bytes \<Rightarrow> bytes \<Rightarrow> int) \<Rightarrow> int \<Rightarrow> block_builder \<Rightarrow> bytes \<Rightarrow> bytes \<Rightarrow> block_builder result" where
  "builder_Add cmp interval b key val =
     (if bb_finished b \<or> \<not> bb_counter b \<le> interval
        \<or> \<not> (bb_buffer b = [] \<or> cmp key (bb_last_key b) > 0) then Inl (Thrown ''assert'')
      else
        let (shared, b) =
              (if bb_counter b < interval then (diff_index (bb_last_key b) key, b)
               else (0, b\<lparr>bb_restarts := bb_restarts b @ [trunc32 (length (bb_buffer b))], bb_counter := 0\<rparr>));
            non_shared = length key - shared;
            buf = PutVarint32 (bb_buffer b) (of_nat shared);
            buf = PutVarint32 buf (of_nat non_shared);
            buf = PutVarint32 buf (of_nat (length val));
            buf = buf @ take non_shared (drop shared key);
            buf = buf @ val in
        Inr (b\<lparr>bb_buffer := buf,
               bb_last_key := take shared (bb_last_key b) @ take non_shared (drop shared key),
               bb_counter := bb_counter b + 1\<rparr>))"

section \<open>The block\<close>

record block =
  bk_data :: bytes
  bk_size :: nat
  bk_restart_offset :: nat

definition NumRestarts :: "bytes \<Rightarrow> nat \<Rightarrow> nat" where
  "NumRestarts data sz = unat (DecodeFixed32 (drop (sz - 4) data))"

text \<open>A size of zero marks a block that cannot be read; its restart offset is never written.\<close>

definition newBlock :: "nat \<Rightarrow> bytes \<Rightarrow> block" where
  "newBlock junk data =
     (let sz = length data in
      if sz < 4 then \<lparr>bk_data = data, bk_size = 0, bk_restart_offset = junk\<rparr>
      else
        let max_restarts_allowed = (sz - 4) div 4 in
        if NumRestarts data sz > max_restarts_allowed
        then \<lparr>bk_data = data, bk_size = 0, bk_restart_offset = junk\<rparr>
        else \<lparr>bk_data = data, bk_size = sz,
               bk_restart_offset = trunc32 (sz - trunc32 (1 + NumRestarts data sz) * 4)\<rparr>)"

text \<open>The lengths of the parts of an entry, and the bytes from the key's delta to the limit.\<close>

definition DecodeEntry :: "bytes \<Rightarrow> (nat \<times> nat \<times> nat \<times> bytes) option" where
  "DecodeEntry p =
     (if length p < 3 then None
      else
        let decoded =
              (if (p ! 0 OR p ! 1 OR p ! 2) < 128 then Some (unat (p ! 0), unat (p ! 1), unat (p ! 2), drop 3 p)
               else case GetVarint32Ptr p of
                   None \<Rightarrow> None
                 | Some (shared, p) \<Rightarrow> (case GetVarint32Ptr p of
                     None \<Rightarrow> None
                   | Some (non_shared, p) \<Rightarrow> (case GetVarint32Ptr p of
                       None \<Rightarrow> None
                     | Some (value_length, p) \<Rightarrow> Some (unat shared, unat non_shared, unat value_length, p)))) in
        case decoded of
          None \<Rightarrow> None
        | Some (shared, non_shared, value_length, p) \<Rightarrow>
            if trunc32 (length p) < trunc32 (non_shared + value_length) then None
            else Some (shared, non_shared, value_length, p))"

section \<open>The iterator of a block\<close>

text \<open>A value is a slice of the block, by its offset and its length, or the empty slice outside of it.\<close>

record block_iter =
  bi_data :: bytes
  bi_restarts :: nat
  bi_num_restarts :: nat
  bi_current :: nat
  bi_restart_index :: nat
  bi_key :: bytes
  bi_value :: "(nat \<times> nat) option"
  bi_status :: status

definition newBlockIter :: "bytes \<Rightarrow> nat \<Rightarrow> nat \<Rightarrow> block_iter result" where
  "newBlockIter data restarts num_restarts =
     (if num_restarts = 0 then Inl (Thrown ''assert'')
      else Inr \<lparr>bi_data = data, bi_restarts = restarts, bi_num_restarts = num_restarts, bi_current = restarts,
                bi_restart_index = num_restarts, bi_key = [], bi_value = None, bi_status = StatusOK\<rparr>)"

definition NextEntryOffset :: "block_iter \<Rightarrow> nat result" where
  "NextEntryOffset it = (case bi_value it of
       None \<Rightarrow> Inl OutOfBounds | Some (off, n) \<Rightarrow> Inr (trunc32 (off + n)))"

definition GetRestartPoint :: "block_iter \<Rightarrow> nat \<Rightarrow> nat result" where
  "GetRestartPoint it index =
     (if \<not> index < bi_num_restarts it then Inl (Thrown ''assert'')
      else if length (bi_data it) < bi_restarts it + index * 4 + 4 then Inl OutOfBounds
      else Inr (unat (DecodeFixed32 (drop (bi_restarts it + index * 4) (bi_data it)))))"

definition SeekToRestartPoint :: "block_iter \<Rightarrow> nat \<Rightarrow> block_iter result" where
  "SeekToRestartPoint it index =
     and_then (GetRestartPoint it index) (\<lambda>offset.
       Inr (it\<lparr>bi_key := [], bi_restart_index := index, bi_value := Some (offset, 0)\<rparr>))"

definition bi_Valid :: "block_iter \<Rightarrow> bool" where
  "bi_Valid it \<longleftrightarrow> bi_current it < bi_restarts it"

definition bi_get_key :: "block_iter \<Rightarrow> bytes result" where
  "bi_get_key it = (if bi_Valid it then Inr (bi_key it) else Inl (Thrown ''assert''))"

text \<open>The slice of the value as its reader sees it.\<close>

definition bi_get_value :: "block_iter \<Rightarrow> bytes result" where
  "bi_get_value it =
     (if \<not> bi_Valid it then Inl (Thrown ''assert'')
      else case bi_value it of
          None \<Rightarrow> Inr []
        | Some (off, n) \<Rightarrow> if off + n \<le> length (bi_data it) then Inr (slice off n (bi_data it)) else Inl OutOfBounds)"

definition CorruptionError :: "block_iter \<Rightarrow> block_iter" where
  "CorruptionError it = it\<lparr>bi_current := bi_restarts it, bi_restart_index := bi_num_restarts it,
     bi_status := Corruption ''bad entry in block'', bi_key := [], bi_value := None\<rparr>"

text \<open>The loop at the end of \<open>ParseNextKey\<close>.\<close>

function advance_restart :: "block_iter \<Rightarrow> block_iter result" where
  "advance_restart it =
     (if bi_restart_index it + 1 < bi_num_restarts it then
        and_then (GetRestartPoint it (bi_restart_index it + 1)) (\<lambda>point.
          if point < bi_current it then advance_restart (it\<lparr>bi_restart_index := bi_restart_index it + 1\<rparr>)
          else Inr it)
      else Inr it)"
  by auto
termination by (relation "measure (\<lambda>it. bi_num_restarts it - bi_restart_index it)") auto

declare advance_restart.simps [simp del]

definition ParseNextKey :: "block_iter \<Rightarrow> (bool \<times> block_iter) result" where
  "ParseNextKey it =
     and_then (NextEntryOffset it) (\<lambda>offset.
       let it = it\<lparr>bi_current := offset\<rparr> in
       if offset \<ge> bi_restarts it
       then Inr (False, it\<lparr>bi_current := bi_restarts it, bi_restart_index := bi_num_restarts it\<rparr>)
       else case DecodeEntry (drop offset (take (bi_restarts it) (bi_data it))) of
           None \<Rightarrow> Inr (False, CorruptionError it)
         | Some (shared, non_shared, value_length, rest) \<Rightarrow>
             if length (bi_key it) < shared then Inr (False, CorruptionError it)
             else
               let p = bi_restarts it - length rest in
               if length (bi_data it) < p + non_shared then Inl OutOfBounds
               else
                 and_then (advance_restart (it\<lparr>bi_key := take shared (bi_key it) @ slice p non_shared (bi_data it),
                     bi_value := Some (p + non_shared, value_length)\<rparr>)) (\<lambda>it.
                   Inr (True, it)))"

definition bi_Next :: "block_iter \<Rightarrow> block_iter result" where
  "bi_Next it =
     (if \<not> bi_Valid it then Inl (Thrown ''assert'')
      else and_then (ParseNextKey it) (\<lambda>(_, it). Inr it))"

text \<open>The loops of the iterator may only end when they meet the end of the block.\<close>

text \<open>Parsing entries up to the one that ends at an offset: the loop of \<open>Prev\<close> and that of \<open>SeekToLast\<close>.\<close>

partial_function (option) parse_until :: "nat \<Rightarrow> block_iter \<Rightarrow> block_iter result option" where
  "parse_until stop it =
     opt_then (Some (ParseNextKey it)) (\<lambda>(ok, it).
       if \<not> ok then Some (Inr it)
       else opt_then (Some (NextEntryOffset it)) (\<lambda>n. if n < stop then parse_until stop it else Some (Inr it)))"

text \<open>The first loop of \<open>Prev\<close>: no restart point lies before the entry, or the last one that does.\<close>

fun restart_before :: "block_iter \<Rightarrow> nat \<Rightarrow> nat \<Rightarrow> nat option result" where
  "restart_before it original index =
     and_then (GetRestartPoint it index) (\<lambda>point.
       if point \<ge> original then (case index of 0 \<Rightarrow> Inr None | Suc i \<Rightarrow> restart_before it original i)
       else Inr (Some index))"

definition bi_Prev :: "block_iter \<Rightarrow> block_iter result option" where
  "bi_Prev it =
     (if \<not> bi_Valid it then Some (Inl (Thrown ''assert''))
      else
        let original = bi_current it in
        opt_then (Some (restart_before it original (bi_restart_index it))) (\<lambda>r. case r of
            None \<Rightarrow> Some (Inr (it\<lparr>bi_current := bi_restarts it, bi_restart_index := bi_num_restarts it\<rparr>))
          | Some index \<Rightarrow> opt_then (Some (SeekToRestartPoint it index)) (parse_until original)))"

text \<open>The binary search in the restart array; \<open>Inl\<close> is the early return after a corruption.\<close>

partial_function (option) seek_restart ::
    "(bytes \<Rightarrow> bytes \<Rightarrow> int) \<Rightarrow> bytes \<Rightarrow> block_iter \<Rightarrow> nat \<Rightarrow> nat \<Rightarrow> (block_iter + nat) result option" where
  "seek_restart cmp target it left right =
     (if left < right then
        let mid = trunc32 (left + right + 1) div 2 in
        opt_then (Some (GetRestartPoint it mid)) (\<lambda>region_offset.
          case DecodeEntry (drop region_offset (take (bi_restarts it) (bi_data it))) of
            None \<Rightarrow> Some (Inr (Inl (CorruptionError it)))
          | Some (shared, non_shared, value_length, rest) \<Rightarrow>
              if shared \<noteq> 0 then Some (Inr (Inl (CorruptionError it)))
              else
                let p = bi_restarts it - length rest in
                if length (bi_data it) < p + non_shared then Some (Inl OutOfBounds)
                else if cmp (slice p non_shared (bi_data it)) target < 0
                then seek_restart cmp target it mid right
                else seek_restart cmp target it left (mid - 1))
      else Some (Inr (Inr left)))"

partial_function (option) seek_linear ::
    "(bytes \<Rightarrow> bytes \<Rightarrow> int) \<Rightarrow> bytes \<Rightarrow> block_iter \<Rightarrow> block_iter result option" where
  "seek_linear cmp target it =
     opt_then (Some (ParseNextKey it)) (\<lambda>(ok, it).
       if \<not> ok then Some (Inr it)
       else if cmp (bi_key it) target \<ge> 0 then Some (Inr it)
       else seek_linear cmp target it)"

definition bi_Seek :: "(bytes \<Rightarrow> bytes \<Rightarrow> int) \<Rightarrow> block_iter \<Rightarrow> bytes \<Rightarrow> block_iter result option" where
  "bi_Seek cmp it target =
     opt_then (seek_restart cmp target it 0 (bi_num_restarts it - 1)) (\<lambda>r. case r of
         Inl it \<Rightarrow> Some (Inr it)
       | Inr left \<Rightarrow> opt_then (Some (SeekToRestartPoint it left)) (seek_linear cmp target))"

definition bi_SeekToFirst :: "block_iter \<Rightarrow> block_iter result" where
  "bi_SeekToFirst it = and_then (SeekToRestartPoint it 0) (\<lambda>it. and_then (ParseNextKey it) (\<lambda>(_, it). Inr it))"

definition bi_SeekToLast :: "block_iter \<Rightarrow> block_iter result option" where
  "bi_SeekToLast it =
     opt_then (Some (SeekToRestartPoint it (bi_num_restarts it - 1))) (\<lambda>it. parse_until (bi_restarts it) it)"

text \<open>What \<open>NewIterator\<close> returns: an iterator that is never valid, with a status, or that of the block.\<close>

datatype block_iterator = EmptyIterator status | BlockIterator block_iter

definition Block_NewIterator :: "block \<Rightarrow> block_iterator result" where
  "Block_NewIterator b =
     (if bk_size b < 4 then Inr (EmptyIterator (Corruption ''bad block contents''))
      else
        let num_restarts = NumRestarts (bk_data b) (bk_size b) in
        if num_restarts = 0 then Inr (EmptyIterator StatusOK)
        else and_then (newBlockIter (bk_data b) (bk_restart_offset b) num_restarts) (\<lambda>it. Inr (BlockIterator it)))"

end
