(* ===== verification/Ldb_Block_Layout.thy ===== *)
theory Ldb_Block_Layout
  imports Ldb_Block
begin

text \<open>
  The byte layout of a block as a list of entries and a list of restart points, and that \<open>DecodeEntry\<close>
  reads each entry of it.
\<close>

section \<open>The layout of a block\<close>

text \<open>An entry: how many bytes of the key it shares with the key before, the key and the value.\<close>

type_synonym entry = "nat \<times> bytes \<times> bytes"

fun entry_bytes :: "entry \<Rightarrow> bytes" where
  "entry_bytes (s, k, v) = EncodeVarint32 (of_nat s) @ EncodeVarint32 (of_nat (length k - s))
     @ EncodeVarint32 (of_nat (length v)) @ drop s k @ v"

definition entries_bytes :: "entry list \<Rightarrow> bytes" where
  "entries_bytes ls = concat (map entry_bytes ls)"

definition off :: "entry list \<Rightarrow> nat \<Rightarrow> nat" where
  "off ls i = length (entries_bytes (take i ls))"

definition ent_key :: "entry list \<Rightarrow> nat \<Rightarrow> bytes" where
  "ent_key ls i = fst (snd (ls ! i))"

definition ent_val :: "entry list \<Rightarrow> nat \<Rightarrow> bytes" where
  "ent_val ls i = snd (snd (ls ! i))"

definition prev_key :: "entry list \<Rightarrow> nat \<Rightarrow> bytes" where
  "prev_key ls i = (case i of 0 \<Rightarrow> [] | Suc j \<Rightarrow> ent_key ls j)"

definition shares :: "entry list \<Rightarrow> nat \<Rightarrow> bytes \<Rightarrow> bool" where
  "shares ls i k \<longleftrightarrow> fst (ls ! i) \<le> length k \<and> take (fst (ls ! i)) k = take (fst (ls ! i)) (ent_key ls i)"

definition layout_ok :: "entry list \<Rightarrow> bool" where
  "layout_ok ls \<longleftrightarrow> (\<forall>i < length ls. fst (ls ! i) \<le> length (ent_key ls i) \<and> shares ls i (prev_key ls i))"

definition restarts_ok :: "entry list \<Rightarrow> nat list \<Rightarrow> bool" where
  "restarts_ok ls rs \<longleftrightarrow> rs \<noteq> [] \<and> rs ! 0 = 0 \<and> (ls = [] \<longrightarrow> rs = [0])
     \<and> (\<forall>r \<in> set rs. ls \<noteq> [] \<longrightarrow> r < length ls \<and> fst (ls ! r) = 0)"

definition restart_bytes :: "entry list \<Rightarrow> nat list \<Rightarrow> bytes" where
  "restart_bytes ls rs = concat (map (\<lambda>r. EncodeFixed32 (of_nat (off ls r))) rs)"

definition block_bytes :: "entry list \<Rightarrow> nat list \<Rightarrow> bytes" where
  "block_bytes ls rs = entries_bytes ls @ restart_bytes ls rs @ EncodeFixed32 (of_nat (length rs))"

definition block_layout :: "bytes \<Rightarrow> entry list \<Rightarrow> nat list \<Rightarrow> bool" where
  "block_layout data ls rs \<longleftrightarrow> data = block_bytes ls rs \<and> length data < 2 ^ 32 \<and> layout_ok ls \<and> restarts_ok ls rs"

subsection \<open>Offsets\<close>

lemma entries_bytes_append [simp]: "entries_bytes (ls @ ms) = entries_bytes ls @ entries_bytes ms"
  by (simp add: entries_bytes_def)

lemma entries_bytes_simps [simp]: "entries_bytes [] = []" "entries_bytes (e # ls) = entry_bytes e @ entries_bytes ls"
  by (simp_all add: entries_bytes_def)

lemma off_0 [simp]: "off ls 0 = 0"
  by (simp add: off_def)

lemma off_all [simp]: "off ls (length ls) = length (entries_bytes ls)"
  by (simp add: off_def)

lemma off_Suc: "i < length ls \<Longrightarrow> off ls (Suc i) = off ls i + length (entry_bytes (ls ! i))"
  by (simp add: off_def take_Suc_conv_app_nth)

lemma off_append [simp]: "i \<le> length ls \<Longrightarrow> off (ls @ ms) i = off ls i"
  by (simp add: off_def)

lemma entry_bytes_pos: "0 < length (entry_bytes e)"
  by (cases e) (simp add: EncodeVarint32_varint)

lemma off_mono: "i \<le> j \<Longrightarrow> off ls i \<le> off ls j"
proof -
  assume "i \<le> j"
  then have "take j ls = take i ls @ take (j - i) (drop i ls)" using take_add [of i "j - i" ls] by simp
  then show ?thesis by (simp add: off_def)
qed

lemma off_less: "i < j \<Longrightarrow> j \<le> length ls \<Longrightarrow> off ls i < off ls j"
  using off_mono [of "Suc i" j ls] off_Suc [of i ls] entry_bytes_pos [of "ls ! i"] by linarith

lemma off_less_iff: "i \<le> length ls \<Longrightarrow> j \<le> length ls \<Longrightarrow> off ls i < off ls j \<longleftrightarrow> i < j"
  using off_less [of i j ls] off_mono [of j i ls] by (meson leD leI)

lemma drop_off: "i < length ls \<Longrightarrow> drop (off ls i) (entries_bytes ls) = entry_bytes (ls ! i) @ drop (off ls (Suc i)) (entries_bytes ls)"
proof -
  assume i: "i < length ls"
  have d: "drop (off ls j) (entries_bytes ls) = entries_bytes (drop j ls)" for j
  proof -
    have "entries_bytes ls = entries_bytes (take j ls) @ entries_bytes (drop j ls)"
      using entries_bytes_append [of "take j ls" "drop j ls"] by simp
    then show ?thesis by (simp add: off_def)
  qed
  have "drop i ls = ls ! i # drop (Suc i) ls" using i by (rule Cons_nth_drop_Suc [symmetric])
  then show ?thesis by (simp only: d entries_bytes_simps)
qed

text \<open>A key is not longer than the entries up to its own.\<close>

lemma key_length: "layout_ok ls \<Longrightarrow> i < length ls \<Longrightarrow> length (ent_key ls i) \<le> off ls (Suc i)"
proof (induction i)
  case 0
  obtain s k v where e: "ls ! 0 = (s, k, v)" by (cases "ls ! 0")
  then have "s = 0" using 0 by (auto simp: layout_ok_def shares_def prev_key_def)
  then show ?case using 0 e by (simp add: off_Suc ent_key_def)
next
  case (Suc i)
  obtain s k v where e: "ls ! Suc i = (s, k, v)" by (cases "ls ! Suc i")
  have "s \<le> length (ent_key ls i)" using Suc.prems e by (auto simp: layout_ok_def shares_def prev_key_def)
  also have "\<dots> \<le> off ls (Suc i)" using Suc by simp
  finally show ?case using Suc.prems e by (simp add: off_Suc [of "Suc i"] ent_key_def)
qed

subsection \<open>Decoding an entry\<close>

lemma byte_high: "(b :: byte) AND 128 = 0 \<longleftrightarrow> b < 128"
proof (cases "unat b < 128")
  case True
  then show ?thesis using high_bit_clear [of "unat b"] by (simp add: word_less_nat_alt)
next
  case False
  have "unat b < 256" using unsigned_less [of b] by simp
  then show ?thesis using False high_bit_set [of "unat b - 128"] by (simp add: word_less_nat_alt)
qed

lemma or_less_128: "(a OR b OR c :: byte) < 128 \<longleftrightarrow> a < 128 \<and> b < 128 \<and> c < 128"
  by (simp only: byte_high [symmetric] bit.conj_disj_distrib2 or_eq_0_iff)

lemma GetVarint32Ptr_byte: "b < 128 \<Longrightarrow> GetVarint32Ptr (b # p) = Some (ucast b, p)"
  by (simp add: GetVarint32Ptr_def byte_high)

lemma unat_ucast_byte [simp]: "unat (ucast (b :: byte) :: u32) = unat b"
proof -
  have "unat b < 256" using unsigned_less [of b] by simp
  then show ?thesis by (simp add: unsigned_ucast_eq take_bit_nat_eq_self)
qed

lemma unat_u32_of_nat: "n < 2 ^ 32 \<Longrightarrow> unat (of_nat n :: u32) = n"
  by (simp add: unat_of_nat)

lemma DecodeEntry_chain:
  assumes "GetVarint32Ptr p = Some (s, q)" and "GetVarint32Ptr q = Some (n, r)" and "GetVarint32Ptr r = Some (l, t)"
    and "3 \<le> length p" and "length t < 2 ^ 32" and "unat n + unat l \<le> length t"
  shows "DecodeEntry p = Some (unat s, unat n, unat l, t)"
proof -
  obtain a b c u where p: "p = a # b # c # u"
    using assms(4) by (auto simp: numeral_3_eq_3 Suc_le_length_iff)
  have t: "trunc32 (length t) = length t" "trunc32 (unat n + unat l) = unat n + unat l"
    using assms(5,6) by (simp_all add: trunc32_def)
  show ?thesis
  proof (cases "(a OR b OR c) < 128")
    case True
    then have "s = ucast a \<and> n = ucast b \<and> l = ucast c \<and> t = u"
      using assms(1-3) unfolding p by (auto simp: or_less_128 GetVarint32Ptr_byte)
    then show ?thesis using True t assms(6) p by (simp add: DecodeEntry_def)
  next
    case False
    then show ?thesis using assms t p by (simp add: DecodeEntry_def)
  qed
qed

lemma length_EncodeVarint32: "1 \<le> length (EncodeVarint32 v)"
  by (simp add: EncodeVarint32_varint Suc_le_eq)

lemma DecodeEntry_entry:
  assumes "s \<le> length k" and "length (entry_bytes (s, k, v) @ r) < 2 ^ 32" and "length k < 2 ^ 32"
  shows "DecodeEntry (entry_bytes (s, k, v) @ r) = Some (s, length k - s, length v, drop s k @ v @ r)"
proof -
  note g = GetVarint32_Encode [unfolded GetVarint32_def]
  have l: "length v < 2 ^ 32" "length (drop s k @ v @ r) < 2 ^ 32" using assms(2) by simp_all
  have 3: "3 \<le> length (entry_bytes (s, k, v) @ r)"
    using length_EncodeVarint32 [of "of_nat s"] length_EncodeVarint32 [of "of_nat (length k - s)"]
      length_EncodeVarint32 [of "of_nat (length v)"] by simp
  have u: "unat (of_nat s :: u32) = s" "unat (of_nat (length k - s) :: u32) = length k - s"
    "unat (of_nat (length v) :: u32) = length v"
    using assms(1,3) l by (simp_all only: unat_u32_of_nat)
  show ?thesis
    using DecodeEntry_chain [OF _ _ _ 3 l(2), of "of_nat s" _ "of_nat (length k - s)" _ "of_nat (length v)"] g u
    by simp
qed

end
