(* ===== verification/Ldb_Block_Iter.thy ===== *)
theory Ldb_Block_Iter
  imports Ldb_Block_Layout
begin

text \<open>
  The moves of the iterator over a block of the layout: parsing the next entry, stepping back, the binary
  search in the restart array and the linear search from there.  The locale \<open>block_order\<close> is the contract
  the search relies on.
\<close>

section \<open>Positions of the iterator\<close>

definition iter_on :: "entry list \<Rightarrow> nat list \<Rightarrow> block_iter \<Rightarrow> bool" where
  "iter_on ls rs it \<longleftrightarrow> bi_data it = block_bytes ls rs \<and> bi_restarts it = off ls (length ls)
     \<and> bi_num_restarts it = length rs \<and> bi_status it = StatusOK"

text \<open>The iterator stands at an entry; the next entry to parse is known; it is past the end.\<close>

definition at_entry :: "entry list \<Rightarrow> nat list \<Rightarrow> block_iter \<Rightarrow> nat \<Rightarrow> bool" where
  "at_entry ls rs it i \<longleftrightarrow> iter_on ls rs it \<and> i < length ls \<and> bi_current it = off ls i \<and> bi_key it = ent_key ls i
     \<and> bi_restart_index it < length rs
     \<and> (\<exists>p n. bi_value it = Some (p, n) \<and> p + n = off ls (Suc i) \<and> slice p n (block_bytes ls rs) = ent_val ls i)"

definition ready_for :: "entry list \<Rightarrow> nat list \<Rightarrow> block_iter \<Rightarrow> nat \<Rightarrow> bool" where
  "ready_for ls rs it i \<longleftrightarrow> iter_on ls rs it \<and> i \<le> length ls \<and> bi_restart_index it < length rs
     \<and> (\<exists>p n. bi_value it = Some (p, n) \<and> p + n = off ls i) \<and> (i < length ls \<longrightarrow> shares ls i (bi_key it))"

definition at_end :: "entry list \<Rightarrow> nat list \<Rightarrow> block_iter \<Rightarrow> bool" where
  "at_end ls rs it \<longleftrightarrow> iter_on ls rs it \<and> bi_current it = bi_restarts it"

lemma iter_on_upd [simp]:
  "iter_on ls rs (it\<lparr>bi_current := c\<rparr>) = iter_on ls rs it" "iter_on ls rs (it\<lparr>bi_key := k\<rparr>) = iter_on ls rs it"
  "iter_on ls rs (it\<lparr>bi_restart_index := j\<rparr>) = iter_on ls rs it" "iter_on ls rs (it\<lparr>bi_value := w\<rparr>) = iter_on ls rs it"
  by (simp_all add: iter_on_def)

lemma restart_point_bytes:
  assumes "j < length rs"
  shows "\<exists>r. drop (4 * j) (restart_bytes ls rs) = EncodeFixed32 (of_nat (off ls (rs ! j))) @ r"
  using assms
proof (induction rs arbitrary: j)
  case (Cons r rs)
  then show ?case by (cases j) (auto simp: restart_bytes_def)
qed simp

lemma length_restart_bytes [simp]: "length (restart_bytes ls rs) = 4 * length rs"
  by (induction rs) (simp_all add: restart_bytes_def)

lemma length_block_bytes: "length (block_bytes ls rs) = off ls (length ls) + 4 * length rs + 4"
  by (simp add: block_bytes_def)

text \<open>The facts of a block of the layout, once for all proofs below.\<close>

lemma layoutD:
  assumes "block_layout data ls rs"
  shows "off ls (length ls) + 4 * length rs + 4 < 2 ^ 32" "layout_ok ls" "rs \<noteq> []" "rs ! 0 = 0"
    "j < length rs \<Longrightarrow> rs ! j \<le> length ls" "j < length rs \<Longrightarrow> ls \<noteq> [] \<Longrightarrow> rs ! j < length ls"
    "j < length rs \<Longrightarrow> ls \<noteq> [] \<Longrightarrow> fst (ls ! (rs ! j)) = 0" "ls = [] \<Longrightarrow> rs = [0]"
    "i \<le> length ls \<Longrightarrow> off ls i < 2 ^ 32"
proof -
  have "length (block_bytes ls rs) < 2 ^ 32" using assms by (auto simp: block_layout_def)
  then show b: "off ls (length ls) + 4 * length rs + 4 < 2 ^ 32" unfolding length_block_bytes .
  show "layout_ok ls" "rs \<noteq> []" "rs ! 0 = 0" "ls = [] \<Longrightarrow> rs = [0]" using assms by (simp_all add: block_layout_def restarts_ok_def)
  show r: "j < length rs \<Longrightarrow> ls \<noteq> [] \<Longrightarrow> rs ! j < length ls" "j < length rs \<Longrightarrow> ls \<noteq> [] \<Longrightarrow> fst (ls ! (rs ! j)) = 0"
    using assms nth_mem [of j rs] by (auto simp: block_layout_def restarts_ok_def)
  show "j < length rs \<Longrightarrow> rs ! j \<le> length ls"
    using r(1) \<open>ls = [] \<Longrightarrow> rs = [0]\<close> by (cases "ls = []") auto
  show "i \<le> length ls \<Longrightarrow> off ls i < 2 ^ 32" using off_mono [of i "length ls" ls] b by linarith
qed

lemma GetRestartPoint_ok:
  assumes "block_layout data ls rs" and "iter_on ls rs it" and "j < length rs"
  shows "GetRestartPoint it j = Inr (off ls (rs ! j))"
proof -
  obtain r where r: "drop (4 * j) (restart_bytes ls rs) = EncodeFixed32 (of_nat (off ls (rs ! j))) @ r"
    using restart_point_bytes [OF assms(3)] by blast
  have d: "drop (off ls (length ls) + j * 4) (block_bytes ls rs) = drop (4 * j) (restart_bytes ls rs) @ EncodeFixed32 (of_nat (length rs))"
    using assms(3) by (simp add: block_bytes_def mult.commute)
  have "off ls (rs ! j) < 2 ^ 32" using layoutD(5,9) [OF assms(1)] assms(3) by blast
  then show ?thesis
    using assms(2,3) by (simp only: GetRestartPoint_def iter_on_def d r)
      (simp add: length_block_bytes unat_u32_of_nat)
qed

lemma advance_restart_ok:
  assumes l: "block_layout data ls rs" and "iter_on ls rs it" and "bi_restart_index it < length rs"
  shows "\<exists>j < length rs. advance_restart it = Inr (it\<lparr>bi_restart_index := j\<rparr>)"
  using assms(2,3)
proof (induction it rule: advance_restart.induct)
  case (1 it)
  let ?i = "bi_restart_index it + 1"
  have n: "bi_num_restarts it = length rs" using 1(2) by (simp add: iter_on_def)
  have it: "it = it\<lparr>bi_restart_index := bi_restart_index it\<rparr>" by simp
  show ?case
  proof (cases "?i < length rs \<and> off ls (rs ! ?i) < bi_current it")
    case True
    then have g: "GetRestartPoint it ?i = Inr (off ls (rs ! ?i))" using GetRestartPoint_ok [OF l 1(2)] by simp
    then obtain j where "j < length rs" "advance_restart (it\<lparr>bi_restart_index := ?i\<rparr>) = Inr (it\<lparr>bi_restart_index := j\<rparr>)"
      using 1(1) [of "off ls (rs ! ?i)"] True 1(2) n by auto
    then show ?thesis using True g n by (subst advance_restart.simps) auto
  next
    case False
    then have "advance_restart it = Inr it"
      using GetRestartPoint_ok [OF l 1(2), of ?i] n by (subst advance_restart.simps) auto
    then show ?thesis using it 1(3) by metis
  qed
qed

lemma drop_data:
  assumes "i < length ls"
  shows "drop (off ls i) (take (off ls (length ls)) (block_bytes ls rs))
    = entry_bytes (ls ! i) @ drop (off ls (Suc i)) (entries_bytes ls)"
  using drop_off [OF assms] by (simp add: block_bytes_def)

text \<open>The entry at an offset, as \<open>DecodeEntry\<close> reads it, and where its key and its value lie.\<close>

lemma DecodeEntry_at:
  assumes l: "block_layout data ls rs" and i: "i < length ls" and e: "ls ! i = (s, k, v)"
  obtains rest p where "DecodeEntry (drop (off ls i) (take (off ls (length ls)) (block_bytes ls rs)))
      = Some (s, length k - s, length v, rest)"
    "p = off ls (length ls) - length rest" "p + (length k - s) + length v = off ls (Suc i)"
    "slice p (length k - s) (block_bytes ls rs) = drop s k"
    "slice (p + (length k - s)) (length v) (block_bytes ls rs) = v" "p + (length k - s) \<le> length (block_bytes ls rs)"
proof -
  let ?r = "drop (off ls (Suc i)) (entries_bytes ls)" and ?n = "off ls (length ls)"
  let ?rest = "drop s k @ v @ ?r"
  let ?p = "?n - length ?rest"
  have s: "s \<le> length k" and k: "length k \<le> off ls (Suc i)"
    using layoutD(2) [OF l] i e key_length [of ls i] by (auto simp: layout_ok_def ent_key_def)
  have m: "off ls (Suc i) \<le> ?n" using i by (intro off_mono) simp
  have b: "?n < 2 ^ 32" using layoutD(9) [OF l] by blast
  have es: "entries_bytes ls = entries_bytes (take i ls) @ entry_bytes (s, k, v) @ ?r"
    using drop_off [OF i] append_take_drop_id [of "off ls i" "entries_bytes ls"] e
      entries_bytes_append [of "take i ls" "drop i ls"] by (simp add: off_def)
  let ?pre = "entries_bytes (take i ls) @ EncodeVarint32 (of_nat s) @ EncodeVarint32 (of_nat (length k - s))
    @ EncodeVarint32 (of_nat (length v))"
  have d: "block_bytes ls rs = ?pre @ drop s k @ v @ ?r @ restart_bytes ls rs @ EncodeFixed32 (of_nat (length rs))"
    by (subst block_bytes_def, subst es) simp
  have tot: "?n = length ?pre + length ?rest" by (subst off_all, subst es) simp
  then have p: "?p = length ?pre" by linarith
  have D: "DecodeEntry (drop (off ls i) (take ?n (block_bytes ls rs))) = Some (s, length k - s, length v, ?rest)"
  proof -
    have "entry_bytes (s, k, v) @ ?r = drop (off ls i) (entries_bytes ls)" by (simp only: drop_off [OF i] e)
    then have "length (entry_bytes (s, k, v) @ ?r) = ?n - off ls i" by (simp only: length_drop off_all)
    then show ?thesis
      unfolding drop_data [OF i] e using s k m b by (intro DecodeEntry_entry) linarith+
  qed
  have "length ?rest = (length k - s) + length v + (?n - off ls (Suc i))" by simp
  then have "?p + (length k - s) + length v = off ls (Suc i)" using m diff_le_self [of ?n "length ?rest"] tot p by linarith
  moreover have "slice ?p (length k - s) (block_bytes ls rs) = drop s k"
    unfolding p by (subst d) (simp add: slice_def)
  moreover have "slice (?p + (length k - s)) (length v) (block_bytes ls rs) = v"
    unfolding p by (subst d) (simp add: slice_def)
  moreover have "?p + (length k - s) \<le> length (block_bytes ls rs)" unfolding p by (subst d) simp
  ultimately show ?thesis using that [OF D refl] by blast
qed

lemma ParseNextKey_ok:
  assumes l: "block_layout data ls rs" and r: "ready_for ls rs it i"
  shows "if i < length ls then \<exists>it'. ParseNextKey it = Inr (True, it') \<and> at_entry ls rs it' i
    else \<exists>it'. ParseNextKey it = Inr (False, it') \<and> at_end ls rs it'"
proof -
  note R = r [unfolded ready_for_def]
  have "off ls i < 2 ^ 32" using R layoutD(9) [OF l] by blast
  then have n: "NextEntryOffset it = Inr (off ls i)" using R by (auto simp: NextEntryOffset_def trunc32_def)
  have on: "iter_on ls rs it" "bi_restarts it = off ls (length ls)" "bi_data it = block_bytes ls rs"
    using R by (simp_all add: iter_on_def)
  show ?thesis
  proof (cases "i < length ls")
    case False
    then have "ParseNextKey it = Inr (False, it\<lparr>bi_current := bi_restarts it, bi_restart_index := bi_num_restarts it\<rparr>)"
      using R n on by (simp add: ParseNextKey_def)
    then show ?thesis using False on by (simp add: at_end_def)
  next
    case True
    obtain s k v where e: "ls ! i = (s, k, v)" by (cases "ls ! i")
    obtain rest p where D: "DecodeEntry (drop (off ls i) (take (off ls (length ls)) (block_bytes ls rs)))
        = Some (s, length k - s, length v, rest)" "p = off ls (length ls) - length rest"
        "p + (length k - s) + length v = off ls (Suc i)" "slice p (length k - s) (block_bytes ls rs) = drop s k"
        "slice (p + (length k - s)) (length v) (block_bytes ls rs) = v" "p + (length k - s) \<le> length (block_bytes ls rs)"
      by (rule DecodeEntry_at [OF l True e])
    let ?it = "it\<lparr>bi_current := off ls i, bi_key := take s (bi_key it) @ drop s k, bi_value := Some (p + (length k - s), length v)\<rparr>"
    obtain j where j: "j < length rs" "advance_restart ?it = Inr (?it\<lparr>bi_restart_index := j\<rparr>)"
      using advance_restart_ok [OF l, of ?it] R on(1) by auto
    have sh: "s \<le> length (bi_key it)" "take s (bi_key it) = take s k"
      using R True e by (simp_all add: shares_def ent_key_def)
    then have "bi_key ?it = k" by simp
    have "off ls i < off ls (length ls)" using True by (intro off_less) simp_all
    then have "ParseNextKey it = Inr (True, ?it\<lparr>bi_restart_index := j\<rparr>)"
      unfolding ParseNextKey_def using n on D sh j by (simp add: Let_def)
    moreover have "at_entry ls rs (?it\<lparr>bi_restart_index := j\<rparr>) i"
      using True on j D e sh by (simp add: at_entry_def ent_key_def ent_val_def)
    ultimately show ?thesis using True by auto
  qed
qed

section \<open>The moves\<close>

lemma at_entry_ready:
  assumes "block_layout data ls rs" and "at_entry ls rs it i"
  shows "ready_for ls rs it (Suc i)"
  using assms(2) layoutD(2) [OF assms(1)] by (auto simp: ready_for_def at_entry_def layout_ok_def prev_key_def)

lemma SeekToRestartPoint_ok:
  assumes l: "block_layout data ls rs" and on: "iter_on ls rs it" and j: "j < length rs"
  shows "\<exists>it'. SeekToRestartPoint it j = Inr it' \<and> ready_for ls rs it' (rs ! j)"
proof -
  have "rs ! j < length ls \<longrightarrow> shares ls (rs ! j) []"
    using layoutD(7) [OF l j] by (cases "ls = []") (simp_all add: shares_def)
  then show ?thesis
    using GetRestartPoint_ok [OF l on j] layoutD(5) [OF l j] on j
    by (simp add: SeekToRestartPoint_def ready_for_def)
qed

lemma at_entry_offset:
  assumes "block_layout data ls rs" and "at_entry ls rs it i"
  shows "NextEntryOffset it = Inr (off ls (Suc i))"
  using assms(2) layoutD(9) [OF assms(1), of "Suc i"] by (auto simp: at_entry_def NextEntryOffset_def trunc32_def)

lemma parse_until_ok:
  assumes l: "block_layout data ls rs" and "ready_for ls rs it i" and "i < e" and e: "e \<le> length ls"
  shows "\<exists>it'. parse_until (off ls e) it = Some (Inr it') \<and> at_entry ls rs it' (e - 1)"
  using assms(2,3)
proof (induction "e - i" arbitrary: it i)
  case (Suc d)
  then obtain it' where it': "ParseNextKey it = Inr (True, it')" "at_entry ls rs it' i"
    using ParseNextKey_ok [OF l Suc.prems(1)] e by auto
  note o = at_entry_offset [OF l it'(2)]
  show ?case
  proof (cases "Suc i < e")
    case True
    then show ?thesis
      using Suc.hyps(1) [of "Suc i" it'] Suc.hyps(2) at_entry_ready [OF l it'(2)] it' o off_less_iff [of "Suc i" ls e] e
      by (subst parse_until.simps) auto
  next
    case False
    then have "e = Suc i" using Suc.prems by simp
    then show ?thesis using it' o by (subst parse_until.simps) simp
  qed
qed simp

lemma restart_before_ok:
  assumes l: "block_layout data ls rs" and on: "iter_on ls rs it" and "j < length rs" and i: "i \<le> length ls"
  shows "if i = 0 then restart_before it (off ls i) j = Inr None
    else \<exists>j' < length rs. restart_before it (off ls i) j = Inr (Some j') \<and> rs ! j' < i"
  using assms(3)
proof (induction j)
  case 0
  then show ?case
    using GetRestartPoint_ok [OF l on, of 0] layoutD(4) [OF l] off_less_iff [of 0 ls i] i by auto
next
  case (Suc j)
  then show ?case
    using GetRestartPoint_ok [OF l on, of "Suc j"] off_less_iff [of "rs ! Suc j" ls i] i layoutD(5) [OF l]
    by (cases "off ls (rs ! Suc j) < off ls i") (auto simp: not_less)
qed

definition cursor :: "entry list \<Rightarrow> nat list \<Rightarrow> block_iter \<Rightarrow> nat \<Rightarrow> bool" where
  "cursor ls rs it i \<longleftrightarrow> (if i < length ls then at_entry ls rs it i else i = length ls \<and> at_end ls rs it)"

lemma cursor_on: "cursor ls rs it i \<Longrightarrow> iter_on ls rs it"
  by (auto simp: cursor_def at_entry_def at_end_def split: if_splits)

lemma cursor_Valid: "cursor ls rs it i \<Longrightarrow> bi_Valid it \<longleftrightarrow> i < length ls"
  using off_less [of i "length ls" ls]
  by (auto simp: cursor_def at_entry_def at_end_def iter_on_def bi_Valid_def simp del: off_all split: if_splits)

lemma ParseNextKey_cursor:
  assumes "block_layout data ls rs" and "ready_for ls rs it i"
  shows "\<exists>it'. ParseNextKey it = Inr (i < length ls, it') \<and> cursor ls rs it' i"
  using ParseNextKey_ok [OF assms] assms(2) by (auto simp: cursor_def ready_for_def split: if_splits)

lemma bi_Next_ok:
  assumes "block_layout data ls rs" and c: "cursor ls rs it i" and "i < length ls"
  shows "\<exists>it'. bi_Next it = Inr it' \<and> cursor ls rs it' (Suc i)"
  using ParseNextKey_cursor [OF assms(1) at_entry_ready [OF assms(1)], of it i] cursor_Valid [OF c] c assms(3)
  by (auto simp: bi_Next_def cursor_def)

lemma bi_SeekToFirst_ok:
  assumes l: "block_layout data ls rs" and "iter_on ls rs it"
  shows "\<exists>it'. bi_SeekToFirst it = Inr it' \<and> cursor ls rs it' 0"
proof -
  have "0 < length rs" using layoutD(3) [OF l] by simp
  then obtain it' where "SeekToRestartPoint it 0 = Inr it'" "ready_for ls rs it' 0"
    using SeekToRestartPoint_ok [OF assms, of 0] layoutD(4) [OF l] by auto
  then show ?thesis using ParseNextKey_cursor [OF l] by (fastforce simp: bi_SeekToFirst_def)
qed

lemma bi_SeekToLast_ok:
  assumes l: "block_layout data ls rs" and on: "iter_on ls rs it"
  shows "\<exists>it'. bi_SeekToLast it = Some (Inr it') \<and> cursor ls rs it' (length ls - 1)"
proof -
  let ?j = "length rs - 1"
  have j: "?j < length rs" using layoutD(3) [OF l] by simp
  obtain it' where it': "SeekToRestartPoint it ?j = Inr it'" "ready_for ls rs it' (rs ! ?j)"
    using SeekToRestartPoint_ok [OF l on j] by blast
  have r: "bi_restarts it' = off ls (length ls)" "bi_num_restarts it = length rs"
    using it'(2) on by (auto simp: ready_for_def iter_on_def)
  show ?thesis
  proof (cases "ls = []")
    case True
    then have "rs ! ?j = 0" using layoutD(8) [OF l] by simp
    then obtain it2 where "ParseNextKey it' = Inr (False, it2)" "cursor ls rs it2 0"
      using ParseNextKey_cursor [OF l it'(2)] True by auto
    then show ?thesis using it' r True by (subst bi_SeekToLast_def, subst parse_until.simps) simp
  next
    case False
    then show ?thesis
      using parse_until_ok [OF l it'(2) layoutD(6) [OF l j]] it' r
      by (simp add: bi_SeekToLast_def cursor_def del: off_all)
  qed
qed

lemma bi_Prev_ok:
  assumes l: "block_layout data ls rs" and c: "cursor ls rs it i" and i: "i < length ls"
  shows "\<exists>it'. bi_Prev it = Some (Inr it') \<and> cursor ls rs it' (if i = 0 then length ls else i - 1)"
proof -
  have at: "at_entry ls rs it i" "iter_on ls rs it" using c i by (auto simp: cursor_def at_entry_def)
  then have cur: "bi_current it = off ls i" "bi_restart_index it < length rs" by (auto simp: at_entry_def)
  note rb = restart_before_ok [OF l at(2) cur(2), of i]
  show ?thesis
  proof (cases "i = 0")
    case True
    then show ?thesis
      using rb cur cursor_Valid [OF c] i at(2) by (simp add: bi_Prev_def cursor_def at_end_def del: restart_before.simps)
  next
    case False
    then obtain j where j: "j < length rs" "restart_before it (off ls i) (bi_restart_index it) = Inr (Some j)" "rs ! j < i"
      using rb i by (auto simp del: restart_before.simps)
    obtain it' where "SeekToRestartPoint it j = Inr it'" "ready_for ls rs it' (rs ! j)"
      using SeekToRestartPoint_ok [OF l at(2) j(1)] by blast
    then show ?thesis
      using parse_until_ok [OF l _ j(3)] j i cur cursor_Valid [OF c] False
      by (fastforce simp: bi_Prev_def cursor_def simp del: restart_before.simps)
  qed
qed

subsection \<open>Seeking\<close>

definition ent_keys :: "entry list \<Rightarrow> bytes list" where
  "ent_keys ls = map (fst \<circ> snd) ls"

lemma length_ent_keys [simp]: "length (ent_keys ls) = length ls"
  by (simp add: ent_keys_def)

lemma ent_keys_nth: "i < length ls \<Longrightarrow> ent_keys ls ! i = ent_key ls i"
  by (simp add: ent_keys_def ent_key_def)

text \<open>The place of a target: the number of keys below it.\<close>

definition seek_place :: "(bytes \<Rightarrow> bytes \<Rightarrow> int) \<Rightarrow> bytes list \<Rightarrow> bytes \<Rightarrow> nat" where
  "seek_place cmp ks target = length (takeWhile (\<lambda>k. cmp k target < 0) ks)"

lemma seek_place_le: "seek_place cmp ks t \<le> length ks"
  by (simp add: seek_place_def length_takeWhile_le)

lemma seek_place_eq:
  assumes "i \<le> length ks" and "\<And>j. j < i \<Longrightarrow> cmp (ks ! j) t < 0" and "i < length ks \<Longrightarrow> \<not> cmp (ks ! i) t < 0"
  shows "seek_place cmp ks t = i"
proof -
  have "takeWhile (\<lambda>k. cmp k t < 0) ks = take i ks"
  proof (cases "i < length ks")
    case True
    then show ?thesis using assms by (intro takeWhile_eq_take_P_nth) auto
  next
    case False
    then show ?thesis using assms by (intro takeWhile_eq_take_P_nth) auto
  qed
  then show ?thesis using assms(1) by (simp add: seek_place_def)
qed

lemma seek_linear_ok:
  assumes l: "block_layout data ls rs" and "ready_for ls rs it i"
    and "\<And>j. j < i \<Longrightarrow> cmp (ent_keys ls ! j) target < 0"
  shows "\<exists>it'. seek_linear cmp target it = Some (Inr it') \<and> cursor ls rs it' (seek_place cmp (ent_keys ls) target)"
  using assms(2,3)
proof (induction "length ls - i" arbitrary: it i)
  case 0
  then have i: "i = length ls" by (simp add: ready_for_def)
  then have "seek_place cmp (ent_keys ls) target = length ls" using 0 by (intro seek_place_eq) simp_all
  then show ?case
    using ParseNextKey_cursor [OF l 0(2)] i by (subst seek_linear.simps) auto
next
  case (Suc d)
  then have i: "i < length ls" by simp
  then obtain it' where it': "ParseNextKey it = Inr (True, it')" "at_entry ls rs it' i"
    using ParseNextKey_ok [OF l Suc.prems(1)] by auto
  then have k: "bi_key it' = ent_keys ls ! i" using i by (simp add: at_entry_def ent_keys_nth)
  show ?case
  proof (cases "cmp (ent_keys ls ! i) target < 0")
    case True
    then have "\<And>j. j < Suc i \<Longrightarrow> cmp (ent_keys ls ! j) target < 0" using Suc.prems(2) by (auto simp: less_Suc_eq)
    then have ih: "\<exists>it2. seek_linear cmp target it' = Some (Inr it2) \<and> cursor ls rs it2 (seek_place cmp (ent_keys ls) target)"
      using Suc.hyps(1) [OF _ at_entry_ready [OF l it'(2)]] Suc.hyps(2) by simp
    show ?thesis using ih it' k True by (subst seek_linear.simps) simp
  next
    case False
    then have "seek_place cmp (ent_keys ls) target = i" using Suc.prems i by (intro seek_place_eq) simp_all
    then show ?thesis using it' k False i by (subst seek_linear.simps) (simp add: cursor_def)
  qed
qed

text \<open>The order of the keys of a block: a comparator of byte strings.\<close>

locale block_order = comparator cmp for cmp :: "bytes \<Rightarrow> bytes \<Rightarrow> int"
begin

text \<open>The search only has to keep that the left restart point is the first entry or below the target.\<close>

lemma seek_restart_ok:
  assumes l: "block_layout data ls rs" and on: "iter_on ls rs it"
    and sorted: "sorted_wrt (\<lambda>a b. cmp a b < 0) (ent_keys ls)"
    and "left \<le> right" "right < length rs" "\<And>j. j < rs ! left \<Longrightarrow> cmp (ent_keys ls ! j) target < 0"
  shows "\<exists>m < length rs. seek_restart cmp target it left right = Some (Inr (Inr m))
    \<and> (\<forall>j < rs ! m. cmp (ent_keys ls ! j) target < 0)"
  using assms(4-6)
proof (induction "right - left" arbitrary: left right rule: less_induct)
  case less
  show ?case
  proof (cases "left < right")
    case False
    then show ?thesis using less.prems by (subst seek_restart.simps) auto
  next
    case True
    let ?m = "(left + right + 1) div 2"
    have "2 * length rs < 2 ^ 32" using layoutD(1) [OF l] by linarith
    then have t: "trunc32 (Suc (left + right)) = Suc (left + right)" using less.prems(2) True by (simp add: trunc32_def)
    have m: "left < ?m" "?m \<le> right" "?m < length rs" using True less.prems(2) by linarith+
    have ne: "ls \<noteq> []" using layoutD(8) [OF l] True less.prems(2) by auto
    note r = layoutD(6) [OF l m(3) ne] and r0 = layoutD(7) [OF l m(3) ne]
    obtain k v where e: "ls ! (rs ! ?m) = (0, k, v)" using r0 by (cases "ls ! (rs ! ?m)") auto
    obtain rest p where D: "DecodeEntry (drop (off ls (rs ! ?m)) (take (off ls (length ls)) (block_bytes ls rs)))
        = Some (0, length k, length v, rest)" "p = off ls (length ls) - length rest"
        "slice p (length k) (block_bytes ls rs) = k" "p + length k \<le> length (block_bytes ls rs)"
      using DecodeEntry_at [OF l r e] by simp metis
    have k: "ent_keys ls ! (rs ! ?m) = k" using r e by (simp add: ent_keys_def)
    have step: "seek_restart cmp target it left right = (if cmp k target < 0
        then seek_restart cmp target it ?m right else seek_restart cmp target it left (?m - 1))"
      using True GetRestartPoint_ok [OF l on m(3)] D on
      by (subst seek_restart.simps) (simp add: Let_def t iter_on_def del: off_all)
    show ?thesis
    proof (cases "cmp k target < 0")
      case True
      have "cmp (ent_keys ls ! j) target < 0" if "j < rs ! ?m" for j
        using sorted_wrt_nth_less [OF sorted that] r k cmp_less_trans [of "ent_keys ls ! j" k target] True by simp
      then show ?thesis using less.hyps [of right ?m] m less.prems(2) True step by simp
    next
      case False
      then show ?thesis using less.hyps [of "?m - 1" left] m less.prems step by simp
    qed
  qed
qed

lemma bi_Seek_ok:
  assumes l: "block_layout data ls rs" and on: "iter_on ls rs it"
    and sorted: "sorted_wrt (\<lambda>a b. cmp a b < 0) (ent_keys ls)"
  shows "\<exists>it'. bi_Seek cmp it target = Some (Inr it') \<and> cursor ls rs it' (seek_place cmp (ent_keys ls) target)"
proof -
  have rs: "bi_num_restarts it = length rs" using on by (simp add: iter_on_def)
  have "0 \<le> length rs - 1" "length rs - 1 < length rs" "\<And>j. j < rs ! 0 \<Longrightarrow> cmp (ent_keys ls ! j) target < 0"
    using layoutD(3,4) [OF l] by auto
  from seek_restart_ok [OF l on sorted this]
  obtain m where m: "m < length rs" "seek_restart cmp target it 0 (length rs - 1) = Some (Inr (Inr m))"
    "\<And>j. j < rs ! m \<Longrightarrow> cmp (ent_keys ls ! j) target < 0" by blast
  obtain it' where it': "SeekToRestartPoint it m = Inr it'" "ready_for ls rs it' (rs ! m)"
    using SeekToRestartPoint_ok [OF l on m(1)] by blast
  show ?thesis using seek_linear_ok [where cmp = cmp and target = target, OF l it'(2)] it'(1) m(2,3) rs by (simp add: bi_Seek_def)
qed

end

interpretation bytewise_block: block_order slice_compare
  by unfold_locales

interpretation internal_block: block_order InternalKeyCompare
  by unfold_locales

end
