(* ===== verification/Ldb_Block_Properties.thy ===== *)
theory Ldb_Block_Properties
  imports Ldb_Block_Iter
begin

text \<open>
  What the builder of a block writes has the layout of \<open>Ldb_Block_Layout\<close>, so that the iterator of the
  finished block refines a cursor over the list of the entries that were added.
\<close>

section \<open>The builder writes the layout\<close>

lemma diff_index_prefix:
  "diff_index a b \<le> length a" "diff_index a b \<le> length b" "take (diff_index a b) a = take (diff_index a b) b"
  by (induction a b rule: diff_index.induct) auto

fun add_all :: "(bytes \<Rightarrow> bytes \<Rightarrow> int) \<Rightarrow> int \<Rightarrow> block_builder \<Rightarrow> (bytes \<times> bytes) list \<Rightarrow> block_builder result" where
  "add_all cmp n b [] = Inr b"
| "add_all cmp n b ((k, v) # es) = and_then (builder_Add cmp n b k v) (\<lambda>b. add_all cmp n b es)"

lemma add_all_snoc:
  "add_all cmp n b (es @ [(k, v)]) = and_then (add_all cmp n b es) (\<lambda>b. builder_Add cmp n b k v)"
proof (induction es arbitrary: b)
  case Nil
  show ?case by (cases "builder_Add cmp n b k v") auto
next
  case (Cons e es)
  then show ?case by (cases e, cases "builder_Add cmp n b (fst e) (snd e)") auto
qed

definition build_inv :: "(bytes \<Rightarrow> bytes \<Rightarrow> int) \<Rightarrow> block_builder \<Rightarrow> entry list \<Rightarrow> nat list \<Rightarrow> bool" where
  "build_inv cmp b ls rs \<longleftrightarrow> bb_buffer b = entries_bytes ls \<and> bb_restarts b = map (off ls) rs
     \<and> bb_last_key b = prev_key ls (length ls) \<and> layout_ok ls \<and> restarts_ok ls rs
     \<and> sorted_wrt (\<lambda>a b. cmp a b < 0) (ent_keys ls)"

lemma ent_snoc:
  "i < length ls \<Longrightarrow> ent_key (ls @ [e]) i = ent_key ls i" "i \<le> length ls \<Longrightarrow> prev_key (ls @ [e]) i = prev_key ls i"
  by (auto simp: ent_key_def prev_key_def nth_append split: nat.split)

lemma prev_key_snoc: "prev_key (ls @ [(s, k, v)]) (Suc (length ls)) = k"
  by (simp add: prev_key_def ent_key_def)

lemma layout_ok_snoc:
  assumes "layout_ok ls" and "s \<le> length k" and "s \<le> length (prev_key ls (length ls))"
    and "take s (prev_key ls (length ls)) = take s k"
  shows "layout_ok (ls @ [(s, k, v)])"
  unfolding layout_ok_def
proof (intro allI impI)
  fix i
  assume "i < length (ls @ [(s, k, v)])"
  then consider "i < length ls" | "i = length ls" by fastforce
  then show "fst ((ls @ [(s, k, v)]) ! i) \<le> length (ent_key (ls @ [(s, k, v)]) i) \<and> shares (ls @ [(s, k, v)]) i (prev_key (ls @ [(s, k, v)]) i)"
  proof cases
    case 1
    then show ?thesis using assms(1) by (simp add: layout_ok_def shares_def ent_snoc nth_append)
  next
    case 2
    then show ?thesis using assms(2-4) by (simp add: shares_def ent_snoc) (simp add: ent_key_def)
  qed
qed

lemma restarts_ok_snoc:
  assumes "restarts_ok ls rs" and "layout_ok (ls @ [e])"
  shows "restarts_ok (ls @ [e]) rs" "fst e = 0 \<Longrightarrow> restarts_ok (ls @ [e]) (rs @ [length ls])"
proof -
  have "fst ((ls @ [e]) ! 0) = 0" using assms(2) unfolding layout_ok_def shares_def prev_key_def by fastforce
  then have "ls = [] \<Longrightarrow> fst e = 0" by simp
  then show "restarts_ok (ls @ [e]) rs" "fst e = 0 \<Longrightarrow> restarts_ok (ls @ [e]) (rs @ [length ls])"
    using assms(1) by (auto simp: restarts_ok_def nth_append)
qed

lemma map_off_snoc: "restarts_ok ls rs \<Longrightarrow> map (off (ls @ [e])) rs = map (off ls) rs"
  by (cases "ls = []") (auto simp: restarts_ok_def)

lemma entries_bytes_Nil: "entries_bytes ls = [] \<longleftrightarrow> ls = []"
  using entry_bytes_pos by (cases ls) auto

context block_order
begin

lemma sorted_snoc:
  assumes "sorted_wrt (\<lambda>a b. cmp a b < 0) (ent_keys ls)" and "ls = [] \<or> cmp k (prev_key ls (length ls)) > 0"
  shows "sorted_wrt (\<lambda>a b. cmp a b < 0) (ent_keys (ls @ [(s, k, v)]))"
proof -
  have "cmp x k < 0" if "x \<in> set (ent_keys ls)" for x
  proof -
    from that obtain i where i: "i < length ls" "x = ent_keys ls ! i" by (auto simp: in_set_conv_nth)
    have last: "prev_key ls (length ls) = ent_keys ls ! (length ls - 1)"
      using i by (cases "length ls") (auto simp: prev_key_def ent_keys_nth)
    have "cmp x (prev_key ls (length ls)) \<le> 0"
    proof (cases "i = length ls - 1")
      case True
      then show ?thesis using last i cmp_refl by simp
    next
      case False
      then have "i < length ls - 1" "length ls - 1 < length (ent_keys ls)" using i by simp_all
      then have "cmp x (ent_keys ls ! (length ls - 1)) < 0" using sorted_wrt_nth_less [OF assms(1)] i(2) by simp
      then show ?thesis using last by simp
    qed
    then show ?thesis using assms(2) i cmp_sym [of "prev_key ls (length ls)" k] cmp_trans_less by auto
  qed
  then show ?thesis using assms(1) by (simp add: ent_keys_def sorted_wrt_append)
qed

lemma Add_ok:
  assumes inv: "build_inv cmp b ls rs" and a: "builder_Add cmp n b k v = Inr b'" and "length (bb_buffer b') < 2 ^ 32"
  shows "\<exists>s rs'. build_inv cmp b' (ls @ [(s, k, v)]) rs'"
proof -
  note I = inv [unfolded build_inv_def]
  have g: "\<not> bb_finished b" "bb_counter b \<le> n" "ls = [] \<or> cmp k (prev_key ls (length ls)) > 0"
    using a I entries_bytes_Nil [of ls] by (auto simp: builder_Add_def split: if_splits)
  have "length (bb_buffer b) \<le> length (bb_buffer b')"
    using a by (auto simp: builder_Add_def PutVarint32_def Let_def split: if_splits)
  then have t: "trunc32 (length (bb_buffer b)) = off ls (length ls)" using assms(3) I by (simp add: trunc32_def)
  show ?thesis
  proof (cases "bb_counter b < n")
    case True
    let ?s = "diff_index (bb_last_key b) k"
    note d = diff_index_prefix [of "bb_last_key b" k]
    have "bb_buffer b' = entries_bytes (ls @ [(?s, k, v)])" "bb_restarts b' = map (off ls) rs" "bb_last_key b' = k"
      using a I True d by (auto simp: builder_Add_def PutVarint32_def Let_def split: if_splits)
    moreover have lo: "layout_ok (ls @ [(?s, k, v)])" using I d by (intro layout_ok_snoc) auto
    ultimately have "build_inv cmp b' (ls @ [(?s, k, v)]) rs"
      using I restarts_ok_snoc(1) [OF _ lo] map_off_snoc [of ls rs, symmetric] sorted_snoc [OF _ g(3)] unfolding build_inv_def
      by (simp add: prev_key_snoc)
    then show ?thesis by blast
  next
    case False
    have "bb_buffer b' = entries_bytes (ls @ [(0, k, v)])" "bb_restarts b' = map (off ls) rs @ [off ls (length ls)]" "bb_last_key b' = k"
      using a I False t by (auto simp: builder_Add_def PutVarint32_def Let_def split: if_splits)
    moreover have lo: "layout_ok (ls @ [(0, k, v)])" using I by (intro layout_ok_snoc) auto
    ultimately have "build_inv cmp b' (ls @ [(0, k, v)]) (rs @ [length ls])"
      using I restarts_ok_snoc(2) [OF _ lo] map_off_snoc [of ls rs, symmetric] sorted_snoc [OF _ g(3)] unfolding build_inv_def
      by (simp add: prev_key_snoc)
    then show ?thesis by blast
  qed
qed

lemma add_all_ok:
  assumes "add_all cmp n blank_builder es = Inr b" and "length (bb_buffer b) < 2 ^ 32"
  shows "\<exists>ls rs. build_inv cmp b ls rs \<and> map snd ls = es"
  using assms
proof (induction es arbitrary: b rule: rev_induct)
  case Nil
  then have "build_inv cmp b [] [0]"
    by (auto simp: build_inv_def blank_builder_def prev_key_def layout_ok_def restarts_ok_def ent_keys_def)
  then show ?case by fastforce
next
  case (snoc e es)
  obtain k v where e: "e = (k, v)" by (cases e)
  from snoc.prems(1) obtain b0 where b0: "add_all cmp n blank_builder es = Inr b0" "builder_Add cmp n b0 k v = Inr b"
    unfolding e add_all_snoc by (auto simp: res_simps)
  have "length (bb_buffer b0) \<le> length (bb_buffer b)"
    using b0(2) by (auto simp: builder_Add_def PutVarint32_def Let_def split: if_splits)
  then obtain ls rs where "build_inv cmp b0 ls rs" "map snd ls = es" using snoc b0(1) by fastforce
  with Add_ok [OF this(1) b0(2) snoc.prems(2)] show ?case unfolding e by fastforce
qed

end

section \<open>The finished block\<close>

lemma foldl_PutFixed32: "foldl (\<lambda>buf r. PutFixed32 buf (of_nat r)) buf rs = buf @ concat (map (\<lambda>r. EncodeFixed32 (of_nat r)) rs)"
  by (induction rs arbitrary: buf) (simp_all add: PutFixed32_def)

lemma fst_Finish: "fst (builder_Finish b) = bb_buffer b @ concat (map (\<lambda>r. EncodeFixed32 (of_nat r)) (bb_restarts b))
    @ EncodeFixed32 (of_nat (length (bb_restarts b)))"
  unfolding builder_Finish_def foldl_PutFixed32 by (simp add: PutFixed32_def Let_def)

lemma Finish_bytes: "build_inv cmp b ls rs \<Longrightarrow> fst (builder_Finish b) = block_bytes ls rs"
  by (simp add: fst_Finish build_inv_def block_bytes_def restart_bytes_def comp_def)

lemma NewIterator_ok:
  assumes l: "block_layout (block_bytes ls rs) ls rs"
  shows "\<exists>it. Block_NewIterator (newBlock junk (block_bytes ls rs)) = Inr (BlockIterator it) \<and> cursor ls rs it (length ls)"
proof -
  let ?d = "block_bytes ls rs"
  have n: "length ?d = off ls (length ls) + 4 * length rs + 4" by (rule length_block_bytes)
  have b: "off ls (length ls) + 4 * length rs + 4 < 2 ^ 32" "length rs \<noteq> 0" using layoutD(1,3) [OF l] by auto
  then have t: "trunc32 (1 + length rs) = 1 + length rs" "trunc32 (off ls (length ls)) = off ls (length ls)" "length rs < 2 ^ 32"
    by (simp_all add: trunc32_def)
  have "drop (length ?d - 4) ?d = EncodeFixed32 (of_nat (length rs))" by (simp add: block_bytes_def)
  then have N: "NumRestarts ?d (length ?d) = length rs" using t(3) by (simp add: NumRestarts_def unat_u32_of_nat)
  have sz: "\<not> length ?d < 4" "\<not> (length ?d - 4) div 4 < length rs" "length ?d - (1 + length rs) * 4 = off ls (length ls)"
    using n by simp_all
  have nb: "newBlock junk ?d = \<lparr>bk_data = ?d, bk_size = length ?d, bk_restart_offset = off ls (length ls)\<rparr>"
    by (simp only: newBlock_def N Let_def t sz if_False)
  have "Block_NewIterator (newBlock junk ?d) = Inr (BlockIterator \<lparr>bi_data = ?d, bi_restarts = off ls (length ls),
      bi_num_restarts = length rs, bi_current = off ls (length ls), bi_restart_index = length rs, bi_key = [],
      bi_value = None, bi_status = StatusOK\<rparr>)"
    using b(2) sz(1) by (simp add: nb Block_NewIterator_def N newBlockIter_def Let_def)
  then show ?thesis by (simp add: cursor_def at_end_def iter_on_def)
qed

section \<open>The iterator as a cursor over the entries\<close>

datatype move = ToFirst | ToLast | Forward | Backward | SeekTo bytes

fun bi_move :: "(bytes \<Rightarrow> bytes \<Rightarrow> int) \<Rightarrow> move \<Rightarrow> block_iter \<Rightarrow> block_iter result option" where
  "bi_move cmp ToFirst it = Some (bi_SeekToFirst it)"
| "bi_move cmp ToLast it = bi_SeekToLast it"
| "bi_move cmp Forward it = Some (bi_Next it)"
| "bi_move cmp Backward it = bi_Prev it"
| "bi_move cmp (SeekTo t) it = bi_Seek cmp it t"

fun bi_moves :: "(bytes \<Rightarrow> bytes \<Rightarrow> int) \<Rightarrow> move list \<Rightarrow> block_iter \<Rightarrow> block_iter result option" where
  "bi_moves cmp [] it = Some (Inr it)"
| "bi_moves cmp (m # ms) it = opt_then (bi_move cmp m it) (bi_moves cmp ms)"

text \<open>The specification: a position in a list of entries, its length when there is no current entry.  A step
  from there is not allowed.\<close>

fun spec_move :: "(bytes \<Rightarrow> bytes \<Rightarrow> int) \<Rightarrow> (bytes \<times> bytes) list \<Rightarrow> move \<Rightarrow> nat \<Rightarrow> nat option" where
  "spec_move cmp es ToFirst i = Some 0"
| "spec_move cmp es ToLast i = Some (length es - 1)"
| "spec_move cmp es Forward i = (if i < length es then Some (Suc i) else None)"
| "spec_move cmp es Backward i = (if i < length es then Some (if i = 0 then length es else i - 1) else None)"
| "spec_move cmp es (SeekTo t) i = Some (seek_place cmp (map fst es) t)"

fun spec_moves :: "(bytes \<Rightarrow> bytes \<Rightarrow> int) \<Rightarrow> (bytes \<times> bytes) list \<Rightarrow> move list \<Rightarrow> nat \<Rightarrow> nat option" where
  "spec_moves cmp es [] i = Some i"
| "spec_moves cmp es (m # ms) i = Option.bind (spec_move cmp es m i) (spec_moves cmp es ms)"

definition shows_entry :: "(bytes \<times> bytes) list \<Rightarrow> block_iter \<Rightarrow> nat \<Rightarrow> bool" where
  "shows_entry es it i \<longleftrightarrow> bi_status it = StatusOK \<and> (bi_Valid it \<longleftrightarrow> i < length es)
     \<and> (if i < length es then bi_get_key it = Inr (fst (es ! i)) \<and> bi_get_value it = Inr (snd (es ! i))
        else bi_get_key it = Inl (Thrown ''assert''))"

lemma cursor_shows:
  assumes l: "block_layout data ls rs" and c: "cursor ls rs it i" and es: "map snd ls = es"
  shows "shows_entry es it i"
proof -
  have len: "length es = length ls" using es by auto
  have v: "bi_Valid it \<longleftrightarrow> i < length ls" by (rule cursor_Valid [OF c])
  have ok: "bi_status it = StatusOK" "bi_data it = block_bytes ls rs" using cursor_on [OF c] by (simp_all add: iter_on_def)
  show ?thesis
  proof (cases "i < length ls")
    case True
    have "off ls (Suc i) \<le> off ls (length ls)" using True by (intro off_mono) simp
    then have "off ls (Suc i) \<le> length (block_bytes ls rs)" using length_block_bytes [of ls rs] by linarith
    then show ?thesis
      using True c v ok es len by (auto simp: shows_entry_def cursor_def at_entry_def bi_get_key_def bi_get_value_def ent_key_def ent_val_def)
  next
    case False
    then show ?thesis using v ok len by (simp add: shows_entry_def bi_get_key_def)
  qed
qed

context block_order
begin

lemma move_refines:
  assumes l: "block_layout data ls rs" and c: "cursor ls rs it i" and es: "map snd ls = es"
    and sorted: "sorted_wrt (\<lambda>a b. cmp a b < 0) (ent_keys ls)"
  shows "case spec_move cmp es m i of None \<Rightarrow> bi_move cmp m it = Some (Inl (Thrown ''assert''))
    | Some i' \<Rightarrow> \<exists>it'. bi_move cmp m it = Some (Inr it') \<and> cursor ls rs it' i'"
proof -
  have len: "length es = length ls" "map fst es = ent_keys ls" using es by (auto simp: ent_keys_def)
  note on = cursor_on [OF c] and v = cursor_Valid [OF c]
  show ?thesis
  proof (cases m)
    case ToFirst
    then show ?thesis using bi_SeekToFirst_ok [OF l on] by simp
  next
    case ToLast
    then show ?thesis using bi_SeekToLast_ok [OF l on] len by simp
  next
    case Forward
    then show ?thesis using bi_Next_ok [OF l c] v len by (auto simp: bi_Next_def)
  next
    case Backward
    then show ?thesis using bi_Prev_ok [OF l c] v len by (auto simp: bi_Prev_def)
  next
    case (SeekTo t)
    then show ?thesis using bi_Seek_ok [OF l on sorted] len by simp
  qed
qed

lemma moves_refine:
  assumes l: "block_layout data ls rs" and es: "map snd ls = es"
    and sorted: "sorted_wrt (\<lambda>a b. cmp a b < 0) (ent_keys ls)" and "cursor ls rs it i"
  shows "case spec_moves cmp es ms i of None \<Rightarrow> bi_moves cmp ms it = Some (Inl (Thrown ''assert''))
    | Some i' \<Rightarrow> \<exists>it'. bi_moves cmp ms it = Some (Inr it') \<and> cursor ls rs it' i'"
  using assms(4)
proof (induction ms arbitrary: it i)
  case (Cons m ms)
  note m = move_refines [OF l Cons.prems es sorted, of m]
  show ?case
  proof (cases "spec_move cmp es m i")
    case None
    then show ?thesis using m by simp
  next
    case (Some i')
    then obtain it' where "bi_move cmp m it = Some (Inr it')" "cursor ls rs it' i'" using m by auto
    then show ?thesis using Cons.IH [of it' i'] Some by (auto split: option.splits)
  qed
qed simp

end

lemma built_block_moves:
  assumes o: "block_order cmp" and b: "add_all cmp interval blank_builder es = Inr b"
    and small: "length (fst (builder_Finish b)) < 2 ^ 32"
  shows "\<exists>it. Block_NewIterator (newBlock junk (fst (builder_Finish b))) = Inr (BlockIterator it)
    \<and> (\<forall>ms. case spec_moves cmp es ms (length es) of
          None \<Rightarrow> bi_moves cmp ms it = Some (Inl (Thrown ''assert''))
        | Some i \<Rightarrow> \<exists>it'. bi_moves cmp ms it = Some (Inr it') \<and> shows_entry es it' i)"
proof -
  let ?data = "fst (builder_Finish b)"
  have "length (bb_buffer b) \<le> length ?data" unfolding fst_Finish by simp
  then obtain ls rs where i: "build_inv cmp b ls rs" and es: "map snd ls = es"
    using block_order.add_all_ok [OF o b] small by auto
  then have d: "?data = block_bytes ls rs" using Finish_bytes by blast
  then have l: "block_layout (block_bytes ls rs) ls rs" and s: "sorted_wrt (\<lambda>a b. cmp a b < 0) (ent_keys ls)"
    using i small by (auto simp: block_layout_def build_inv_def)
  obtain it where it: "Block_NewIterator (newBlock junk ?data) = Inr (BlockIterator it)" "cursor ls rs it (length es)"
    using NewIterator_ok [OF l, of junk] d es by auto
  have "case spec_moves cmp es ms (length es) of
          None \<Rightarrow> bi_moves cmp ms it = Some (Inl (Thrown ''assert''))
        | Some i \<Rightarrow> \<exists>it'. bi_moves cmp ms it = Some (Inr it') \<and> shows_entry es it' i" for ms
    using block_order.moves_refine [OF o l es s it(2), of ms] cursor_shows [OF l _ es]
    by (auto split: option.splits)
  then show ?thesis using it(1) by blast
qed

text \<open>C38: a finished block reads back as the entries that were added.  Whatever restart interval the builder accepts, the
  iterator of the block that was built from entries in increasing key order refines, under every
  sequence of moves, a cursor over the list of these entries: every move returns, the key and the value are
  those of the position, \<open>Seek\<close> finds the first key that is not below the target, and a step from an
  invalid position fails the assertion.\<close>

theorem block_iterator_refines:
  assumes c: "comparator cmp" and b: "and_then (newBlockBuilder interval) (\<lambda>b. add_all cmp interval b es) = Inr b"
    and data: "data = fst (builder_Finish b)" and small: "length data < 2 ^ 32"
  shows "\<exists>it. Block_NewIterator (newBlock junk data) = Inr (BlockIterator it)
    \<and> (case spec_moves cmp es ms (length es) of
          None \<Rightarrow> bi_moves cmp ms it = Some (Inl (Thrown ''assert''))
        | Some i \<Rightarrow> \<exists>it'. bi_moves cmp ms it = Some (Inr it') \<and> shows_entry es it' i)"
proof -
  have "add_all cmp interval blank_builder es = Inr b" using b by (auto simp: res_simps newBlockBuilder_Inr)
  from built_block_moves [OF block_order.intro [OF c] this, of junk] show ?thesis using small unfolding data by blast
qed

theorem block_iterator_refines_witness:
  "\<exists>it it'. Block_NewIterator (newBlock 0 [0, 1, 1, 97, 1, 1, 1, 1, 98, 2, 0, 0, 0, 0, 1, 0, 0, 0]) = Inr (BlockIterator it)
    \<and> bi_moves slice_compare [SeekTo [97, 0], Backward, Forward] it = Some (Inr it')
    \<and> bi_get_key it' = Inr [97, 98] \<and> bi_get_value it' = Inr [2]"
proof -
  let ?es = "[([97], [1]), ([97, 98], [2])] :: (bytes \<times> bytes) list"
  let ?d = "[0, 1, 1, 97, 1, 1, 1, 1, 98, 2, 0, 0, 0, 0, 1, 0, 0, 0] :: bytes"
  obtain b where b: "and_then (newBlockBuilder 16) (\<lambda>b. add_all slice_compare 16 b ?es) = Inr b" "?d = fst (builder_Finish b)"
  proof -
    have "(case and_then (newBlockBuilder 16) (\<lambda>b. add_all slice_compare 16 b ?es) of Inl _ \<Rightarrow> False | Inr b \<Rightarrow> fst (builder_Finish b) = ?d)"
      by code_simp
    then show ?thesis using that by (auto split: sum.splits)
  qed
  have "spec_moves slice_compare ?es [SeekTo [97, 0], Backward, Forward] (length ?es) = Some 1" by code_simp
  then show ?thesis
    using block_iterator_refines [OF bytewise.comparator_axioms b, of 0 "[SeekTo [97, 0], Backward, Forward]"]
    by (auto simp: shows_entry_def)
qed

text \<open>A damaged entry whose lengths add up to more than 32 bits passes the check of \<open>DecodeEntry\<close>: the key
  is then copied from far outside of the block.\<close>

lemma oversized_entry:
  "DecodeEntry [0, 255, 255, 255, 255, 15, 1] = Some (0, 4294967295, 1, [])"
proof -
  let ?p = "[0, 255, 255, 255, 255, 15, 1] :: bytes"
  have "GetVarint32Ptr ?p = Some (0, tl ?p)" "GetVarint32Ptr (tl ?p) = Some (4294967295, [1])"
    "GetVarint32Ptr [1] = Some (1, [])" by code_simp+
  moreover have "\<not> (0 OR 255 OR 255 :: byte) < 128" by code_simp
  ultimately show ?thesis by (simp add: DecodeEntry_def trunc32_def)
qed

theorem oversized_entry_out_of_bounds:
  "\<exists>it. Block_NewIterator (newBlock 0 [0, 255, 255, 255, 255, 15, 1, 0, 0, 0, 0, 1, 0, 0, 0]) = Inr (BlockIterator it)
     \<and> bi_SeekToFirst it = Inl OutOfBounds"
proof -
  let ?d = "[0, 255, 255, 255, 255, 15, 1, 0, 0, 0, 0, 1, 0, 0, 0] :: bytes"
  let ?it = "\<lparr>bi_data = ?d, bi_restarts = 7, bi_num_restarts = 1, bi_current = 7, bi_restart_index = 1, bi_key = [],
     bi_value = None, bi_status = StatusOK\<rparr>"
  have "NumRestarts ?d (length ?d) = 1" by code_simp
  then have "Block_NewIterator (newBlock 0 ?d) = Inr (BlockIterator ?it)"
    by (simp add: newBlock_def Block_NewIterator_def newBlockIter_def trunc32_def Let_def)
  moreover have "SeekToRestartPoint ?it 0 = Inr (?it\<lparr>bi_restart_index := 0, bi_value := Some (0, 0)\<rparr>)"
    by code_simp
  ultimately show ?thesis using oversized_entry by (simp add: bi_SeekToFirst_def ParseNextKey_def NextEntryOffset_def trunc32_def)
qed

end
