(* ===== verification/Ldb_Table_Builder.thy ===== *)
theory Ldb_Table_Builder
  imports Ldb_Format Ldb_Filter_Block Ldb_Block_Properties
begin

text \<open>
  The builder of table files (\<open>lib/leveldb/table/table_builder.cc\<close>).  A table is data blocks, a filter block,
  a meta-index block, an index block with a separating key for every data block, and the footer.  \<open>app\<close>
  is the environment's file, \<open>pv\<close> the address of the bytes a checksum is taken of, and \<open>snap\<close> the
  compression of Snappy, \<open>None\<close> when it is not compiled in.  The offset is a number of 64 bits that no file
  exceeds.
\<close>

section \<open>Options\<close>

datatype CompressionType = NoCompression | SnappyCompression

definition compression_byte :: "CompressionType \<Rightarrow> byte" where
  "compression_byte t = (case t of NoCompression \<Rightarrow> of_nat kNoCompression | SnappyCompression \<Rightarrow> of_nat kSnappyCompression)"

text \<open>The comparator of the options is its functions and the address of the object, which
  \<open>ChangeOptions\<close> compares.\<close>

record table_options =
  to_comparator :: nat
  to_Compare :: "bytes \<Rightarrow> bytes \<Rightarrow> int"
  to_FindShortestSeparator :: "bytes \<Rightarrow> bytes \<Rightarrow> bytes result"
  to_FindShortSuccessor :: "bytes \<Rightarrow> bytes result"
  to_block_size :: nat
  to_block_restart_interval :: int
  to_compression :: CompressionType
  to_filter_policy :: "filter_policy option"

section \<open>The builder\<close>

record table_builder =
  tb_options :: table_options
  tb_index_restart_interval :: int
  tb_file :: bytes
  tb_offset :: nat
  tb_status :: status
  tb_data_block :: block_builder
  tb_index_block :: block_builder
  tb_last_key :: bytes
  tb_num_entries :: int
  tb_closed :: bool
  tb_filter_block :: "(filter_policy \<times> filter_builder) option"
  tb_pending_index_entry :: bool
  tb_pending_handle :: BlockHandle

definition filter_start :: "nat \<Rightarrow> table_builder \<Rightarrow> table_builder result" where
  "filter_start block_offset r = (case tb_filter_block r of
       None \<Rightarrow> Inr r
     | Some (policy, fb) \<Rightarrow> and_then (filter_StartBlock policy block_offset fb) (\<lambda>fb. Inr (r\<lparr>tb_filter_block := Some (policy, fb)\<rparr>)))"

definition newTableBuilder :: "table_options \<Rightarrow> bytes \<Rightarrow> table_builder result" where
  "newTableBuilder opt f =
     and_then (newBlockBuilder (to_block_restart_interval opt)) (\<lambda>data_block.
     and_then (newBlockBuilder 1) (\<lambda>index_block.
      filter_start 0
        \<lparr>tb_options = opt, tb_index_restart_interval = 1, tb_file = f, tb_offset = 0, tb_status = StatusOK,
         tb_data_block = data_block, tb_index_block = index_block, tb_last_key = [], tb_num_entries = 0,
         tb_closed = False,
         tb_filter_block = (case to_filter_policy opt of None \<Rightarrow> None | Some p \<Rightarrow> Some (p, newFilterBlockBuilder)),
         tb_pending_index_entry = False, tb_pending_handle = newBlockHandle\<rparr>))"

definition ChangeOptions :: "table_options \<Rightarrow> table_builder \<Rightarrow> status \<times> table_builder" where
  "ChangeOptions opt r =
     (if to_comparator opt \<noteq> to_comparator (tb_options r)
      then (InvalidArgument ''changing comparator while building table'', r)
      else (StatusOK, r\<lparr>tb_options := opt, tb_index_restart_interval := 1\<rparr>))"

definition tb_ok :: "table_builder \<Rightarrow> bool" where
  "tb_ok r \<longleftrightarrow> tb_status r = StatusOK"

definition WriteRawBlock ::
  "file_api \<Rightarrow> nat \<Rightarrow> bytes \<Rightarrow> CompressionType \<Rightarrow> table_builder \<Rightarrow> BlockHandle \<times> table_builder" where
  "WriteRawBlock app pv block_contents t r =
     (let handle = \<lparr>bh_offset = of_nat (tb_offset r), bh_size = of_nat (length block_contents)\<rparr>;
          (s, f) = file_Append app block_contents (tb_file r);
          r = r\<lparr>tb_status := s, tb_file := f\<rparr> in
      if tb_ok r then
        let crc = crc_Value pv block_contents;
            crc = Extend pv crc [compression_byte t];
            trailer = compression_byte t # EncodeFixed32 (Mask crc);
            (s, f) = file_Append app trailer (tb_file r);
            r = r\<lparr>tb_status := s, tb_file := f\<rparr> in
        (handle, if tb_ok r then r\<lparr>tb_offset := tb_offset r + length block_contents + kBlockTrailerSize\<rparr> else r)
      else (handle, r))"

text \<open>What a block is stored as: compressed when that saves an eighth.\<close>

definition compress_block :: "(bytes \<Rightarrow> bytes option) \<Rightarrow> CompressionType \<Rightarrow> bytes \<Rightarrow> bytes \<times> CompressionType" where
  "compress_block snap t raw = (case t of
       NoCompression \<Rightarrow> (raw, NoCompression)
     | SnappyCompression \<Rightarrow> (case snap raw of
           None \<Rightarrow> (raw, NoCompression)
         | Some compressed \<Rightarrow>
             if length compressed < length raw - length raw div 8 then (compressed, SnappyCompression)
             else (raw, NoCompression)))"

text \<open>The block is handed over and comes back reset.\<close>

definition WriteBlock ::
  "file_api \<Rightarrow> nat \<Rightarrow> (bytes \<Rightarrow> bytes option) \<Rightarrow> block_builder \<Rightarrow> table_builder \<Rightarrow>
     (block_builder \<times> BlockHandle \<times> table_builder) result" where
  "WriteBlock app pv snap block r =
     (if \<not> tb_ok r then Inl (Thrown ''assert'')
      else
        let (raw, block) = builder_Finish block;
            (block_contents, t) = compress_block snap (to_compression (tb_options r)) raw;
            (handle, r) = WriteRawBlock app pv block_contents t r in
        Inr (builder_Reset block, handle, r))"

definition tb_Flush :: "file_api \<Rightarrow> nat \<Rightarrow> (bytes \<Rightarrow> bytes option) \<Rightarrow> table_builder \<Rightarrow> table_builder result" where
  "tb_Flush app pv snap r =
     (if tb_closed r then Inl (Thrown ''assert'')
      else if \<not> tb_ok r then Inr r
      else if bb_buffer (tb_data_block r) = [] then Inr r
      else if tb_pending_index_entry r then Inl (Thrown ''assert'')
      else and_then (WriteBlock app pv snap (tb_data_block r) r) (\<lambda>(block, handle, r).
        let r = r\<lparr>tb_data_block := block, tb_pending_handle := handle\<rparr>;
            r = (if tb_ok r
                 then r\<lparr>tb_pending_index_entry := True,
                        tb_status := (if fa_flushes app (tb_file r) then StatusOK else StatusIOError)\<rparr>
                 else r) in
        filter_start (tb_offset r) r))"

text \<open>The index entry of the block written last, with a key at or after the last key of the block.\<close>

definition add_index_entry :: "bytes \<Rightarrow> table_builder \<Rightarrow> table_builder result" where
  "add_index_entry key r =
     (let opt = tb_options r in
      and_then (handle_EncodeTo (tb_pending_handle r) []) (\<lambda>handle_encoding.
        and_then (builder_Add (to_Compare opt) (tb_index_restart_interval r) (tb_index_block r) key handle_encoding) (\<lambda>index.
          Inr (r\<lparr>tb_last_key := key, tb_index_block := index, tb_pending_index_entry := False\<rparr>))))"

definition tb_Add ::
  "file_api \<Rightarrow> nat \<Rightarrow> (bytes \<Rightarrow> bytes option) \<Rightarrow> bytes \<Rightarrow> bytes \<Rightarrow> table_builder \<Rightarrow> table_builder result" where
  "tb_Add app pv snap key val r =
     (let opt = tb_options r in
      if tb_closed r then Inl (Thrown ''assert'')
      else if \<not> tb_ok r then Inr r
      else if tb_num_entries r > 0 \<and> \<not> to_Compare opt key (tb_last_key r) > 0 then Inl (Thrown ''assert'')
      else and_then
        (if tb_pending_index_entry r then
           if bb_buffer (tb_data_block r) \<noteq> [] then Inl (Thrown ''assert'')
           else and_then (to_FindShortestSeparator opt (tb_last_key r) key) (\<lambda>sep. add_index_entry sep r)
         else Inr r) (\<lambda>r.
        let r = r\<lparr>tb_filter_block := map_option (\<lambda>(policy, fb). (policy, filter_AddKey key fb)) (tb_filter_block r),
                  tb_last_key := key, tb_num_entries := tb_num_entries r + 1\<rparr> in
        and_then (builder_Add (to_Compare opt) (to_block_restart_interval opt) (tb_data_block r) key val) (\<lambda>block.
          let r = r\<lparr>tb_data_block := block\<rparr> in
          if CurrentSizeEstimate block \<ge> to_block_size opt then tb_Flush app pv snap r else Inr r)))"

text \<open>The parts of \<open>Finish\<close>: each is skipped once the status is not OK.\<close>

definition finish_filter :: "file_api \<Rightarrow> nat \<Rightarrow> table_builder \<Rightarrow> BlockHandle \<times> table_builder" where
  "finish_filter app pv r = (case tb_filter_block r of
       None \<Rightarrow> (newBlockHandle, r)
     | Some (policy, fb) \<Rightarrow>
         if \<not> tb_ok r then (newBlockHandle, r)
         else let (contents, fb) = filter_Finish policy fb in
           WriteRawBlock app pv contents NoCompression (r\<lparr>tb_filter_block := Some (policy, fb)\<rparr>))"

definition filter_meta_key :: "filter_policy \<Rightarrow> bytes" where
  "filter_meta_key policy = str ''filter.'' @ fp_Name policy"

definition finish_metaindex ::
  "file_api \<Rightarrow> nat \<Rightarrow> (bytes \<Rightarrow> bytes option) \<Rightarrow> BlockHandle \<Rightarrow> table_builder \<Rightarrow> (BlockHandle \<times> table_builder) result" where
  "finish_metaindex app pv snap filter_block_handle r =
     (if \<not> tb_ok r then Inr (newBlockHandle, r)
      else and_then (newBlockBuilder (to_block_restart_interval (tb_options r))) (\<lambda>meta_index_block. and_then
        (case (tb_filter_block r, to_filter_policy (tb_options r)) of
           (None, _) \<Rightarrow> Inr meta_index_block
         | (Some _, None) \<Rightarrow> Inl OutOfBounds
         | (Some _, Some policy) \<Rightarrow>
             and_then (handle_EncodeTo filter_block_handle []) (\<lambda>handle_encoding.
               builder_Add (to_Compare (tb_options r)) (to_block_restart_interval (tb_options r)) meta_index_block
                 (filter_meta_key policy) handle_encoding)) (\<lambda>meta_index_block.
        and_then (WriteBlock app pv snap meta_index_block r) (\<lambda>(_, handle, r). Inr (handle, r)))))"

definition finish_index ::
  "file_api \<Rightarrow> nat \<Rightarrow> (bytes \<Rightarrow> bytes option) \<Rightarrow> table_builder \<Rightarrow> (BlockHandle \<times> table_builder) result" where
  "finish_index app pv snap r =
     (if \<not> tb_ok r then Inr (newBlockHandle, r)
      else and_then
        (if tb_pending_index_entry r
         then and_then (to_FindShortSuccessor (tb_options r) (tb_last_key r)) (\<lambda>succ. add_index_entry succ r)
         else Inr r) (\<lambda>r.
        and_then (WriteBlock app pv snap (tb_index_block r) r) (\<lambda>(block, handle, r).
          Inr (handle, r\<lparr>tb_index_block := block\<rparr>))))"

definition finish_footer ::
  "file_api \<Rightarrow> BlockHandle \<Rightarrow> BlockHandle \<Rightarrow> table_builder \<Rightarrow> table_builder result" where
  "finish_footer app metaindex index r =
     (if \<not> tb_ok r then Inr r
      else and_then (footer_EncodeTo \<lparr>ft_metaindex_handle = metaindex, ft_index_handle = index\<rparr> []) (\<lambda>footer_encoding.
        let (s, f) = file_Append app footer_encoding (tb_file r);
            r = r\<lparr>tb_status := s, tb_file := f\<rparr> in
        Inr (if tb_ok r then r\<lparr>tb_offset := tb_offset r + length footer_encoding\<rparr> else r)))"

definition tb_Finish ::
  "file_api \<Rightarrow> nat \<Rightarrow> (bytes \<Rightarrow> bytes option) \<Rightarrow> table_builder \<Rightarrow> (status \<times> table_builder) result" where
  "tb_Finish app pv snap r =
     and_then (tb_Flush app pv snap r) (\<lambda>r.
       if tb_closed r then Inl (Thrown ''assert'')
       else
         let (filter_block_handle, r) = finish_filter app pv (r\<lparr>tb_closed := True\<rparr>) in
         and_then (finish_metaindex app pv snap filter_block_handle r) (\<lambda>(metaindex, r).
           and_then (finish_index app pv snap r) (\<lambda>(index, r).
             and_then (finish_footer app metaindex index r) (\<lambda>r. Inr (tb_status r, r)))))"

definition tb_Abandon :: "table_builder \<Rightarrow> table_builder result" where
  "tb_Abandon r = (if tb_closed r then Inl (Thrown ''assert'') else Inr (r\<lparr>tb_closed := True\<rparr>))"

end
