(* ===== verification/Ldb_Table.thy ===== *)
theory Ldb_Table
  imports Ldb_Table_Builder
begin

text \<open>
  Reading tables (\<open>lib/leveldb/table/table.cc\<close>): opening a file, finding the filter, reading a block through the
  block cache, and looking up a key.  The environment of a table is the file it reads, whether the
  file is mapped, and Snappy.  The block cache is an object with a state of type \<open>'c\<close>.
\<close>

section \<open>Iterators as the table uses them\<close>

fun it_Valid :: "block_iterator \<Rightarrow> bool" where
  "it_Valid (EmptyIterator s) = False"
| "it_Valid (BlockIterator it) = bi_Valid it"

fun it_Seek :: "(bytes \<Rightarrow> bytes \<Rightarrow> int) \<Rightarrow> block_iterator \<Rightarrow> bytes \<Rightarrow> block_iterator result option" where
  "it_Seek cmp (EmptyIterator s) target = Some (Inr (EmptyIterator s))"
| "it_Seek cmp (BlockIterator it) target = opt_then (bi_Seek cmp it target) (\<lambda>it. Some (Inr (BlockIterator it)))"

fun it_key :: "block_iterator \<Rightarrow> bytes result" where
  "it_key (EmptyIterator s) = Inl (Thrown ''assert'')"
| "it_key (BlockIterator it) = bi_get_key it"

fun it_value :: "block_iterator \<Rightarrow> bytes result" where
  "it_value (EmptyIterator s) = Inl (Thrown ''assert'')"
| "it_value (BlockIterator it) = bi_get_value it"

fun it_status :: "block_iterator \<Rightarrow> status" where
  "it_status (EmptyIterator s) = s"
| "it_status (BlockIterator it) = bi_status it"

section \<open>The environment of a table\<close>

record table_env =
  te_Read :: file_read
  te_mapped :: bool
  te_unsnap :: "bytes \<Rightarrow> bytes option"
  te_pv :: nat
  te_junk :: nat

record 'c block_cache =
  ca_Lookup :: "bytes \<Rightarrow> 'c \<Rightarrow> block option \<times> 'c"
  ca_Insert :: "bytes \<Rightarrow> block \<Rightarrow> nat \<Rightarrow> 'c \<Rightarrow> 'c"
  ca_NewId :: "'c \<Rightarrow> u64 \<times> 'c"

record table =
  tbl_options :: table_options
  tbl_cache_id :: u64
  tbl_filter :: "(filter_policy \<times> filter_reader) option"
  tbl_metaindex_handle :: BlockHandle
  tbl_index_block :: block

abbreviation read_block :: "table_env \<Rightarrow> bool \<Rightarrow> BlockHandle \<Rightarrow> (status + BlockContents) result" where
  "read_block env \<equiv> ReadBlock (te_unsnap env) (te_pv env) (te_mapped env) (te_Read env)"

section \<open>Opening a table\<close>

definition ReadFilter :: "table_env \<Rightarrow> filter_policy \<Rightarrow> bytes \<Rightarrow> table \<Rightarrow> table result" where
  "ReadFilter env policy filter_handle_value t = (case handle_DecodeFrom filter_handle_value of
       Inl s \<Rightarrow> Inr t
     | Inr (filter_handle, v) \<Rightarrow>
         and_then (read_block env False filter_handle) (\<lambda>r. case r of
             Inl s \<Rightarrow> Inr t
           | Inr contents \<Rightarrow> Inr (t\<lparr>tbl_filter := Some (policy, newFilterBlockReader (bc_data contents))\<rparr>)))"

definition ReadMeta :: "table_env \<Rightarrow> Footer \<Rightarrow> table \<Rightarrow> table result option" where
  "ReadMeta env footer t = (case to_filter_policy (tbl_options t) of
       None \<Rightarrow> Some (Inr t)
     | Some policy \<Rightarrow>
         opt_then (Some (read_block env False (ft_metaindex_handle footer))) (\<lambda>r. case r of
             Inl s \<Rightarrow> Some (Inr t)
           | Inr contents \<Rightarrow>
               opt_then (Some (Block_NewIterator (newBlock (te_junk env) (bc_data contents)))) (\<lambda>it.
                 let key = filter_meta_key policy in
                 opt_then (it_Seek slice_compare it key) (\<lambda>it.
                   if it_Valid it then
                     opt_then (Some (it_key it)) (\<lambda>k.
                       if k = key then opt_then (Some (it_value it)) (\<lambda>v. Some (ReadFilter env policy v t))
                       else Some (Inr t))
                   else Some (Inr t)))))"

definition Table_Open ::
  "table_env \<Rightarrow> 'c block_cache option \<Rightarrow> table_options \<Rightarrow> nat \<Rightarrow> 'c \<Rightarrow> ((status + table) \<times> 'c) result option" where
  "Table_Open env cache options sz c =
     (if sz < kEncodedLength then Some (Inr (Inl (InvalidArgument ''file is too short to be an sstable''), c))
      else opt_then (Some (te_Read env (sz - kEncodedLength) kEncodedLength)) (\<lambda>r. case r of
          Inl s \<Rightarrow> Some (Inr (Inl s, c))
        | Inr footer_input \<Rightarrow>
            opt_then (Some (footer_DecodeFrom footer_input)) (\<lambda>r. case r of
                Inl s \<Rightarrow> Some (Inr (Inl s, c))
              | Inr (footer, _) \<Rightarrow>
                  opt_then (Some (read_block env False (ft_index_handle footer))) (\<lambda>r. case r of
                      Inl s \<Rightarrow> Some (Inr (Inl s, c))
                    | Inr contents \<Rightarrow>
                        let (cache_id, c) = (case cache of None \<Rightarrow> (0, c) | Some ca \<Rightarrow> ca_NewId ca c) in
                        opt_then (ReadMeta env footer
                            \<lparr>tbl_options = options, tbl_cache_id = cache_id, tbl_filter = None,
                             tbl_metaindex_handle = ft_metaindex_handle footer,
                             tbl_index_block = newBlock (te_junk env) (bc_data contents)\<rparr>)
                          (\<lambda>t. Some (Inr (Inr t, c)))))))"

section \<open>Reading blocks and looking up keys\<close>

definition cache_key :: "table \<Rightarrow> BlockHandle \<Rightarrow> bytes" where
  "cache_key t handle = EncodeFixed64 (tbl_cache_id t) @ EncodeFixed64 (bh_offset handle)"

text \<open>The block of an index value, or the status why there is none.\<close>

definition find_block ::
  "table_env \<Rightarrow> 'c block_cache option \<Rightarrow> bool \<Rightarrow> bool \<Rightarrow> table \<Rightarrow> BlockHandle \<Rightarrow> 'c \<Rightarrow> ((status + block) \<times> 'c) result" where
  "find_block env cache verify_checksums fill_cache t handle c = (case cache of
       None \<Rightarrow>
         and_then (read_block env verify_checksums handle) (\<lambda>r. case r of
             Inl s \<Rightarrow> Inr (Inl s, c)
           | Inr contents \<Rightarrow> Inr (Inr (newBlock (te_junk env) (bc_data contents)), c))
     | Some ca \<Rightarrow> (case ca_Lookup ca (cache_key t handle) c of
           (Some b, c) \<Rightarrow> Inr (Inr b, c)
         | (None, c) \<Rightarrow>
             and_then (read_block env verify_checksums handle) (\<lambda>r. case r of
                 Inl s \<Rightarrow> Inr (Inl s, c)
               | Inr contents \<Rightarrow>
                   let b = newBlock (te_junk env) (bc_data contents) in
                   Inr (Inr b, if bc_cachable contents \<and> fill_cache
                               then ca_Insert ca (cache_key t handle) b (bk_size b) c else c))))"

definition BlockReader ::
  "table_env \<Rightarrow> 'c block_cache option \<Rightarrow> bool \<Rightarrow> bool \<Rightarrow> table \<Rightarrow> bytes \<Rightarrow> 'c \<Rightarrow> (block_iterator \<times> 'c) result" where
  "BlockReader env cache verify_checksums fill_cache t index_value c = (case handle_DecodeFrom index_value of
       Inl s \<Rightarrow> Inr (EmptyIterator s, c)
     | Inr (handle, _) \<Rightarrow>
         and_then (find_block env cache verify_checksums fill_cache t handle c) (\<lambda>(r, c). case r of
             Inl s \<Rightarrow> Inr (EmptyIterator s, c)
           | Inr b \<Rightarrow> and_then (Block_NewIterator b) (\<lambda>it. Inr (it, c))))"

text \<open>Whether the filter rules the key out.\<close>

definition filtered_out :: "table \<Rightarrow> bytes \<Rightarrow> bytes \<Rightarrow> bool result" where
  "filtered_out t handle_value k = (case tbl_filter t of
       None \<Rightarrow> Inr False
     | Some (policy, rd) \<Rightarrow> (case handle_DecodeFrom handle_value of
           Inl s \<Rightarrow> Inr False
         | Inr (handle, _) \<Rightarrow> and_then (filter_KeyMayMatch policy rd (bh_offset handle) k) (\<lambda>may. Inr (\<not> may))))"

text \<open>The saver is called with at most one entry, which is the second part of the result.\<close>

definition InternalGet ::
  "table_env \<Rightarrow> 'c block_cache option \<Rightarrow> bool \<Rightarrow> bool \<Rightarrow> table \<Rightarrow> bytes \<Rightarrow> 'c \<Rightarrow>
     (status \<times> (bytes \<times> bytes) option \<times> 'c) result option" where
  "InternalGet env cache verify_checksums fill_cache t k c =
     (let cmp = to_Compare (tbl_options t) in
      opt_then (Some (Block_NewIterator (tbl_index_block t))) (\<lambda>iiter.
        opt_then (it_Seek cmp iiter k) (\<lambda>iiter.
          if \<not> it_Valid iiter then Some (Inr (it_status iiter, None, c))
          else opt_then (Some (it_value iiter)) (\<lambda>handle_value.
            opt_then (Some (filtered_out t handle_value k)) (\<lambda>out.
              if out then Some (Inr (it_status iiter, None, c))
              else opt_then (Some (BlockReader env cache verify_checksums fill_cache t handle_value c)) (\<lambda>(block_iter, c).
                opt_then (it_Seek cmp block_iter k) (\<lambda>block_iter.
                  let s = (if it_status block_iter = StatusOK then it_status iiter else it_status block_iter) in
                  if it_Valid block_iter
                  then opt_then (Some (it_key block_iter)) (\<lambda>key.
                    opt_then (Some (it_value block_iter)) (\<lambda>val. Some (Inr (s, Some (key, val), c))))
                  else Some (Inr (s, None, c)))))))))"

definition ApproximateOffsetOf :: "table \<Rightarrow> bytes \<Rightarrow> u64 result option" where
  "ApproximateOffsetOf t key =
     opt_then (Some (Block_NewIterator (tbl_index_block t))) (\<lambda>it.
       opt_then (it_Seek (to_Compare (tbl_options t)) it key) (\<lambda>it.
         if it_Valid it
         then opt_then (Some (it_value it)) (\<lambda>input. case handle_DecodeFrom input of
             Inl s \<Rightarrow> Some (Inr (bh_offset (tbl_metaindex_handle t)))
           | Inr (handle, _) \<Rightarrow> Some (Inr (bh_offset handle)))
         else Some (Inr (bh_offset (tbl_metaindex_handle t)))))"

end
