(* ===== verification/Ldb_Table_Layout.thy ===== *)
theory Ldb_Table_Layout
  imports Ldb_Table_Builder
begin

text \<open>
  What the builder of a table keeps while entries are added: the blocks in the file, the entries of the
  index block with the keys that separate the blocks, and the keys of the filters.  The locale
  \<open>table_order\<close> is the contract of \<open>Comparator\<close> that tables rely on.
\<close>

section \<open>The contract of a comparator with separators\<close>

text \<open>\<open>u\<close> is the part of a key that a lookup is about: two keys with the same part are versions of one
  user key.  A separator is the key before it, or it is below all versions of the keys after it.\<close>

locale table_order = block_order cmp for cmp +
  fixes sep :: "bytes \<Rightarrow> bytes \<Rightarrow> bytes result" and succ :: "bytes \<Rightarrow> bytes result" and u :: "bytes \<Rightarrow> bytes"
  assumes separator: "cmp a b < 0 \<Longrightarrow> \<exists>s. sep a b = Inr s \<and> cmp a s \<le> 0 \<and> cmp s b < 0
      \<and> (s = a \<or> (\<forall>b' x. cmp b b' \<le> 0 \<longrightarrow> u x = u b' \<longrightarrow> cmp s x < 0))"
    and successor: "\<exists>s. succ a = Inr s \<and> cmp a s \<le> 0"

interpretation bytewise_table: table_order slice_compare "\<lambda>a b. Inr (FindShortestSeparator a b)" "\<lambda>a. Inr (FindShortSuccessor a)" "\<lambda>k. k"
proof
  show "\<exists>s. Inr (FindShortestSeparator a b) = Inr s \<and> slice_compare a s \<le> 0 \<and> slice_compare s b < 0
      \<and> (s = a \<or> (\<forall>b' x. slice_compare b b' \<le> 0 \<longrightarrow> x = b' \<longrightarrow> slice_compare s x < 0))"
    if "slice_compare a b < 0" for a b
    using FindShortestSeparator_between [of a b] that
    by (auto simp: slice_compare_order slice_compare_le)
  show "\<exists>s. Inr (FindShortSuccessor a) = Inr s \<and> slice_compare a s \<le> 0" for a
    using FindShortSuccessor_above [of a] by (simp add: slice_compare_le)
qed

lemma internal_separator_cases:
  assumes "InternalKeyCompare a b < 0" and "internal_FindShortestSeparator a b = Inr s"
  shows "s = a \<or> ExtractUserKey s < ExtractUserKey b"
proof (cases "ExtractUserKey a < ExtractUserKey b")
  case True
  then show ?thesis
    using FindShortestSeparator_between [OF True] assms(2)
    by (auto simp: internal_FindShortestSeparator_def Let_def res_simps split: if_splits)
next
  case False
  then have "ExtractUserKey b = ExtractUserKey a" using assms(1) by (simp add: InternalKeyCompare_order)
  then show ?thesis using assms(2) by (simp add: internal_FindShortestSeparator_def)
qed

interpretation internal_table: table_order InternalKeyCompare internal_FindShortestSeparator internal_FindShortSuccessor ExtractUserKey
proof
  show "\<exists>s. internal_FindShortestSeparator a b = Inr s \<and> InternalKeyCompare a s \<le> 0 \<and> InternalKeyCompare s b < 0
      \<and> (s = a \<or> (\<forall>b' x. InternalKeyCompare b b' \<le> 0 \<longrightarrow> ExtractUserKey x = ExtractUserKey b' \<longrightarrow> InternalKeyCompare s x < 0))"
    if lt: "InternalKeyCompare a b < 0" for a b
  proof -
    obtain s where s: "internal_FindShortestSeparator a b = Inr s" "InternalKeyCompare a s \<le> 0" "InternalKeyCompare s b < 0"
      using separator_between [OF lt] by blast
    have "InternalKeyCompare s x < 0" if "ExtractUserKey s < ExtractUserKey b" "InternalKeyCompare b b' \<le> 0" "ExtractUserKey x = ExtractUserKey b'"
      for b' x
    proof -
      have "\<not> ExtractUserKey b' < ExtractUserKey b" using that(2) InternalKeyCompare_order(3) [of b b'] by auto
      then have "ExtractUserKey s < ExtractUserKey x" using that(1,3) by simp
      then show ?thesis by (simp add: InternalKeyCompare_order)
    qed
    then show ?thesis using s internal_separator_cases [OF lt s(1)] by auto
  qed
  show "\<exists>s. internal_FindShortSuccessor a = Inr s \<and> InternalKeyCompare a s \<le> 0" for a
    using FindShortSuccessor_above [of "ExtractUserKey a"]
    by (auto simp: internal_FindShortSuccessor_def Let_def PackSequenceAndType_def InternalKeyCompare_order slice_compare_order
        internal.cmp_refl order_less_imp_le)
qed

section \<open>Blocks in a file\<close>

text \<open>The contents of a block that is stored, as they are or compressed, at an offset.\<close>

definition stored :: "(bytes \<Rightarrow> bytes option) \<Rightarrow> bytes \<Rightarrow> nat \<Rightarrow> nat \<Rightarrow> bytes \<Rightarrow> bool" where
  "stored snap f pos len raw \<longleftrightarrow> (\<exists>c t. length c = len \<and> pos + len + kBlockTrailerSize \<le> length f
     \<and> slice pos (len + kBlockTrailerSize) f = c @ trailer (compression_byte t) c
     \<and> (t = NoCompression \<and> raw = c \<or> t = SnappyCompression \<and> snap raw = Some c))"

definition handle_of :: "nat \<Rightarrow> nat \<Rightarrow> BlockHandle" where
  "handle_of pos len = \<lparr>bh_offset = of_nat pos, bh_size = of_nat len\<rparr>"

lemma handle_of_set:
  assumes "pos < 2 ^ 64 - 1" and "len < 2 ^ 64 - 1"
  shows "handle_set (handle_of pos len)"
proof -
  have m: "unat (NOT 0 :: u64) = 2 ^ 64 - 1" by (simp add: unsigned_minus_1_eq_mask mask_eq_exp_minus_1)
  have "unat (of_nat pos :: u64) \<noteq> unat (NOT 0 :: u64)" "unat (of_nat len :: u64) \<noteq> unat (NOT 0 :: u64)"
    unfolding m using assms by (simp_all add: unat_of_nat)
  then show ?thesis unfolding handle_set_def handle_of_def by auto
qed

lemma stored_append: "stored snap f pos len raw \<Longrightarrow> stored snap (f @ g) pos len raw"
  unfolding stored_def by (auto simp: slice_def)

lemma compress_block_stored:
  "compress_block snap ty raw = (c, t) \<Longrightarrow> t = NoCompression \<and> raw = c \<or> t = SnappyCompression \<and> snap raw = Some c"
  by (auto simp: compress_block_def split: CompressionType.splits option.splits if_splits)

lemma WriteRawBlock_ok:
  assumes "WriteRawBlock app pv c t r = (h, r')" and "tb_ok r'" and "tb_offset r = length (tb_file r)"
  shows "h = handle_of (tb_offset r) (length c)"
    "r' = r\<lparr>tb_status := StatusOK, tb_file := tb_file r @ c @ trailer (compression_byte t) c,
            tb_offset := tb_offset r + length c + kBlockTrailerSize\<rparr>"
  using assms
  by (auto simp: WriteRawBlock_def Let_def file_Append_def tb_ok_def handle_of_def trailer_def crc_Value_def Extend_reference
      crc32c_reference_append split: if_splits)

lemma WriteBlock_ok:
  assumes "WriteBlock app pv snap blk r = Inr (blk', h, r')" and "tb_ok r'" and "tb_offset r = length (tb_file r)"
  obtains c t where "blk' = blank_builder" "h = handle_of (tb_offset r) (length c)"
    "r' = r\<lparr>tb_status := StatusOK, tb_file := tb_file r @ c @ trailer (compression_byte t) c,
            tb_offset := tb_offset r + length c + kBlockTrailerSize\<rparr>"
    "stored snap (tb_file r') (tb_offset r) (length c) (fst (builder_Finish blk))" "tb_ok r"
proof -
  have ok: "tb_ok r" using assms(1) by (auto simp: WriteBlock_def split: if_splits)
  obtain c t where c: "compress_block snap (to_compression (tb_options r)) (fst (builder_Finish blk)) = (c, t)" by fastforce
  have w: "WriteRawBlock app pv c t r = (h, r')" and b: "blk' = builder_Reset (snd (builder_Finish blk))"
    using assms(1) c by (auto simp: WriteBlock_def Let_def split: if_splits prod.splits)
  have "blk' = blank_builder" unfolding b by (simp add: builder_Reset_def blank_builder_def)
  moreover note r' = WriteRawBlock_ok [OF w assms(2,3)]
  moreover have "slice (length (tb_file r)) (length c + kBlockTrailerSize) (tb_file r') = c @ trailer (compression_byte t) c"
    unfolding r'(2) by (simp add: slice_def)
  then have "stored snap (tb_file r') (tb_offset r) (length c) (fst (builder_Finish blk))"
    using compress_block_stored [OF c] assms(3) unfolding stored_def r'(2) by auto
  ultimately show ?thesis using that ok by blast
qed

section \<open>The invariant of the builder\<close>

text \<open>A data block: the key of its index entry, its offset and length in the file, and its entries.\<close>

type_synonym dblock = "bytes \<times> nat \<times> nat \<times> (bytes \<times> bytes) list"

definition db_sep :: "dblock \<Rightarrow> bytes" where "db_sep d = fst d"
definition db_pos :: "dblock \<Rightarrow> nat" where "db_pos d = fst (snd d)"
definition db_len :: "dblock \<Rightarrow> nat" where "db_len d = fst (snd (snd d))"
definition db_entries :: "dblock \<Rightarrow> (bytes \<times> bytes) list" where "db_entries d = snd (snd (snd d))"
definition db_handle :: "dblock \<Rightarrow> BlockHandle" where "db_handle d = handle_of (db_pos d) (db_len d)"

lemmas db_simps = db_sep_def db_pos_def db_len_def db_entries_def db_handle_def

definition all_entries :: "dblock list \<Rightarrow> (bytes \<times> bytes) list" where
  "all_entries ds = concat (map db_entries ds)"

lemma all_entries_simps [simp]:
  "all_entries [] = []" "all_entries (d # ds) = db_entries d @ all_entries ds"
  "all_entries (ds @ es) = all_entries ds @ all_entries es"
  by (simp_all add: all_entries_def)

definition entries_stored :: "(bytes \<Rightarrow> bytes option) \<Rightarrow> table_options \<Rightarrow> bytes \<Rightarrow> nat \<Rightarrow> nat \<Rightarrow> (bytes \<times> bytes) list \<Rightarrow> bool" where
  "entries_stored snap opt f pos len es \<longleftrightarrow> es \<noteq> [] \<and> (\<exists>b. add_all (to_Compare opt) (to_block_restart_interval opt) blank_builder es = Inr b
     \<and> stored snap f pos len (fst (builder_Finish b)))"

lemma entries_stored_append: "entries_stored snap opt f pos len es \<Longrightarrow> entries_stored snap opt (f @ g) pos len es"
  by (auto simp: entries_stored_def intro: stored_append)

definition blocks_stored :: "(bytes \<Rightarrow> bytes option) \<Rightarrow> table_options \<Rightarrow> bytes \<Rightarrow> dblock list \<Rightarrow> bool" where
  "blocks_stored snap opt f ds \<longleftrightarrow> (\<forall>d \<in> set ds. entries_stored snap opt f (db_pos d) (db_len d) (db_entries d))
     \<and> sorted_wrt (<) (map db_pos ds)"

definition index_entries :: "dblock list \<Rightarrow> (bytes \<times> bytes) list" where
  "index_entries ds = map (\<lambda>d. (db_sep d, handle_bytes (db_handle d))) ds"

text \<open>The key of an index entry separates the block from the keys that follow.\<close>

definition fence :: "(bytes \<Rightarrow> bytes \<Rightarrow> int) \<Rightarrow> (bytes \<Rightarrow> bytes) \<Rightarrow> dblock \<Rightarrow> bytes list \<Rightarrow> bool" where
  "fence cmp u d rest \<longleftrightarrow> cmp (fst (last (db_entries d))) (db_sep d) \<le> 0
     \<and> (rest \<noteq> [] \<longrightarrow> cmp (db_sep d) (hd rest) < 0
          \<and> (db_sep d = fst (last (db_entries d)) \<or> (\<forall>b x. cmp (hd rest) b \<le> 0 \<longrightarrow> u x = u b \<longrightarrow> cmp (db_sep d) x < 0)))"

fun fences :: "(bytes \<Rightarrow> bytes \<Rightarrow> int) \<Rightarrow> (bytes \<Rightarrow> bytes) \<Rightarrow> dblock list \<Rightarrow> bytes list \<Rightarrow> bool" where
  "fences cmp u [] rest = True"
| "fences cmp u (d # ds) rest = (fence cmp u d (map fst (all_entries ds) @ rest) \<and> fences cmp u ds rest)"

lemma fence_append: "fence cmp u d rest \<Longrightarrow> rest \<noteq> [] \<Longrightarrow> fence cmp u d (rest @ ks)"
  by (simp add: fence_def)

lemma fences_append: "fences cmp u ds rest \<Longrightarrow> rest \<noteq> [] \<Longrightarrow> fences cmp u ds (rest @ ks)"
proof (induction ds)
  case (Cons d ds)
  then show ?case using fence_append [of cmp u d "map fst (all_entries ds) @ rest" ks] by simp
qed simp

text \<open>The keys of the filters: those of every block under the number of the filter of its offset.\<close>

definition filter_keys :: "dblock list \<Rightarrow> (nat \<times> bytes) set" where
  "filter_keys ds = (\<Union>d \<in> set ds. {db_pos d div kFilterBase} \<times> fst ` set (db_entries d))"

lemma filter_keys_simps [simp]:
  "filter_keys [] = {}" "filter_keys [d] = {db_pos d div kFilterBase} \<times> fst ` set (db_entries d)"
  "filter_keys (ds @ es) = filter_keys ds \<union> filter_keys es"
  by (auto simp: filter_keys_def)

definition filter_state :: "table_builder \<Rightarrow> (nat \<times> bytes) set \<Rightarrow> bool" where
  "filter_state r K \<longleftrightarrow> (case tb_filter_block r of None \<Rightarrow> to_filter_policy (tb_options r) = None
     | Some (policy, fb) \<Rightarrow> to_filter_policy (tb_options r) = Some policy
         \<and> (\<exists>os ks. filter_inv policy fb os ks K \<and> length os = tb_offset r div kFilterBase))"

lemma filter_state_cong:
  "tb_filter_block r = tb_filter_block r' \<Longrightarrow> tb_options r = tb_options r' \<Longrightarrow> tb_offset r = tb_offset r'
    \<Longrightarrow> filter_state r K = filter_state r' K"
  by (simp only: filter_state_def)

text \<open>\<open>ds\<close> are the blocks with an index entry, \<open>pend\<close> the block that waits for one, \<open>cur\<close> the entries of the
  block that is being built.\<close>

definition pend_blocks :: "dblock option \<Rightarrow> dblock list" where
  "pend_blocks pend = (case pend of None \<Rightarrow> [] | Some d \<Rightarrow> [d])"

definition tb_inv ::
  "(bytes \<Rightarrow> bytes option) \<Rightarrow> table_options \<Rightarrow> (bytes \<Rightarrow> bytes) \<Rightarrow> table_builder \<Rightarrow> dblock list \<Rightarrow> dblock option
     \<Rightarrow> (bytes \<times> bytes) list \<Rightarrow> bool" where
  "tb_inv snap opt u r ds pend cur \<longleftrightarrow>
     (let bs = ds @ pend_blocks pend; es = all_entries bs @ cur in
      tb_options r = opt \<and> tb_index_restart_interval r = 1 \<and> tb_offset r = length (tb_file r)
      \<and> blocks_stored snap opt (tb_file r) bs \<and> (\<forall>d \<in> set bs. db_pos d < tb_offset r)
      \<and> (case pend of None \<Rightarrow> \<not> tb_pending_index_entry r
         | Some d \<Rightarrow> tb_pending_index_entry r \<and> tb_pending_handle r = db_handle d \<and> cur = [])
      \<and> add_all (to_Compare opt) (to_block_restart_interval opt) blank_builder cur = Inr (tb_data_block r)
      \<and> add_all (to_Compare opt) 1 blank_builder (index_entries ds) = Inr (tb_index_block r)
      \<and> tb_num_entries r = int (length es) \<and> (es \<noteq> [] \<longrightarrow> tb_last_key r = fst (last es))
      \<and> sorted_wrt (\<lambda>a b. to_Compare opt a b < 0) (map fst es)
      \<and> fences (to_Compare opt) u ds (map fst (all_entries (pend_blocks pend) @ cur))
      \<and> (ds \<noteq> [] \<longrightarrow> all_entries (pend_blocks pend) @ cur \<noteq> [])
      \<and> filter_state r (filter_keys bs \<union> {tb_offset r div kFilterBase} \<times> fst ` set cur))"

text \<open>What is asked of the options.\<close>

definition options_ok :: "table_options \<Rightarrow> (bytes \<Rightarrow> bytes) \<Rightarrow> bool" where
  "options_ok opt u \<longleftrightarrow> table_order (to_Compare opt) (to_FindShortestSeparator opt) (to_FindShortSuccessor opt) u
     \<and> (\<forall>policy. to_filter_policy opt = Some policy \<longrightarrow> no_false_negatives policy
          \<and> (\<forall>a b f. u a = u b \<longrightarrow> fp_KeyMayMatch policy a f = fp_KeyMayMatch policy b f))"

lemma add_all_buffer: "add_all cmp n blank_builder es = Inr b \<Longrightarrow> bb_buffer b = [] \<longleftrightarrow> es = []"
proof (cases es rule: rev_cases)
  case Nil
  then show "add_all cmp n blank_builder es = Inr b \<Longrightarrow> ?thesis" by (auto simp: blank_builder_def)
next
  case (snoc fs e)
  assume "add_all cmp n blank_builder es = Inr b"
  then have "and_then (add_all cmp n blank_builder fs) (\<lambda>b. builder_Add cmp n b (fst e) (snd e)) = Inr b"
    using snoc add_all_snoc [of cmp n blank_builder fs "fst e" "snd e"] by simp
  then obtain b0 where "builder_Add cmp n b0 (fst e) (snd e) = Inr b" by (auto simp: res_simps)
  moreover have "EncodeVarint32 v \<noteq> []" for v by (simp add: EncodeVarint32_varint)
  ultimately have "bb_buffer b \<noteq> []" by (auto simp: builder_Add_def PutVarint32_def Let_def split: if_splits)
  then show ?thesis using snoc by simp
qed

lemma fences_snoc: "fences cmp u (ds @ [d]) rest \<longleftrightarrow> fences cmp u ds (map fst (db_entries d) @ rest) \<and> fence cmp u d rest"
  by (induction ds) auto

lemma filter_start_inv:
  assumes o: "options_ok (tb_options r) u" and f: "filter_start pos r = Inr r'"
    and s: "filter_state (r\<lparr>tb_offset := pos0\<rparr>) K" and pos: "tb_offset r = pos" "pos0 \<le> pos"
  shows "filter_state r' K" "r' = r\<lparr>tb_filter_block := tb_filter_block r'\<rparr>"
proof -
  have "filter_state r' K \<and> r' = r\<lparr>tb_filter_block := tb_filter_block r'\<rparr>"
  proof (cases "tb_filter_block r")
    case None
    then show ?thesis using f s by (simp add: filter_start_def filter_state_def)
  next
    case (Some x)
    obtain policy fb where x: "x = (policy, fb)" by (cases x)
    have p: "to_filter_policy (tb_options r) = Some policy" and "\<exists>os ks. filter_inv policy fb os ks K \<and> length os = pos0 div kFilterBase"
      using s Some x by (auto simp: filter_state_def)
    then obtain os ks where i: "filter_inv policy fb os ks K" "length os = pos0 div kFilterBase" by blast
    have n: "no_false_negatives policy" using o p by (auto simp: options_ok_def)
    have le: "length os \<le> pos div kFilterBase" using i(2) pos by (auto intro: div_le_mono)
    obtain fb' os' ks' where fb': "filter_StartBlock policy pos fb = Inr fb'" "filter_inv policy fb' os' ks' K"
        "length os' = pos div kFilterBase"
      using no_false_negatives.StartBlock_inv [OF n i(1) le] by blast
    then have "r' = r\<lparr>tb_filter_block := Some (policy, fb')\<rparr>" using f Some x by (simp add: filter_start_def)
    then show ?thesis using fb' p pos by (auto simp: filter_state_def)
  qed
  then show "filter_state r' K" "r' = r\<lparr>tb_filter_block := tb_filter_block r'\<rparr>" by simp_all
qed

lemma tb_ok_upd [simp]: "tb_ok (r\<lparr>tb_status := s\<rparr>) \<longleftrightarrow> s = StatusOK"
  by (simp add: tb_ok_def)

text \<open>The fields that only \<open>filter_start\<close> may change.\<close>

lemma Flush_cases:
  assumes "tb_Flush app pv snap r = Inr r'" and "tb_ok r'" and "tb_offset r = length (tb_file r)"
  shows "tb_ok r \<and> (bb_buffer (tb_data_block r) = [] \<and> r' = r
    \<or> bb_buffer (tb_data_block r) \<noteq> [] \<and> \<not> tb_pending_index_entry r \<and> (\<exists>c t. stored snap (tb_file r @ c @ trailer (compression_byte t) c) (tb_offset r) (length c)
          (fst (builder_Finish (tb_data_block r)))
        \<and> filter_start (tb_offset r + length c + kBlockTrailerSize)
            (r\<lparr>tb_file := tb_file r @ c @ trailer (compression_byte t) c,
               tb_offset := tb_offset r + length c + kBlockTrailerSize, tb_data_block := blank_builder,
               tb_pending_handle := handle_of (tb_offset r) (length c), tb_pending_index_entry := True,
               tb_status := StatusOK\<rparr>) = Inr r'))"
proof (cases "\<not> tb_closed r \<and> tb_ok r \<and> bb_buffer (tb_data_block r) \<noteq> []")
  case False
  then show ?thesis using assms by (auto simp: tb_Flush_def split: if_splits)
next
  case True
  then have np: "\<not> tb_pending_index_entry r" using assms(1) by (auto simp: tb_Flush_def split: if_splits)
  obtain blk h r1 where w: "WriteBlock app pv snap (tb_data_block r) r = Inr (blk, h, r1)"
    using assms(1) True np by (auto simp: tb_Flush_def res_simps)
  let ?r2 = "r1\<lparr>tb_data_block := blk, tb_pending_handle := h\<rparr>"
  have keep: "filter_start p x = Inr y \<Longrightarrow> tb_status y = tb_status x" for p x y
    by (auto simp: filter_start_def res_simps split: option.splits)
  have ok1: "tb_ok r1" using assms(1,2) True np w keep by (auto simp: tb_Flush_def Let_def tb_ok_def split: if_splits)
  obtain c t where c: "blk = blank_builder" "h = handle_of (tb_offset r) (length c)"
    "r1 = r\<lparr>tb_status := StatusOK, tb_file := tb_file r @ c @ trailer (compression_byte t) c,
            tb_offset := tb_offset r + length c + kBlockTrailerSize\<rparr>"
    "stored snap (tb_file r1) (tb_offset r) (length c) (fst (builder_Finish (tb_data_block r)))"
    by (rule WriteBlock_ok [OF w ok1 assms(3)])
  have f: "filter_start (tb_offset r1) (?r2\<lparr>tb_pending_index_entry := True,
      tb_status := (if fa_flushes app (tb_file r1) then StatusOK else StatusIOError)\<rparr>) = Inr r'"
    using assms(1) True np w ok1 by (simp add: tb_Flush_def Let_def tb_ok_def)
  then have "fa_flushes app (tb_file r1)" using keep [OF f] assms(2) by (auto simp: tb_ok_def split: if_splits)
  then have "\<exists>c t. stored snap (tb_file r @ c @ trailer (compression_byte t) c) (tb_offset r) (length c)
          (fst (builder_Finish (tb_data_block r)))
        \<and> filter_start (tb_offset r + length c + kBlockTrailerSize)
            (r\<lparr>tb_file := tb_file r @ c @ trailer (compression_byte t) c,
               tb_offset := tb_offset r + length c + kBlockTrailerSize, tb_data_block := blank_builder,
               tb_pending_handle := handle_of (tb_offset r) (length c), tb_pending_index_entry := True,
               tb_status := StatusOK\<rparr>) = Inr r'"
    using f c by (intro exI [of _ c] exI [of _ t]) simp
  then show ?thesis using True np by blast
qed

lemma blocks_stored_append: "blocks_stored snap opt f ds \<Longrightarrow> blocks_stored snap opt (f @ g) ds"
  by (auto simp: blocks_stored_def intro: entries_stored_append)

lemma Flush_inv:
  assumes o: "options_ok opt u" and i: "tb_inv snap opt u r ds pend cur"
    and f: "tb_Flush app pv snap r = Inr r'" and ok: "tb_ok r'"
  shows "tb_ok r \<and> (if cur = [] then r' = r else pend = None \<and> (\<exists>d. tb_inv snap opt u r' ds (Some d) [] \<and> db_entries d = cur)
    \<and> tb_closed r' = tb_closed r)"
proof -
  note I = i [unfolded tb_inv_def Let_def]
  have off: "tb_offset r = length (tb_file r)" using I by blast
  note F = Flush_cases [OF f ok off]
  have b: "bb_buffer (tb_data_block r) = [] \<longleftrightarrow> cur = []" using I add_all_buffer by blast
  show ?thesis
  proof (cases "cur = []")
    case True
    then show ?thesis using F b by auto
  next
    case False
    then have pend: "pend = None" using I by (cases pend) auto
    from F b False obtain c t where c: "stored snap (tb_file r @ c @ trailer (compression_byte t) c) (tb_offset r) (length c)
          (fst (builder_Finish (tb_data_block r)))"
        and fs: "filter_start (tb_offset r + length c + kBlockTrailerSize)
            (r\<lparr>tb_file := tb_file r @ c @ trailer (compression_byte t) c,
               tb_offset := tb_offset r + length c + kBlockTrailerSize, tb_data_block := blank_builder,
               tb_pending_handle := handle_of (tb_offset r) (length c), tb_pending_index_entry := True,
               tb_status := StatusOK\<rparr>) = Inr r'" and okr: "tb_ok r"
      by blast
    let ?g = "c @ trailer (compression_byte t) c" and ?pos = "tb_offset r + length c + kBlockTrailerSize"
    let ?r1 = "r\<lparr>tb_file := tb_file r @ ?g, tb_offset := ?pos, tb_data_block := blank_builder,
               tb_pending_handle := handle_of (tb_offset r) (length c), tb_pending_index_entry := True,
               tb_status := StatusOK\<rparr>"
    let ?d = "([], tb_offset r, length c, cur) :: dblock"
    let ?K = "filter_keys (ds @ [?d])"
    have "?K = filter_keys (ds @ pend_blocks pend) \<union> {tb_offset r div kFilterBase} \<times> fst ` set cur"
      unfolding pend pend_blocks_def by (simp add: db_pos_def db_entries_def)
    then have "filter_state r ?K" using I by metis
    then have "filter_state (?r1\<lparr>tb_offset := tb_offset r\<rparr>) ?K"
      by (rule filter_state_cong [THEN iffD1, rotated -1]) simp_all
    then have fs': "filter_state r' ?K" "r' = ?r1\<lparr>tb_filter_block := tb_filter_block r'\<rparr>"
      using filter_start_inv [OF _ fs] o I by simp_all
    have r': "tb_options r' = opt" "tb_index_restart_interval r' = 1" "tb_file r' = tb_file r @ ?g" "tb_offset r' = ?pos"
        "tb_pending_index_entry r'" "tb_pending_handle r' = db_handle ?d" "tb_data_block r' = blank_builder"
        "tb_index_block r' = tb_index_block r" "tb_num_entries r' = tb_num_entries r" "tb_last_key r' = tb_last_key r"
        "tb_closed r' = tb_closed r"
      using I by (subst fs'(2), simp add: db_simps)+
    have bs: "blocks_stored snap opt (tb_file r @ ?g) (ds @ [?d])"
      using I pend False c blocks_stored_append [of snap opt "tb_file r" ds ?g]
      by (auto simp: blocks_stored_def entries_stored_def pend_blocks_def db_pos_def db_len_def db_entries_def sorted_wrt_append)
    have pos: "\<forall>d \<in> set (ds @ [?d]). db_pos d < ?pos"
      using I pend by (auto simp: pend_blocks_def db_pos_def kBlockTrailerSize_def)
    have es: "all_entries (ds @ [?d]) @ [] = all_entries (ds @ pend_blocks pend) @ cur"
      "all_entries (pend_blocks (Some ?d)) @ [] = all_entries (pend_blocks pend) @ cur"
      by (simp_all add: pend pend_blocks_def db_entries_def)
    have "tb_inv snap opt u r' ds (Some ?d) []"
      unfolding tb_inv_def Let_def r' es pend_blocks_def option.case using I bs pos fs'(1) off pend r'(5)
      by (simp add: pend_blocks_def db_entries_def kBlockTrailerSize_def)
    then show ?thesis using False pend okr r' by (auto simp: db_entries_def)
  qed
qed

text \<open>The block that waited for its index entry gets it when the next key is known.\<close>

lemma index_entry_added:
  assumes a: "add_index_entry s r = Inr r1" and i: "add_all (to_Compare (tb_options r)) 1 blank_builder (index_entries ds) = Inr (tb_index_block r)"
    and h: "tb_pending_handle r = db_handle d" "tb_index_restart_interval r = 1"
    and fits: "db_pos d + db_len d + kBlockTrailerSize \<le> length (tb_file r)" and small: "length (tb_file r) < 2 ^ 64"
  shows "\<exists>index. r1 = r\<lparr>tb_last_key := s, tb_index_block := index, tb_pending_index_entry := False\<rparr>
      \<and> add_all (to_Compare (tb_options r)) 1 blank_builder (index_entries (ds @ [(s, snd d)])) = Inr index"
proof -
  have set: "handle_set (db_handle d)"
    unfolding db_handle_def using fits small by (intro handle_of_set) (simp_all add: kBlockTrailerSize_def)
  obtain index where index: "builder_Add (to_Compare (tb_options r)) 1 (tb_index_block r) s (handle_bytes (db_handle d)) = Inr index"
      "r1 = r\<lparr>tb_last_key := s, tb_index_block := index, tb_pending_index_entry := False\<rparr>"
    using a handle_EncodeTo_ok [OF set, of "[]"] by (auto simp: add_index_entry_def h res_simps)
  have "index_entries (ds @ [(s, snd d)]) = index_entries ds @ [(s, handle_bytes (db_handle d))]"
    by (simp add: index_entries_def db_simps)
  then show ?thesis using i index by (simp add: add_all_snoc)
qed

lemma pending_fits:
  assumes "blocks_stored snap opt f (ds @ [d])"
  shows "db_entries d \<noteq> []" "db_pos d + db_len d + kBlockTrailerSize \<le> length f"
  using assms by (auto simp: blocks_stored_def entries_stored_def stored_def)

text \<open>The state in which the key is put into the data block.\<close>

lemma before_add:
  assumes o: "options_ok opt u" and i: "tb_inv snap opt u r ds pend cur" and small: "length (tb_file r) < 2 ^ 64"
    and lt: "tb_num_entries r > 0 \<Longrightarrow> to_Compare opt k (tb_last_key r) > 0"
    and r1: "(if tb_pending_index_entry r then
           if bb_buffer (tb_data_block r) \<noteq> [] then Inl (Thrown ''assert'')
           else and_then (to_FindShortestSeparator opt (tb_last_key r) k) (\<lambda>sep. add_index_entry sep r)
         else Inr r) = Inr r1"
  obtains ds1 l ib where "r1 = r\<lparr>tb_last_key := l, tb_index_block := ib, tb_pending_index_entry := False\<rparr>"
    "add_all (to_Compare opt) 1 blank_builder (index_entries ds1) = Inr ib"
    "all_entries ds1 = all_entries (ds @ pend_blocks pend)" "blocks_stored snap opt (tb_file r) ds1"
    "\<forall>d \<in> set ds1. db_pos d < tb_offset r" "filter_keys ds1 = filter_keys (ds @ pend_blocks pend)"
    "fences (to_Compare opt) u ds1 (map fst (cur @ [(k, v)]))"
proof (cases pend)
  case None
  note I = i [unfolded tb_inv_def Let_def None]
  have f: "fences (to_Compare opt) u ds (map fst (cur @ [(k, v)]))"
    using I fences_append [of "to_Compare opt" u ds "map fst cur" "[k]"] by (cases "ds = []") (auto simp: pend_blocks_def)
  have np: "\<not> tb_pending_index_entry r" using I by simp
  then have e: "r1 = r\<lparr>tb_last_key := tb_last_key r, tb_index_block := tb_index_block r, tb_pending_index_entry := False\<rparr>"
    using r1 by (intro table_builder.equality) simp_all
  have same: "all_entries ds = all_entries (ds @ pend_blocks pend)" "filter_keys ds = filter_keys (ds @ pend_blocks pend)"
    by (simp_all add: None pend_blocks_def)
  have I': "add_all (to_Compare opt) 1 blank_builder (index_entries ds) = Inr (tb_index_block r)"
      "blocks_stored snap opt (tb_file r) ds" "\<forall>d \<in> set ds. db_pos d < tb_offset r"
    using I by (auto simp: pend_blocks_def)
  show ?thesis by (rule that [OF e I'(1) same(1) I'(2,3) same(2) f])
next
  case (Some d)
  note I = i [unfolded tb_inv_def Let_def Some]
  have cur: "cur = []" and p: "tb_pending_index_entry r" using I by simp_all
  have ne: "db_entries d \<noteq> []" using I by (auto simp: blocks_stored_def entries_stored_def pend_blocks_def)
  have c: "comparator (to_Compare opt)" using o by (simp add: options_ok_def table_order_def block_order_def)
  have "tb_num_entries r = int (length (all_entries ds @ db_entries d))" using I by (simp add: pend_blocks_def)
  then have "tb_num_entries r > 0" using ne by (simp only: of_nat_0_less_iff length_greater_0_conv) simp
  then have lt': "to_Compare opt (tb_last_key r) k < 0" using lt comparator.cmp_sym [OF c] by simp
  obtain s where s: "to_FindShortestSeparator opt (tb_last_key r) k = Inr s" "add_index_entry s r = Inr r1"
    using r1 p by (auto simp: res_simps split: if_splits)
  have ord: "table_order (to_Compare opt) (to_FindShortestSeparator opt) (to_FindShortSuccessor opt) u"
    using o by (simp add: options_ok_def)
  have opt: "tb_options r = opt" and fits: "db_pos d + db_len d + kBlockTrailerSize \<le> length (tb_file r)"
    using I pending_fits [of snap opt "tb_file r" ds d] by (auto simp: pend_blocks_def)
  have last: "tb_last_key r = fst (last (db_entries d))" using I ne cur by (auto simp: pend_blocks_def)
  have E: "\<exists>index. r1 = r\<lparr>tb_last_key := s, tb_index_block := index, tb_pending_index_entry := False\<rparr>
      \<and> add_all (to_Compare opt) 1 blank_builder (index_entries (ds @ [(s, snd d)])) = Inr index"
    using index_entry_added [OF s(2) _ _ _ fits small] I unfolding opt by simp
  have F: "fence (to_Compare opt) u (s, snd d) [k]"
    using table_order.separator [OF ord lt'] s(1) last by (auto simp: fence_def db_simps)
  let ?ds = "ds @ [(s, snd d)]"
  have same: "db_entries (s, snd d) = db_entries d" "db_pos (s, snd d) = db_pos d" "db_len (s, snd d) = db_len d"
    by (simp_all add: db_simps)
  have "fences (to_Compare opt) u ?ds (map fst (cur @ [(k, v)]))"
    using I F cur ne fences_append [of "to_Compare opt" u ds "map fst (db_entries d)" "[k]"]
    by (auto simp: fences_snoc same pend_blocks_def)
  moreover have "blocks_stored snap opt (tb_file r) ?ds" "\<forall>d \<in> set ?ds. db_pos d < tb_offset r"
      "all_entries ?ds = all_entries (ds @ pend_blocks pend)" "filter_keys ?ds = filter_keys (ds @ pend_blocks pend)"
    using I by (auto simp: blocks_stored_def pend_blocks_def same Some filter_keys_def)
  ultimately show ?thesis using that [of _ s ?ds] E by blast
qed

lemma add_key_state:
  assumes s: "filter_state r K" and o: "options_ok (tb_options r) u" and r': "tb_options r' = tb_options r" "tb_offset r' = tb_offset r"
    "tb_filter_block r' = map_option (\<lambda>(policy, fb). (policy, filter_AddKey k fb)) (tb_filter_block r)"
  shows "filter_state r' (insert (tb_offset r div kFilterBase, k) K)"
proof (cases "tb_filter_block r")
  case None
  then show ?thesis using s r' by (simp add: filter_state_def)
next
  case (Some x)
  obtain policy fb where x: "x = (policy, fb)" by (cases x)
  then obtain os ks where i: "filter_inv policy fb os ks K" "length os = tb_offset r div kFilterBase"
      "to_filter_policy (tb_options r) = Some policy"
    using s Some by (auto simp: filter_state_def)
  then have "no_false_negatives policy" using o by (auto simp: options_ok_def)
  from no_false_negatives.AddKey_inv [OF this i(1), of k] show ?thesis
    using i Some x r' by (auto simp: filter_state_def)
qed

lemma sorted_keys_snoc:
  assumes o: "options_ok opt u" and s: "sorted_wrt (\<lambda>a b. to_Compare opt a b < 0) (map fst es)"
    and lt: "es \<noteq> [] \<Longrightarrow> to_Compare opt k (fst (last es)) > 0"
  shows "sorted_wrt (\<lambda>a b. to_Compare opt a b < 0) (map fst (es @ [(k, v)]))"
proof -
  have c: "comparator (to_Compare opt)" using o by (simp add: options_ok_def table_order_def block_order_def)
  have "to_Compare opt (fst x) k < 0" if "x \<in> set es" for x
  proof -
    from that obtain ys zs where es: "es = ys @ x # zs" by (meson split_list)
    have l: "to_Compare opt (fst (last es)) k < 0" using lt es comparator.cmp_sym [OF c] by simp
    show ?thesis
    proof (cases zs rule: rev_cases)
      case Nil
      then show ?thesis using l es by simp
    next
      case (snoc ws w)
      then have "to_Compare opt (fst x) (fst w) < 0" using s es by (simp add: sorted_wrt_append)
      then show ?thesis using l es snoc comparator.cmp_less_trans [OF c, of "fst x" "fst w" k] by simp
    qed
  qed
  then show ?thesis using s by (auto simp: sorted_wrt_append)
qed

lemma Add_inv:
  assumes o: "options_ok opt u" and i: "tb_inv snap opt u r ds pend cur" and small: "length (tb_file r) < 2 ^ 64"
    and a: "tb_Add app pv snap k v r = Inr r'" and ok: "tb_ok r'"
  shows "tb_ok r" "\<exists>ds' pend' cur'. tb_inv snap opt u r' ds' pend' cur'
    \<and> all_entries (ds' @ pend_blocks pend') @ cur' = all_entries (ds @ pend_blocks pend) @ cur @ [(k, v)]"
proof -
  note I = i [unfolded tb_inv_def Let_def]
  let ?cmp = "to_Compare opt" and ?n = "to_block_restart_interval opt"
  have opt: "tb_options r = opt" using I by blast
  show okr: "tb_ok r" using a ok by (auto simp: tb_Add_def Let_def split: if_splits)
  have nc: "\<not> tb_closed r" and lt: "tb_num_entries r > 0 \<Longrightarrow> ?cmp k (tb_last_key r) > 0"
    using a okr by (auto simp: tb_Add_def Let_def opt split: if_splits)
  obtain r1 where r1: "(if tb_pending_index_entry r then
           if bb_buffer (tb_data_block r) \<noteq> [] then Inl (Thrown ''assert'')
           else and_then (to_FindShortestSeparator opt (tb_last_key r) k) (\<lambda>sep. add_index_entry sep r)
         else Inr r) = Inr r1"
    using a okr nc lt by (auto simp: tb_Add_def Let_def opt res_simps split: if_splits)
  obtain ds1 l ib where E: "r1 = r\<lparr>tb_last_key := l, tb_index_block := ib, tb_pending_index_entry := False\<rparr>"
    "add_all ?cmp 1 blank_builder (index_entries ds1) = Inr ib"
    "all_entries ds1 = all_entries (ds @ pend_blocks pend)" "blocks_stored snap opt (tb_file r) ds1"
    "\<forall>d \<in> set ds1. db_pos d < tb_offset r" "filter_keys ds1 = filter_keys (ds @ pend_blocks pend)"
    "fences ?cmp u ds1 (map fst (cur @ [(k, v)]))"
    using before_add [OF o i small lt r1] by blast
  let ?r2 = "r1\<lparr>tb_filter_block := map_option (\<lambda>(policy, fb). (policy, filter_AddKey k fb)) (tb_filter_block r1),
                  tb_last_key := k, tb_num_entries := tb_num_entries r1 + 1\<rparr>"
  obtain blk where blk: "builder_Add ?cmp ?n (tb_data_block r) k v = Inr blk"
      "(if CurrentSizeEstimate blk \<ge> to_block_size opt then tb_Flush app pv snap (?r2\<lparr>tb_data_block := blk\<rparr>)
        else Inr (?r2\<lparr>tb_data_block := blk\<rparr>)) = Inr r'"
    using a okr nc lt unfolding tb_Add_def Let_def opt r1 by (auto simp: res_simps E(1) split: if_splits)
  let ?r3 = "?r2\<lparr>tb_data_block := blk\<rparr>" and ?cur = "cur @ [(k, v)]"
  have add: "add_all ?cmp ?n blank_builder ?cur = Inr blk" using I blk(1) by (simp add: add_all_snoc)
  have fs: "filter_state ?r3 (filter_keys ds1 \<union> {tb_offset r div kFilterBase} \<times> fst ` set ?cur)"
  proof -
    let ?K = "filter_keys ds1 \<union> {tb_offset r div kFilterBase} \<times> fst ` set cur"
    have "filter_state r (filter_keys (ds @ pend_blocks pend) \<union> {tb_offset r div kFilterBase} \<times> fst ` set cur)" using I by blast
    then have "filter_state r ?K" unfolding E(6) .
    moreover have "filter_keys ds1 \<union> {tb_offset r div kFilterBase} \<times> fst ` set ?cur = insert (tb_offset r div kFilterBase, k) ?K" by auto
    ultimately show ?thesis using add_key_state [of r ?K u ?r3 k] o opt by (simp add: E(1))
  qed
  have es: "all_entries ds1 @ ?cur = (all_entries (ds @ pend_blocks pend) @ cur) @ [(k, v)]" by (simp add: E(3))
  have sorted: "sorted_wrt (\<lambda>a b. ?cmp a b < 0) (map fst (all_entries ds1 @ ?cur))"
  proof -
    let ?es = "all_entries (ds @ pend_blocks pend) @ cur"
    have "?cmp k (fst (last ?es)) > 0" if ne: "?es \<noteq> []"
    proof -
      have "tb_num_entries r = int (length ?es)" "tb_last_key r = fst (last ?es)" using I ne by blast+
      then show ?thesis using lt ne by (simp only: of_nat_0_less_iff length_greater_0_conv) simp
    qed
    then show ?thesis using sorted_keys_snoc [OF o, of ?es k v] I unfolding es by blast
  qed
  have inv: "tb_inv snap opt u ?r3 ds1 None ?cur"
    unfolding tb_inv_def Let_def using I E add fs sorted opt by (simp add: pend_blocks_def)
  show "\<exists>ds' pend' cur'. tb_inv snap opt u r' ds' pend' cur'
    \<and> all_entries (ds' @ pend_blocks pend') @ cur' = all_entries (ds @ pend_blocks pend) @ cur @ [(k, v)]"
  proof (cases "CurrentSizeEstimate blk \<ge> to_block_size opt")
    case True
    then obtain d where "tb_inv snap opt u r' ds1 (Some d) []" "db_entries d = ?cur"
      using Flush_inv [OF o inv _ ok] blk(2) by fastforce
    then show ?thesis using es by (intro exI [of _ ds1] exI [of _ "Some d"] exI [of _ "[]"]) (simp add: pend_blocks_def)
  next
    case False
    then show ?thesis using inv blk(2) es by (intro exI [of _ ds1] exI [of _ None] exI [of _ ?cur]) (simp add: pend_blocks_def)
  qed
qed

end
