(* ===== verification/Ldb_Table_File.thy ===== *)
theory Ldb_Table_File
  imports Ldb_Table_Layout
begin

text \<open>
  The file that a finished builder has written: the blocks, the index, the filters and the footer.
\<close>

section \<open>The layout of a table file\<close>

definition filter_stored :: "(bytes \<Rightarrow> bytes option) \<Rightarrow> table_options \<Rightarrow> bytes \<Rightarrow> nat \<Rightarrow> nat \<Rightarrow> dblock list \<Rightarrow> bool" where
  "filter_stored snap opt f mpos mlen ds \<longleftrightarrow> (case to_filter_policy opt of None \<Rightarrow> True
     | Some policy \<Rightarrow> \<exists>fb os ks fpos flen mb. filter_inv policy fb os ks (filter_keys ds)
         \<and> stored snap f fpos flen (fst (filter_Finish policy fb))
         \<and> add_all slice_compare (to_block_restart_interval opt) blank_builder
             [(filter_meta_key policy, handle_bytes (handle_of fpos flen))] = Inr mb
         \<and> stored snap f mpos mlen (fst (builder_Finish mb)))"

definition table_file :: "(bytes \<Rightarrow> bytes option) \<Rightarrow> table_options \<Rightarrow> (bytes \<Rightarrow> bytes) \<Rightarrow> bytes \<Rightarrow> dblock list \<Rightarrow> bool" where
  "table_file snap opt u f ds \<longleftrightarrow> blocks_stored snap opt f ds \<and> fences (to_Compare opt) u ds []
     \<and> sorted_wrt (\<lambda>a b. to_Compare opt a b < 0) (map fst (all_entries ds))
     \<and> (\<exists>mpos mlen ipos ilen ib body. f = body @ footer_bytes \<lparr>ft_metaindex_handle = handle_of mpos mlen, ft_index_handle = handle_of ipos ilen\<rparr>
         \<and> add_all (to_Compare opt) 1 blank_builder (index_entries ds) = Inr ib
         \<and> stored snap f ipos ilen (fst (builder_Finish ib)) \<and> filter_stored snap opt f mpos mlen ds)"

lemma filter_stored_append: "filter_stored snap opt f mpos mlen ds \<Longrightarrow> filter_stored snap opt (f @ g) mpos mlen ds"
  unfolding filter_stored_def by (cases "to_filter_policy opt") (simp_all, blast intro: stored_append)

section \<open>The steps of Finish\<close>

text \<open>A builder whose file only grew.\<close>

definition grown :: "table_builder \<Rightarrow> table_builder \<Rightarrow> bool" where
  "grown r r' \<longleftrightarrow> (\<exists>g. tb_file r' = tb_file r @ g) \<and> tb_offset r' = length (tb_file r') \<and> tb_options r' = tb_options r
     \<and> tb_index_restart_interval r' = tb_index_restart_interval r \<and> tb_index_block r' = tb_index_block r
     \<and> tb_pending_index_entry r' = tb_pending_index_entry r \<and> tb_pending_handle r' = tb_pending_handle r
     \<and> tb_last_key r' = tb_last_key r \<and> (tb_filter_block r' = None \<longleftrightarrow> tb_filter_block r = None)"

lemma finish_filter_ok:
  assumes f: "finish_filter app pv r = (fh, r')" and ok: "tb_ok r'" and off: "tb_offset r = length (tb_file r)"
    and s: "filter_state r K"
  shows "tb_ok r" "grown r r'"
    "case to_filter_policy (tb_options r) of None \<Rightarrow> True
     | Some policy \<Rightarrow> \<exists>fb os ks fpos flen. filter_inv policy fb os ks K \<and> fh = handle_of fpos flen
         \<and> stored snap (tb_file r') fpos flen (fst (filter_Finish policy fb))"
proof -
  have "tb_ok r \<and> grown r r' \<and> (case to_filter_policy (tb_options r) of None \<Rightarrow> True
     | Some policy \<Rightarrow> \<exists>fb os ks fpos flen. filter_inv policy fb os ks K \<and> fh = handle_of fpos flen
         \<and> stored snap (tb_file r') fpos flen (fst (filter_Finish policy fb)))"
  proof (cases "tb_filter_block r")
    case None
    then show ?thesis using f ok off s by (auto simp: finish_filter_def grown_def filter_state_def)
  next
    case (Some x)
    obtain policy fb where x: "x = (policy, fb)" by (cases x)
    then obtain os ks where i: "filter_inv policy fb os ks K" "to_filter_policy (tb_options r) = Some policy"
      using s Some by (auto simp: filter_state_def)
    have okr: "tb_ok r" using f ok Some x by (auto simp: finish_filter_def split: if_splits)
    obtain c fb' where c: "filter_Finish policy fb = (c, fb')" by fastforce
    let ?r = "r\<lparr>tb_filter_block := Some (policy, fb')\<rparr>"
    have w: "WriteRawBlock app pv c NoCompression ?r = (fh, r')" using f Some x okr c by (simp add: finish_filter_def)
    have off': "tb_offset ?r = length (tb_file ?r)" using off by simp
    note W = WriteRawBlock_ok [OF w ok off']
    have "stored snap (tb_file r') (tb_offset r) (length c) c"
      unfolding W(2) stored_def using off by (intro exI [of _ c] exI [of _ NoCompression]) (simp add: slice_def)
    moreover have "grown r r'" unfolding W(2) grown_def using off Some by simp
    ultimately show ?thesis using okr i W(1) c off by (auto intro!: exI)
  qed
  then show "tb_ok r" "grown r r'" "case to_filter_policy (tb_options r) of None \<Rightarrow> True
     | Some policy \<Rightarrow> \<exists>fb os ks fpos flen. filter_inv policy fb os ks K \<and> fh = handle_of fpos flen
         \<and> stored snap (tb_file r') fpos flen (fst (filter_Finish policy fb))" by blast+
qed

lemma builder_Add_first: "builder_Add cmp n blank_builder k v = builder_Add cmp' n blank_builder k v"
  by (simp add: builder_Add_def blank_builder_def)

lemma handle_EncodeTo_Inr: "handle_EncodeTo h [] = Inr s \<Longrightarrow> s = handle_bytes h"
  by (auto simp: handle_EncodeTo_def handle_bytes_def PutVarint64_def split: if_splits)

lemma finish_metaindex_ok:
  assumes m: "finish_metaindex app pv snap fh r = Inr (mh, r')" and ok: "tb_ok r'" and off: "tb_offset r = length (tb_file r)"
    and fb: "tb_filter_block r = None \<longleftrightarrow> to_filter_policy (tb_options r) = None"
  shows "tb_ok r" "grown r r'"
    "\<exists>mpos mlen mb. mh = handle_of mpos mlen \<and> stored snap (tb_file r') mpos mlen (fst (builder_Finish mb))
      \<and> (case to_filter_policy (tb_options r) of None \<Rightarrow> True | Some policy \<Rightarrow>
          add_all slice_compare (to_block_restart_interval (tb_options r)) blank_builder [(filter_meta_key policy, handle_bytes fh)] = Inr mb)"
proof -
  show okr: "tb_ok r" using m ok by (auto simp: finish_metaindex_def split: if_splits)
  obtain mb blk where w: "WriteBlock app pv snap mb r = Inr (blk, mh, r')"
    and mb: "case to_filter_policy (tb_options r) of None \<Rightarrow> True | Some policy \<Rightarrow>
          builder_Add (to_Compare (tb_options r)) (to_block_restart_interval (tb_options r)) blank_builder
            (filter_meta_key policy) (handle_bytes fh) = Inr mb"
    using m okr fb by (cases "tb_filter_block r"; cases "to_filter_policy (tb_options r)")
      (auto simp: finish_metaindex_def res_simps newBlockBuilder_Inr dest!: handle_EncodeTo_Inr split: if_splits)
  obtain c t where c: "blk = blank_builder" "mh = handle_of (tb_offset r) (length c)"
    "r' = r\<lparr>tb_status := StatusOK, tb_file := tb_file r @ c @ trailer (compression_byte t) c,
            tb_offset := tb_offset r + length c + kBlockTrailerSize\<rparr>"
    "stored snap (tb_file r') (tb_offset r) (length c) (fst (builder_Finish mb))"
    by (rule WriteBlock_ok [OF w ok off])
  show "grown r r'" unfolding c(3) grown_def using off by simp
  have "case to_filter_policy (tb_options r) of None \<Rightarrow> True | Some policy \<Rightarrow>
      add_all slice_compare (to_block_restart_interval (tb_options r)) blank_builder [(filter_meta_key policy, handle_bytes fh)] = Inr mb"
    using mb builder_Add_first [of "to_Compare (tb_options r)" _ _ _ slice_compare] by (auto split: option.splits)
  then show "\<exists>mpos mlen mb. mh = handle_of mpos mlen \<and> stored snap (tb_file r') mpos mlen (fst (builder_Finish mb))
      \<and> (case to_filter_policy (tb_options r) of None \<Rightarrow> True | Some policy \<Rightarrow>
          add_all slice_compare (to_block_restart_interval (tb_options r)) blank_builder [(filter_meta_key policy, handle_bytes fh)] = Inr mb)"
    using c by blast
qed

text \<open>The index block gets its last entry and is written.\<close>

lemma finish_index_ok:
  assumes f: "finish_index app pv snap r = Inr (ih, r')" and ok: "tb_ok r'" and o: "options_ok (tb_options r) u"
    and off: "tb_offset r = length (tb_file r)" and small: "length (tb_file r) < 2 ^ 64" and one: "tb_index_restart_interval r = 1"
    and i: "add_all (to_Compare (tb_options r)) 1 blank_builder (index_entries ds) = Inr (tb_index_block r)"
    and bs: "blocks_stored snap (tb_options r) (tb_file r) (ds @ pend_blocks pend)"
    and p: "case pend of None \<Rightarrow> \<not> tb_pending_index_entry r
      | Some d \<Rightarrow> tb_pending_index_entry r \<and> tb_pending_handle r = db_handle d \<and> tb_last_key r = fst (last (db_entries d))"
    and fe: "fences (to_Compare (tb_options r)) u ds (map fst (all_entries (pend_blocks pend)))"
  shows "tb_ok r \<and> (\<exists>g. tb_file r' = tb_file r @ g) \<and> tb_offset r' = length (tb_file r')"
    "\<exists>ds' ipos ilen ib. ih = handle_of ipos ilen \<and> stored snap (tb_file r') ipos ilen (fst (builder_Finish ib))
      \<and> add_all (to_Compare (tb_options r)) 1 blank_builder (index_entries ds') = Inr ib
      \<and> all_entries ds' = all_entries (ds @ pend_blocks pend) \<and> blocks_stored snap (tb_options r) (tb_file r) ds'
      \<and> filter_keys ds' = filter_keys (ds @ pend_blocks pend) \<and> fences (to_Compare (tb_options r)) u ds' []"
proof -
  let ?opt = "tb_options r"
  have okr: "tb_ok r" using f ok by (auto simp: finish_index_def split: if_splits)
  obtain r1 blk r2 where r1: "(if tb_pending_index_entry r
         then and_then (to_FindShortSuccessor ?opt (tb_last_key r)) (\<lambda>succ. add_index_entry succ r)
         else Inr r) = Inr r1"
      and w: "WriteBlock app pv snap (tb_index_block r1) r1 = Inr (blk, ih, r2)" and r': "r' = r2\<lparr>tb_index_block := blk\<rparr>"
    using f okr by (auto simp: finish_index_def res_simps split: if_splits)
  have "\<exists>ds' l ib. r1 = r\<lparr>tb_last_key := l, tb_index_block := ib, tb_pending_index_entry := False\<rparr>
      \<and> add_all (to_Compare ?opt) 1 blank_builder (index_entries ds') = Inr ib
      \<and> all_entries ds' = all_entries (ds @ pend_blocks pend) \<and> blocks_stored snap ?opt (tb_file r) ds'
      \<and> filter_keys ds' = filter_keys (ds @ pend_blocks pend) \<and> fences (to_Compare ?opt) u ds' []"
  proof (cases pend)
    case None
    then have "r1 = r\<lparr>tb_last_key := tb_last_key r, tb_index_block := tb_index_block r, tb_pending_index_entry := False\<rparr>"
      using r1 p by (intro table_builder.equality) simp_all
    then show ?thesis using i bs fe None
      by (intro exI [of _ ds] exI [of _ "tb_last_key r"] exI [of _ "tb_index_block r"]) (simp add: pend_blocks_def)
  next
    case (Some d)
    then have bs': "blocks_stored snap ?opt (tb_file r) (ds @ [d])" using bs by (simp add: pend_blocks_def)
    obtain s where s: "to_FindShortSuccessor ?opt (tb_last_key r) = Inr s" "add_index_entry s r = Inr r1"
      using r1 p Some by (auto simp: res_simps)
    have h: "tb_pending_handle r = db_handle d" using p Some by simp
    obtain index where index: "r1 = r\<lparr>tb_last_key := s, tb_index_block := index, tb_pending_index_entry := False\<rparr>"
        "add_all (to_Compare ?opt) 1 blank_builder (index_entries (ds @ [(s, snd d)])) = Inr index"
      using index_entry_added [OF s(2) i h one pending_fits(2) [OF bs'] small] by blast
    have ord: "table_order (to_Compare ?opt) (to_FindShortestSeparator ?opt) (to_FindShortSuccessor ?opt) u"
      using o by (simp add: options_ok_def)
    have same: "db_entries (s, snd d) = db_entries d" "db_pos (s, snd d) = db_pos d" "db_len (s, snd d) = db_len d"
      by (simp_all add: db_simps)
    have "fence (to_Compare ?opt) u (s, snd d) []"
      using table_order.successor [OF ord, of "tb_last_key r"] s(1) p Some by (simp add: fence_def same) (simp add: db_simps)
    then have "fences (to_Compare ?opt) u (ds @ [(s, snd d)]) []" using fe Some by (simp add: fences_snoc same pend_blocks_def)
    moreover have "blocks_stored snap ?opt (tb_file r) (ds @ [(s, snd d)])" using bs' by (auto simp: blocks_stored_def same)
    ultimately show ?thesis
      using index Some by (intro exI [of _ "ds @ [(s, snd d)]"] exI [of _ s] exI [of _ index]) (simp add: pend_blocks_def same)
  qed
  then obtain ds' l ib where d: "r1 = r\<lparr>tb_last_key := l, tb_index_block := ib, tb_pending_index_entry := False\<rparr>"
      "add_all (to_Compare ?opt) 1 blank_builder (index_entries ds') = Inr ib"
      "all_entries ds' = all_entries (ds @ pend_blocks pend)" "blocks_stored snap ?opt (tb_file r) ds'"
      "filter_keys ds' = filter_keys (ds @ pend_blocks pend)" "fences (to_Compare ?opt) u ds' []"
    by blast
  have ok2: "tb_ok r2" using ok r' by (simp add: tb_ok_def)
  have off1: "tb_offset r1 = length (tb_file r1)" using d(1) off by simp
  obtain c t where c: "ih = handle_of (tb_offset r1) (length c)"
    "r2 = r1\<lparr>tb_status := StatusOK, tb_file := tb_file r1 @ c @ trailer (compression_byte t) c,
            tb_offset := tb_offset r1 + length c + kBlockTrailerSize\<rparr>"
    "stored snap (tb_file r2) (tb_offset r1) (length c) (fst (builder_Finish (tb_index_block r1)))"
    by (rule WriteBlock_ok [OF w ok2 off1])
  show "tb_ok r \<and> (\<exists>g. tb_file r' = tb_file r @ g) \<and> tb_offset r' = length (tb_file r')"
    using okr off by (simp add: r' c(2) d(1))
  have "stored snap (tb_file r') (tb_offset r1) (length c) (fst (builder_Finish ib))" using c(3) by (simp add: r' d(1))
  then show "\<exists>ds' ipos ilen ib. ih = handle_of ipos ilen \<and> stored snap (tb_file r') ipos ilen (fst (builder_Finish ib))
      \<and> add_all (to_Compare ?opt) 1 blank_builder (index_entries ds') = Inr ib
      \<and> all_entries ds' = all_entries (ds @ pend_blocks pend) \<and> blocks_stored snap ?opt (tb_file r) ds'
      \<and> filter_keys ds' = filter_keys (ds @ pend_blocks pend) \<and> fences (to_Compare ?opt) u ds' []"
    using c(1) d by blast
qed

lemma finish_footer_ok:
  assumes f: "finish_footer app mh ih r = Inr r'" and ok: "tb_ok r'"
  shows "tb_ok r \<and> tb_file r' = tb_file r @ footer_bytes \<lparr>ft_metaindex_handle = mh, ft_index_handle = ih\<rparr>"
proof -
  have okr: "tb_ok r" using f ok by (auto simp: finish_footer_def split: if_splits)
  obtain s where s: "footer_EncodeTo \<lparr>ft_metaindex_handle = mh, ft_index_handle = ih\<rparr> [] = Inr s"
    using f okr by (auto simp: finish_footer_def res_simps)
  then have "handle_set mh" "handle_set ih"
    by (auto simp: footer_EncodeTo_def res_simps handle_EncodeTo_def handle_set_def split: if_splits)
  then have "s = footer_bytes \<lparr>ft_metaindex_handle = mh, ft_index_handle = ih\<rparr>"
    using s footer_EncodeTo_ok [of "\<lparr>ft_metaindex_handle = mh, ft_index_handle = ih\<rparr>"] by simp
  then show ?thesis
    using f okr s ok by (auto simp: finish_footer_def file_Append_def Let_def tb_ok_def split: if_splits)
qed

section \<open>Building a table\<close>

text \<open>Files only grow, whatever the environment says.\<close>

lemma WriteRawBlock_grows: "WriteRawBlock app pv c t r = (h, r') \<Longrightarrow> \<exists>g. tb_file r' = tb_file r @ g"
  by (auto simp: WriteRawBlock_def Let_def file_Append_def tb_ok_def split: if_splits)

lemma WriteBlock_grows: "WriteBlock app pv snap blk r = Inr (blk', h, r') \<Longrightarrow> \<exists>g. tb_file r' = tb_file r @ g"
  by (auto simp: WriteBlock_def Let_def dest: WriteRawBlock_grows split: if_splits prod.splits)

lemma add_index_entry_file: "add_index_entry s r = Inr r' \<Longrightarrow> tb_file r' = tb_file r"
  by (auto simp: add_index_entry_def Let_def res_simps)

lemma finish_index_grows: "finish_index app pv snap r = Inr (h, r') \<Longrightarrow> \<exists>g. tb_file r' = tb_file r @ g"
  by (auto simp: finish_index_def res_simps dest!: WriteBlock_grows add_index_entry_file split: if_splits)

lemma filter_start_file: "filter_start pos r = Inr r' \<Longrightarrow> tb_file r' = tb_file r"
  by (auto simp: filter_start_def res_simps split: option.splits)

lemma Flush_grows: "tb_Flush app pv snap r = Inr r' \<Longrightarrow> \<exists>g. tb_file r' = tb_file r @ g"
  by (auto simp: tb_Flush_def Let_def res_simps dest!: WriteBlock_grows filter_start_file split: if_splits)

lemma Add_grows: "tb_Add app pv snap k v r = Inr r' \<Longrightarrow> \<exists>g. tb_file r' = tb_file r @ g"
  by (auto simp: tb_Add_def Let_def res_simps dest!: Flush_grows add_index_entry_file split: if_splits)

lemma Finish_ok:
  assumes o: "options_ok opt u" and i: "tb_inv snap opt u r ds pend cur"
    and f: "tb_Finish app pv snap r = Inr (StatusOK, r')" and small: "length (tb_file r') < 2 ^ 64"
  shows "tb_ok r \<and> (\<exists>g. tb_file r' = tb_file r @ g) \<and> (\<exists>ds'. table_file snap opt u (tb_file r') ds'
    \<and> all_entries ds' = all_entries (ds @ pend_blocks pend) @ cur)"
proof -
  obtain r1 where r1: "tb_Flush app pv snap r = Inr r1" using f by (auto simp: tb_Finish_def res_simps)
  let ?r1 = "r1\<lparr>tb_closed := True\<rparr>"
  obtain fh r2 where r2: "finish_filter app pv ?r1 = (fh, r2)" by fastforce
  obtain mh r3 ih r4 where r3: "finish_metaindex app pv snap fh r2 = Inr (mh, r3)"
      and r4: "finish_index app pv snap r3 = Inr (ih, r4)" and r5: "finish_footer app mh ih r4 = Inr r'" and ok: "tb_ok r'"
    using f r1 r2 by (auto simp: tb_Finish_def res_simps tb_ok_def split: if_splits)
  note F = finish_footer_ok [OF r5 ok]
  have ok3: "tb_ok r3" using F r4 by (auto simp: finish_index_def split: if_splits)
  have ok2: "tb_ok r2" using ok3 r3 by (auto simp: finish_metaindex_def split: if_splits)
  have "tb_ok ?r1" using ok2 r2 by (auto simp: finish_filter_def split: option.splits if_splits)
  then have ok1: "tb_ok r1" by (simp add: tb_ok_def)
  note Fl = Flush_inv [OF o i r1 ok1]
  have "\<exists>pend'. tb_inv snap opt u r1 ds pend' [] \<and> all_entries (pend_blocks pend') = all_entries (pend_blocks pend) @ cur"
  proof (cases "cur = []")
    case True
    then show ?thesis using Fl i by auto
  next
    case False
    then obtain d where "tb_inv snap opt u r1 ds (Some d) []" "db_entries d = cur" "pend = None" using Fl by auto
    then show ?thesis by (intro exI [of _ "Some d"]) (simp add: pend_blocks_def)
  qed
  then obtain pend' where i1: "tb_inv snap opt u r1 ds pend' []"
    and es: "all_entries (pend_blocks pend') = all_entries (pend_blocks pend) @ cur" by blast
  note I = i1 [unfolded tb_inv_def Let_def]
  let ?bs = "ds @ pend_blocks pend'"
  have opt1: "tb_options r1 = opt" and off1: "tb_offset r1 = length (tb_file r1)" and one: "tb_index_restart_interval r1 = 1"
    and bs: "blocks_stored snap opt (tb_file r1) ?bs" and ib: "add_all (to_Compare opt) 1 blank_builder (index_entries ds) = Inr (tb_index_block r1)"
    and fe: "fences (to_Compare opt) u ds (map fst (all_entries (pend_blocks pend')))"
    and sorted: "sorted_wrt (\<lambda>a b. to_Compare opt a b < 0) (map fst (all_entries ?bs))"
    using I by (auto simp del: all_entries_simps)
  have "filter_state r1 (filter_keys ?bs)" using I by (simp add: insert_absorb)
  then have fs: "filter_state ?r1 (filter_keys ?bs)" by (rule filter_state_cong [THEN iffD1, rotated -1]) simp_all
  have p: "case pend' of None \<Rightarrow> \<not> tb_pending_index_entry r1
      | Some d \<Rightarrow> tb_pending_index_entry r1 \<and> tb_pending_handle r1 = db_handle d \<and> tb_last_key r1 = fst (last (db_entries d))"
    using I pending_fits(1) [of snap opt "tb_file r1" ds] by (cases pend') (auto simp: pend_blocks_def)
  have offc: "tb_offset ?r1 = length (tb_file ?r1)" using off1 by simp
  note ff = finish_filter_ok(1,2) [OF r2 ok2 offc fs] finish_filter_ok(3) [OF r2 ok2 offc fs, of snap]
  have nf: "tb_filter_block ?r1 = None \<longleftrightarrow> to_filter_policy (tb_options ?r1) = None"
    using fs by (auto simp: filter_state_def split: option.splits)
  note g2 = ff(2) [unfolded grown_def, simplified]
  have fb2: "tb_filter_block r2 = None \<longleftrightarrow> to_filter_policy (tb_options r2) = None" using g2 nf by simp
  have off2: "tb_offset r2 = length (tb_file r2)" using g2 by simp
  note fm = finish_metaindex_ok [OF r3 ok3 off2 fb2]
  note g3 = fm(2) [unfolded grown_def, simplified]
  have fl: "\<exists>g. tb_file r' = tb_file r4 @ g" using F by blast
  have opt2: "tb_options r2 = opt" using g2 opt1 by simp
  have opt3: "tb_options r3 = opt" using g3 opt2 by simp
  obtain g where g: "tb_file r3 = tb_file r1 @ g" using g2 g3 by auto
  obtain g4 where g4: "tb_file r4 = tb_file r3 @ g4" using finish_index_grows [OF r4] by blast
  have small3: "length (tb_file r3) < 2 ^ 64" using small F g4 by simp
  have s3: "tb_index_restart_interval r3 = 1" "tb_offset r3 = length (tb_file r3)"
      "add_all (to_Compare (tb_options r3)) 1 blank_builder (index_entries ds) = Inr (tb_index_block r3)"
      "blocks_stored snap (tb_options r3) (tb_file r3) ?bs" "options_ok (tb_options r3) u"
      "fences (to_Compare (tb_options r3)) u ds (map fst (all_entries (pend_blocks pend')))"
    using g2 g3 opt1 ib one fe o blocks_stored_append [OF bs] g by simp_all
  have p3: "case pend' of None \<Rightarrow> \<not> tb_pending_index_entry r3
      | Some d \<Rightarrow> tb_pending_index_entry r3 \<and> tb_pending_handle r3 = db_handle d \<and> tb_last_key r3 = fst (last (db_entries d))"
    using p g2 g3 by (cases pend') simp_all
  have ok4: "tb_ok r4" using F by blast
  note fi = finish_index_ok [OF r4 ok4 s3(5,2) small3 s3(1,3,4) p3 s3(6), unfolded opt3]
  obtain ds' ipos ilen ib' where d: "ih = handle_of ipos ilen" "stored snap (tb_file r4) ipos ilen (fst (builder_Finish ib'))"
      "add_all (to_Compare opt) 1 blank_builder (index_entries ds') = Inr ib'"
      "all_entries ds' = all_entries ?bs" "blocks_stored snap opt (tb_file r3) ds'"
      "filter_keys ds' = filter_keys ?bs" "fences (to_Compare opt) u ds' []"
    using fi(2) by blast
  obtain mpos mlen mb where m: "mh = handle_of mpos mlen" "stored snap (tb_file r3) mpos mlen (fst (builder_Finish mb))"
      "case to_filter_policy opt of None \<Rightarrow> True | Some policy \<Rightarrow>
          add_all slice_compare (to_block_restart_interval opt) blank_builder [(filter_meta_key policy, handle_bytes fh)] = Inr mb"
    using fm(3) unfolding opt2 by blast
  have "filter_stored snap opt (tb_file r3) mpos mlen ds'"
  proof (cases "to_filter_policy opt")
    case None
    then show ?thesis by (simp add: filter_stored_def)
  next
    case (Some policy)
    obtain fb os ks fpos flen where fb: "filter_inv policy fb os ks (filter_keys ds')" "fh = handle_of fpos flen"
        "stored snap (tb_file r2) fpos flen (fst (filter_Finish policy fb))"
      using ff(3) Some opt1 d(6) by auto
    have "stored snap (tb_file r3) fpos flen (fst (filter_Finish policy fb))" using g3 fb(3) stored_append by auto
    then show ?thesis unfolding filter_stored_def Some option.case using fb(1,2) m(2,3) Some by auto
  qed
  then have "filter_stored snap opt (tb_file r') mpos mlen ds'" using F g4 by (simp add: filter_stored_append)
  moreover have "stored snap (tb_file r') ipos ilen (fst (builder_Finish ib'))" using d(2) F by (simp add: stored_append)
  moreover have "blocks_stored snap opt (tb_file r') ds'" using d(5) F g4 by (simp add: blocks_stored_append)
  ultimately have "table_file snap opt u (tb_file r') ds'"
    unfolding table_file_def using d(1,3,4,7) m(1) F sorted by auto
  moreover have "all_entries ds' = all_entries (ds @ pend_blocks pend) @ cur" using d(4) es by simp
  moreover have "\<exists>g. tb_file r1 = tb_file r @ g"
    using Flush_grows [OF r1] by blast
  ultimately show ?thesis using Fl F g g4 by auto
qed

lemma Finish_needs_ok:
  assumes f: "tb_Finish app pv snap r = Inr (StatusOK, r')"
  shows "tb_ok r"
proof (rule ccontr)
  assume n: "\<not> tb_ok r"
  then have "\<not> tb_ok (r\<lparr>tb_closed := True\<rparr>)" by (simp add: tb_ok_def)
  then have "finish_filter app pv (r\<lparr>tb_closed := True\<rparr>) = (newBlockHandle, r\<lparr>tb_closed := True\<rparr>)"
    by (auto simp: finish_filter_def split: option.splits)
  then have "tb_status r = StatusOK"
    using f n by (auto simp: tb_Finish_def tb_Flush_def finish_metaindex_def finish_index_def finish_footer_def tb_ok_def res_simps
        split: if_splits)
  then show False using n by (simp add: tb_ok_def)
qed

lemma Finish_grows: "tb_Finish app pv snap r = Inr (s, r') \<Longrightarrow> \<exists>g. tb_file r' = tb_file r @ g"
proof -
  assume f: "tb_Finish app pv snap r = Inr (s, r')"
  obtain r1 where r1: "tb_Flush app pv snap r = Inr r1" using f by (auto simp: tb_Finish_def res_simps)
  obtain fh r2 where r2: "finish_filter app pv (r1\<lparr>tb_closed := True\<rparr>) = (fh, r2)" by fastforce
  obtain mh r3 ih r4 where r3: "finish_metaindex app pv snap fh r2 = Inr (mh, r3)"
      and r4: "finish_index app pv snap r3 = Inr (ih, r4)" and r5: "finish_footer app mh ih r4 = Inr r'"
    using f r1 r2 by (auto simp: tb_Finish_def res_simps split: if_splits)
  have "\<exists>g. tb_file r2 = tb_file r1 @ g"
    using r2 WriteRawBlock_grows by (fastforce simp: finish_filter_def split: option.splits if_splits prod.splits)
  moreover have "\<exists>g. tb_file r3 = tb_file r2 @ g"
    using r3 by (auto simp: finish_metaindex_def res_simps dest!: WriteBlock_grows split: if_splits)
  moreover have "\<exists>g. tb_file r' = tb_file r4 @ g"
    using r5 by (auto simp: finish_footer_def res_simps Let_def file_Append_def split: if_splits)
  ultimately show ?thesis using Flush_grows [OF r1] finish_index_grows [OF r4] by auto
qed

text \<open>Adding a list of entries.\<close>

fun tb_adds :: "file_api \<Rightarrow> nat \<Rightarrow> (bytes \<Rightarrow> bytes option) \<Rightarrow> (bytes \<times> bytes) list \<Rightarrow> table_builder \<Rightarrow> table_builder result" where
  "tb_adds app pv snap [] r = Inr r"
| "tb_adds app pv snap ((k, v) # es) r = and_then (tb_Add app pv snap k v r) (tb_adds app pv snap es)"

lemma adds_grows: "tb_adds app pv snap es r = Inr r' \<Longrightarrow> \<exists>g. tb_file r' = tb_file r @ g"
proof (induction es arbitrary: r)
  case (Cons e es)
  obtain k v where e: "e = (k, v)" by (cases e)
  obtain r1 where "tb_Add app pv snap k v r = Inr r1" "tb_adds app pv snap es r1 = Inr r'"
    using Cons.prems e by (auto simp: res_simps)
  then show ?case using Cons.IH [of r1] Add_grows [of app pv snap k v r r1] by auto
qed simp

lemma adds_ok: "tb_adds app pv snap es r = Inr r' \<Longrightarrow> tb_ok r' \<Longrightarrow> tb_ok r"
proof (induction es arbitrary: r)
  case (Cons e es)
  obtain k v where e: "e = (k, v)" by (cases e)
  obtain r1 where r1: "tb_Add app pv snap k v r = Inr r1" "tb_adds app pv snap es r1 = Inr r'"
    using Cons.prems e by (auto simp: res_simps)
  then have "tb_ok r1" using Cons by blast
  then show ?case using r1(1) by (auto simp: tb_Add_def Let_def split: if_splits)
qed simp

lemma adds_inv:
  assumes o: "options_ok opt u" and "tb_inv snap opt u r ds pend cur"
    and "tb_adds app pv snap es r = Inr r'" and ok: "tb_ok r'" and small: "length (tb_file r') < 2 ^ 64"
  shows "\<exists>ds' pend' cur'. tb_inv snap opt u r' ds' pend' cur'
    \<and> all_entries (ds' @ pend_blocks pend') @ cur' = all_entries (ds @ pend_blocks pend) @ cur @ es"
  using assms(2,3)
proof (induction es arbitrary: r ds pend cur)
  case (Cons e es)
  obtain k v where e: "e = (k, v)" by (cases e)
  obtain r1 where r1: "tb_Add app pv snap k v r = Inr r1" "tb_adds app pv snap es r1 = Inr r'"
    using Cons.prems e by (auto simp: res_simps)
  have ok1: "tb_ok r1" using adds_ok [OF r1(2) ok] .
  have "length (tb_file r) < 2 ^ 64" using Add_grows [OF r1(1)] adds_grows [OF r1(2)] small by auto
  then obtain ds1 pend1 cur1 where 1: "tb_inv snap opt u r1 ds1 pend1 cur1"
      "all_entries (ds1 @ pend_blocks pend1) @ cur1 = all_entries (ds @ pend_blocks pend) @ cur @ [(k, v)]"
    using Add_inv(2) [OF o Cons.prems(1) _ r1(1) ok1] by blast
  show ?case using Cons.IH [OF 1(1) r1(2)] 1(2) e by (metis append_assoc append_Cons append_Nil)
qed auto

lemma newTableBuilder_inv:
  assumes o: "options_ok opt u" and n: "newTableBuilder opt [] = Inr r"
  shows "tb_inv snap opt u r [] None []"
proof -
  let ?r0 = "\<lparr>tb_options = opt, tb_index_restart_interval = 1, tb_file = [], tb_offset = 0, tb_status = StatusOK,
         tb_data_block = blank_builder, tb_index_block = blank_builder, tb_last_key = [], tb_num_entries = 0,
         tb_closed = False,
         tb_filter_block = (case to_filter_policy opt of None \<Rightarrow> None | Some p \<Rightarrow> Some (p, newFilterBlockBuilder)),
         tb_pending_index_entry = False, tb_pending_handle = newBlockHandle\<rparr>"
  have f: "filter_start 0 ?r0 = Inr r" using n by (auto simp: newTableBuilder_def res_simps newBlockBuilder_Inr)
  have "filter_inv policy newFilterBlockBuilder [] [] {}" for policy
    by (simp add: filter_inv_def newFilterBlockBuilder_def starts_def)
  then have "filter_state (?r0\<lparr>tb_offset := 0\<rparr>) {}" by (auto simp: filter_state_def split: option.splits)
  then have s: "filter_state r {}" "r = ?r0\<lparr>tb_filter_block := tb_filter_block r\<rparr>"
    using filter_start_inv [OF _ f] o by simp_all
  have "tb_options r = opt" "tb_index_restart_interval r = 1" "tb_file r = []" "tb_offset r = 0" "\<not> tb_pending_index_entry r"
      "tb_data_block r = blank_builder" "tb_index_block r = blank_builder" "tb_num_entries r = 0"
    by (subst s(2), simp)+
  then show ?thesis using s(1) by (simp add: tb_inv_def pend_blocks_def blocks_stored_def index_entries_def)
qed

lemma table_built:
  assumes o: "options_ok opt u" and n: "newTableBuilder opt [] = Inr r0" and a: "tb_adds app pv snap es r0 = Inr r"
    and f: "tb_Finish app pv snap r = Inr (StatusOK, r')" and small: "length (tb_file r') < 2 ^ 64"
  shows "\<exists>ds. table_file snap opt u (tb_file r') ds \<and> all_entries ds = es"
proof -
  have "length (tb_file r) < 2 ^ 64" using Finish_grows [OF f] small by auto
  from adds_inv [OF o newTableBuilder_inv [OF o n] a Finish_needs_ok [OF f] this]
  obtain ds pend cur where i: "tb_inv snap opt u r ds pend cur" "all_entries (ds @ pend_blocks pend) @ cur = es"
    by (auto simp: pend_blocks_def)
  show ?thesis using Finish_ok [OF o i(1) f small] i(2) by auto
qed

end
