(* ===== verification/Ldb_Table_Properties.thy ===== *)
theory Ldb_Table_Properties
  imports Ldb_Table Ldb_Table_File
begin

text \<open>
  Looking up a key in a table that the builder has written finds the entry that a search in the list of
  the added entries finds, through the footer, the index block, the filter, the block cache and a
  data block.  What is relied on: Snappy undoes its own compression, and a cache returns nothing
  but blocks that were put in under the key.
\<close>

section \<open>What the table relies on\<close>

text \<open>The format of Snappy has 32 bits for the length of the original.\<close>

definition snappy_law :: "(bytes \<Rightarrow> bytes option) \<Rightarrow> (bytes \<Rightarrow> bytes option) \<Rightarrow> bool" where
  "snappy_law snap unsnap \<longleftrightarrow> (\<forall>d c. snap d = Some c \<longrightarrow> unsnap c = Some d \<and> length d < 2 ^ 32)"

text \<open>\<open>holds c key b\<close>: the cache may return the block \<open>b\<close> for \<open>key\<close>.  What is said of all blocks in the cache
  stays true when it is true of the blocks that are put in.\<close>

locale block_cache_contract =
  fixes ca :: "'c block_cache" and valid :: "'c \<Rightarrow> bool" and holds :: "'c \<Rightarrow> bytes \<Rightarrow> block \<Rightarrow> bool"
  assumes Lookup_law: "valid c \<Longrightarrow> ca_Lookup ca k c = (r, c') \<Longrightarrow>
      valid c' \<and> (\<forall>b. r = Some b \<longrightarrow> holds c k b) \<and> (\<forall>k' b. holds c' k' b \<longrightarrow> holds c k' b)"
    and Insert_law: "valid c \<Longrightarrow> valid (ca_Insert ca k b n c)
      \<and> (\<forall>k' b'. holds (ca_Insert ca k b n c) k' b' \<longrightarrow> k' = k \<and> b' = b \<or> holds c k' b')"
    and NewId_law: "valid c \<Longrightarrow> valid (snd (ca_NewId ca c)) \<and> (\<forall>k b. holds (snd (ca_NewId ca c)) k b \<longrightarrow> holds c k b)"
begin

lemma only_Lookup:
  assumes "valid c" and "\<forall>k b. holds c k b \<longrightarrow> P k b" and "ca_Lookup ca k c = (r, c')"
  shows "valid c'" "\<forall>k b. holds c' k b \<longrightarrow> P k b" "\<forall>b. r = Some b \<longrightarrow> P k b"
  using Lookup_law [OF assms(1,3)] assms(2) by blast+

lemma only_Insert:
  assumes "valid c" and "\<forall>k b. holds c k b \<longrightarrow> P k b" and "P k b"
  shows "valid (ca_Insert ca k b n c)" "\<forall>k' b'. holds (ca_Insert ca k b n c) k' b' \<longrightarrow> P k' b'"
  using Insert_law [OF assms(1)] assms(2,3) by blast+

lemma only_NewId:
  assumes "valid c" and "\<forall>k b. holds c k b \<longrightarrow> P k b"
  shows "valid (snd (ca_NewId ca c))" "\<forall>k b. holds (snd (ca_NewId ca c)) k b \<longrightarrow> P k b"
  using NewId_law [OF assms(1)] assms(2) by blast+

end

text \<open>The cache has no block under the number that it gives out next.\<close>

definition fresh_id :: "'c block_cache \<Rightarrow> ('c \<Rightarrow> bytes \<Rightarrow> block \<Rightarrow> bool) \<Rightarrow> 'c \<Rightarrow> bool" where
  "fresh_id ca holds c \<longleftrightarrow> (\<forall>x b. \<not> holds c (EncodeFixed64 (fst (ca_NewId ca c)) @ x) b)"

definition env_ok :: "table_env \<Rightarrow> (bytes \<Rightarrow> bytes option) \<Rightarrow> bytes \<Rightarrow> bool" where
  "env_ok env snap f \<longleftrightarrow> random_access_file (te_Read env) f \<and> snappy_law snap (te_unsnap env) \<and> length f < 2 ^ 32"

section \<open>Blocks of the file\<close>

lemma read_stored:
  assumes e: "env_ok env snap f" and s: "stored snap f pos len raw"
  shows "\<exists>r. read_block env verify (handle_of pos len) = Inr (Inr r) \<and> bc_data r = raw" "length raw < 2 ^ 32"
proof -
  obtain c t where c: "length c = len" "pos + len + kBlockTrailerSize \<le> length f"
      "slice pos (len + kBlockTrailerSize) f = c @ trailer (compression_byte t) c"
      "t = NoCompression \<and> raw = c \<or> t = SnappyCompression \<and> snap raw = Some c"
    using s unfolding stored_def by blast
  have f: "length f < 2 ^ 64" "random_access_file (te_Read env) f" "snappy_law snap (te_unsnap env)" "length f < 2 ^ 32"
    using e by (auto simp: env_ok_def)
  have t: "compression_byte t = of_nat kNoCompression \<and> raw = c \<or> compression_byte t = of_nat kSnappyCompression \<and> te_unsnap env c = Some raw"
    using c(4) f(3) by (auto simp: compression_byte_def snappy_law_def)
  have s1: "slice pos (length c + kBlockTrailerSize) f = c @ trailer (compression_byte t) c"
      "pos + length c + kBlockTrailerSize \<le> length f" "handle_of pos len = \<lparr>bh_offset = of_nat pos, bh_size = of_nat (length c)\<rparr>"
    using c by (simp_all add: handle_of_def)
  show "\<exists>r. read_block env verify (handle_of pos len) = Inr (Inr r) \<and> bc_data r = raw"
    by (rule random_access_file.ReadBlock_ok [where t = "compression_byte t" and c = c and off = pos and contents = f])
      (fact f(2) s1(1) f(1) s1(2) t s1(3))+
  show "length raw < 2 ^ 32" using c f(3,4) by (auto simp: snappy_law_def)
qed

lemma block_seek:
  assumes o: "block_order cmp" and b: "add_all cmp n blank_builder es = Inr b" and s: "length (fst (builder_Finish b)) < 2 ^ 32"
  shows "\<exists>it it'. Block_NewIterator (newBlock junk (fst (builder_Finish b))) = Inr (BlockIterator it)
    \<and> bi_Seek cmp it k = Some (Inr it') \<and> shows_entry es it' (seek_place cmp (map fst es) k)"
proof -
  obtain it where it: "Block_NewIterator (newBlock junk (fst (builder_Finish b))) = Inr (BlockIterator it)"
    and m: "\<And>ms. case spec_moves cmp es ms (length es) of
          None \<Rightarrow> bi_moves cmp ms it = Some (Inl (Thrown ''assert''))
        | Some i \<Rightarrow> \<exists>it'. bi_moves cmp ms it = Some (Inr it') \<and> shows_entry es it' i"
    using built_block_moves [OF o b s, of junk] by blast
  obtain it' where "bi_moves cmp [SeekTo k] it = Some (Inr it')" "shows_entry es it' (seek_place cmp (map fst es) k)"
    using m [of "[SeekTo k]"] by auto
  then have "bi_Seek cmp it k = Some (Inr it')" by (auto simp: res_simps)
  then show ?thesis using it \<open>shows_entry es it' _\<close> by blast
qed

text \<open>The entry that a search by key is about.\<close>

definition first_ge :: "(bytes \<Rightarrow> bytes \<Rightarrow> int) \<Rightarrow> bytes \<Rightarrow> (bytes \<times> bytes) list \<Rightarrow> (bytes \<times> bytes) option" where
  "first_ge cmp k es = find (\<lambda>e. \<not> cmp (fst e) k < 0) es"

lemma seek_place_first: "first_ge cmp k es = (let i = seek_place cmp (map fst es) k in if i < length es then Some (es ! i) else None)"
  unfolding first_ge_def by (induction es) (auto simp: seek_place_def Let_def)

lemma first_ge_append: "first_ge cmp k (xs @ ys) = (case first_ge cmp k xs of None \<Rightarrow> first_ge cmp k ys | Some e \<Rightarrow> Some e)"
  unfolding first_ge_def by (induction xs) auto

lemma first_ge_None: "first_ge cmp k es = None \<longleftrightarrow> (\<forall>e \<in> set es. cmp (fst e) k < 0)"
  unfolding first_ge_def by (induction es) auto

section \<open>The index\<close>

lemma order_of: "options_ok opt u \<Longrightarrow> block_order (to_Compare opt)" "options_ok opt u \<Longrightarrow> comparator (to_Compare opt)"
  by (auto simp: options_ok_def table_order_def block_order_def)

lemma block_keys_le:
  assumes o: "options_ok opt u" and s: "sorted_wrt (\<lambda>a b. to_Compare opt a b < 0) (map fst es)" and e: "e \<in> set es"
    and l: "to_Compare opt (fst (last es)) s \<le> 0"
  shows "to_Compare opt (fst e) s \<le> 0"
proof -
  note c = order_of(2) [OF o]
  obtain ys zs where es: "es = ys @ e # zs" using e by (meson split_list)
  show ?thesis
  proof (cases zs rule: rev_cases)
    case Nil
    then show ?thesis using l es by simp
  next
    case (snoc ws w)
    then have "to_Compare opt (fst e) (fst w) < 0" using s es by (simp add: sorted_wrt_append)
    then show ?thesis using l es snoc comparator.cmp_trans [OF c, of "fst e" "fst w" s] by simp
  qed
qed

text \<open>The block that the index points to decides: the blocks before have only smaller keys, and when the
  block has no key at or after the target, the next entry of the table is about another user key.\<close>

lemma sorted_hd_le:
  assumes o: "options_ok opt u" and s: "sorted_wrt (\<lambda>a b. to_Compare opt a b < 0) ks" and k: "k \<in> set ks"
  shows "to_Compare opt (hd ks) k \<le> 0"
  using s k comparator.cmp_refl [OF order_of(2) [OF o]] by (cases ks) auto

lemma index_search:
  assumes o: "options_ok opt u"
  shows "fences (to_Compare opt) u ds [] \<Longrightarrow> sorted_wrt (\<lambda>a b. to_Compare opt a b < 0) (map fst (all_entries ds))
    \<Longrightarrow> \<forall>d \<in> set ds. db_entries d \<noteq> [] \<Longrightarrow>
    let i = seek_place (to_Compare opt) (map db_sep ds) k; r = first_ge (to_Compare opt) k (all_entries ds) in
    if i < length ds then (case first_ge (to_Compare opt) k (db_entries (ds ! i)) of
        Some e \<Rightarrow> r = Some e | None \<Rightarrow> \<forall>e. r = Some e \<longrightarrow> u (fst e) \<noteq> u k)
    else r = None"
proof (induction ds)
  case (Cons d ds)
  note c = order_of(2) [OF o]
  let ?cmp = "to_Compare opt"
  have sd: "sorted_wrt (\<lambda>a b. ?cmp a b < 0) (map fst (db_entries d))" "sorted_wrt (\<lambda>a b. ?cmp a b < 0) (map fst (all_entries ds))"
    and fe: "fence ?cmp u d (map fst (all_entries ds))" "fences ?cmp u ds []" and ned: "db_entries d \<noteq> []" "\<forall>d \<in> set ds. db_entries d \<noteq> []"
    using Cons.prems by (auto simp: sorted_wrt_append)
  have le: "\<forall>e \<in> set (db_entries d). ?cmp (fst e) (db_sep d) \<le> 0"
    using block_keys_le [OF o sd(1)] fe(1) by (auto simp: fence_def)
  show ?case
  proof (cases "?cmp (db_sep d) k < 0")
    case True
    then have "first_ge ?cmp k (db_entries d) = None"
      using le comparator.cmp_trans_less [OF c] by (fastforce simp: first_ge_None)
    then show ?thesis
      using Cons.IH [OF fe(2) sd(2) ned(2)] True by (simp add: seek_place_def Let_def first_ge_append)
  next
    case False
    have "u (fst e) \<noteq> u k" if none: "first_ge ?cmp k (db_entries d) = None" and e: "first_ge ?cmp k (all_entries ds) = Some e" for e
    proof
      assume u: "u (fst e) = u k"
      let ?rest = "map fst (all_entries ds)"
      have "e \<in> set (all_entries ds)" using e unfolding first_ge_def by (auto simp: find_Some_iff)
      then have in_rest: "fst e \<in> set ?rest" by simp
      then have "?rest \<noteq> []" by (cases ?rest) auto
      moreover have "?cmp (hd ?rest) (fst e) \<le> 0" by (rule sorted_hd_le [OF o sd(2) in_rest])
      moreover have "?cmp (fst (last (db_entries d))) k < 0" using none ned(1) by (simp add: first_ge_None)
      ultimately show False using fe(1) False u unfolding fence_def by metis
    qed
    then show ?thesis using False by (auto simp: seek_place_def Let_def first_ge_append split: option.splits)
  qed
qed (simp add: seek_place_def first_ge_def)

section \<open>Looking up a key\<close>

text \<open>A table that was opened on the file.\<close>

definition table_state :: "table_env \<Rightarrow> table_options \<Rightarrow> dblock list \<Rightarrow> table \<Rightarrow> bool" where
  "table_state env opt ds t \<longleftrightarrow> tbl_options t = opt
     \<and> (\<exists>ib. add_all (to_Compare opt) 1 blank_builder (index_entries ds) = Inr ib \<and> length (fst (builder_Finish ib)) < 2 ^ 32
          \<and> tbl_index_block t = newBlock (te_junk env) (fst (builder_Finish ib)))
     \<and> (\<forall>policy rd. tbl_filter t = Some (policy, rd) \<longrightarrow> to_filter_policy opt = Some policy
          \<and> (\<exists>fb os ks. filter_inv policy fb os ks (filter_keys ds) \<and> length (fst (filter_Finish policy fb)) < 2 ^ 32
               \<and> rd = newFilterBlockReader (fst (filter_Finish policy fb))))"

text \<open>A block under a key of the table is the block at that place.\<close>

definition right_block :: "table_env \<Rightarrow> table_options \<Rightarrow> dblock list \<Rightarrow> table \<Rightarrow> bytes \<Rightarrow> block \<Rightarrow> bool" where
  "right_block env opt ds t key b \<longleftrightarrow> (\<forall>d \<in> set ds. key = cache_key t (db_handle d) \<longrightarrow>
     (\<exists>bb. add_all (to_Compare opt) (to_block_restart_interval opt) blank_builder (db_entries d) = Inr bb
        \<and> b = newBlock (te_junk env) (fst (builder_Finish bb))))"

definition cache_good ::
  "table_env \<Rightarrow> 'c block_cache option \<Rightarrow> ('c \<Rightarrow> bool) \<Rightarrow> ('c \<Rightarrow> bytes \<Rightarrow> block \<Rightarrow> bool) \<Rightarrow> table_options \<Rightarrow> dblock list \<Rightarrow> table \<Rightarrow> 'c \<Rightarrow> bool" where
  "cache_good env cache valid holds opt ds t c \<longleftrightarrow> (case cache of None \<Rightarrow> True
     | Some ca \<Rightarrow> block_cache_contract ca valid holds \<and> valid c \<and> (\<forall>key b. holds c key b \<longrightarrow> right_block env opt ds t key b))"

lemma cache_key_inj:
  assumes b: "blocks_stored snap opt f ds" and f: "length f < 2 ^ 32" and d: "d \<in> set ds" "d' \<in> set ds"
    and k: "cache_key t (db_handle d) = cache_key t (db_handle d')"
  shows "d = d'"
proof -
  have "EncodeFixed64 (of_nat (db_pos d)) = EncodeFixed64 (of_nat (db_pos d'))"
    using k by (simp add: cache_key_def db_handle_def handle_of_def)
  then have e: "unat (of_nat (db_pos d) :: u64) = unat (of_nat (db_pos d') :: u64)" by (metis DecodeFixed_Encode_nil(2))
  have "db_pos x < 2 ^ 64" if "x \<in> set ds" for x
    using b f that by (fastforce simp: blocks_stored_def entries_stored_def stored_def)
  then have "unat (of_nat (db_pos x) :: u64) = db_pos x" if "x \<in> set ds" for x using that by (simp add: unat_of_nat)
  then have p: "db_pos d = db_pos d'" using d e by metis
  have "distinct (map db_pos ds)" using b strict_sorted_iff by (auto simp: blocks_stored_def)
  then have "inj_on db_pos (set ds)" by (simp add: distinct_map)
  then show ?thesis using p d by (auto dest: inj_onD)
qed

lemma find_block_ok:
  assumes e: "env_ok env snap f" and b: "blocks_stored snap opt f ds" and d: "d \<in> set ds" and g: "cache_good env cache valid holds opt ds t c"
  shows "\<exists>bb c'. add_all (to_Compare opt) (to_block_restart_interval opt) blank_builder (db_entries d) = Inr bb
    \<and> length (fst (builder_Finish bb)) < 2 ^ 32 \<and> cache_good env cache valid holds opt ds t c'
    \<and> find_block env cache verify fill t (db_handle d) c = Inr (Inr (newBlock (te_junk env) (fst (builder_Finish bb))), c')"
proof -
  obtain bb where bb: "add_all (to_Compare opt) (to_block_restart_interval opt) blank_builder (db_entries d) = Inr bb"
      "stored snap f (db_pos d) (db_len d) (fst (builder_Finish bb))"
    using b d by (auto simp: blocks_stored_def entries_stored_def)
  obtain r where r: "read_block env verify (db_handle d) = Inr (Inr r)" "bc_data r = fst (builder_Finish bb)"
    using read_stored(1) [OF e bb(2)] by (auto simp: db_handle_def)
  note small = read_stored(2) [OF e bb(2)]
  let ?b = "newBlock (te_junk env) (fst (builder_Finish bb))" and ?k = "cache_key t (db_handle d)"
  show ?thesis
  proof (cases cache)
    case None
    then show ?thesis using bb r small by (simp add: find_block_def cache_good_def)
  next
    case (Some ca)
    have law: "block_cache_contract ca valid holds" and v: "valid c" and P: "\<forall>key b. holds c key b \<longrightarrow> right_block env opt ds t key b"
      using g Some by (auto simp: cache_good_def)
    obtain x c1 where x: "ca_Lookup ca ?k c = (x, c1)" by fastforce
    note L = block_cache_contract.only_Lookup [OF law v P x]
    show ?thesis
    proof (cases x)
      case None
      have "right_block env opt ds t ?k ?b"
        unfolding right_block_def using cache_key_inj [OF b _ d] e bb(1) unfolding env_ok_def by metis
      note N = block_cache_contract.only_Insert [OF law L(1,2) this, of "bk_size ?b"]
      have "cache_good env cache valid holds opt ds t (if bc_cachable r \<and> fill then ca_Insert ca ?k ?b (bk_size ?b) c1 else c1)"
        using N L(1,2) law Some by (auto simp: cache_good_def)
      then show ?thesis using bb r small x None Some by (cases "bc_cachable r \<and> fill") (auto simp: find_block_def Let_def)
    next
      case (Some b')
      then have "b' = ?b" using L(3) bb(1) d by (auto simp: right_block_def)
      moreover have "cache_good env cache valid holds opt ds t c1" using L(1,2) law \<open>cache = Some ca\<close> by (auto simp: cache_good_def)
      ultimately show ?thesis using bb small x Some \<open>cache = Some ca\<close> by (simp add: find_block_def)
    qed
  qed
qed

text \<open>The filter does not rule out a key of the block, nor another version of it.\<close>

lemma not_filtered_out:
  assumes o: "options_ok opt u" and t: "table_state env opt ds t" and d: "d \<in> set ds" and e: "e \<in> set (db_entries d)"
    and u: "u (fst e) = u k" and p: "db_pos d < 2 ^ 64"
  shows "filtered_out t (handle_bytes (db_handle d)) k = Inr False"
proof (cases "tbl_filter t")
  case None
  then show ?thesis by (simp add: filtered_out_def)
next
  case (Some x)
  obtain policy rd where x: "x = (policy, rd)" by (cases x)
  obtain fb os ks where fb: "to_filter_policy opt = Some policy" "filter_inv policy fb os ks (filter_keys ds)"
      "length (fst (filter_Finish policy fb)) < 2 ^ 32" "rd = newFilterBlockReader (fst (filter_Finish policy fb))"
    using t Some x by (auto simp: table_state_def)
  have n: "no_false_negatives policy" and same: "\<And>f. fp_KeyMayMatch policy (fst e) f = fp_KeyMayMatch policy k f"
    using o fb(1) u unfolding options_ok_def by blast+
  have "unat (bh_offset (db_handle d)) = db_pos d" using p by (simp add: db_handle_def handle_of_def unat_of_nat)
  then have "(unat (bh_offset (db_handle d)) div kFilterBase, fst e) \<in> filter_keys ds" using d e by (auto simp: filter_keys_def)
  then have "filter_KeyMayMatch policy rd (bh_offset (db_handle d)) (fst e) = Inr True"
    using no_false_negatives.finished_matches [OF n fb(2,3)] fb(4) by blast
  moreover have "filter_KeyMayMatch policy rd pos (fst e) = filter_KeyMayMatch policy rd pos k" for pos
    by (simp only: filter_KeyMayMatch_def same)
  ultimately show ?thesis using Some x by (simp add: filtered_out_def)
qed

text \<open>The result of a lookup: an entry is saved only when it is the first at or after the key, and it is saved
  when it is a version of the key.\<close>

definition found_right :: "(bytes \<Rightarrow> bytes \<Rightarrow> int) \<Rightarrow> (bytes \<Rightarrow> bytes) \<Rightarrow> bytes \<Rightarrow> (bytes \<times> bytes) list \<Rightarrow> (bytes \<times> bytes) option \<Rightarrow> bool" where
  "found_right cmp u k es saved \<longleftrightarrow> (saved = None \<or> saved = first_ge cmp k es)
     \<and> (\<forall>e. first_ge cmp k es = Some e \<longrightarrow> u (fst e) = u k \<longrightarrow> saved = Some e)"

lemma shows_seek:
  assumes "shows_entry es it (seek_place cmp (map fst es) k)"
  shows "bi_status it = StatusOK" "bi_Valid it \<longleftrightarrow> first_ge cmp k es \<noteq> None"
    "first_ge cmp k es = Some e \<Longrightarrow> bi_get_key it = Inr (fst e) \<and> bi_get_value it = Inr (snd e)"
  using assms by (auto simp: shows_entry_def seek_place_first Let_def split: if_splits)

lemma BlockReader_ok:
  assumes o: "options_ok opt u" and e: "env_ok env snap f" and b: "blocks_stored snap opt f ds" and d: "d \<in> set ds"
    and g: "cache_good env cache valid holds opt ds t c"
  shows "\<exists>it it' c'. BlockReader env cache verify fill t (handle_bytes (db_handle d)) c = Inr (BlockIterator it, c')
    \<and> bi_Seek (to_Compare opt) it k = Some (Inr it')
    \<and> shows_entry (db_entries d) it' (seek_place (to_Compare opt) (map fst (db_entries d)) k)
    \<and> cache_good env cache valid holds opt ds t c'"
proof -
  obtain bb c' where bb: "add_all (to_Compare opt) (to_block_restart_interval opt) blank_builder (db_entries d) = Inr bb"
      "length (fst (builder_Finish bb)) < 2 ^ 32" "cache_good env cache valid holds opt ds t c'"
      "find_block env cache verify fill t (db_handle d) c = Inr (Inr (newBlock (te_junk env) (fst (builder_Finish bb))), c')"
    using find_block_ok [OF e b d g, of verify fill] by blast
  obtain it it' where "Block_NewIterator (newBlock (te_junk env) (fst (builder_Finish bb))) = Inr (BlockIterator it)"
      "bi_Seek (to_Compare opt) it k = Some (Inr it')"
      "shows_entry (db_entries d) it' (seek_place (to_Compare opt) (map fst (db_entries d)) k)"
    using block_seek [OF order_of(1) [OF o] bb(1,2), of "te_junk env" k] by blast
  then show ?thesis using bb(3,4) by (auto simp: BlockReader_def)
qed

lemma filter_answers:
  assumes o: "options_ok opt u" and t: "table_state env opt ds t"
  shows "\<exists>out. filtered_out t (handle_bytes h) k = Inr out"
proof (cases "tbl_filter t")
  case None
  then show ?thesis by (auto simp: filtered_out_def)
next
  case (Some x)
  obtain policy rd where x: "x = (policy, rd)" by (cases x)
  obtain fb os ks where fb: "to_filter_policy opt = Some policy" "filter_inv policy fb os ks (filter_keys ds)"
      "rd = newFilterBlockReader (fst (filter_Finish policy fb))"
    using t Some x by (auto simp: table_state_def)
  have n: "no_false_negatives policy" using o fb(1) unfolding options_ok_def by blast
  obtain y where "fst (filter_Finish policy fb) = y @ [11]"
    using no_false_negatives.finish_inv [OF n fb(2)] by (metis append_assoc)
  moreover have "(scast (11 :: byte) :: u64) = 11" by code_simp
  ultimately have "fr_base_lg rd = 0 \<or> fr_base_lg rd = 11" using fb(3) by (simp add: newFilterBlockReader_def Let_def)
  then have "\<not> fr_base_lg rd \<ge> 64" by auto
  then have "\<not> isl (filter_KeyMayMatch policy rd pos k)" for pos by (simp add: filter_KeyMayMatch_def Let_def)
  then obtain may where "filter_KeyMayMatch policy rd (bh_offset h) k = Inr may" by (metis sum.collapse(2))
  then show ?thesis using Some x by (simp add: filtered_out_def)
qed

lemma InternalGet_ok:
  assumes o: "options_ok opt u" and e: "env_ok env snap f" and t: "table_state env opt ds t" and f: "table_file snap opt u f ds"
    and g: "cache_good env cache valid holds opt ds t c"
  shows "\<exists>saved c'. InternalGet env cache verify fill t k c = Some (Inr (StatusOK, saved, c'))
    \<and> found_right (to_Compare opt) u k (all_entries ds) saved \<and> cache_good env cache valid holds opt ds t c'"
proof -
  let ?cmp = "to_Compare opt" and ?es = "all_entries ds"
  obtain ib where opt: "tbl_options t = opt" and ib: "add_all ?cmp 1 blank_builder (index_entries ds) = Inr ib"
      "length (fst (builder_Finish ib)) < 2 ^ 32" "tbl_index_block t = newBlock (te_junk env) (fst (builder_Finish ib))"
    using t unfolding table_state_def by blast
  obtain it0 it where it: "Block_NewIterator (tbl_index_block t) = Inr (BlockIterator it0)"
      "bi_Seek ?cmp it0 k = Some (Inr it)" "shows_entry (index_entries ds) it (seek_place ?cmp (map fst (index_entries ds)) k)"
    using block_seek [OF order_of(1) [OF o] ib(1,2), of "te_junk env" k] ib(3) by auto
  let ?i = "seek_place ?cmp (map db_sep ds) k"
  have fsts: "map fst (index_entries ds) = map db_sep ds" "length (index_entries ds) = length ds"
    by (simp_all add: index_entries_def)
  have b: "blocks_stored snap opt f ds" using f by (simp add: table_file_def)
  have S: "if ?i < length ds then (case first_ge ?cmp k (db_entries (ds ! ?i)) of
        Some e \<Rightarrow> first_ge ?cmp k ?es = Some e | None \<Rightarrow> \<forall>e. first_ge ?cmp k ?es = Some e \<longrightarrow> u (fst e) \<noteq> u k)
      else first_ge ?cmp k ?es = None"
    using index_search [OF o, of ds k] f by (simp add: table_file_def Let_def blocks_stored_def entries_stored_def)
  have ok: "bi_status it = StatusOK" "bi_Valid it \<longleftrightarrow> ?i < length ds"
    using it(3) fsts by (simp_all add: shows_entry_def)
  show ?thesis
  proof (cases "?i < length ds")
    case False
    then show ?thesis using it ok S g by (simp add: InternalGet_def opt found_right_def)
  next
    case True
    let ?d = "ds ! ?i"
    have d: "?d \<in> set ds" using True by simp
    have v: "bi_get_value it = Inr (handle_bytes (db_handle ?d))"
      using it(3) True by (simp add: shows_entry_def fsts) (simp add: index_entries_def)
    obtain out where out: "filtered_out t (handle_bytes (db_handle ?d)) k = Inr out" using filter_answers [OF o t] by blast
    have not_out: "u (fst e) \<noteq> u k" if x: out and y: "first_ge ?cmp k ?es = Some e" for e
    proof
      assume u: "u (fst e) = u k"
      then obtain e' where "first_ge ?cmp k (db_entries ?d) = Some e'" using S True y by (cases "first_ge ?cmp k (db_entries ?d)") auto
      then have "first_ge ?cmp k (db_entries ?d) = Some e" using S True y by simp
      then have "e \<in> set (db_entries ?d)" by (auto simp: first_ge_def find_Some_iff)
      moreover have "db_pos ?d < 2 ^ 64"
        using b e d by (fastforce simp: blocks_stored_def entries_stored_def stored_def env_ok_def)
      ultimately show False using not_filtered_out [OF o t d _ u] out x by simp
    qed
    show ?thesis
    proof (cases out)
      case True
      then show ?thesis using it ok v out not_out g \<open>?i < length ds\<close> by (simp add: InternalGet_def opt found_right_def)
    next
      case False
      obtain bi bi' c' where R: "BlockReader env cache verify fill t (handle_bytes (db_handle ?d)) c = Inr (BlockIterator bi, c')"
          "bi_Seek ?cmp bi k = Some (Inr bi')" "shows_entry (db_entries ?d) bi' (seek_place ?cmp (map fst (db_entries ?d)) k)"
          "cache_good env cache valid holds opt ds t c'"
        using BlockReader_ok [OF o e b d g] by blast
      have "InternalGet env cache verify fill t k c = Some (Inr (StatusOK, first_ge ?cmp k (db_entries ?d), c'))"
        using it ok v out False R(1,2) shows_seek [OF R(3)] \<open>?i < length ds\<close>
        by (cases "first_ge ?cmp k (db_entries ?d)") (auto simp: InternalGet_def opt Let_def)
      moreover have "found_right ?cmp u k ?es (first_ge ?cmp k (db_entries ?d))"
        using S \<open>?i < length ds\<close> by (auto simp: found_right_def split: option.splits)
      ultimately show ?thesis using R(4) by blast
    qed
  qed
qed

section \<open>Opening a table\<close>

lemma ReadMeta_ok:
  assumes e: "env_ok env snap f" and o: "options_ok opt u" and s: "filter_stored snap opt f mpos mlen ds"
    and h: "ft_metaindex_handle footer = handle_of mpos mlen" and t: "tbl_options t = opt" "tbl_filter t = None"
  shows "\<exists>t'. ReadMeta env footer t = Some (Inr t') \<and> t' = t\<lparr>tbl_filter := tbl_filter t'\<rparr>
    \<and> (\<forall>policy rd. tbl_filter t' = Some (policy, rd) \<longrightarrow> to_filter_policy opt = Some policy
          \<and> (\<exists>fb os ks. filter_inv policy fb os ks (filter_keys ds) \<and> length (fst (filter_Finish policy fb)) < 2 ^ 32
               \<and> rd = newFilterBlockReader (fst (filter_Finish policy fb))))"
proof (cases "to_filter_policy opt")
  case None
  then show ?thesis using t by (simp add: ReadMeta_def)
next
  case (Some policy)
  let ?key = "filter_meta_key policy"
  obtain fb os ks fpos flen mb where fb: "filter_inv policy fb os ks (filter_keys ds)"
      "stored snap f fpos flen (fst (filter_Finish policy fb))"
      "add_all slice_compare (to_block_restart_interval opt) blank_builder [(?key, handle_bytes (handle_of fpos flen))] = Inr mb"
      "stored snap f mpos mlen (fst (builder_Finish mb))"
    using s Some by (auto simp: filter_stored_def)
  obtain m where m: "read_block env False (handle_of mpos mlen) = Inr (Inr m)" "bc_data m = fst (builder_Finish mb)"
    using read_stored(1) [OF e fb(4)] by blast
  obtain c where c: "read_block env False (handle_of fpos flen) = Inr (Inr c)" "bc_data c = fst (filter_Finish policy fb)"
    using read_stored(1) [OF e fb(2)] by blast
  have bo: "block_order slice_compare" using bytewise_table.table_order_axioms by (simp add: table_order_def)
  obtain it it' where it: "Block_NewIterator (newBlock (te_junk env) (fst (builder_Finish mb))) = Inr (BlockIterator it)"
      "bi_Seek slice_compare it ?key = Some (Inr it')"
      "shows_entry [(?key, handle_bytes (handle_of fpos flen))] it' (seek_place slice_compare [?key] ?key)"
    using block_seek [OF bo fb(3) read_stored(2) [OF e fb(4)], of "te_junk env" ?key] by auto
  have "seek_place slice_compare [?key] ?key = 0" by (simp add: seek_place_def slice_compare_order)
  then have "bi_Valid it'" "bi_get_key it' = Inr ?key" "bi_get_value it' = Inr (handle_bytes (handle_of fpos flen))"
    using it(3) by (simp_all add: shows_entry_def)
  then have "ReadMeta env footer t = Some (Inr (t\<lparr>tbl_filter := Some (policy, newFilterBlockReader (fst (filter_Finish policy fb)))\<rparr>))"
    using t Some h m c it by (simp add: ReadMeta_def ReadFilter_def Let_def)
  then show ?thesis using Some fb(1) read_stored(2) [OF e fb(2)] by auto
qed

lemma Table_Open_ok:
  assumes o: "options_ok opt u" and e: "env_ok env snap f" and f: "table_file snap opt u f ds"
    and l: "case cache of None \<Rightarrow> True | Some ca \<Rightarrow> block_cache_contract ca valid holds \<and> valid c \<and> fresh_id ca holds c"
  shows "\<exists>t c'. Table_Open env cache opt (length f) c = Some (Inr (Inr t, c')) \<and> table_state env opt ds t
    \<and> cache_good env cache valid holds opt ds t c'"
proof -
  obtain mpos mlen ipos ilen ib body where L: "f = body @ footer_bytes \<lparr>ft_metaindex_handle = handle_of mpos mlen, ft_index_handle = handle_of ipos ilen\<rparr>"
      "add_all (to_Compare opt) 1 blank_builder (index_entries ds) = Inr ib"
      "stored snap f ipos ilen (fst (builder_Finish ib))" "filter_stored snap opt f mpos mlen ds"
    using f unfolding table_file_def by blast
  let ?ft = "\<lparr>ft_metaindex_handle = handle_of mpos mlen, ft_index_handle = handle_of ipos ilen\<rparr>"
  have "length f < 2 ^ 64" "random_access_file (te_Read env) f" using e by (auto simp: env_ok_def)
  then have R: "te_Read env (length f - kEncodedLength) kEncodedLength = Inr (Inr (footer_bytes ?ft))"
    using random_access_file.footer_read [OF _ L(1)] by blast
  have len: "\<not> length f < kEncodedLength" by (subst L(1)) simp
  obtain b where b: "read_block env False (handle_of ipos ilen) = Inr (Inr b)" "bc_data b = fst (builder_Finish ib)"
    using read_stored(1) [OF e L(3)] by blast
  obtain id c1 where id: "(case cache of None \<Rightarrow> (0, c) | Some ca \<Rightarrow> ca_NewId ca c) = (id, c1)" by fastforce
  let ?t = "\<lparr>tbl_options = opt, tbl_cache_id = id, tbl_filter = None, tbl_metaindex_handle = handle_of mpos mlen,
              tbl_index_block = newBlock (te_junk env) (fst (builder_Finish ib))\<rparr>"
  obtain t where t: "ReadMeta env ?ft ?t = Some (Inr t)" "t = ?t\<lparr>tbl_filter := tbl_filter t\<rparr>"
      "\<forall>policy rd. tbl_filter t = Some (policy, rd) \<longrightarrow> to_filter_policy opt = Some policy
          \<and> (\<exists>fb os ks. filter_inv policy fb os ks (filter_keys ds) \<and> length (fst (filter_Finish policy fb)) < 2 ^ 32
               \<and> rd = newFilterBlockReader (fst (filter_Finish policy fb)))"
    using ReadMeta_ok [OF e o L(4), of ?ft ?t] by auto
  have same: "tbl_options t = opt" "tbl_cache_id t = id" "tbl_index_block t = newBlock (te_junk env) (fst (builder_Finish ib))"
    by (subst t(2), simp)+
  have "Table_Open env cache opt (length f) c = Some (Inr (Inr t, c1))"
    using len R footer_DecodeFrom_ok [of ?ft] b id t(1) by (simp add: Table_Open_def)
  moreover have "table_state env opt ds t"
    using same t(3) L(2) read_stored(2) [OF e L(3)] by (simp add: table_state_def)
  moreover have "cache_good env cache valid holds opt ds t c1"
  proof (cases cache)
    case (Some ca)
    then have n: "block_cache_contract ca valid holds" "valid c" "fresh_id ca holds c" "ca_NewId ca c = (id, c1)" using l id by simp_all
    have P: "\<forall>k b. holds c k b \<longrightarrow> right_block env opt ds t k b"
      using n(3,4) same(2) by (auto simp: fresh_id_def right_block_def cache_key_def)
    from block_cache_contract.only_NewId [OF n(1,2) P] show ?thesis
      using n(1,4) Some by (auto simp: cache_good_def)
  qed (simp add: cache_good_def)
  ultimately show ?thesis by blast
qed

section \<open>Tables are read as they were written\<close>

text \<open>One lookup after the other, with the cache between them.\<close>

fun table_gets ::
  "table_env \<Rightarrow> 'c block_cache option \<Rightarrow> bool \<Rightarrow> bool \<Rightarrow> table \<Rightarrow> bytes list \<Rightarrow> 'c \<Rightarrow>
     (status \<times> (bytes \<times> bytes) option) list result option" where
  "table_gets env cache verify fill t [] c = Some (Inr [])"
| "table_gets env cache verify fill t (k # ks) c =
     opt_then (InternalGet env cache verify fill t k c) (\<lambda>(s, saved, c).
       opt_then (table_gets env cache verify fill t ks c) (\<lambda>rs. Some (Inr ((s, saved) # rs))))"

lemma table_gets_ok:
  assumes o: "options_ok opt u" and e: "env_ok env snap f" and t: "table_state env opt ds t" and f: "table_file snap opt u f ds"
    and "cache_good env cache valid holds opt ds t c"
  shows "\<exists>rs. table_gets env cache verify fill t ks c = Some (Inr rs)
    \<and> list_all2 (\<lambda>k (s, saved). s = StatusOK \<and> found_right (to_Compare opt) u k (all_entries ds) saved) ks rs"
  using assms(5)
proof (induction ks arbitrary: c)
  case (Cons k ks)
  obtain saved c' where "InternalGet env cache verify fill t k c = Some (Inr (StatusOK, saved, c'))"
      "found_right (to_Compare opt) u k (all_entries ds) saved" "cache_good env cache valid holds opt ds t c'"
    using InternalGet_ok [OF o e t f Cons.prems] by blast
  then show ?case using Cons.IH [of c'] by fastforce
qed simp

text \<open>With a cache of any kind that keeps the contract.\<close>

lemma built_table_lookup:
  assumes "options_ok opt u" and "newTableBuilder opt [] = Inr r0" and "tb_adds app pv snap es r0 = Inr r"
    and "tb_Finish app pv snap r = Inr (StatusOK, r')" and "env_ok env snap (tb_file r')"
    and "case cache of None \<Rightarrow> True | Some ca \<Rightarrow> block_cache_contract ca valid holds \<and> valid c \<and> fresh_id ca holds c"
  shows "\<exists>t c1. Table_Open env cache opt (length (tb_file r')) c = Some (Inr (Inr t, c1))
    \<and> (\<forall>ks. \<exists>rs. table_gets env cache verify fill t ks c1 = Some (Inr rs)
         \<and> list_all2 (\<lambda>k (s, saved). s = StatusOK \<and> found_right (to_Compare opt) u k es saved) ks rs)"
proof -
  have "length (tb_file r') < 2 ^ 64" using assms(5) by (simp add: env_ok_def)
  then obtain ds where f: "table_file snap opt u (tb_file r') ds" "all_entries ds = es"
    using table_built [OF assms(1-4)] by blast
  obtain t c1 where t: "Table_Open env cache opt (length (tb_file r')) c = Some (Inr (Inr t, c1))"
      "table_state env opt ds t" "cache_good env cache valid holds opt ds t c1"
    using Table_Open_ok [OF assms(1,5) f(1) assms(6)] by blast
  show ?thesis
    using t(1) table_gets_ok [OF assms(1,5) t(2) f(1) t(3), unfolded f(2)] by (intro exI [of _ t] exI [of _ c1] conjI allI)
qed

text \<open>A table of two entries in a file that is read with \<open>pread\<close>.\<close>

definition two_options :: table_options where
  "two_options = \<lparr>to_comparator = 0, to_Compare = slice_compare,
     to_FindShortestSeparator = (\<lambda>a b. Inr (FindShortestSeparator a b)), to_FindShortSuccessor = (\<lambda>a. Inr (FindShortSuccessor a)),
     to_block_size = 100, to_block_restart_interval = 16, to_compression = NoCompression, to_filter_policy = None\<rparr>"

definition two_entries :: "(bytes \<times> bytes) list" where "two_entries = [([1], [10]), ([3], [30])]"

definition plain_file :: file_api where "plain_file = \<lparr>fa_takes = (\<lambda>_ _. True), fa_flushes = (\<lambda>_. True)\<rparr>"

definition read_env :: "bytes \<Rightarrow> table_env" where
  "read_env f = \<lparr>te_Read = pread_Read (\<lambda>_ _. True) f, te_mapped = False, te_unsnap = (\<lambda>_. None), te_pv = 0, te_junk = 0\<rparr>"

lemma two_options_ok: "options_ok two_options (\<lambda>k. k)"
  using bytewise_table.table_order_axioms by (simp add: options_ok_def two_options_def)

lemma read_env_ok: "length f < 2 ^ 32 \<Longrightarrow> env_ok (read_env f) (\<lambda>_. None) f"
  using pread.random_access_file_axioms by (simp add: env_ok_def read_env_def snappy_law_def)

lemma two_built:
  "case newTableBuilder two_options [] of Inl e \<Rightarrow> False | Inr r0 \<Rightarrow>
     (case tb_adds plain_file 0 (\<lambda>_. None) two_entries r0 of Inl e \<Rightarrow> False | Inr r \<Rightarrow>
       (case tb_Finish plain_file 0 (\<lambda>_. None) r of Inl e \<Rightarrow> False
        | Inr (s, r') \<Rightarrow> s = StatusOK \<and> length (tb_file r') < 1000))"
  by code_simp

end
