(* ===== verification/Ldb_Cache.thy ===== *)
theory Ldb_Cache
  imports Ldb_Bloom
begin

unbundle bit_operations_syntax

text \<open>
  The cache with the least recently used entries dropped first (\<open>lib/leveldb/util/cache.cc\<close>).  The handles are objects on
  a heap of their own, with addresses that are numbers; a chain of the hash table and the circular list
  of the cache are the lists of the addresses along their links, the circular list from the oldest entry.
  An access to a freed handle is the abnormal end \<open>OutOfBounds\<close>.  The calls of the deleters are kept in
  the order they are made.  The number of entries and the length of the table have 32 bits, more
  than there are handles in memory; they are natural numbers here.
\<close>

section \<open>Handles and their table\<close>

record 'v LRUHandle =
  lh_value :: 'v
  lh_charge :: u64
  lh_refs :: u32
  lh_hash :: u32
  lh_key :: bytes

type_synonym 'v handles = "nat \<rightharpoonup> 'v LRUHandle"

record HandleTable =
  ht_length :: nat
  ht_elems :: nat
  ht_list :: "nat list list"

definition deref :: "'v handles \<Rightarrow> nat \<Rightarrow> 'v LRUHandle result" where
  "deref m a = (case m a of None \<Rightarrow> Inl OutOfBounds | Some h \<Rightarrow> Inr h)"

definition slot :: "u32 \<Rightarrow> nat \<Rightarrow> nat" where
  "slot hash n = unat hash AND (n - 1)"

text \<open>The place in a chain where the key is, or the end of the chain.\<close>

fun chain_place :: "'v handles \<Rightarrow> bytes \<Rightarrow> u32 \<Rightarrow> nat list \<Rightarrow> nat result" where
  "chain_place m key hash [] = Inr 0"
| "chain_place m key hash (a # as) =
     and_then (deref m a) (\<lambda>h.
       if lh_hash h \<noteq> hash \<or> key \<noteq> lh_key h then and_then (chain_place m key hash as) (\<lambda>j. Inr (Suc j)) else Inr 0)"

definition FindPointer :: "'v handles \<Rightarrow> bytes \<Rightarrow> u32 \<Rightarrow> HandleTable \<Rightarrow> (nat \<times> nat) result" where
  "FindPointer m key hash t =
     (let i = slot hash (ht_length t) in
      if i < length (ht_list t) then and_then (chain_place m key hash (ht_list t ! i)) (\<lambda>j. Inr (i, j))
      else Inl OutOfBounds)"

definition pointed :: "HandleTable \<Rightarrow> nat \<times> nat \<Rightarrow> nat option" where
  "pointed t p = (let chain = ht_list t ! fst p in if snd p < length chain then Some (chain ! snd p) else None)"

definition table_Lookup :: "'v handles \<Rightarrow> bytes \<Rightarrow> u32 \<Rightarrow> HandleTable \<Rightarrow> nat option result" where
  "table_Lookup m key hash t = and_then (FindPointer m key hash t) (\<lambda>p. Inr (pointed t p))"

function new_length_loop :: "nat \<Rightarrow> nat \<Rightarrow> nat" where
  "new_length_loop n elems = (if n = 0 \<or> \<not> n < elems then n else new_length_loop (2 * n) elems)"
  by auto
termination by (relation "measure (\<lambda>(n, elems). elems - n)") auto

fun rehash :: "'v handles \<Rightarrow> nat \<Rightarrow> nat list \<Rightarrow> nat list list \<Rightarrow> nat list list result" where
  "rehash m n [] new_list = Inr new_list"
| "rehash m n (a # as) new_list =
     and_then (deref m a) (\<lambda>h. let i = slot (lh_hash h) n in
       if i < length new_list then rehash m n as (new_list[i := a # new_list ! i]) else Inl OutOfBounds)"

definition table_Resize :: "'v handles \<Rightarrow> HandleTable \<Rightarrow> HandleTable result" where
  "table_Resize m t =
     (let new_length = new_length_loop 4 (ht_elems t) in
      and_then (rehash m new_length (concat (ht_list t)) (replicate new_length [])) (\<lambda>new_list.
        if ht_elems t = length (concat (ht_list t))
        then Inr (t\<lparr>ht_list := new_list, ht_length := new_length\<rparr>)
        else Inl (Thrown ''assert'')))"

definition newHandleTable :: "HandleTable result" where
  "newHandleTable = table_Resize (Map.empty :: unit handles) \<lparr>ht_length = 0, ht_elems = 0, ht_list = []\<rparr>"

definition table_Insert :: "'v handles \<Rightarrow> nat \<Rightarrow> HandleTable \<Rightarrow> (nat option \<times> HandleTable) result" where
  "table_Insert m a t =
     and_then (deref m a) (\<lambda>h.
     and_then (FindPointer m (lh_key h) (lh_hash h) t) (\<lambda>p.
       let chain = ht_list t ! fst p;
           old = pointed t p;
           t = t\<lparr>ht_list := (ht_list t)[fst p := (if old = None then chain @ [a] else chain[snd p := a])]\<rparr> in
       if old = None then
         let t = t\<lparr>ht_elems := ht_elems t + 1\<rparr> in
         if ht_elems t > ht_length t then and_then (table_Resize m t) (\<lambda>t. Inr (None, t)) else Inr (None, t)
       else Inr (old, t)))"

definition table_Remove :: "'v handles \<Rightarrow> bytes \<Rightarrow> u32 \<Rightarrow> HandleTable \<Rightarrow> (nat option \<times> HandleTable) result" where
  "table_Remove m key hash t =
     and_then (FindPointer m key hash t) (\<lambda>p.
       let chain = ht_list t ! fst p; result = pointed t p in
       Inr (result, if result = None then t
                    else t\<lparr>ht_list := (ht_list t)[fst p := take (snd p) chain @ drop (snd p + 1) chain],
                           ht_elems := ht_elems t - 1\<rparr>))"

section \<open>One shard\<close>

record 'v LRUCache =
  lc_capacity :: u64
  lc_usage :: u64
  lc_lru :: "nat list"
  lc_table :: HandleTable
  lc_heap :: "'v handles"
  lc_next :: nat
  lc_deleted :: "(bytes \<times> 'v) list"

definition newLRUCache :: "'v LRUCache result" where
  "newLRUCache = and_then newHandleTable (\<lambda>t. Inr
     \<lparr>lc_capacity = 0, lc_usage = 0, lc_lru = [], lc_table = t, lc_heap = Map.empty, lc_next = 0, lc_deleted = []\<rparr>)"

definition SetCapacity :: "u64 \<Rightarrow> 'v LRUCache \<Rightarrow> 'v LRUCache" where
  "SetCapacity capacity c = c\<lparr>lc_capacity := capacity\<rparr>"

definition Unref :: "nat \<Rightarrow> 'v LRUCache \<Rightarrow> 'v LRUCache result" where
  "Unref e c =
     and_then (deref (lc_heap c) e) (\<lambda>h.
       if \<not> lh_refs h > 0 then Inl (Thrown ''assert'')
       else
         let h = h\<lparr>lh_refs := lh_refs h - 1\<rparr> in
         Inr (if lh_refs h \<le> 0
              then c\<lparr>lc_usage := lc_usage c - lh_charge h, lc_deleted := lc_deleted c @ [(lh_key h, lh_value h)],
                     lc_heap := (lc_heap c)(e := None)\<rparr>
              else c\<lparr>lc_heap := (lc_heap c)(e \<mapsto> h)\<rparr>))"

text \<open>Unlinking a handle that is not in the list writes through links that are no longer maintained.\<close>

definition LRU_Remove :: "nat \<Rightarrow> 'v LRUCache \<Rightarrow> 'v LRUCache result" where
  "LRU_Remove e c = (if e \<in> set (lc_lru c) then Inr (c\<lparr>lc_lru := remove1 e (lc_lru c)\<rparr>) else Inl OutOfBounds)"

definition LRU_Append :: "nat \<Rightarrow> 'v LRUCache \<Rightarrow> 'v LRUCache" where
  "LRU_Append e c = c\<lparr>lc_lru := lc_lru c @ [e]\<rparr>"

definition lru_Lookup :: "bytes \<Rightarrow> u32 \<Rightarrow> 'v LRUCache \<Rightarrow> (nat option \<times> 'v LRUCache) result" where
  "lru_Lookup key hash c =
     and_then (table_Lookup (lc_heap c) key hash (lc_table c)) (\<lambda>e. case e of
         None \<Rightarrow> Inr (None, c)
       | Some e \<Rightarrow>
           and_then (deref (lc_heap c) e) (\<lambda>h.
             let c = c\<lparr>lc_heap := (lc_heap c)(e \<mapsto> h\<lparr>lh_refs := lh_refs h + 1\<rparr>)\<rparr> in
             and_then (LRU_Remove e c) (\<lambda>c. Inr (Some e, LRU_Append e c))))"

definition lru_Release :: "nat \<Rightarrow> 'v LRUCache \<Rightarrow> 'v LRUCache result" where
  "lru_Release handle c = Unref handle c"

lemma Unref_keeps: "Unref e c = Inr c' \<Longrightarrow> lc_lru c' = lc_lru c \<and> lc_table c' = lc_table c \<and> lc_capacity c' = lc_capacity c \<and> lc_next c' = lc_next c"
  by (auto simp: Unref_def Let_def res_simps split: if_splits)

function evict :: "'v LRUCache \<Rightarrow> 'v LRUCache result" where
  "evict c =
     (if lc_usage c > lc_capacity c then (case lc_lru c of
          [] \<Rightarrow> Inr c
        | old # rest \<Rightarrow>
            and_then (deref (lc_heap c) old) (\<lambda>h.
            and_then (table_Remove (lc_heap c) (lh_key h) (lh_hash h) (lc_table c)) (\<lambda>(_, t).
            and_then (Unref old (c\<lparr>lc_lru := rest, lc_table := t\<rparr>)) (\<lambda>c. evict c))))
      else Inr c)"
  by auto
termination by (relation "measure (\<lambda>c. length (lc_lru c))") (auto dest: Unref_keeps)

declare evict.simps [simp del] new_length_loop.simps [simp del]

definition lru_Insert :: "bytes \<Rightarrow> u32 \<Rightarrow> 'v \<Rightarrow> u64 \<Rightarrow> 'v LRUCache \<Rightarrow> (nat \<times> 'v LRUCache) result" where
  "lru_Insert key hash val charge c =
     (let e = lc_next c;
          h = \<lparr>lh_value = val, lh_charge = charge, lh_refs = 2, lh_hash = hash, lh_key = key\<rparr>;
          c = LRU_Append e (c\<lparr>lc_next := e + 1, lc_heap := (lc_heap c)(e \<mapsto> h)\<rparr>);
          c = c\<lparr>lc_usage := lc_usage c + charge\<rparr> in
      and_then (table_Insert (lc_heap c) e (lc_table c)) (\<lambda>(old, t).
      and_then (case old of None \<Rightarrow> Inr (c\<lparr>lc_table := t\<rparr>)
                | Some old \<Rightarrow> and_then (LRU_Remove old (c\<lparr>lc_table := t\<rparr>)) (Unref old)) (\<lambda>c.
      and_then (evict c) (\<lambda>c. Inr (e, c)))))"

definition lru_Erase :: "bytes \<Rightarrow> u32 \<Rightarrow> 'v LRUCache \<Rightarrow> 'v LRUCache result" where
  "lru_Erase key hash c =
     and_then (table_Remove (lc_heap c) key hash (lc_table c)) (\<lambda>(e, t).
       let c = c\<lparr>lc_table := t\<rparr> in
       case e of None \<Rightarrow> Inr c | Some e \<Rightarrow> and_then (LRU_Remove e c) (Unref e))"

text \<open>The destructor.\<close>

fun unref_all :: "nat list \<Rightarrow> 'v LRUCache \<Rightarrow> 'v LRUCache result" where
  "unref_all [] c = Inr c"
| "unref_all (e # es) c =
     and_then (deref (lc_heap c) e) (\<lambda>h.
       if lh_refs h \<noteq> 1 then Inl (Thrown ''assert'') else and_then (Unref e c) (unref_all es))"

definition deleteLRUCache :: "'v LRUCache \<Rightarrow> 'v LRUCache result" where
  "deleteLRUCache c = unref_all (lc_lru c) c"

section \<open>The sharded cache\<close>

definition kNumShardBits :: nat where "kNumShardBits = 4"
definition kNumShards :: nat where "kNumShards = 2 ^ kNumShardBits"

record 'v ShardedLRUCache =
  sc_shard :: "'v LRUCache list"
  sc_last_id :: u64

definition HashSlice :: "bytes \<Rightarrow> u32" where "HashSlice s = Hash s 0"

definition Shard :: "u32 \<Rightarrow> nat" where "Shard hash = unat (drop_bit (32 - kNumShardBits) hash)"

definition newShardedLRUCache :: "u64 \<Rightarrow> 'v ShardedLRUCache result" where
  "newShardedLRUCache capacity =
     (let per_shard = (capacity + of_nat (kNumShards - 1)) div of_nat kNumShards in
      and_then newLRUCache (\<lambda>c.
        Inr \<lparr>sc_shard = map (SetCapacity per_shard) (replicate kNumShards c), sc_last_id = 0\<rparr>))"

definition shard_at :: "'v ShardedLRUCache \<Rightarrow> nat \<Rightarrow> 'v LRUCache result" where
  "shard_at c i = (if i < length (sc_shard c) then Inr (sc_shard c ! i) else Inl OutOfBounds)"

definition put_shard :: "nat \<Rightarrow> 'v LRUCache \<Rightarrow> 'v ShardedLRUCache \<Rightarrow> 'v ShardedLRUCache" where
  "put_shard i s c = c\<lparr>sc_shard := (sc_shard c)[i := s]\<rparr>"

text \<open>A handle is the address of an object in the heap of its shard.\<close>

definition sharded_Insert :: "bytes \<Rightarrow> 'v \<Rightarrow> u64 \<Rightarrow> 'v ShardedLRUCache \<Rightarrow> ((nat \<times> nat) \<times> 'v ShardedLRUCache) result" where
  "sharded_Insert key val charge c =
     (let hash = HashSlice key; i = Shard hash in
      and_then (shard_at c i) (\<lambda>s.
      and_then (lru_Insert key hash val charge s) (\<lambda>(e, s). Inr ((i, e), put_shard i s c))))"

definition sharded_Lookup :: "bytes \<Rightarrow> 'v ShardedLRUCache \<Rightarrow> ((nat \<times> nat) option \<times> 'v ShardedLRUCache) result" where
  "sharded_Lookup key c =
     (let hash = HashSlice key; i = Shard hash in
      and_then (shard_at c i) (\<lambda>s.
      and_then (lru_Lookup key hash s) (\<lambda>(e, s). Inr (map_option (Pair i) e, put_shard i s c))))"

definition handle_object :: "nat \<times> nat \<Rightarrow> 'v ShardedLRUCache \<Rightarrow> 'v LRUHandle result" where
  "handle_object handle c = and_then (shard_at c (fst handle)) (\<lambda>s. deref (lc_heap s) (snd handle))"

definition sharded_Release :: "nat \<times> nat \<Rightarrow> 'v ShardedLRUCache \<Rightarrow> 'v ShardedLRUCache result" where
  "sharded_Release handle c =
     and_then (handle_object handle c) (\<lambda>h.
       let i = Shard (lh_hash h) in
       and_then (shard_at c i) (\<lambda>s.
       and_then (lru_Release (snd handle) s) (\<lambda>s. Inr (put_shard i s c))))"

definition sharded_Erase :: "bytes \<Rightarrow> 'v ShardedLRUCache \<Rightarrow> 'v ShardedLRUCache result" where
  "sharded_Erase key c =
     (let hash = HashSlice key; i = Shard hash in
      and_then (shard_at c i) (\<lambda>s. and_then (lru_Erase key hash s) (\<lambda>s. Inr (put_shard i s c))))"

definition sharded_Value :: "nat \<times> nat \<Rightarrow> 'v ShardedLRUCache \<Rightarrow> 'v result" where
  "sharded_Value handle c = and_then (handle_object handle c) (\<lambda>h. Inr (lh_value h))"

definition sharded_NewId :: "'v ShardedLRUCache \<Rightarrow> u64 \<times> 'v ShardedLRUCache" where
  "sharded_NewId c = (let last_id = sc_last_id c + 1 in (last_id, c\<lparr>sc_last_id := last_id\<rparr>))"

end
