(* ===== verification/Ldb_Cache_Inv.thy ===== *)
theory Ldb_Cache_Inv
  imports Ldb_Cache "HOL-Library.Multiset"
begin

unbundle bit_operations_syntax

text \<open>
  The invariants of the hash table of handles and of their reference counts, which every operation of the cache
  keeps.
\<close>

section \<open>The hash table\<close>

lemma slot_less: "0 < n \<Longrightarrow> slot hash n < n"
proof -
  assume "0 < n"
  moreover have "int (unat hash AND (n - 1)) \<le> int (n - 1)" by (simp only: of_nat_and_eq) (rule AND_upper2, simp)
  ultimately show ?thesis by (simp add: slot_def)
qed

definition members :: "HandleTable \<Rightarrow> nat set" where "members t = set (concat (ht_list t))"

definition matches :: "'v handles \<Rightarrow> bytes \<Rightarrow> u32 \<Rightarrow> nat \<Rightarrow> bool" where
  "matches m key hash a \<longleftrightarrow> (\<exists>h. m a = Some h \<and> lh_hash h = hash \<and> lh_key h = key)"

definition table_inv :: "'v handles \<Rightarrow> HandleTable \<Rightarrow> bool" where
  "table_inv m t \<longleftrightarrow> ht_length t = length (ht_list t) \<and> 0 < ht_length t \<and> ht_elems t = length (concat (ht_list t))
     \<and> distinct (concat (ht_list t))
     \<and> (\<forall>i < ht_length t. \<forall>a \<in> set (ht_list t ! i). \<exists>h. m a = Some h \<and> slot (lh_hash h) (ht_length t) = i)
     \<and> (\<forall>a \<in> members t. \<forall>b \<in> members t. \<forall>key hash. matches m key hash a \<longrightarrow> matches m key hash b \<longrightarrow> a = b)"

lemma member_unique:
  "table_inv m t \<Longrightarrow> a \<in> members t \<Longrightarrow> b \<in> members t \<Longrightarrow> matches m key hash a \<Longrightarrow> matches m key hash b \<Longrightarrow> a = b"
  unfolding table_inv_def by blast

lemma member_chain: "a \<in> members t \<longleftrightarrow> (\<exists>i < length (ht_list t). a \<in> set (ht_list t ! i))"
  by (auto simp: members_def in_set_conv_nth) (metis in_set_conv_nth)+

lemma chain_place_ok:
  "(\<And>a. a \<in> set as \<Longrightarrow> m a \<noteq> None) \<Longrightarrow> \<exists>j. chain_place m key hash as = Inr j \<and> j \<le> length as
     \<and> (j < length as \<longrightarrow> matches m key hash (as ! j)) \<and> (\<forall>i < j. \<not> matches m key hash (as ! i))"
proof (induction as)
  case (Cons a as)
  obtain h where h: "m a = Some h" using Cons.prems [of a] by auto
  obtain j where j: "chain_place m key hash as = Inr j" "j \<le> length as"
      "j < length as \<longrightarrow> matches m key hash (as ! j)" "\<forall>i < j. \<not> matches m key hash (as ! i)"
    using Cons by auto
  show ?case
  proof (cases "matches m key hash a")
    case True
    then show ?thesis using h by (intro exI [of _ 0]) (auto simp: deref_def matches_def)
  next
    case False
    moreover have "\<not> matches m key hash ((a # as) ! i)" if "i < Suc j" for i
      using False j(4) that by (cases i) auto
    ultimately show ?thesis using h j by (intro exI [of _ "Suc j"]) (auto simp: deref_def matches_def)
  qed
qed simp

lemma FindPointer_ok:
  assumes t: "table_inv m t"
  shows "\<exists>i j. FindPointer m key hash t = Inr (i, j) \<and> i < length (ht_list t) \<and> i = slot hash (ht_length t)
    \<and> j \<le> length (ht_list t ! i) \<and> (\<forall>a. pointed t (i, j) = Some a \<longleftrightarrow> a \<in> members t \<and> matches m key hash a)"
proof -
  let ?i = "slot hash (ht_length t)"
  have i: "?i < length (ht_list t)" using t slot_less unfolding table_inv_def by metis
  have dom: "m a \<noteq> None" if "a \<in> set (ht_list t ! ?i)" for a using t i that unfolding table_inv_def by fastforce
  obtain j where j: "chain_place m key hash (ht_list t ! ?i) = Inr j" "j \<le> length (ht_list t ! ?i)"
      "j < length (ht_list t ! ?i) \<longrightarrow> matches m key hash (ht_list t ! ?i ! j)" "\<forall>k < j. \<not> matches m key hash (ht_list t ! ?i ! k)"
    using chain_place_ok [of "ht_list t ! ?i" m key hash] dom by blast
  have "pointed t (?i, j) = Some a" if a: "a \<in> members t" "matches m key hash a" for a
  proof -
    obtain k where k: "k < length (ht_list t)" "a \<in> set (ht_list t ! k)" using a(1) by (auto simp: member_chain)
    then have "k = ?i" using t a(2) unfolding table_inv_def matches_def by fastforce
    then obtain p where p: "p < length (ht_list t ! ?i)" "ht_list t ! ?i ! p = a" using k(2) by (auto simp: in_set_conv_nth)
    then have "\<not> p < j" using j(4) a(2) by auto
    then have lt: "j < length (ht_list t ! ?i)" using p by simp
    have "ht_list t ! ?i ! j \<in> members t" using i lt by (auto simp: member_chain)
    then have "ht_list t ! ?i ! j = a" using member_unique [OF t _ a(1) _ a(2)] j(3) lt by blast
    then show ?thesis using lt by (simp add: pointed_def)
  qed
  moreover have "a \<in> members t \<and> matches m key hash a" if "pointed t (?i, j) = Some a" for a
    using that j(3) i by (auto simp: pointed_def Let_def member_chain split: if_splits)
  ultimately have "pointed t (?i, j) = Some a \<longleftrightarrow> a \<in> members t \<and> matches m key hash a" for a by blast
  moreover have "FindPointer m key hash t = Inr (?i, j)" using i j(1) by (simp add: FindPointer_def)
  ultimately show ?thesis using i j(2) by blast
qed

lemma table_Lookup_ok:
  assumes t: "table_inv m t"
  shows "\<exists>r. table_Lookup m key hash t = Inr r \<and> (\<forall>a. r = Some a \<longleftrightarrow> a \<in> members t \<and> matches m key hash a)"
  using FindPointer_ok [OF t, of key hash] by (auto simp: table_Lookup_def)

lemma mset_concat_update:
  "i < length xs \<Longrightarrow> mset (concat (xs[i := c])) + mset (xs ! i) = mset (concat xs) + mset c"
  by (induction xs arbitrary: i) (auto split: nat.splits simp: nth_Cons)

lemma slots_update:
  assumes "\<forall>i < n. \<forall>a \<in> set (xs ! i). P i a" and "length xs = n" and "\<forall>a \<in> set c. P j a"
  shows "\<forall>i < n. \<forall>a \<in> set (xs[j := c] ! i). P i a"
  using assms by (cases "j < n") (auto simp: nth_list_update split: if_splits)

lemma new_length_pos: "0 < n \<Longrightarrow> 0 < new_length_loop n elems"
  by (induction n elems rule: new_length_loop.induct) (subst new_length_loop.simps, auto)

lemma rehash_ok:
  assumes n: "0 < n"
  shows "(\<forall>a \<in> set as. m a \<noteq> None) \<Longrightarrow> length new = n \<Longrightarrow>
    \<forall>i < n. \<forall>a \<in> set (new ! i). \<exists>h. m a = Some h \<and> slot (lh_hash h) n = i \<Longrightarrow>
    \<exists>new'. rehash m n as new = Inr new' \<and> length new' = n \<and> mset (concat new') = mset as + mset (concat new)
      \<and> (\<forall>i < n. \<forall>a \<in> set (new' ! i). \<exists>h. m a = Some h \<and> slot (lh_hash h) n = i)"
proof (induction as arbitrary: new)
  case (Cons a as)
  obtain h where h: "m a = Some h" using Cons.prems(1) by auto
  let ?i = "slot (lh_hash h) n" and ?new = "new[slot (lh_hash h) n := a # new ! slot (lh_hash h) n]"
  have i: "?i < n" using n by (rule slot_less)
  have "\<forall>i < n. \<forall>a \<in> set (?new ! i). \<exists>h. m a = Some h \<and> slot (lh_hash h) n = i"
    by (rule slots_update) (use Cons.prems(2,3) h i in auto)
  then obtain new' where new': "rehash m n as ?new = Inr new'" "length new' = n" "mset (concat new') = mset as + mset (concat ?new)"
      "\<forall>i < n. \<forall>a \<in> set (new' ! i). \<exists>h. m a = Some h \<and> slot (lh_hash h) n = i"
    using Cons.IH [of ?new] Cons.prems(1,2) by auto
  have "mset (concat ?new) = add_mset a (mset (concat new))"
    using mset_concat_update [of ?i new "a # new ! ?i"] i Cons.prems(2) by simp
  then show ?case using new' h i Cons.prems(2) by (auto simp: deref_def Let_def simp del: mset_concat)
qed simp

text \<open>What the table is after its buckets were changed.\<close>

lemma table_inv_members:
  assumes "ht_length t = length (ht_list t)" "0 < ht_length t" "ht_elems t = length (concat (ht_list t))"
    and "distinct (concat (ht_list t))"
    and "\<forall>i < ht_length t. \<forall>a \<in> set (ht_list t ! i). \<exists>h. m a = Some h \<and> slot (lh_hash h) (ht_length t) = i"
    and "\<And>a b key hash. a \<in> members t \<Longrightarrow> b \<in> members t \<Longrightarrow> matches m key hash a \<Longrightarrow> matches m key hash b \<Longrightarrow> a = b"
  shows "table_inv m t"
  using assms unfolding table_inv_def by blast

lemma member_dom: "table_inv m t \<Longrightarrow> a \<in> members t \<Longrightarrow> \<exists>h. m a = Some h"
  unfolding table_inv_def member_chain by fastforce

lemma table_Resize_ok:
  assumes t: "table_inv m t"
  shows "\<exists>t'. table_Resize m t = Inr t' \<and> table_inv m t' \<and> members t' = members t"
proof -
  let ?n = "new_length_loop 4 (ht_elems t)" and ?as = "concat (ht_list t)"
  have n: "0 < ?n" by (rule new_length_pos) simp
  have "\<forall>a \<in> set ?as. m a \<noteq> None" using member_dom [OF t] by (fastforce simp: members_def)
  then obtain new where new: "rehash m ?n ?as (replicate ?n []) = Inr new" "length new = ?n"
      "mset (concat new) = mset ?as + mset (concat (replicate ?n []))"
      "\<forall>i < ?n. \<forall>a \<in> set (new ! i). \<exists>h. m a = Some h \<and> slot (lh_hash h) ?n = i"
    using rehash_ok [OF n, of ?as m "replicate ?n []"] by auto
  have "concat (replicate ?n []) = ([] :: nat list)" by simp
  then have ms: "mset (concat new) = mset ?as" using new(3) by simp
  let ?t = "t\<lparr>ht_list := new, ht_length := ?n\<rparr>"
  have s: "members ?t = members t" using mset_eq_setD [OF ms] by (simp add: members_def)
  have "table_inv m ?t"
  proof (rule table_inv_members)
    show "ht_elems ?t = length (concat (ht_list ?t))"
      using t mset_eq_length [OF ms] by (simp add: table_inv_def del: length_concat)
    show "distinct (concat (ht_list ?t))" using t mset_eq_imp_distinct_iff [OF ms] by (simp add: table_inv_def)
    show "a = b" if "a \<in> members ?t" "b \<in> members ?t" "matches m key hash a" "matches m key hash b" for a b key hash
      using member_unique [OF t] that unfolding s by blast
  qed (use new n in auto)
  moreover have "table_Resize m t = Inr ?t" using new(1) t by (simp add: table_Resize_def Let_def table_inv_def)
  ultimately show ?thesis using s by auto
qed

lemma table_inv_swap:
  assumes t: "table_inv m t" and i: "i < length (ht_list t)"
    and ms: "mset c + B = mset (ht_list t ! i) + A" "mset (concat (ht_list t)) = C + B"
    and slots: "\<forall>a \<in> set c. \<exists>h. m a = Some h \<and> slot (lh_hash h) (ht_length t) = i"
    and new: "ht_elems t' = size (C + A)" "ht_list t' = (ht_list t)[i := c]" "ht_length t' = ht_length t"
    and dist: "\<forall>a. count (C + A) a \<le> 1"
    and uniq: "\<And>a b key hash. a \<in># C + A \<Longrightarrow> b \<in># C + A \<Longrightarrow> matches m key hash a \<Longrightarrow> matches m key hash b \<Longrightarrow> a = b"
  shows "table_inv m t'" "members t' = set_mset (C + A)"
proof -
  have "mset (concat (ht_list t')) + mset (ht_list t ! i) + B = C + B + mset c + B"
    using mset_concat_update [OF i, of c] ms(2) new(2) by (simp del: mset_concat)
  also have "\<dots> = C + B + (mset (ht_list t ! i) + A)" using ms(1) by (simp add: ac_simps)
  finally have m': "mset (concat (ht_list t')) = C + A" by (simp add: ac_simps del: mset_concat)
  then show mem: "members t' = set_mset (C + A)" by (metis members_def set_mset_mset)
  show "table_inv m t'"
  proof (rule table_inv_members)
    show "ht_elems t' = length (concat (ht_list t'))" using new(1) m' by (metis size_mset)
    show "distinct (concat (ht_list t'))" using dist m' by (metis distinct_count_atmost_1 count_greater_zero_iff le_antisym less_one linorder_not_less not_in_iff set_mset_mset zero_less_iff_neq_zero)
    show "\<forall>k < ht_length t'. \<forall>a \<in> set (ht_list t' ! k). \<exists>h. m a = Some h \<and> slot (lh_hash h) (ht_length t') = k"
      unfolding new by (rule slots_update) (use t slots in \<open>auto simp: table_inv_def\<close>)
    show "a = b" if "a \<in> members t'" "b \<in> members t'" "matches m key hash a" "matches m key hash b" for a b key hash
      using uniq that unfolding mem by blast
  qed (use t new in \<open>auto simp: table_inv_def\<close>)
qed

lemma table_mset:
  assumes t: "table_inv m t"
  shows "count (mset (concat (ht_list t))) a = (if a \<in> members t then 1 else 0)" "ht_elems t = size (mset (concat (ht_list t)))"
  using t distinct_count_atmost_1 [of "concat (ht_list t)"] unfolding table_inv_def members_def size_mset by blast+

lemma table_Remove_ok:
  assumes t: "table_inv m t"
  shows "\<exists>r t'. table_Remove m key hash t = Inr (r, t') \<and> (\<forall>a. r = Some a \<longleftrightarrow> a \<in> members t \<and> matches m key hash a)
    \<and> table_inv m t' \<and> members t' = members t - set_option r"
proof -
  obtain i j where p: "FindPointer m key hash t = Inr (i, j)" "i < length (ht_list t)" "i = slot hash (ht_length t)"
      "\<And>a. pointed t (i, j) = Some a \<longleftrightarrow> a \<in> members t \<and> matches m key hash a"
    using FindPointer_ok [OF t, of key hash] by blast
  show ?thesis
  proof (cases "pointed t (i, j)")
    case None
    then have "table_Remove m key hash t = Inr (None, t)" using p(1) by (simp add: table_Remove_def)
    then show ?thesis using None p(4) t by auto
  next
    case (Some a)
    let ?chain = "ht_list t ! i" and ?ms = "mset (concat (ht_list t))"
    let ?c = "take j ?chain @ drop (j + 1) ?chain"
    let ?t = "t\<lparr>ht_list := (ht_list t)[i := ?c], ht_elems := ht_elems t - 1\<rparr>"
    have j: "j < length ?chain" "?chain ! j = a" using Some by (auto simp: pointed_def Let_def split: if_splits)
    have c0: "?chain = take j ?chain @ a # drop (Suc j) ?chain" using id_take_nth_drop [OF j(1)] j(2) by simp
    have a: "a \<in> members t" using p(4) Some by blast
    then have C: "?ms = (?ms - {#a#}) + {#a#}" by (simp add: members_def del: mset_concat set_concat)
    have "\<forall>x \<in> set ?chain. \<exists>h. m x = Some h \<and> slot (lh_hash h) (ht_length t) = i" using t p(2) by (auto simp: table_inv_def)
    moreover have "set ?c \<subseteq> set ?chain" using set_take_subset [of j ?chain] set_drop_subset [of "j + 1" ?chain] by auto
    ultimately have sl: "\<forall>x \<in> set ?c. \<exists>h. m x = Some h \<and> slot (lh_hash h) (ht_length t) = i" by blast
    have "mset ?chain = add_mset a (mset (take j ?chain) + mset (drop (Suc j) ?chain))" by (subst c0) simp
    then have mc: "mset ?c + {#a#} = mset ?chain + {#}" by simp
    have cnt: "\<forall>x. count (?ms - {#a#} + {#}) x \<le> 1" using table_mset(1) [OF t] by (simp del: mset_concat)
    have el: "ht_elems ?t = size (?ms - {#a#} + {#})"
      using table_mset(2) [OF t] a by (simp add: size_Diff_singleton members_def del: mset_concat set_concat)
    have "count ?ms a = 1" using table_mset(1) [OF t] a by simp
    then have sub: "set_mset (?ms - {#a#} + {#}) = members t - {a}"
      using C by (auto simp: members_def set_mset_def table_mset(1) [OF t] simp del: mset_concat set_concat)
    have u: "x = y" if "x \<in># ?ms - {#a#} + {#}" "y \<in># ?ms - {#a#} + {#}" "matches m k h x" "matches m k h y" for x y k h
      using member_unique [OF t] that unfolding sub by blast
    note S = table_inv_swap [OF t p(2) mc C sl el _ _ cnt u, simplified]
    have "table_Remove m key hash t = Inr (Some a, ?t)" using p(1) Some by (simp add: table_Remove_def Let_def)
    moreover have "table_inv m ?t" "members ?t = members t - {a}" using S sub by simp_all
    ultimately show ?thesis using p(4) Some by auto
  qed
qed

lemma table_Insert_ok:
  assumes t: "table_inv m t" and a: "m a = Some h" "a \<notin> members t"
  shows "\<exists>r t'. table_Insert m a t = Inr (r, t') \<and> (\<forall>b. r = Some b \<longleftrightarrow> b \<in> members t \<and> matches m (lh_key h) (lh_hash h) b)
    \<and> table_inv m t' \<and> members t' = insert a (members t - set_option r)"
proof -
  obtain i j where p: "FindPointer m (lh_key h) (lh_hash h) t = Inr (i, j)" "i < length (ht_list t)" "i = slot (lh_hash h) (ht_length t)"
      "\<And>b. pointed t (i, j) = Some b \<longleftrightarrow> b \<in> members t \<and> matches m (lh_key h) (lh_hash h) b"
    using FindPointer_ok [OF t, of "lh_key h" "lh_hash h"] by blast
  let ?chain = "ht_list t ! i" and ?ms = "mset (concat (ht_list t))" and ?r = "pointed t (i, j)"
  let ?B = "case ?r of None \<Rightarrow> {#} | Some b \<Rightarrow> {#b#}"
  let ?c = "if ?r = None then ?chain @ [a] else ?chain[j := a]"
  let ?t = "t\<lparr>ht_list := (ht_list t)[i := ?c], ht_elems := (if ?r = None then ht_elems t + 1 else ht_elems t)\<rparr>"
  have sub: "?ms = (?ms - ?B) + ?B"
  proof (cases ?r)
    case (Some b)
    then have "b \<in># ?ms" using p(4) by (simp add: members_def del: mset_concat)
    then show ?thesis using Some by simp
  qed simp
  have sl: "\<forall>x \<in> set ?c. \<exists>h. m x = Some h \<and> slot (lh_hash h) (ht_length t) = i"
    using t p(2,3) a(1) set_update_subset_insert [of ?chain j a] by (auto simp: table_inv_def)
  have mc: "mset ?c + ?B = mset ?chain + {#a#}"
  proof (cases ?r)
    case (Some b)
    then have j: "j < length ?chain" "?chain ! j = b" by (auto simp: pointed_def Let_def split: if_splits)
    then have "b \<in># mset ?chain" using nth_mem by auto
    then show ?thesis using Some j by (simp add: mset_update)
  qed simp
  have el: "ht_elems ?t = size (?ms - ?B + {#a#})"
  proof (cases ?r)
    case (Some b)
    then have "b \<in># ?ms" using p(4) by (simp add: members_def del: mset_concat)
    then have "size ?ms = Suc (size (?ms - {#b#}))" by (metis insert_DiffM size_add_mset)
    then show ?thesis using table_mset(2) [OF t] Some by (simp del: mset_concat)
  qed (use table_mset(2) [OF t] in \<open>simp del: mset_concat\<close>)
  have cnt: "\<forall>x. count (?ms - ?B + {#a#}) x \<le> 1"
    using table_mset(1) [OF t] a(2) by (auto split: option.splits simp del: mset_concat)
  have mem: "set_mset (?ms - ?B + {#a#}) = insert a (members t - set_option ?r)"
  proof (cases ?r)
    case (Some b)
    then have "b \<in> members t" using p(4) by blast
    then have "set_mset (?ms - {#b#}) = members t - {b}"
      using table_mset(1) [OF t] by (auto simp: set_mset_def simp del: mset_concat split: if_splits)
    then show ?thesis using Some by simp
  qed (simp add: members_def)
  have u: "x = y" if "x \<in># ?ms - ?B + {#a#}" "y \<in># ?ms - ?B + {#a#}" "matches m k g x" "matches m k g y" for x y k g
  proof -
    have old: "z \<notin> members t - set_option ?r" if "matches m k g a" "matches m k g z" for z
    proof -
      have "k = lh_key h" "g = lh_hash h" using that(1) a(1) by (auto simp: matches_def)
      then show ?thesis using p(4) [of z] that(2) by auto
    qed
    show ?thesis using that member_unique [OF t] old unfolding mem by blast
  qed
  note S = table_inv_swap [OF t p(2) mc sub sl el _ _ cnt u, simplified]
  have inv: "table_inv m ?t" "members ?t = insert a (members t - set_option ?r)"
    using S mem by (simp_all add: members_def)
  show ?thesis
  proof (cases "?r = None \<and> ht_elems ?t > ht_length ?t")
    case True
    obtain t' where "table_Resize m ?t = Inr t'" "table_inv m t'" "members t' = members ?t" using table_Resize_ok [OF inv(1)] by blast
    then have "table_Insert m a t = Inr (?r, t')" "table_inv m t'" "members t' = insert a (members t - set_option ?r)"
      using True a(1) p(1) inv(2) by (auto simp: table_Insert_def deref_def Let_def)
    then show ?thesis using p(4) by blast
  next
    case False
    then have "table_Insert m a t = Inr (?r, ?t)" using a(1) p(1) by (auto simp: table_Insert_def deref_def Let_def)
    then show ?thesis using p(4) inv by blast
  qed
qed

text \<open>What a handle is about.\<close>

definition label :: "'v handles \<Rightarrow> nat \<Rightarrow> ((bytes \<times> u32) \<times> 'v) option" where
  "label m a = map_option (\<lambda>h. ((lh_key h, lh_hash h), lh_value h)) (m a)"

text \<open>Only keys and hashes matter to the table.\<close>

lemma table_inv_cong:
  assumes t: "table_inv m t" and l: "\<And>a. a \<in> members t \<Longrightarrow> label m' a = label m a"
  shows "table_inv m' t"
proof (rule table_inv_members)
  have m: "\<exists>h'. m' a = Some h' \<and> lh_hash h' = lh_hash h \<and> lh_key h' = lh_key h" if "a \<in> members t" "m a = Some h" for a h
    using l [OF that(1)] that(2) by (auto simp: label_def)
  have same: "matches m' key hash a \<longleftrightarrow> matches m key hash a" if "a \<in> members t" for a key hash
    using member_dom [OF t that] m [OF that] by (fastforce simp: matches_def)
  show "a = b" if "a \<in> members t" "b \<in> members t" "matches m' key hash a" "matches m' key hash b" for a b key hash
    using member_unique [OF t that(1,2)] that same by blast
  show "\<forall>i < ht_length t. \<forall>a \<in> set (ht_list t ! i). \<exists>h. m' a = Some h \<and> slot (lh_hash h) (ht_length t) = i"
  proof (intro allI impI ballI)
    fix i a assume i: "i < ht_length t" "a \<in> set (ht_list t ! i)"
    then obtain h where h: "m a = Some h" "slot (lh_hash h) (ht_length t) = i" using t unfolding table_inv_def by blast
    have "a \<in> members t" using i t by (auto simp: member_chain table_inv_def)
    then show "\<exists>h. m' a = Some h \<and> slot (lh_hash h) (ht_length t) = i" using m h by metis
  qed
qed (use t in \<open>auto simp: table_inv_def\<close>)

section \<open>Reference counts\<close>

text \<open>\<open>refs a\<close> is the number of references there are to the handle \<open>a\<close>.\<close>

definition heap_at :: "(nat \<Rightarrow> nat) \<Rightarrow> 'v LRUCache \<Rightarrow> nat \<Rightarrow> bool" where
  "heap_at refs c a \<longleftrightarrow> (case lc_heap c a of None \<Rightarrow> refs a = 0
     | Some h \<Rightarrow> unat (lh_refs h) = refs a \<and> 0 < refs a \<and> a < lc_next c)"

definition heap_inv :: "(nat \<Rightarrow> nat) \<Rightarrow> 'v LRUCache \<Rightarrow> bool" where
  "heap_inv refs c \<longleftrightarrow> (\<forall>a. heap_at refs c a) \<and> lc_usage c = (\<Sum>a \<in> dom (lc_heap c). lh_charge (the (lc_heap c a)))"

lemma heap_invI:
  "(\<And>a. heap_at refs c a) \<Longrightarrow> lc_usage c = (\<Sum>a \<in> dom (lc_heap c). lh_charge (the (lc_heap c a))) \<Longrightarrow> heap_inv refs c"
  by (simp add: heap_inv_def)

lemma heap_inv_at: "heap_inv refs c \<Longrightarrow> heap_at refs c a"
  by (simp add: heap_inv_def)

lemma heap_inv_frame:
  assumes "heap_inv refs c" and "lc_heap c' = lc_heap c" "lc_usage c' = lc_usage c" "lc_next c' = lc_next c" and "\<And>a. refs' a = refs a"
  shows "heap_inv refs' c'"
proof -
  have "heap_at refs' c' a = heap_at refs c a" for a by (simp add: heap_at_def assms(2-5) cong: option.case_cong)
  then show ?thesis using assms(1-3) by (simp add: heap_inv_def)
qed

lemma heap_finite: "heap_inv refs c \<Longrightarrow> finite (dom (lc_heap c))"
proof -
  assume "heap_inv refs c"
  then have "heap_at refs c a" for a by (rule heap_inv_at)
  then have "dom (lc_heap c) \<subseteq> {..< lc_next c}" by (fastforce simp: heap_at_def split: option.splits)
  then show ?thesis using finite_subset by blast
qed

lemma Unref_ok:
  assumes i: "heap_inv refs c" and e: "0 < refs e"
  shows "\<exists>c' h. Unref e c = Inr c' \<and> heap_inv (refs(e := refs e - 1)) c' \<and> (\<forall>a. a \<noteq> e \<or> refs e \<noteq> 1 \<longrightarrow> label (lc_heap c') a = label (lc_heap c) a)
    \<and> lc_heap c e = Some h \<and> lc_deleted c' = lc_deleted c @ (if refs e = 1 then [(lh_key h, lh_value h)] else [])"
proof -
  obtain h where h: "lc_heap c e = Some h" "unat (lh_refs h) = refs e" "e < lc_next c"
    using heap_inv_at [OF i, of e] e by (auto simp: heap_at_def split: option.splits)
  have pos: "lh_refs h > 0" using h(2) e by (simp add: word_gt_0 unat_gt_0 [symmetric])
  then have dec: "unat (lh_refs h - 1) = refs e - 1" using h(2) by (simp add: unat_minus_one word_gt_0)
  have zero: "lh_refs h - 1 \<le> 0 \<longleftrightarrow> refs e = 1" using dec e by (metis One_nat_def Suc_pred diff_is_0_eq' le_refl unat_eq_zero word_le_0_iff)
  have fin: "finite (dom (lc_heap c))" by (rule heap_finite [OF i])
  have dom: "e \<in> dom (lc_heap c)" using h by blast
  have usage: "lc_usage c = lh_charge h + (\<Sum>a \<in> dom (lc_heap c) - {e}. lh_charge (the (lc_heap c a)))"
    using i sum.remove [OF fin dom, of "\<lambda>a. lh_charge (the (lc_heap c a))"] h(1) by (simp add: heap_inv_def)
  show ?thesis
  proof (cases "refs e = 1")
    case True
    let ?c = "c\<lparr>lc_usage := lc_usage c - lh_charge h, lc_deleted := lc_deleted c @ [(lh_key h, lh_value h)], lc_heap := (lc_heap c)(e := None)\<rparr>"
    have "Unref e c = Inr ?c" using h pos zero True by (simp add: Unref_def deref_def Let_def)
    moreover have "heap_inv (refs(e := refs e - 1)) ?c"
    proof (rule heap_invI)
      show "lc_usage ?c = (\<Sum>a \<in> dom (lc_heap ?c). lh_charge (the (lc_heap ?c a)))" by (simp add: usage)
      show "heap_at (refs(e := refs e - 1)) ?c a" for a using heap_inv_at [OF i, of a] True by (cases "a = e") (auto simp: heap_at_def split: option.splits)
    qed
    ultimately show ?thesis using h True by (auto simp: label_def)
  next
    case False
    let ?c = "c\<lparr>lc_heap := (lc_heap c)(e \<mapsto> h\<lparr>lh_refs := lh_refs h - 1\<rparr>)\<rparr>"
    have "Unref e c = Inr ?c" using h pos zero False by (simp add: Unref_def deref_def Let_def)
    moreover have "heap_inv (refs(e := refs e - 1)) ?c"
    proof (rule heap_invI)
      have d: "dom (lc_heap ?c) = dom (lc_heap c)" using dom by auto
      show "lc_usage ?c = (\<Sum>a \<in> dom (lc_heap ?c). lh_charge (the (lc_heap ?c a)))"
        unfolding d sum.remove [OF fin dom, of "\<lambda>a. lh_charge (the (lc_heap ?c a))"] by (simp add: usage)
      show "heap_at (refs(e := refs e - 1)) ?c a" for a
        using heap_inv_at [OF i, of a] False e h(3) dec
        by (cases "a = e") (auto simp: heap_at_def split: option.splits)
    qed
    ultimately show ?thesis using h False by (auto simp: label_def)
  qed
qed

end
