(* ===== verification/Ldb_Cache_Properties.thy ===== *)
theory Ldb_Cache_Properties
  imports Ldb_Cache_Inv
begin

text \<open>
  A shard of the cache is the list of its entries in the order of their use.  No operation touches a freed
  handle, and none fails an assertion, as long as clients release only what they hold.
\<close>

section \<open>The invariant of a shard\<close>

text \<open>\<open>out a\<close> is the number of times that clients hold the handle \<open>a\<close>.\<close>

definition cache_inv :: "(nat \<Rightarrow> nat) \<Rightarrow> 'v LRUCache \<Rightarrow> bool" where
  "cache_inv out c \<longleftrightarrow> table_inv (lc_heap c) (lc_table c) \<and> distinct (lc_lru c) \<and> set (lc_lru c) = members (lc_table c)
     \<and> heap_inv (\<lambda>a. out a + (if a \<in> set (lc_lru c) then 1 else 0)) c"

lemma cache_invD:
  assumes "cache_inv out c"
  shows "table_inv (lc_heap c) (lc_table c)" "distinct (lc_lru c)" "set (lc_lru c) = members (lc_table c)"
    "heap_inv (\<lambda>a. out a + (if a \<in> set (lc_lru c) then 1 else 0)) c"
  using assms unfolding cache_inv_def by blast+

definition entries :: "'v LRUCache \<Rightarrow> ((bytes \<times> u32) \<times> 'v) list" where
  "entries c = map (\<lambda>a. the (label (lc_heap c) a)) (lc_lru c)"

lemma label_matches: "matches m key hash a \<Longrightarrow> \<exists>v. label m a = Some ((key, hash), v)"
  by (auto simp: matches_def label_def)

lemma lru_label:
  assumes "cache_inv out c" and "a \<in> set (lc_lru c)"
  shows "\<exists>key hash v. label (lc_heap c) a = Some ((key, hash), v)"
    "fst (the (label (lc_heap c) a)) = (key, hash) \<longleftrightarrow> matches (lc_heap c) key hash a"
  using assms member_dom [of "lc_heap c" "lc_table c" a] by (auto simp: cache_inv_def label_def matches_def)

lemma entries_cong:
  "lc_lru c' = lc_lru c \<Longrightarrow> (\<And>a. a \<in> set (lc_lru c) \<Longrightarrow> label (lc_heap c') a = label (lc_heap c) a) \<Longrightarrow> entries c' = entries c"
  by (simp add: entries_def)

lemma find_append: "find P (xs @ ys) = (case find P xs of None \<Rightarrow> find P ys | Some x \<Rightarrow> Some x)"
  by (induction xs) auto

text \<open>The entries with the charge of each and whether a client holds it.  Dropping an entry gives its charge
  back at once only if no client holds it.  \<open>abs_evict\<close> is what an eviction has to be: the oldest entries
  go, one by one, as long as the usage exceeds the capacity, and no longer.\<close>

definition cost :: "'v handles \<Rightarrow> nat \<Rightarrow> u64" where
  "cost m a = lh_charge (the (m a))"

definition held_entries :: "(nat \<Rightarrow> nat) \<Rightarrow> 'v LRUCache \<Rightarrow> (((bytes \<times> u32) \<times> 'v) \<times> u64 \<times> bool) list" where
  "held_entries out c = map (\<lambda>a. (the (label (lc_heap c) a), cost (lc_heap c) a, 0 < out a)) (lc_lru c)"

definition give_back :: "'e \<times> u64 \<times> bool \<Rightarrow> u64 \<Rightarrow> u64" where
  "give_back = (\<lambda>(e, n, held) u. if held then u else u - n)"

fun abs_evict :: "u64 \<Rightarrow> u64 \<Rightarrow> ('e \<times> u64 \<times> bool) list \<Rightarrow> u64 \<times> ('e \<times> u64 \<times> bool) list" where
  "abs_evict cap u [] = (u, [])"
| "abs_evict cap u (e # es) = (if u > cap then abs_evict cap (give_back e u) es else (u, e # es))"

lemma entries_held: "entries c = map fst (held_entries out c)"
  by (simp add: entries_def held_entries_def comp_def)

lemma held_cong:
  assumes "lc_lru c' = lru" and "\<And>a. a \<in> set lru \<Longrightarrow> label (lc_heap c') a = label m a"
    and "\<And>a. a \<in> set lru \<Longrightarrow> cost (lc_heap c') a = cost m a" and "\<And>a. a \<in> set lru \<Longrightarrow> out' a = out a"
  shows "held_entries out' c' = map (\<lambda>a. (the (label m a), cost m a, 0 < out a)) lru"
  using assms by (simp add: held_entries_def)

lemma key_with:
  assumes i: "cache_inv out c" and r: "\<And>a. r = Some a \<longleftrightarrow> a \<in> members (lc_table c) \<and> matches (lc_heap c) key hash a"
  shows "filter (\<lambda>e. fst (fst e) \<noteq> (key, hash)) (map (\<lambda>a. (the (label (lc_heap c) a), g a)) (lc_lru c))
      = map (\<lambda>a. (the (label (lc_heap c) a), g a)) (case r of None \<Rightarrow> lc_lru c | Some a \<Rightarrow> remove1 a (lc_lru c))"
    "filter (\<lambda>e. fst (fst e) = (key, hash)) (map (\<lambda>a. (the (label (lc_heap c) a), g a)) (lc_lru c))
      = (case r of None \<Rightarrow> [] | Some a \<Rightarrow> [(the (label (lc_heap c) a), g a)])"
proof -
  let ?f = "\<lambda>a. (the (label (lc_heap c) a), g a)"
  note I = cache_invD [OF i]
  have m: "fst (the (label (lc_heap c) a)) = (key, hash) \<longleftrightarrow> r = Some a" if "a \<in> set (lc_lru c)" for a
    using lru_label(2) [OF i that] r [of a] I(3) that by simp
  have "filter (\<lambda>a. r \<noteq> Some a) (lc_lru c) = (case r of None \<Rightarrow> lc_lru c | Some a \<Rightarrow> remove1 a (lc_lru c))"
    using I(2) by (cases r) (simp_all add: distinct_remove1_removeAll removeAll_filter_not_eq eq_commute)
  moreover have "filter (\<lambda>e. fst (fst e) \<noteq> (key, hash)) (map ?f (lc_lru c)) = map ?f (filter (\<lambda>a. r \<noteq> Some a) (lc_lru c))"
    unfolding filter_map using m by (intro arg_cong [where f = "map _"] filter_cong) auto
  ultimately show "filter (\<lambda>e. fst (fst e) \<noteq> (key, hash)) (map ?f (lc_lru c))
      = map ?f (case r of None \<Rightarrow> lc_lru c | Some a \<Rightarrow> remove1 a (lc_lru c))" by simp
  have "filter (\<lambda>e. fst (fst e) = (key, hash)) (map ?f (lc_lru c)) = map ?f (filter (\<lambda>a. r = Some a) (lc_lru c))"
    unfolding filter_map using m by (intro arg_cong [where f = "map _"] filter_cong) auto
  also have "filter (\<lambda>a. r = Some a) (lc_lru c) = (case r of None \<Rightarrow> [] | Some a \<Rightarrow> [a])"
  proof (cases r)
    case (Some a)
    then have "a \<in> set (lc_lru c)" using r [of a] I(3) by simp
    then obtain ys zs where s: "lc_lru c = ys @ a # zs" by (meson split_list)
    then have "filter ((=) a) ys = []" "filter ((=) a) zs = []" using I(2) by (auto simp: filter_empty_conv)
    then show ?thesis using s Some by simp
  qed simp
  finally show "filter (\<lambda>e. fst (fst e) = (key, hash)) (map ?f (lc_lru c)) = (case r of None \<Rightarrow> [] | Some a \<Rightarrow> [?f a])"
    by (cases r) simp_all
qed

text \<open>The handle of a key, found in the table, and its entry in the list.\<close>

lemma entries_key:
  assumes i: "cache_inv out c" and r: "\<And>a. r = Some a \<longleftrightarrow> a \<in> members (lc_table c) \<and> matches (lc_heap c) key hash a"
  shows "map (\<lambda>a. the (label (lc_heap c) a)) (case r of None \<Rightarrow> lc_lru c | Some a \<Rightarrow> remove1 a (lc_lru c))
      = filter (\<lambda>e. fst e \<noteq> (key, hash)) (entries c)"
    "find (\<lambda>e. fst e = (key, hash)) (entries c) = map_option (\<lambda>a. the (label (lc_heap c) a)) r"
proof -
  have m: "fst (the (label (lc_heap c) a)) = (key, hash) \<longleftrightarrow> r = Some a" if "a \<in> set (lc_lru c)" for a
    using lru_label(2) [OF i that] r [of a] i that by (simp add: cache_inv_def)
  have f: "filter (\<lambda>e. fst e \<noteq> (key, hash)) (entries c) = map (\<lambda>a. the (label (lc_heap c) a)) (filter (\<lambda>a. r \<noteq> Some a) (lc_lru c))"
    unfolding entries_def filter_map using m by (intro arg_cong [where f = "map _"] filter_cong) auto
  have "filter (\<lambda>a. r \<noteq> Some a) (lc_lru c) = (case r of None \<Rightarrow> lc_lru c | Some a \<Rightarrow> remove1 a (lc_lru c))"
  proof (cases r)
    case (Some a)
    have "distinct (lc_lru c)" using i by (simp add: cache_inv_def)
    then show ?thesis using Some by (simp add: distinct_remove1_removeAll removeAll_filter_not_eq eq_commute)
  qed simp
  then show "map (\<lambda>a. the (label (lc_heap c) a)) (case r of None \<Rightarrow> lc_lru c | Some a \<Rightarrow> remove1 a (lc_lru c))
      = filter (\<lambda>e. fst e \<noteq> (key, hash)) (entries c)" using f by simp
  show "find (\<lambda>e. fst e = (key, hash)) (entries c) = map_option (\<lambda>a. the (label (lc_heap c) a)) r"
  proof (cases r)
    case None
    then show ?thesis using m by (auto simp: find_None_iff entries_def)
  next
    case (Some a)
    have "a \<in> set (lc_lru c)" using r [of a] Some cache_invD(3) [OF i] by simp
    then obtain ys zs where s: "lc_lru c = ys @ a # zs" by (meson split_list)
    then have "find (\<lambda>e. fst e = (key, hash)) (map (\<lambda>a. the (label (lc_heap c) a)) ys) = None"
      using m Some i by (auto simp: find_None_iff cache_inv_def)
    then show ?thesis using s m [of a] Some by (simp add: entries_def find_append)
  qed
qed

section \<open>The operations\<close>

text \<open>What dropping a reference does to the charges.\<close>

lemma Unref_cost: "Unref e c = Inr c' \<Longrightarrow> label (lc_heap c') a \<noteq> None \<Longrightarrow> cost (lc_heap c') a = cost (lc_heap c) a"
  by (auto simp: Unref_def res_simps Let_def deref_def cost_def label_def split: if_splits option.splits)

lemma Unref_usage:
  assumes u: "Unref e c = Inr c'" and i: "heap_inv refs c"
  shows "lc_usage c' = (if refs e = 1 then lc_usage c - cost (lc_heap c) e else lc_usage c)"
proof -
  obtain h where h: "lc_heap c e = Some h" "lh_refs h > 0"
    using u by (auto simp: Unref_def res_simps deref_def split: if_splits option.splits)
  then have n: "unat (lh_refs h) = refs e" using heap_inv_at [OF i, of e] by (simp add: heap_at_def)
  have "lh_refs h - 1 \<le> 0 \<longleftrightarrow> refs e = 1"
    using n h(2) by (metis One_nat_def Suc_pred diff_is_0_eq' le_refl unat_eq_zero unat_gt_0 unat_minus_one word_gt_0 word_le_0_iff)
  then show ?thesis using u h by (auto simp: Unref_def deref_def Let_def cost_def split: if_splits)
qed

text \<open>A handle that has left the table and the list loses the reference of the cache.\<close>

lemma drop_ok:
  assumes t: "table_inv (lc_heap c) (lc_table c)" "distinct (lc_lru c)" "set (lc_lru c) = members (lc_table c)"
    and h: "heap_inv (\<lambda>x. out x + (if x \<in> insert a (set (lc_lru c)) then 1 else 0)) c" and a: "a \<notin> set (lc_lru c)"
  shows "\<exists>c'. Unref a c = Inr c' \<and> cache_inv out c' \<and> lc_lru c' = lc_lru c \<and> lc_capacity c' = lc_capacity c \<and> lc_next c' = lc_next c
    \<and> (\<forall>x. x \<in> set (lc_lru c) \<or> 0 < out x \<longrightarrow> label (lc_heap c') x = label (lc_heap c) x)
    \<and> lc_usage c' = give_back (e, cost (lc_heap c) a, 0 < out a) (lc_usage c)
    \<and> (\<forall>x. label (lc_heap c') x \<noteq> None \<longrightarrow> cost (lc_heap c') x = cost (lc_heap c) x)"
proof -
  let ?refs = "\<lambda>x. out x + (if x \<in> insert a (set (lc_lru c)) then 1 else 0)"
  have "0 < ?refs a" by simp
  from Unref_ok [OF h this] obtain c' where u: "Unref a c = Inr c'" "heap_inv (?refs(a := ?refs a - 1)) c'"
      "\<forall>x. x \<noteq> a \<or> ?refs a \<noteq> 1 \<longrightarrow> label (lc_heap c') x = label (lc_heap c) x" by blast
  note k = Unref_keeps [OF u(1)]
  have l: "label (lc_heap c') x = label (lc_heap c) x" if "x \<in> set (lc_lru c) \<or> 0 < out x" for x
    using u(3) that a by (cases "x = a") auto
  have "?refs(a := ?refs a - 1) = (\<lambda>x. out x + (if x \<in> set (lc_lru c') then 1 else 0))" using a k by auto
  moreover have "table_inv (lc_heap c') (lc_table c')" using table_inv_cong [OF t(1)] l t(3) k by simp
  ultimately have "cache_inv out c'" using u(2) t k by (simp add: cache_inv_def)
  moreover have "lc_usage c' = give_back (e, cost (lc_heap c) a, 0 < out a) (lc_usage c)"
    using Unref_usage [OF u(1) h] by (simp add: give_back_def)
  moreover have "\<forall>x. label (lc_heap c') x \<noteq> None \<longrightarrow> cost (lc_heap c') x = cost (lc_heap c) x"
    using Unref_cost [OF u(1)] by blast
  ultimately show ?thesis using u(1) k l by (intro exI [of _ c'] conjI) simp_all
qed

lemma Release_ok:
  assumes i: "cache_inv out c" and a: "0 < out a"
  shows "\<exists>c'. lru_Release a c = Inr c' \<and> cache_inv (out(a := out a - 1)) c' \<and> entries c' = entries c \<and> lc_capacity c' = lc_capacity c
    \<and> (\<forall>x. x \<in> set (lc_lru c) \<or> x \<noteq> a \<longrightarrow> label (lc_heap c') x = label (lc_heap c) x)"
proof -
  let ?refs = "\<lambda>x. out x + (if x \<in> set (lc_lru c) then 1 else 0)"
  have pos: "0 < ?refs a" using a by simp
  from Unref_ok [OF cache_invD(4) [OF i] pos] obtain c' where u: "Unref a c = Inr c'" "heap_inv (?refs(a := ?refs a - 1)) c'"
      "\<forall>x. x \<noteq> a \<or> ?refs a \<noteq> 1 \<longrightarrow> label (lc_heap c') x = label (lc_heap c) x" by blast
  note k = Unref_keeps [OF u(1)]
  have l: "label (lc_heap c') x = label (lc_heap c) x" if "x \<in> set (lc_lru c) \<or> x \<noteq> a" for x
    using u(3) that a by (cases "x = a") auto
  have "?refs(a := ?refs a - 1) = (\<lambda>x. (out(a := out a - 1)) x + (if x \<in> set (lc_lru c') then 1 else 0))" using a k by auto
  moreover have "table_inv (lc_heap c') (lc_table c')" using table_inv_cong [of "lc_heap c" "lc_table c"] i l k by (simp add: cache_inv_def)
  ultimately have "cache_inv (out(a := out a - 1)) c'" using u(2) i k by (simp add: cache_inv_def)
  then show ?thesis using u(1) k l entries_cong [of c' c] by (auto simp: lru_Release_def)
qed

lemma Lookup_ok:
  assumes i: "cache_inv out c" and small: "\<And>a. out a < 2 ^ 32 - 2"
  shows "\<exists>r c'. lru_Lookup key hash c = Inr (r, c') \<and> lc_capacity c' = lc_capacity c
    \<and> (case r of None \<Rightarrow> find (\<lambda>e. fst e = (key, hash)) (entries c) = None \<and> c' = c
       | Some a \<Rightarrow> \<exists>v. find (\<lambda>e. fst e = (key, hash)) (entries c) = Some ((key, hash), v) \<and> label (lc_heap c') a = Some ((key, hash), v)
           \<and> entries c' = filter (\<lambda>e. fst e \<noteq> (key, hash)) (entries c) @ [((key, hash), v)]
           \<and> cache_inv (out(a := out a + 1)) c')"
proof -
  have t: "table_inv (lc_heap c) (lc_table c)" and s: "set (lc_lru c) = members (lc_table c)" using i by (simp_all add: cache_inv_def)
  obtain r where r: "table_Lookup (lc_heap c) key hash (lc_table c) = Inr r"
      "\<And>a. r = Some a \<longleftrightarrow> a \<in> members (lc_table c) \<and> matches (lc_heap c) key hash a"
    using table_Lookup_ok [OF t] by blast
  note E = entries_key [OF i r(2)]
  show ?thesis
  proof (cases r)
    case None
    then show ?thesis using r(1) E(2) by (simp add: lru_Lookup_def)
  next
    case (Some a)
    then have a: "a \<in> set (lc_lru c)" "matches (lc_heap c) key hash a" using r(2) s by auto
    obtain v where v: "label (lc_heap c) a = Some ((key, hash), v)" using label_matches [OF a(2)] by blast
    obtain h where h: "lc_heap c a = Some h" using a(2) by (auto simp: matches_def)
    let ?heap = "(lc_heap c)(a \<mapsto> h\<lparr>lh_refs := lh_refs h + 1\<rparr>)"
    let ?c = "c\<lparr>lc_heap := ?heap, lc_lru := remove1 a (lc_lru c) @ [a]\<rparr>"
    have run: "lru_Lookup key hash c = Inr (Some a, ?c)"
      using r(1) Some h a(1) by (simp add: lru_Lookup_def deref_def LRU_Remove_def LRU_Append_def Let_def)
    have l: "label ?heap x = label (lc_heap c) x" for x using h by (simp add: label_def)
    have dist: "distinct (lc_lru c)" using i by (simp add: cache_inv_def)
    have set: "set (lc_lru ?c) = set (lc_lru c)" using a(1) dist by (auto simp: set_remove1_eq)
    note hi = cache_invD(4) [OF i]
    have n: "unat (lh_refs h) = out a + 1" using heap_inv_at [OF hi, of a] h a(1) by (simp add: heap_at_def)
    then have inc: "unat (lh_refs h + 1) = out a + 2" using small [of a] by (simp add: unat_word_ariths)
    have hi': "heap_inv (\<lambda>x. (out(a := out a + 1)) x + (if x \<in> set (lc_lru ?c) then 1 else 0)) ?c"
    proof (rule heap_invI)
      have d: "dom (lc_heap ?c) = dom (lc_heap c)" using h by auto
      show "lc_usage ?c = (\<Sum>x \<in> dom (lc_heap ?c). lh_charge (the (lc_heap ?c x)))"
        unfolding d using hi h by (simp add: heap_inv_def) (rule sum.cong, auto)
      show "heap_at (\<lambda>x. (out(a := out a + 1)) x + (if x \<in> set (lc_lru ?c) then 1 else 0)) ?c x" for x
        unfolding set using heap_inv_at [OF hi, of x] h a(1) inc by (cases "x = a") (auto simp: heap_at_def split: option.splits)
    qed
    have "table_inv (lc_heap ?c) (lc_table ?c)" using table_inv_cong [OF t] l by simp
    moreover have "distinct (lc_lru ?c)" "set (lc_lru ?c) = members (lc_table ?c)" using dist set s by (simp_all add: distinct_remove1)
    ultimately have "cache_inv (out(a := out a + 1)) ?c" using hi' unfolding cache_inv_def by blast
    moreover have "entries ?c = filter (\<lambda>e. fst e \<noteq> (key, hash)) (entries c) @ [((key, hash), v)]"
      using E(1) Some v l by (simp add: entries_def)
    ultimately show ?thesis using run E(2) Some v l by auto
  qed
qed

lemma evict_ok:
  "cache_inv out c \<Longrightarrow> \<exists>c' n. evict c = Inr c' \<and> cache_inv out c' \<and> lc_lru c' = drop n (lc_lru c) \<and> lc_capacity c' = lc_capacity c
     \<and> lc_next c' = lc_next c \<and> (lc_usage c' \<le> lc_capacity c' \<or> lc_lru c' = []) \<and> (lc_usage c \<le> lc_capacity c \<longrightarrow> n = 0)
     \<and> (\<forall>x. x \<in> set (lc_lru c') \<or> 0 < out x \<longrightarrow> label (lc_heap c') x = label (lc_heap c) x)
     \<and> (lc_usage c', held_entries out c') = abs_evict (lc_capacity c) (lc_usage c) (held_entries out c)"
proof (induction c rule: evict.induct)
  case (1 c)
  show ?case
  proof (cases "lc_usage c > lc_capacity c \<and> lc_lru c \<noteq> []")
    case False
    then have "evict c = Inr c" by (subst evict.simps) (auto split: list.splits)
    moreover have "abs_evict (lc_capacity c) (lc_usage c) (held_entries out c) = (lc_usage c, held_entries out c)"
      using False by (cases "lc_lru c") (auto simp: held_entries_def)
    ultimately show ?thesis using 1(2) False by (intro exI [of _ c] exI [of _ 0]) (auto simp: not_less)
  next
    case True
    then obtain a rest where l: "lc_lru c = a # rest" by (cases "lc_lru c") auto
    note I = cache_invD [OF 1(2)]
    have "a \<in> members (lc_table c)" using I(3) l by auto
    then obtain h where h: "lc_heap c a = Some h" using member_dom [OF I(1)] by blast
    obtain r t where t: "table_Remove (lc_heap c) (lh_key h) (lh_hash h) (lc_table c) = Inr (r, t)"
        "\<And>b. r = Some b \<longleftrightarrow> b \<in> members (lc_table c) \<and> matches (lc_heap c) (lh_key h) (lh_hash h) b"
        "table_inv (lc_heap c) t" "members t = members (lc_table c) - set_option r"
      using table_Remove_ok [OF I(1)] by blast
    have "r = Some a" using t(2) [of a] \<open>a \<in> members (lc_table c)\<close> h by (simp add: matches_def)
    let ?c = "c\<lparr>lc_lru := rest, lc_table := t\<rparr>"
    have s: "distinct (lc_lru ?c)" "set (lc_lru ?c) = members (lc_table ?c)" "a \<notin> set (lc_lru ?c)"
      using I(2,3) l t(4) \<open>r = Some a\<close> by auto
    have hi: "heap_inv (\<lambda>x. out x + (if x \<in> insert a (set (lc_lru ?c)) then 1 else 0)) ?c"
      by (rule heap_inv_frame [OF I(4)]) (simp_all add: l)
    obtain c1 where c1: "Unref a ?c = Inr c1" "cache_inv out c1" "lc_lru c1 = rest" "lc_capacity c1 = lc_capacity c" "lc_next c1 = lc_next c"
        "\<forall>x. x \<in> set rest \<or> 0 < out x \<longrightarrow> label (lc_heap c1) x = label (lc_heap c) x"
        "lc_usage c1 = give_back (the (label (lc_heap c) a), cost (lc_heap c) a, 0 < out a) (lc_usage c)"
        "\<forall>x. label (lc_heap c1) x \<noteq> None \<longrightarrow> cost (lc_heap c1) x = cost (lc_heap c) x"
      using drop_ok [OF _ s(1,2) hi s(3), of "the (label (lc_heap c) a)"] t(3) by auto
    have lab: "label (lc_heap c1) x \<noteq> None" if "x \<in> set rest" for x
      using lru_label(1) [OF c1(2), of x] that c1(3) by force
    have "held_entries out c1 = map (\<lambda>a. (the (label (lc_heap c) a), cost (lc_heap c) a, 0 < out a)) rest"
      using c1(3,6,8) lab by (intro held_cong) auto
    then have held: "held_entries out c = (the (label (lc_heap c) a), cost (lc_heap c) a, 0 < out a) # held_entries out c1"
      by (simp add: held_entries_def l)
    have dh: "deref (lc_heap c) a = Inr h" using h by (simp add: deref_def)
    have pre: "lc_capacity c < lc_usage c" using True by simp
    obtain c' n where c': "evict c1 = Inr c'" "cache_inv out c'" "lc_lru c' = drop n rest" "lc_capacity c' = lc_capacity c1" "lc_next c' = lc_next c1"
        "lc_usage c' \<le> lc_capacity c' \<or> lc_lru c' = []"
        "\<forall>x. x \<in> set (lc_lru c') \<or> 0 < out x \<longrightarrow> label (lc_heap c') x = label (lc_heap c1) x"
        "(lc_usage c', held_entries out c') = abs_evict (lc_capacity c1) (lc_usage c1) (held_entries out c1)"
      using 1(1) [OF pre l dh t(1) refl c1(1,2)] unfolding c1(3) by blast
    have "evict c = Inr c'" using pre l h t(1) c1(1) c'(1) by (subst evict.simps) (simp add: deref_def)
    moreover have "lc_lru c' = drop (Suc n) (lc_lru c)" using c'(3) l by simp
    moreover have "set (lc_lru c') \<subseteq> set rest" using c'(3) by (simp add: set_drop_subset)
    moreover have "(lc_usage c', held_entries out c') = abs_evict (lc_capacity c) (lc_usage c) (held_entries out c)"
      using c'(8) held pre c1(4,7) by simp
    ultimately show ?thesis using c' c1 pre by (intro exI [of _ c'] exI [of _ "Suc n"]) auto
  qed
qed

lemma entries_drop:
  assumes "lc_lru c' = drop n (lc_lru c)" and "\<And>x. x \<in> set (lc_lru c') \<Longrightarrow> label (lc_heap c') x = label (lc_heap c) x"
  shows "entries c' = drop n (entries c)"
  using assms by (simp add: entries_def drop_map)

text \<open>The entry under a key leaves the table and the list.\<close>

lemma unlink_ok:
  assumes i: "cache_inv out c" and t: "table_inv (lc_heap c) t" "members t = members (lc_table c) - {a}" and a: "a \<in> members (lc_table c)"
  shows "\<exists>c'. and_then (LRU_Remove a (c\<lparr>lc_table := t\<rparr>)) (Unref a) = Inr c' \<and> cache_inv out c' \<and> lc_lru c' = remove1 a (lc_lru c)
    \<and> lc_capacity c' = lc_capacity c \<and> lc_next c' = lc_next c
    \<and> (\<forall>x. x \<in> set (lc_lru c') \<or> 0 < out x \<longrightarrow> label (lc_heap c') x = label (lc_heap c) x)"
proof -
  note I = cache_invD [OF i]
  let ?c = "c\<lparr>lc_table := t, lc_lru := remove1 a (lc_lru c)\<rparr>"
  have s: "distinct (lc_lru ?c)" "set (lc_lru ?c) = members (lc_table ?c)" "a \<notin> set (lc_lru ?c)"
    using I(2,3) t(2) by (simp_all add: set_remove1_eq distinct_remove1)
  have "insert a (set (lc_lru ?c)) = set (lc_lru c)" using I(2,3) a by (auto simp: set_remove1_eq)
  then have hi: "heap_inv (\<lambda>x. out x + (if x \<in> insert a (set (lc_lru ?c)) then 1 else 0)) ?c"
    by (intro heap_inv_frame [OF I(4)]) simp_all
  have t1: "table_inv (lc_heap ?c) (lc_table ?c)" using t(1) by simp
  have "a \<in> set (lc_lru c)" using I(3) a by simp
  then have "LRU_Remove a (c\<lparr>lc_table := t\<rparr>) = Inr ?c" by (simp add: LRU_Remove_def)
  then show ?thesis using drop_ok [OF t1 s(1,2) hi s(3)] by fastforce
qed

lemma Erase_ok:
  assumes i: "cache_inv out c"
  shows "\<exists>c'. lru_Erase key hash c = Inr c' \<and> cache_inv out c' \<and> lc_capacity c' = lc_capacity c
    \<and> entries c' = filter (\<lambda>e. fst e \<noteq> (key, hash)) (entries c)"
proof -
  note I = cache_invD [OF i]
  obtain r t where t: "table_Remove (lc_heap c) key hash (lc_table c) = Inr (r, t)"
      "\<And>b. r = Some b \<longleftrightarrow> b \<in> members (lc_table c) \<and> matches (lc_heap c) key hash b"
      "table_inv (lc_heap c) t" "members t = members (lc_table c) - set_option r"
    using table_Remove_ok [OF I(1)] by blast
  note E = entries_key(1) [OF i t(2)]
  show ?thesis
  proof (cases r)
    case None
    let ?c = "c\<lparr>lc_table := t\<rparr>"
    have "heap_inv (\<lambda>a. out a + (if a \<in> set (lc_lru ?c) then 1 else 0)) ?c" by (rule heap_inv_frame [OF I(4)]) simp_all
    then have "cache_inv out ?c" using I(2,3) t(3,4) None unfolding cache_inv_def by (intro conjI) simp_all
    then show ?thesis using t(1) None E by (simp add: lru_Erase_def entries_def)
  next
    case (Some a)
    have a: "a \<in> members (lc_table c)" using t(2) [of a] Some by simp
    have m: "members t = members (lc_table c) - {a}" using t(4) Some by simp
    obtain c' where c': "and_then (LRU_Remove a (c\<lparr>lc_table := t\<rparr>)) (Unref a) = Inr c'" "cache_inv out c'" "lc_lru c' = remove1 a (lc_lru c)"
        "lc_capacity c' = lc_capacity c" "\<forall>x. x \<in> set (lc_lru c') \<or> 0 < out x \<longrightarrow> label (lc_heap c') x = label (lc_heap c) x"
      using unlink_ok [OF i t(3) m a] by blast
    have "entries c' = map (\<lambda>a. the (label (lc_heap c) a)) (remove1 a (lc_lru c))" using c'(3,5) by (simp add: entries_def)
    then show ?thesis using t(1) Some c' E by (simp add: lru_Erase_def Let_def)
  qed
qed

text \<open>The new handle before the table knows it.\<close>

lemma new_handle:
  assumes i: "cache_inv out c" and h: "lh_refs h = 2" "lh_charge h = charge"
    and c1: "c1 = c\<lparr>lc_next := lc_next c + 1, lc_heap := (lc_heap c)(lc_next c \<mapsto> h), lc_lru := lc_lru c @ [lc_next c],
      lc_usage := lc_usage c + charge\<rparr>"
  shows "lc_heap c (lc_next c) = None" "lc_next c \<notin> set (lc_lru c)" "out (lc_next c) = 0"
    "heap_inv (\<lambda>x. (out(lc_next c := 1)) x + (if x \<in> set (lc_lru c1) then 1 else 0)) c1"
proof -
  note I = cache_invD [OF i]
  let ?a = "lc_next c"
  have at: "heap_at (\<lambda>x. out x + (if x \<in> set (lc_lru c) then 1 else 0)) c x" for x by (rule heap_inv_at [OF I(4)])
  show none: "lc_heap c ?a = None" using at [of ?a] by (auto simp: heap_at_def split: option.splits)
  then show fresh: "?a \<notin> set (lc_lru c)" and "out ?a = 0" using at [of ?a] by (auto simp: heap_at_def split: if_splits)
  show "heap_inv (\<lambda>x. (out(?a := 1)) x + (if x \<in> set (lc_lru c1) then 1 else 0)) c1"
  proof (rule heap_invI)
    have "(\<Sum>x \<in> dom (lc_heap c). lh_charge (the (lc_heap c1 x))) = (\<Sum>x \<in> dom (lc_heap c). lh_charge (the (lc_heap c x)))"
      by (rule sum.cong) (use none c1 in auto)
    moreover have "dom (lc_heap c1) = insert ?a (dom (lc_heap c))" "?a \<notin> dom (lc_heap c)" using none c1 by auto
    ultimately show "lc_usage c1 = (\<Sum>x \<in> dom (lc_heap c1). lh_charge (the (lc_heap c1 x)))"
      using heap_finite [OF I(4)] I(4) c1 h(2) by (simp add: heap_inv_def add.commute)
    show "heap_at (\<lambda>x. (out(?a := 1)) x + (if x \<in> set (lc_lru c1) then 1 else 0)) c1 x" for x
      using at [of x] h(1) c1 by (cases "x = ?a") (auto simp: heap_at_def split: option.splits)
  qed
qed

lemma Insert_ok:
  assumes i: "cache_inv out c"
  shows "\<exists>a c' n. lru_Insert key hash v charge c = Inr (a, c') \<and> out a = 0 \<and> cache_inv (out(a := 1)) c' \<and> lc_capacity c' = lc_capacity c
    \<and> label (lc_heap c') a = Some ((key, hash), v)
    \<and> entries c' = drop n (filter (\<lambda>e. fst e \<noteq> (key, hash)) (entries c) @ [((key, hash), v)])
    \<and> (lc_usage c' \<le> lc_capacity c \<or> entries c' = [])
    \<and> (lc_usage c', held_entries (out(a := 1)) c') = abs_evict (lc_capacity c)
        (fold give_back (filter (\<lambda>e. fst (fst e) = (key, hash)) (held_entries out c)) (lc_usage c + charge))
        (filter (\<lambda>e. fst (fst e) \<noteq> (key, hash)) (held_entries out c) @ [(((key, hash), v), charge, True)])"
proof -
  note I = cache_invD [OF i]
  define a where "a = lc_next c"
  define h where "h = \<lparr>lh_value = v, lh_charge = charge, lh_refs = 2, lh_hash = hash, lh_key = key\<rparr>"
  define c1 where "c1 = c\<lparr>lc_next := lc_next c + 1, lc_heap := (lc_heap c)(lc_next c \<mapsto> h), lc_lru := lc_lru c @ [lc_next c],
      lc_usage := lc_usage c + charge\<rparr>"
  have "lh_refs h = 2" "lh_charge h = charge" by (simp_all add: h_def)
  note N = new_handle [OF i this c1_def, folded a_def]
  have l1: "label (lc_heap c1) a = Some ((key, hash), v)" by (simp add: label_def c1_def h_def a_def)
  have l: "label (lc_heap c1) x = label (lc_heap c) x" if "x \<noteq> a" for x using that by (simp add: label_def c1_def a_def)
  have na: "a \<notin> members (lc_table c)" using N(2) I(3) by simp
  have t1: "table_inv (lc_heap c1) (lc_table c)"
  proof (rule table_inv_cong [OF I(1)])
    show "label (lc_heap c1) x = label (lc_heap c) x" if "x \<in> members (lc_table c)" for x using l [of x] na that by blast
  qed
  have ha: "lc_heap c1 a = Some h" by (simp add: c1_def a_def)
  obtain r t where t: "table_Insert (lc_heap c1) a (lc_table c) = Inr (r, t)"
      "\<And>b. r = Some b \<longleftrightarrow> b \<in> members (lc_table c) \<and> matches (lc_heap c1) key hash b"
      "table_inv (lc_heap c1) t" "members t = insert a (members (lc_table c) - set_option r)"
    using table_Insert_ok [OF t1 ha na] by (auto simp: h_def)
  have "matches (lc_heap c1) key hash b = matches (lc_heap c) key hash b" if "b \<in> members (lc_table c)" for b
    using that na by (auto simp: matches_def c1_def a_def)
  then have r: "r = Some b \<longleftrightarrow> b \<in> members (lc_table c) \<and> matches (lc_heap c) key hash b" for b using t(2) by blast
  note E = entries_key(1) [OF i r]
  let ?out = "out(a := 1)" and ?lru = "(case r of None \<Rightarrow> lc_lru c | Some b \<Rightarrow> remove1 b (lc_lru c)) @ [a]"
  let ?step = "case r of None \<Rightarrow> Inr (c1\<lparr>lc_table := t\<rparr>)
      | Some old \<Rightarrow> and_then (LRU_Remove old (c1\<lparr>lc_table := t\<rparr>)) (Unref old)"
  have "\<exists>c2. ?step = Inr c2 \<and> cache_inv ?out c2 \<and> lc_lru c2 = ?lru \<and> lc_capacity c2 = lc_capacity c
      \<and> (\<forall>x. x \<in> set (lc_lru c2) \<or> 0 < ?out x \<longrightarrow> label (lc_heap c2) x = label (lc_heap c1) x)
      \<and> lc_usage c2 = fold give_back (case r of None \<Rightarrow> [] | Some b \<Rightarrow> [(the (label (lc_heap c) b), cost (lc_heap c) b, 0 < out b)])
          (lc_usage c + charge)
      \<and> (\<forall>x. label (lc_heap c2) x \<noteq> None \<longrightarrow> cost (lc_heap c2) x = cost (lc_heap c1) x)"
  proof (cases r)
    case None
    let ?c = "c1\<lparr>lc_table := t\<rparr>"
    have "heap_inv (\<lambda>x. ?out x + (if x \<in> set (lc_lru ?c) then 1 else 0)) ?c" by (rule heap_inv_frame [OF N(4)]) simp_all
    moreover have "distinct (lc_lru ?c)" "set (lc_lru ?c) = members t" using I(2,3) N(2) None t(4) by (auto simp: c1_def a_def)
    ultimately have "cache_inv ?out ?c" using t(3) unfolding cache_inv_def by simp
    then show ?thesis using None by (simp add: c1_def a_def)
  next
    case (Some b)
    have b: "b \<in> set (lc_lru c)" "b \<noteq> a" using r [of b] Some I(3) na by auto
    let ?c = "c1\<lparr>lc_table := t, lc_lru := ?lru\<rparr>"
    have s: "distinct (lc_lru ?c)" "set (lc_lru ?c) = members (lc_table ?c)" "b \<notin> set (lc_lru ?c)"
      using I(2,3) N(2) b Some t(4) by (auto simp: set_remove1_eq distinct_remove1)
    have ins: "insert b (set (lc_lru ?c)) = set (lc_lru c1)" using b I(2) Some by (auto simp: set_remove1_eq c1_def a_def)
    have hi: "heap_inv (\<lambda>x. ?out x + (if x \<in> insert b (set (lc_lru ?c)) then 1 else 0)) ?c"
      unfolding ins by (rule heap_inv_frame [OF N(4)]) simp_all
    have rm: "LRU_Remove b (c1\<lparr>lc_table := t\<rparr>) = Inr ?c" using b Some by (simp add: LRU_Remove_def c1_def a_def remove1_append)
    have t3: "table_inv (lc_heap ?c) (lc_table ?c)" using t(3) by simp
    obtain c' where "Unref b ?c = Inr c'" "cache_inv ?out c'" "lc_lru c' = lc_lru ?c" "lc_capacity c' = lc_capacity ?c"
        "\<forall>x. x \<in> set (lc_lru ?c) \<or> 0 < ?out x \<longrightarrow> label (lc_heap c') x = label (lc_heap ?c) x"
        "lc_usage c' = give_back (the (label (lc_heap c) b), cost (lc_heap ?c) b, 0 < ?out b) (lc_usage ?c)"
        "\<forall>x. label (lc_heap c') x \<noteq> None \<longrightarrow> cost (lc_heap c') x = cost (lc_heap ?c) x"
      using drop_ok [OF t3 s(1,2) hi s(3), of "the (label (lc_heap c) b)"] by blast
    moreover have "cost (lc_heap c1) b = cost (lc_heap c) b" using b(2) by (simp add: cost_def c1_def a_def)
    ultimately show ?thesis unfolding Some option.case rm and_then.simps using b(2)
      by (intro exI [of _ c']) (simp add: c1_def Some)
  qed
  then obtain c2 where c2: "?step = Inr c2" "cache_inv ?out c2" "lc_lru c2 = ?lru" "lc_capacity c2 = lc_capacity c"
      "\<And>x. x \<in> set (lc_lru c2) \<or> 0 < ?out x \<Longrightarrow> label (lc_heap c2) x = label (lc_heap c1) x"
      "lc_usage c2 = fold give_back (case r of None \<Rightarrow> [] | Some b \<Rightarrow> [(the (label (lc_heap c) b), cost (lc_heap c) b, 0 < out b)])
          (lc_usage c + charge)"
      "\<And>x. label (lc_heap c2) x \<noteq> None \<Longrightarrow> cost (lc_heap c2) x = cost (lc_heap c1) x" by blast
  let ?kept = "case r of None \<Rightarrow> lc_lru c | Some b \<Rightarrow> remove1 b (lc_lru c)"
  have kept: "label (lc_heap c2) x = label (lc_heap c) x \<and> cost (lc_heap c2) x = cost (lc_heap c) x \<and> x \<noteq> a"
    if x: "x \<in> set ?kept" for x
  proof -
    have x': "x \<in> set (lc_lru c)" using x set_remove1_subset by (fastforce split: option.splits)
    then have na: "x \<noteq> a" using N(2) by blast
    then have lb: "label (lc_heap c2) x = label (lc_heap c) x" using l [of x] c2(3,5) x by auto
    moreover have "label (lc_heap c2) x \<noteq> None" using lru_label(1) [OF i x'] lb by auto
    ultimately show ?thesis using c2(7) [of x] na by (simp add: cost_def c1_def a_def)
  qed
  have "label (lc_heap c2) a = Some ((key, hash), v)" using c2(5) [of a] l1 by simp
  moreover from this have "cost (lc_heap c2) a = charge" using c2(7) [of a] by (simp add: cost_def c1_def a_def h_def)
  ultimately have "held_entries ?out c2 = map (\<lambda>a. (the (label (lc_heap c) a), cost (lc_heap c) a, 0 < out a)) ?kept
      @ [(((key, hash), v), charge, True)]"
    using kept by (simp add: held_entries_def c2(3))
  then have h2: "held_entries ?out c2 = filter (\<lambda>e. fst (fst e) \<noteq> (key, hash)) (held_entries out c) @ [(((key, hash), v), charge, True)]"
    using key_with(1) [OF i r, where g = "\<lambda>a. (cost (lc_heap c) a, 0 < out a)"] by (simp add: held_entries_def)
  have u2: "lc_usage c2 = fold give_back (filter (\<lambda>e. fst (fst e) = (key, hash)) (held_entries out c)) (lc_usage c + charge)"
    using c2(6) key_with(2) [OF i r, where g = "\<lambda>a. (cost (lc_heap c) a, 0 < out a)"]
    by (simp add: held_entries_def)
  have "entries c2 = map (\<lambda>a. the (label (lc_heap c) a)) ?kept @ [((key, hash), v)]"
    unfolding entries_def c2(3) using c2(5) [of a] l1 kept by simp
  then have e2: "entries c2 = filter (\<lambda>e. fst e \<noteq> (key, hash)) (entries c) @ [((key, hash), v)]" using E by simp
  obtain c' n where c': "evict c2 = Inr c'" "cache_inv ?out c'" "lc_lru c' = drop n (lc_lru c2)" "lc_capacity c' = lc_capacity c2"
      "lc_usage c' \<le> lc_capacity c' \<or> lc_lru c' = []"
      "\<And>x. x \<in> set (lc_lru c') \<or> 0 < ?out x \<Longrightarrow> label (lc_heap c') x = label (lc_heap c2) x"
      "(lc_usage c', held_entries ?out c') = abs_evict (lc_capacity c2) (lc_usage c2) (held_entries ?out c2)"
    using evict_ok [OF c2(2)] by blast
  have "lru_Insert key hash v charge c = Inr (a, c')"
    using t(1) c2(1) c'(1) unfolding lru_Insert_def Let_def LRU_Append_def by (simp add: c1_def h_def a_def split: option.splits)
  moreover have "entries c' = drop n (entries c2)" using entries_drop [OF c'(3)] c'(6) by blast
  moreover have "label (lc_heap c') a = Some ((key, hash), v)" using c'(6) [of a] c2(5) [of a] l1 by simp
  ultimately show ?thesis using N(3) c'(2,4,5) c'(7) [unfolded h2 u2] c2(4) e2
    by (intro exI [of _ a] exI [of _ c'] exI [of _ n]) (auto simp: entries_def)
qed

section \<open>A new cache, and the end of a cache\<close>

lemma newHandleTable_eq: "newHandleTable = Inr \<lparr>ht_length = 4, ht_elems = 0, ht_list = [[], [], [], []]\<rparr>"
  by (simp add: newHandleTable_def table_Resize_def new_length_loop.simps eval_nat_numeral)

lemma newLRUCache_ok:
  "newLRUCache = Inr \<lparr>lc_capacity = 0, lc_usage = 0, lc_lru = [], lc_table = \<lparr>ht_length = 4, ht_elems = 0, ht_list = [[], [], [], []]\<rparr>,
     lc_heap = Map.empty, lc_next = 0, lc_deleted = []\<rparr>"
  by (simp add: newLRUCache_def newHandleTable_eq)

lemma newLRUCache_inv: "newLRUCache = Inr c \<Longrightarrow> cache_inv (\<lambda>_. 0) c \<and> entries c = []"
  by (auto simp: newLRUCache_ok cache_inv_def table_inv_def members_def heap_inv_def heap_at_def entries_def less_Suc_eq numeral_eq_Suc)

lemma SetCapacity_inv:
  assumes "cache_inv out c"
  shows "cache_inv out (SetCapacity n c)" "entries (SetCapacity n c) = entries c"
proof -
  let ?c = "c\<lparr>lc_capacity := n\<rparr>"
  have "heap_inv (\<lambda>a. out a + (if a \<in> set (lc_lru ?c) then 1 else 0)) ?c" by (rule heap_inv_frame [OF cache_invD(4) [OF assms]]) simp_all
  then show "cache_inv out (SetCapacity n c)" using cache_invD(1-3) [OF assms] unfolding SetCapacity_def cache_inv_def by simp
qed (simp add: SetCapacity_def entries_def)

text \<open>When no client holds a handle, the destructor frees every entry.\<close>

lemma unref_all_ok:
  "distinct es \<Longrightarrow> heap_inv (\<lambda>a. if a \<in> set es then 1 else 0) c \<Longrightarrow> \<exists>c'. unref_all es c = Inr c' \<and> lc_heap c' = Map.empty \<and> lc_usage c' = 0"
proof (induction es arbitrary: c)
  case Nil
  then have "lc_heap c a = None" for a using heap_inv_at [of _ c a] by (fastforce simp: heap_at_def split: option.splits)
  then have "lc_heap c = Map.empty" by auto
  then show ?case using Nil(2) by (simp add: heap_inv_def)
next
  case (Cons e es)
  let ?refs = "\<lambda>a. if a \<in> set (e # es) then 1 else (0 :: nat)"
  have pos: "0 < ?refs e" by simp
  from Unref_ok [OF Cons.prems(2) pos] obtain c' h where u: "Unref e c = Inr c'" "heap_inv (?refs(e := ?refs e - 1)) c'" "lc_heap c e = Some h"
    by blast
  have "lh_refs h = 1" using heap_inv_at [OF Cons.prems(2), of e] u(3) by (simp add: heap_at_def word_unat_eq_iff)
  have "?refs(e := ?refs e - 1) = (\<lambda>a. if a \<in> set es then 1 else 0)" using Cons.prems(1) by auto
  then obtain c'' where "unref_all es c' = Inr c''" "lc_heap c'' = Map.empty" "lc_usage c'' = 0"
    using Cons.IH [of c'] Cons.prems(1) u(2) by auto
  then show ?case using u(1,3) \<open>lh_refs h = 1\<close> by (simp add: deref_def)
qed

lemma delete_ok: "cache_inv (\<lambda>_. 0) c \<Longrightarrow> \<exists>c'. deleteLRUCache c = Inr c' \<and> lc_heap c' = Map.empty \<and> lc_usage c' = 0"
  using unref_all_ok [of "lc_lru c" c] cache_invD(2,4) [of "\<lambda>_. 0" c] by (auto simp: deleteLRUCache_def)

section \<open>What clients see of a shard\<close>

text \<open>The states that clients reach who release only what they hold; \<open>out\<close> counts what they hold.\<close>

inductive cache_reach :: "'v LRUCache \<Rightarrow> (nat \<Rightarrow> nat) \<Rightarrow> bool" where
  reach_new: "newLRUCache = Inr c \<Longrightarrow> cache_reach (SetCapacity n c) (\<lambda>_. 0)"
| reach_miss: "cache_reach c out \<Longrightarrow> lru_Lookup key hash c = Inr (None, c') \<Longrightarrow> cache_reach c' out"
| reach_hit: "cache_reach c out \<Longrightarrow> (\<And>a. out a < 2 ^ 32 - 2) \<Longrightarrow> lru_Lookup key hash c = Inr (Some a, c') \<Longrightarrow> cache_reach c' (out(a := out a + 1))"
| reach_insert: "cache_reach c out \<Longrightarrow> lru_Insert key hash v charge c = Inr (a, c') \<Longrightarrow> cache_reach c' (out(a := out a + 1))"
| reach_erase: "cache_reach c out \<Longrightarrow> lru_Erase key hash c = Inr c' \<Longrightarrow> cache_reach c' out"
| reach_release: "cache_reach c out \<Longrightarrow> 0 < out a \<Longrightarrow> lru_Release a c = Inr c' \<Longrightarrow> cache_reach c' (out(a := out a - 1))"

lemma reach_inv: "cache_reach c out \<Longrightarrow> cache_inv out c"
proof (induction rule: cache_reach.induct)
  case (reach_new c n)
  then show ?case using newLRUCache_inv SetCapacity_inv(1) by blast
next
  case (reach_miss c out key hash c')
  then show ?case using table_Lookup_ok [OF cache_invD(1) [OF reach_miss.IH], of key hash]
    by (auto simp: lru_Lookup_def res_simps split: option.splits)
next
  case (reach_hit c out key hash a c')
  then show ?case using Lookup_ok [OF reach_hit.IH, of key hash] by (auto simp: fun_upd_def)
next
  case (reach_insert c out key hash v charge a c')
  then show ?case using Insert_ok [OF reach_insert.IH, of key hash v charge] by (auto simp: fun_upd_def)
next
  case (reach_erase c out key hash c')
  then show ?case using Erase_ok [OF reach_erase.IH, of key hash] by (auto simp: fun_upd_def)
next
  case (reach_release c out a c')
  then show ?case using Release_ok [OF reach_release.IH, of a] by (auto simp: fun_upd_def)
qed

text \<open>C35: In every state of a shard that clients reach who release only the handles they hold, no operation
  touches a freed handle or fails an assertion.  The shard is the list of its entries in the order of
  their use: a lookup finds exactly the entry of the key and makes it the newest; an insertion replaces the
  entry of the key and then drops the oldest entries, one at a time and only while the usage exceeds the
  capacity, which \<open>abs_evict\<close> computes from the charges and from what clients hold; an
  erasure removes the entry of the key only, and a release changes no entry.  Once no handle is
  held, the destructor frees all.\<close>

theorem lru_cache_shard:
  assumes r: "cache_reach c out" and small: "\<And>a. out a < 2 ^ 32 - 2"
  shows "(\<exists>r c'. lru_Lookup key hash c = Inr (r, c')
      \<and> (case r of None \<Rightarrow> find (\<lambda>e. fst e = (key, hash)) (entries c) = None \<and> c' = c
         | Some a \<Rightarrow> \<exists>v. find (\<lambda>e. fst e = (key, hash)) (entries c) = Some ((key, hash), v) \<and> label (lc_heap c') a = Some ((key, hash), v)
             \<and> entries c' = filter (\<lambda>e. fst e \<noteq> (key, hash)) (entries c) @ [((key, hash), v)]))
    \<and> (\<exists>a c' n. lru_Insert key hash v charge c = Inr (a, c') \<and> label (lc_heap c') a = Some ((key, hash), v)
      \<and> entries c' = drop n (filter (\<lambda>e. fst e \<noteq> (key, hash)) (entries c) @ [((key, hash), v)])
      \<and> (lc_usage c' \<le> lc_capacity c \<or> entries c' = [])
      \<and> (lc_usage c', held_entries (out(a := 1)) c') = abs_evict (lc_capacity c)
          (fold give_back (filter (\<lambda>e. fst (fst e) = (key, hash)) (held_entries out c)) (lc_usage c + charge))
          (filter (\<lambda>e. fst (fst e) \<noteq> (key, hash)) (held_entries out c) @ [(((key, hash), v), charge, True)]))
    \<and> (\<exists>c'. lru_Erase key hash c = Inr c' \<and> entries c' = filter (\<lambda>e. fst e \<noteq> (key, hash)) (entries c))
    \<and> (\<forall>a. 0 < out a \<longrightarrow> (\<exists>c'. lru_Release a c = Inr c' \<and> entries c' = entries c))
    \<and> (out = (\<lambda>_. 0) \<longrightarrow> (\<exists>c'. deleteLRUCache c = Inr c' \<and> lc_heap c' = Map.empty \<and> lc_usage c' = 0))"
    (is "?lookup \<and> ?insert \<and> ?erase \<and> ?release \<and> ?delete")
proof (intro conjI)
  note i = reach_inv [OF r]
  show ?lookup using Lookup_ok [OF i small, of key hash] by (fastforce split: option.splits)
  show ?insert using Insert_ok [OF i, of key hash v charge] by blast
  show ?erase using Erase_ok [OF i] by blast
  show ?release using Release_ok [OF i] by blast
  show ?delete using delete_ok i by blast
qed

text \<open>A shard of capacity 10 with one entry of charge 3, for which a handle is held; an insertion that fills
  it exactly drops nothing; one that exceeds it drops both entries, as those that are held give nothing back.\<close>

lemma one_entry:
  "case newLRUCache of Inl e \<Rightarrow> False | Inr (c0 :: nat LRUCache) \<Rightarrow>
     (case lru_Insert [1] 5 7 3 (SetCapacity 10 c0) of Inl e \<Rightarrow> False | Inr (a, c) \<Rightarrow>
        held_entries ((\<lambda>_. 0)(a := 1)) c = [((([1], 5), 7), 3, True)] \<and> lc_usage c = 3 \<and> lc_capacity c = 10)"
  by code_simp

theorem lru_cache_shard_witness:
  "\<exists>(c :: nat LRUCache) out. cache_reach c out \<and> entries c = [(([1], 5), 7)] \<and> lc_capacity c = 10
    \<and> (\<exists>r c'. lru_Lookup [1] 5 c = Inr (r, c') \<and> entries c' = [(([1], 5), 7)])
    \<and> (\<exists>c'. lru_Erase [1] 5 c = Inr c' \<and> entries c' = [])
    \<and> (\<exists>a c'. lru_Insert [2] 6 8 7 c = Inr (a, c') \<and> lc_usage c' = 10 \<and> entries c' = [(([1], 5), 7), (([2], 6), 8)])
    \<and> (\<exists>a c'. lru_Insert [2] 6 8 8 c = Inr (a, c') \<and> entries c' = [])"
proof -
  obtain c0 :: "nat LRUCache" where c0: "newLRUCache = Inr c0" using newLRUCache_ok by blast
  let ?out = "\<lambda>a. (\<lambda>_. 0)(a := 1)"
  obtain a c where c: "lru_Insert [1] 5 7 3 (SetCapacity 10 c0) = Inr (a, c)" "held_entries (?out a) c = [((([1], 5), 7), 3, True)]"
      "lc_usage c = 3" "lc_capacity c = 10"
    using one_entry unfolding c0 by (auto split: sum.splits)
  have e: "entries c = [(([1], 5), 7)]" using c(2) by (simp add: entries_held [of c "?out a"])
  have r: "cache_reach c (?out a)" using reach_insert [OF reach_new [OF c0] c(1)] by simp
  have small: "?out a x < (2 ^ 32 - 2 :: nat)" for x by simp
  note S = lru_cache_shard [OF r small, unfolded e c(2-4)]
  have "\<exists>x c'. lru_Lookup [1] 5 c = Inr (x, c') \<and> entries c' = [(([1], 5), 7)]"
    using S [of "[1]" 5, THEN conjunct1] by (auto split: option.splits simp: e)
  moreover have "\<exists>c'. lru_Erase [1] 5 c = Inr c' \<and> entries c' = []"
    using S [of "[1]" 5, THEN conjunct2, THEN conjunct2, THEN conjunct1] by simp
  moreover obtain b c1 o1 where c1: "lru_Insert [2] 6 8 7 c = Inr (b, c1)"
      "(lc_usage c1, held_entries o1 c1) = abs_evict 10 10 [((([1], 5), 7), 3, True), ((([2], 6), 8), 7, True)]"
    using S [of "[2]" 6 8 7, THEN conjunct2, THEN conjunct1] by auto
  moreover obtain d c2 o2 where c2: "lru_Insert [2] 6 8 8 c = Inr (d, c2)"
      "(lc_usage c2, held_entries o2 c2) = abs_evict 10 11 [((([1], 5), 7), 3, True), ((([2], 6), 8), 8, True)]"
    using S [of "[2]" 6 8 8, THEN conjunct2, THEN conjunct1] by auto
  moreover have "lc_usage c1 = 10" "entries c1 = [(([1], 5), 7), (([2], 6), 8)]"
    using c1(2) by (auto simp: entries_held [of c1 o1])
  moreover have "entries c2 = []"
    using c2(2) by (auto simp: entries_held [of c2 o2] give_back_def)
  ultimately show ?thesis using r e c(4) by blast
qed

end
