(* ===== verification/Ldb_Block_Cache.thy ===== *)
theory Ldb_Block_Cache
  imports Ldb_Table_Properties Ldb_Cache_Properties
begin

text \<open>
  The sharded cache as the block cache of tables: it keeps the contract that looking up keys in tables
  relies on.
\<close>

section \<open>Shards\<close>

lemma Shard_less: "Shard hash < kNumShards"
proof -
  have "unat (drop_bit 28 hash) = unat hash div 2 ^ 28" by (subst unat_drop_bit_eq) (simp add: drop_bit_eq_div)
  moreover have "unat hash div 2 ^ 28 < 16" using unat_u32_less [of hash] by (simp add: less_mult_imp_div_less)
  ultimately show ?thesis by (simp add: Shard_def kNumShards_def kNumShardBits_def)
qed

definition sharded_valid :: "'v ShardedLRUCache \<Rightarrow> bool" where
  "sharded_valid c \<longleftrightarrow> length (sc_shard c) = kNumShards \<and> (\<forall>s \<in> set (sc_shard c). cache_inv (\<lambda>_. 0) s)"

definition shard_of :: "bytes \<Rightarrow> 'v ShardedLRUCache \<Rightarrow> 'v LRUCache" where
  "shard_of key c = sc_shard c ! Shard (HashSlice key)"

definition sharded_holds :: "'v ShardedLRUCache \<Rightarrow> bytes \<Rightarrow> 'v \<Rightarrow> bool" where
  "sharded_holds c key v \<longleftrightarrow> ((key, HashSlice key), v) \<in> set (entries (shard_of key c))"

lemma shard_at_of: "sharded_valid c \<Longrightarrow> shard_at c (Shard (HashSlice key)) = Inr (shard_of key c)"
  using Shard_less [of "HashSlice key"] by (simp add: shard_at_def shard_of_def sharded_valid_def)

lemma shard_inv: "sharded_valid c \<Longrightarrow> cache_inv (\<lambda>_. 0) (shard_of key c)"
  using Shard_less [of "HashSlice key"] by (simp add: shard_of_def sharded_valid_def)

lemma put_valid:
  assumes "sharded_valid c" and "cache_inv (\<lambda>_. 0) s"
  shows "sharded_valid (put_shard i s c)"
proof -
  have "set ((sc_shard c)[i := s]) \<subseteq> insert s (set (sc_shard c))" by (rule set_update_subset_insert)
  then show ?thesis using assms by (auto simp: sharded_valid_def put_shard_def)
qed

lemma put_shard_holds:
  assumes "sharded_valid c" and "sharded_holds (put_shard (Shard (HashSlice k)) s c) k' b"
  shows "shard_of k' c = shard_of k c \<and> ((k', HashSlice k'), b) \<in> set (entries s) \<or> sharded_holds c k' b"
  using assms Shard_less [of "HashSlice k"]
  by (cases "Shard (HashSlice k) = Shard (HashSlice k')") (auto simp: sharded_holds_def shard_of_def put_shard_def sharded_valid_def)

lemma put_put: "put_shard i s' (put_shard i s c) = put_shard i s' c"
  by (simp add: put_shard_def)

section \<open>Lookups and insertions that give the handle back\<close>

text \<open>The table takes the value of the handle and releases it when the iterator over the block is gone
  (\<open>ReleaseBlock\<close> of \<open>table.cc\<close>).\<close>

definition cache_get :: "bytes \<Rightarrow> 'v ShardedLRUCache \<Rightarrow> ('v option \<times> 'v ShardedLRUCache) result" where
  "cache_get key c =
     and_then (sharded_Lookup key c) (\<lambda>(h, c). case h of
         None \<Rightarrow> Inr (None, c)
       | Some h \<Rightarrow> and_then (sharded_Value h c) (\<lambda>v. and_then (sharded_Release h c) (\<lambda>c. Inr (Some v, c))))"

definition cache_put :: "bytes \<Rightarrow> 'v \<Rightarrow> nat \<Rightarrow> 'v ShardedLRUCache \<Rightarrow> 'v ShardedLRUCache result" where
  "cache_put key v charge c = and_then (sharded_Insert key v (of_nat charge) c) (\<lambda>(h, c). sharded_Release h c)"

text \<open>The handle that was just given out is released in its shard.\<close>

lemma release_put:
  assumes c: "sharded_valid c" and i: "cache_inv ((\<lambda>_. 0)(a := 1)) s" and l: "label (lc_heap s) a = Some ((key, HashSlice key), v)"
  shows "\<exists>s'. sharded_Release (Shard (HashSlice key), a) (put_shard (Shard (HashSlice key)) s c) = Inr (put_shard (Shard (HashSlice key)) s' c)
      \<and> cache_inv (\<lambda>_. 0) s' \<and> entries s' = entries s"
    "sharded_Value (Shard (HashSlice key), a) (put_shard (Shard (HashSlice key)) s c) = Inr v"
proof -
  let ?i = "Shard (HashSlice key)"
  have at: "shard_at (put_shard ?i s c) ?i = Inr s"
    using c Shard_less [of "HashSlice key"] by (simp add: shard_at_def put_shard_def sharded_valid_def)
  obtain h where h: "lc_heap s a = Some h" "lh_hash h = HashSlice key" "lh_value h = v" using l by (auto simp: label_def)
  have o: "handle_object (?i, a) (put_shard ?i s c) = Inr h" using at h by (simp add: handle_object_def deref_def)
  then show "sharded_Value (?i, a) (put_shard ?i s c) = Inr v" using h by (simp add: sharded_Value_def)
  obtain s' where s': "lru_Release a s = Inr s'" "cache_inv (((\<lambda>_. 0)(a := 1))(a := ((\<lambda>_. 0)(a := 1)) a - 1)) s'" "entries s' = entries s"
    using Release_ok [OF i, of a] by auto
  have "(((\<lambda>_. 0)(a := 1))(a := ((\<lambda>_. 0)(a := 1)) a - 1)) = (\<lambda>_. 0 :: nat)" by auto
  then show "\<exists>s'. sharded_Release (?i, a) (put_shard ?i s c) = Inr (put_shard ?i s' c) \<and> cache_inv (\<lambda>_. 0) s' \<and> entries s' = entries s"
    using s' o at h by (intro exI [of _ s']) (simp add: sharded_Release_def put_put Let_def)
qed

lemma cache_get_ok:
  assumes c: "sharded_valid c"
  shows "\<exists>r c'. cache_get key c = Inr (r, c') \<and> sharded_valid c' \<and> r = map_option snd (find (\<lambda>e. fst e = (key, HashSlice key)) (entries (shard_of key c)))
    \<and> (\<forall>k b. sharded_holds c' k b \<longrightarrow> sharded_holds c k b)"
proof -
  let ?i = "Shard (HashSlice key)"
  obtain r s where s: "lru_Lookup key (HashSlice key) (shard_of key c) = Inr (r, s)"
      "case r of None \<Rightarrow> find (\<lambda>e. fst e = (key, HashSlice key)) (entries (shard_of key c)) = None \<and> s = shard_of key c
       | Some a \<Rightarrow> \<exists>v. find (\<lambda>e. fst e = (key, HashSlice key)) (entries (shard_of key c)) = Some ((key, HashSlice key), v)
           \<and> label (lc_heap s) a = Some ((key, HashSlice key), v)
           \<and> entries s = filter (\<lambda>e. fst e \<noteq> (key, HashSlice key)) (entries (shard_of key c)) @ [((key, HashSlice key), v)]
           \<and> cache_inv ((\<lambda>_. 0)(a := 0 + 1)) s"
    using Lookup_ok [OF shard_inv [OF c], of key "HashSlice key"] by fastforce
  have look: "sharded_Lookup key c = Inr (map_option (Pair ?i) r, put_shard ?i s c)"
    using s(1) shard_at_of [OF c] by (simp add: sharded_Lookup_def Let_def)
  show ?thesis
  proof (cases r)
    case None
    then have "put_shard ?i s c = c" using s(2) by (simp add: put_shard_def shard_of_def)
    then show ?thesis using look None s(2) c by (simp add: cache_get_def)
  next
    case (Some a)
    then obtain v where v: "find (\<lambda>e. fst e = (key, HashSlice key)) (entries (shard_of key c)) = Some ((key, HashSlice key), v)"
        "label (lc_heap s) a = Some ((key, HashSlice key), v)" "cache_inv ((\<lambda>_. 0)(a := 1)) s"
        "entries s = filter (\<lambda>e. fst e \<noteq> (key, HashSlice key)) (entries (shard_of key c)) @ [((key, HashSlice key), v)]"
      using s(2) by auto
    obtain s' where s': "sharded_Release (?i, a) (put_shard ?i s c) = Inr (put_shard ?i s' c)" "cache_inv (\<lambda>_. 0) s'" "entries s' = entries s"
      using release_put(1) [OF c v(3,2)] by blast
    have "((key, HashSlice key), v) \<in> set (entries (shard_of key c))" using v(1) by (auto simp: find_Some_iff)
    then have sub: "set (entries s') \<subseteq> set (entries (shard_of key c))" using v(4) s'(3) by auto
    have "sharded_holds c k b" if "sharded_holds (put_shard ?i s' c) k b" for k b
      using put_shard_holds [OF c that] sub by (auto simp: sharded_holds_def)
    then show ?thesis using look Some release_put(2) [OF c v(3,2)] s' put_valid [OF c s'(2)] v(1) by (simp add: cache_get_def)
  qed
qed

lemma cache_put_ok:
  assumes c: "sharded_valid c"
  shows "\<exists>c'. cache_put key v n c = Inr c' \<and> sharded_valid c'
    \<and> (\<forall>k b. sharded_holds c' k b \<longrightarrow> k = key \<and> b = v \<or> sharded_holds c k b)"
proof -
  let ?i = "Shard (HashSlice key)"
  obtain a s m where s: "lru_Insert key (HashSlice key) v (of_nat n) (shard_of key c) = Inr (a, s)" "cache_inv ((\<lambda>_. 0)(a := 1)) s"
      "label (lc_heap s) a = Some ((key, HashSlice key), v)"
      "entries s = drop m (filter (\<lambda>e. fst e \<noteq> (key, HashSlice key)) (entries (shard_of key c)) @ [((key, HashSlice key), v)])"
    using Insert_ok [OF shard_inv [OF c], of key "HashSlice key" v "of_nat n"] by blast
  have ins: "sharded_Insert key v (of_nat n) c = Inr ((?i, a), put_shard ?i s c)"
    using s(1) shard_at_of [OF c] by (simp add: sharded_Insert_def Let_def)
  obtain s' where s': "sharded_Release (?i, a) (put_shard ?i s c) = Inr (put_shard ?i s' c)" "cache_inv (\<lambda>_. 0) s'" "entries s' = entries s"
    using release_put(1) [OF c s(2,3)] by blast
  have "set (entries s') \<subseteq> insert ((key, HashSlice key), v) (set (entries (shard_of key c)))"
    unfolding s'(3) s(4) by (rule order_trans [OF set_drop_subset]) auto
  then have "k = key \<and> b = v \<or> sharded_holds c k b" if "sharded_holds (put_shard ?i s' c) k b" for k b
    using put_shard_holds [OF c that] by (auto simp: sharded_holds_def)
  then show ?thesis using ins s'(1) put_valid [OF c s'(2)] by (simp add: cache_put_def)
qed

section \<open>The contract of a block cache\<close>

lemma find_key_mem: "find (\<lambda>e. fst e = x) es = Some (y, v) \<Longrightarrow> (x, v) \<in> set es"
  by (induction es) (auto split: if_splits)

definition or_else :: "'a \<Rightarrow> 'a result \<Rightarrow> 'a" where
  "or_else d r = (case r of Inl e \<Rightarrow> d | Inr x \<Rightarrow> x)"

text \<open>No operation on a valid cache ends abnormally, so that the defaults are never used.\<close>

definition sharded_block_cache :: "block ShardedLRUCache block_cache" where
  "sharded_block_cache = \<lparr>ca_Lookup = (\<lambda>k c. or_else (None, c) (cache_get k c)),
     ca_Insert = (\<lambda>k b n c. or_else c (cache_put k b n c)), ca_NewId = sharded_NewId\<rparr>"

interpretation lru: block_cache_contract sharded_block_cache sharded_valid sharded_holds
proof
  show "sharded_valid c' \<and> (\<forall>b. r = Some b \<longrightarrow> sharded_holds c k b) \<and> (\<forall>k' b. sharded_holds c' k' b \<longrightarrow> sharded_holds c k' b)"
    if "sharded_valid c" "ca_Lookup sharded_block_cache k c = (r, c')" for c k r c'
  proof -
    have "cache_get k c = Inr (r, c')" using cache_get_ok [OF that(1), of k] that(2) by (auto simp: sharded_block_cache_def or_else_def)
    then show ?thesis using cache_get_ok [OF that(1), of k] find_key_mem unfolding sharded_holds_def by fastforce
  qed
  show "sharded_valid (ca_Insert sharded_block_cache k b n c) \<and> (\<forall>k' b'. sharded_holds (ca_Insert sharded_block_cache k b n c) k' b' \<longrightarrow>
      k' = k \<and> b' = b \<or> sharded_holds c k' b')" if v: "sharded_valid c" for c k b n
  proof -
    obtain c' where c': "cache_put k b n c = Inr c'" "sharded_valid c'" "\<forall>k' b'. sharded_holds c' k' b' \<longrightarrow> k' = k \<and> b' = b \<or> sharded_holds c k' b'"
      using cache_put_ok [OF v, of k b n] by blast
    have "ca_Insert sharded_block_cache k b n c = c'" using c'(1) by (simp add: sharded_block_cache_def or_else_def)
    then show ?thesis using c'(2,3) by simp
  qed
  show "sharded_valid (snd (ca_NewId sharded_block_cache c)) \<and> (\<forall>k b. sharded_holds (snd (ca_NewId sharded_block_cache c)) k b \<longrightarrow> sharded_holds c k b)"
    if "sharded_valid c" for c
    using that by (simp add: sharded_block_cache_def sharded_NewId_def sharded_valid_def sharded_holds_def shard_of_def Let_def)
qed

lemma newSharded_ok:
  assumes "newShardedLRUCache capacity = Inr c"
  shows "sharded_valid c" "fresh_id sharded_block_cache sharded_holds c"
proof -
  let ?per_shard = "(capacity + of_nat (kNumShards - 1)) div of_nat kNumShards"
  obtain s where s: "newLRUCache = Inr s" and c: "sc_shard c = map (SetCapacity ?per_shard) (replicate kNumShards s)"
    using assms by (auto simp: newShardedLRUCache_def Let_def res_simps)
  note n = newLRUCache_inv [OF s]
  show "sharded_valid c" using c n SetCapacity_inv(1) by (auto simp: sharded_valid_def)
  have "entries (shard_of k c) = []" for k
    using c n SetCapacity_inv(2) [OF n [THEN conjunct1]] Shard_less [of "HashSlice k"] by (auto simp: shard_of_def)
  then show "fresh_id sharded_block_cache sharded_holds c" by (simp add: fresh_id_def sharded_holds_def)
qed

section \<open>Tables are read as they were written\<close>

text \<open>C34: A table that the builder has written and finished can be opened, without a block cache or with a new
  one, and every sequence of lookups in it succeeds: a lookup hands out nothing but the first entry at
  or after the key, and it does hand that entry out when it is a version of the key that is looked
  up, whatever the compression, the filter and the block cache do in between.\<close>

theorem table_lookup:
  assumes "options_ok opt u" and "newTableBuilder opt [] = Inr r0" and "tb_adds app pv snap es r0 = Inr r"
    and "tb_Finish app pv snap r = Inr (StatusOK, r')" and "env_ok env snap (tb_file r')"
    and "newShardedLRUCache capacity = Inr c" and "cache = None \<or> cache = Some sharded_block_cache"
  shows "\<exists>t c1. Table_Open env cache opt (length (tb_file r')) c = Some (Inr (Inr t, c1))
    \<and> (\<forall>ks. \<exists>rs. table_gets env cache verify fill t ks c1 = Some (Inr rs)
         \<and> list_all2 (\<lambda>k (s, saved). s = StatusOK \<and> found_right (to_Compare opt) u k es saved) ks rs)"
proof -
  have "case cache of None \<Rightarrow> True | Some ca \<Rightarrow> block_cache_contract ca sharded_valid sharded_holds \<and> sharded_valid c \<and> fresh_id ca sharded_holds c"
    using assms(7) newSharded_ok [OF assms(6)] lru.block_cache_contract_axioms by auto
  then show ?thesis by (rule built_table_lookup [OF assms(1-5)])
qed

theorem table_lookup_witness:
  "\<exists>r0 r r' t c c1. newShardedLRUCache 1000 = Inr c \<and> newTableBuilder two_options [] = Inr r0 \<and> tb_adds plain_file 0 (\<lambda>_. None) two_entries r0 = Inr r
    \<and> tb_Finish plain_file 0 (\<lambda>_. None) r = Inr (StatusOK, r')
    \<and> Table_Open (read_env (tb_file r')) (Some sharded_block_cache) two_options (length (tb_file r')) c = Some (Inr (Inr t, c1))
    \<and> table_gets (read_env (tb_file r')) (Some sharded_block_cache) True True t [[3], [3]] c1
        = Some (Inr [(StatusOK, Some ([3], [30])), (StatusOK, Some ([3], [30]))])"
proof -
  obtain r0 r r' where b: "newTableBuilder two_options [] = Inr r0" "tb_adds plain_file 0 (\<lambda>_. None) two_entries r0 = Inr r"
      "tb_Finish plain_file 0 (\<lambda>_. None) r = Inr (StatusOK, r')" "length (tb_file r') < 1000"
    using two_built by (auto split: sum.splits)
  have e: "env_ok (read_env (tb_file r')) (\<lambda>_. None) (tb_file r')" by (rule read_env_ok) (use b(4) in simp)
  obtain c :: "block ShardedLRUCache" where c: "newShardedLRUCache 1000 = Inr c" by (auto simp: newShardedLRUCache_def newLRUCache_ok Let_def)
  obtain t c1 where t: "Table_Open (read_env (tb_file r')) (Some sharded_block_cache) two_options (length (tb_file r')) c
        = Some (Inr (Inr t, c1))"
      "\<exists>rs. table_gets (read_env (tb_file r')) (Some sharded_block_cache) True True t [[3], [3]] c1 = Some (Inr rs)
        \<and> list_all2 (\<lambda>k (s, saved). s = StatusOK \<and> found_right (to_Compare two_options) (\<lambda>k. k) k two_entries saved) [[3], [3]] rs"
    using table_lookup [where cache = "Some sharded_block_cache" and verify = True and fill = True, OF two_options_ok b(1-3) e c]
    by (auto simp del: table_gets.simps)
  have "first_ge (to_Compare two_options) [3] two_entries = Some ([3], [30])" by code_simp
  then have "table_gets (read_env (tb_file r')) (Some sharded_block_cache) True True t [[3], [3]] c1
      = Some (Inr [(StatusOK, Some ([3], [30])), (StatusOK, Some ([3], [30]))])"
    using t(2) by (auto simp: list_all2_Cons1 found_right_def simp del: table_gets.simps)
  then show ?thesis using b c t(1) by blast
qed

end
