(* ===== verification/Ldb_Version_Edit.thy ===== *)
theory Ldb_Version_Edit
  imports Ldb_Keys Ldb_Write_Batch
begin

text \<open>
  Version edits (\<open>lib/leveldb/db/version_edit.cc\<close>, \<open>db/version_edit.h\<close>): the changes to the set of table files, as they
  are kept in the descriptor log.  A \<open>std::set\<close> of pairs is the list of its elements in their order.
\<close>

section \<open>Edits\<close>

definition kNumLevels :: int where "kNumLevels = 7"

record FileMetaData =
  fm_refs :: int
  fm_allowed_seeks :: int
  fm_number :: u64
  fm_file_size :: u64
  fm_smallest :: bytes
  fm_largest :: bytes

text \<open>The constructor leaves the number of the file as it was in memory.\<close>

definition newFileMetaData :: "u64 \<Rightarrow> FileMetaData" where
  "newFileMetaData number = \<lparr>fm_refs = 0, fm_allowed_seeks = 2 ^ 30, fm_number = number, fm_file_size = 0,
     fm_smallest = [], fm_largest = []\<rparr>"

record VersionEdit =
  ve_comparator :: bytes
  ve_log_number :: u64
  ve_prev_log_number :: u64
  ve_next_file_number :: u64
  ve_last_sequence :: u64
  ve_has_comparator :: bool
  ve_has_log_number :: bool
  ve_has_prev_log_number :: bool
  ve_has_next_file_number :: bool
  ve_has_last_sequence :: bool
  ve_compact_pointers :: "(int \<times> bytes) list"
  ve_deleted_files :: "(int \<times> u64) list"
  ve_new_files :: "(int \<times> FileMetaData) list"

text \<open>Clearing keeps the compaction pointers.\<close>

definition edit_Clear :: "VersionEdit \<Rightarrow> VersionEdit" where
  "edit_Clear e = e\<lparr>ve_comparator := [], ve_log_number := 0, ve_prev_log_number := 0, ve_last_sequence := 0,
     ve_next_file_number := 0, ve_has_comparator := False, ve_has_log_number := False, ve_has_prev_log_number := False,
     ve_has_next_file_number := False, ve_has_last_sequence := False, ve_deleted_files := [], ve_new_files := []\<rparr>"

definition newVersionEdit :: VersionEdit where
  "newVersionEdit = \<lparr>ve_comparator = [], ve_log_number = 0, ve_prev_log_number = 0, ve_next_file_number = 0,
     ve_last_sequence = 0, ve_has_comparator = False, ve_has_log_number = False, ve_has_prev_log_number = False,
     ve_has_next_file_number = False, ve_has_last_sequence = False, ve_compact_pointers = [], ve_deleted_files = [],
     ve_new_files = []\<rparr>"

definition SetComparatorName :: "bytes \<Rightarrow> VersionEdit \<Rightarrow> VersionEdit" where
  "SetComparatorName name e = e\<lparr>ve_has_comparator := True, ve_comparator := name\<rparr>"

definition SetLogNumber :: "u64 \<Rightarrow> VersionEdit \<Rightarrow> VersionEdit" where
  "SetLogNumber num e = e\<lparr>ve_has_log_number := True, ve_log_number := num\<rparr>"

definition SetPrevLogNumber :: "u64 \<Rightarrow> VersionEdit \<Rightarrow> VersionEdit" where
  "SetPrevLogNumber num e = e\<lparr>ve_has_prev_log_number := True, ve_prev_log_number := num\<rparr>"

definition SetNextFile :: "u64 \<Rightarrow> VersionEdit \<Rightarrow> VersionEdit" where
  "SetNextFile num e = e\<lparr>ve_has_next_file_number := True, ve_next_file_number := num\<rparr>"

definition SetLastSequence :: "u64 \<Rightarrow> VersionEdit \<Rightarrow> VersionEdit" where
  "SetLastSequence seq e = e\<lparr>ve_has_last_sequence := True, ve_last_sequence := seq\<rparr>"

definition SetCompactPointer :: "int \<Rightarrow> bytes \<Rightarrow> VersionEdit \<Rightarrow> VersionEdit" where
  "SetCompactPointer level key e = e\<lparr>ve_compact_pointers := ve_compact_pointers e @ [(level, key)]\<rparr>"

definition AddFile :: "int \<Rightarrow> u64 \<Rightarrow> u64 \<Rightarrow> bytes \<Rightarrow> bytes \<Rightarrow> VersionEdit \<Rightarrow> VersionEdit" where
  "AddFile level number sz smallest largest e =
     e\<lparr>ve_new_files := ve_new_files e @ [(level, (newFileMetaData number)\<lparr>fm_file_size := sz, fm_smallest := smallest,
        fm_largest := largest\<rparr>)]\<rparr>"

fun set_insert :: "int \<times> u64 \<Rightarrow> (int \<times> u64) list \<Rightarrow> (int \<times> u64) list" where
  "set_insert x [] = [x]"
| "set_insert x (y # ys) =
     (if fst x < fst y \<or> fst x = fst y \<and> snd x < snd y then x # y # ys
      else if x = y then y # ys else y # set_insert x ys)"

definition edit_DeleteFile :: "int \<Rightarrow> u64 \<Rightarrow> VersionEdit \<Rightarrow> VersionEdit" where
  "edit_DeleteFile level number e = e\<lparr>ve_deleted_files := set_insert (level, number) (ve_deleted_files e)\<rparr>"

section \<open>Encoding\<close>

definition kComparator :: u32 where "kComparator = 1"
definition kLogNumber :: u32 where "kLogNumber = 2"
definition kNextFileNumber :: u32 where "kNextFileNumber = 3"
definition kLastSequence :: u32 where "kLastSequence = 4"
definition kCompactPointer :: u32 where "kCompactPointer = 5"
definition kDeletedFile :: u32 where "kDeletedFile = 6"
definition kNewFile :: u32 where "kNewFile = 7"
definition kPrevLogNumber :: u32 where "kPrevLogNumber = 9"

lemmas edit_tags = kComparator_def kLogNumber_def kNextFileNumber_def kLastSequence_def kCompactPointer_def
  kDeletedFile_def kNewFile_def kPrevLogNumber_def

definition key_Encode :: "bytes \<Rightarrow> bytes result" where
  "key_Encode rep = (if rep = [] then Inl (Thrown ''assert'') else Inr rep)"

fun encode_pointers :: "(int \<times> bytes) list \<Rightarrow> bytes \<Rightarrow> bytes result" where
  "encode_pointers [] dst = Inr dst"
| "encode_pointers ((level, key) # ps) dst =
     and_then (key_Encode key) (\<lambda>k.
       encode_pointers ps (PutLengthPrefixedSlice (PutVarint32 (PutVarint32 dst kCompactPointer) (of_int level)) k))"

fun encode_deleted :: "(int \<times> u64) list \<Rightarrow> bytes \<Rightarrow> bytes" where
  "encode_deleted [] dst = dst"
| "encode_deleted ((level, number) # ds) dst =
     encode_deleted ds (PutVarint64 (PutVarint32 (PutVarint32 dst kDeletedFile) (of_int level)) number)"

fun encode_new :: "(int \<times> FileMetaData) list \<Rightarrow> bytes \<Rightarrow> bytes result" where
  "encode_new [] dst = Inr dst"
| "encode_new ((level, f) # fs) dst =
     and_then (key_Encode (fm_smallest f)) (\<lambda>smallest.
     and_then (key_Encode (fm_largest f)) (\<lambda>largest.
       encode_new fs
         (PutLengthPrefixedSlice (PutLengthPrefixedSlice
           (PutVarint64 (PutVarint64 (PutVarint32 (PutVarint32 dst kNewFile) (of_int level)) (fm_number f)) (fm_file_size f))
           smallest) largest)))"

definition put_number :: "bool \<Rightarrow> u32 \<Rightarrow> u64 \<Rightarrow> bytes \<Rightarrow> bytes" where
  "put_number has tag n dst = (if has then PutVarint64 (PutVarint32 dst tag) n else dst)"

definition edit_EncodeTo :: "VersionEdit \<Rightarrow> bytes \<Rightarrow> bytes result" where
  "edit_EncodeTo e dst =
     (let dst = (if ve_has_comparator e then PutLengthPrefixedSlice (PutVarint32 dst kComparator) (ve_comparator e) else dst);
          dst = put_number (ve_has_log_number e) kLogNumber (ve_log_number e) dst;
          dst = put_number (ve_has_prev_log_number e) kPrevLogNumber (ve_prev_log_number e) dst;
          dst = put_number (ve_has_next_file_number e) kNextFileNumber (ve_next_file_number e) dst;
          dst = put_number (ve_has_last_sequence e) kLastSequence (ve_last_sequence e) dst in
      and_then (encode_pointers (ve_compact_pointers e) dst) (\<lambda>dst.
        encode_new (ve_new_files e) (encode_deleted (ve_deleted_files e) dst)))"

section \<open>Decoding\<close>

definition GetInternalKey :: "bytes \<Rightarrow> (bytes \<times> bytes) option" where
  "GetInternalKey input = GetLengthPrefixedSlice input"

definition GetLevel :: "bytes \<Rightarrow> (int \<times> bytes) option" where
  "GetLevel input = (case GetVarint32 input of
       None \<Rightarrow> None
     | Some (v, input) \<Rightarrow> if uint v < kNumLevels then Some (uint v, input) else None)"

text \<open>The field of one tag, or the message why it cannot be read.\<close>

definition decode_field :: "u32 \<Rightarrow> bytes \<Rightarrow> VersionEdit \<Rightarrow> string + VersionEdit \<times> bytes" where
  "decode_field tag input e =
     (if tag = kComparator then (case GetLengthPrefixedSlice input of
          None \<Rightarrow> Inl ''comparator name'' | Some (s, input) \<Rightarrow> Inr (SetComparatorName s e, input))
      else if tag = kLogNumber then (case GetVarint64 input of
          None \<Rightarrow> Inl ''log number'' | Some (n, input) \<Rightarrow> Inr (SetLogNumber n e, input))
      else if tag = kPrevLogNumber then (case GetVarint64 input of
          None \<Rightarrow> Inl ''previous log number'' | Some (n, input) \<Rightarrow> Inr (SetPrevLogNumber n e, input))
      else if tag = kNextFileNumber then (case GetVarint64 input of
          None \<Rightarrow> Inl ''next file number'' | Some (n, input) \<Rightarrow> Inr (SetNextFile n e, input))
      else if tag = kLastSequence then (case GetVarint64 input of
          None \<Rightarrow> Inl ''last sequence number'' | Some (n, input) \<Rightarrow> Inr (SetLastSequence n e, input))
      else if tag = kCompactPointer then (case GetLevel input of
          None \<Rightarrow> Inl ''compaction pointer''
        | Some (level, input) \<Rightarrow> (case GetInternalKey input of
              None \<Rightarrow> Inl ''compaction pointer'' | Some (key, input) \<Rightarrow> Inr (SetCompactPointer level key e, input)))
      else if tag = kDeletedFile then (case GetLevel input of
          None \<Rightarrow> Inl ''deleted file''
        | Some (level, input) \<Rightarrow> (case GetVarint64 input of
              None \<Rightarrow> Inl ''deleted file'' | Some (number, input) \<Rightarrow> Inr (edit_DeleteFile level number e, input)))
      else if tag = kNewFile then (case GetLevel input of
          None \<Rightarrow> Inl ''new-file entry''
        | Some (level, input) \<Rightarrow> (case GetVarint64 input of
              None \<Rightarrow> Inl ''new-file entry''
            | Some (number, input) \<Rightarrow> (case GetVarint64 input of
                  None \<Rightarrow> Inl ''new-file entry''
                | Some (sz, input) \<Rightarrow> (case GetInternalKey input of
                      None \<Rightarrow> Inl ''new-file entry''
                    | Some (smallest, input) \<Rightarrow> (case GetInternalKey input of
                          None \<Rightarrow> Inl ''new-file entry''
                        | Some (largest, input) \<Rightarrow> Inr (AddFile level number sz smallest largest e, input))))))
      else Inl ''unknown tag'')"

lemma varint_loop_shorter: "varint_loop lim shift acc p = Some (v, q) \<Longrightarrow> length q < length p"
  by (induction lim shift acc p arbitrary: v q rule: varint_loop.induct) (auto split: if_splits list.splits)

lemma gets_shorter:
  "GetVarint32 input = Some (v, rest) \<Longrightarrow> length rest < length input" "GetVarint64 input = Some (x, rest) \<Longrightarrow> length rest < length input"
  "GetLengthPrefixedSlice input = Some (s, rest) \<Longrightarrow> length rest < length input"
proof -
  show a: "GetVarint32 input = Some (v, rest) \<Longrightarrow> length rest < length input" for input v rest
    by (auto simp: GetVarint32_def GetVarint32Ptr_def GetVarint32PtrFallback_def dest: varint_loop_shorter intro: less_SucI split: list.splits if_splits)
  show "GetVarint64 input = Some (x, rest) \<Longrightarrow> length rest < length input"
    using varint_loop_shorter by (auto simp: GetVarint64_def GetVarint64Ptr_def)
  show "GetLengthPrefixedSlice input = Some (s, rest) \<Longrightarrow> length rest < length input"
    using a by (fastforce simp: GetLengthPrefixedSlice_def split: option.splits if_splits prod.splits)
qed

lemma decode_field_shorter: "decode_field tag input e = Inr (e', rest) \<Longrightarrow> length rest < length input"
  by (auto simp: decode_field_def GetLevel_def GetInternalKey_def dest!: gets_shorter split: if_splits option.splits prod.splits)

function decode_edit :: "bytes \<Rightarrow> VersionEdit \<Rightarrow> status \<times> VersionEdit" where
  "decode_edit input e = (case GetVarint32 input of
       None \<Rightarrow> (if input = [] then StatusOK else Corruption ''VersionEdit: invalid tag'', e)
     | Some (tag, rest) \<Rightarrow> (case decode_field tag rest e of
           Inl msg \<Rightarrow> (Corruption (''VersionEdit: '' @ msg), e)
         | Inr (e, rest) \<Rightarrow> decode_edit rest e))"
  by auto
termination by (relation "measure (length \<circ> fst)") (auto dest!: gets_shorter decode_field_shorter)

declare decode_edit.simps [simp del]

definition edit_DecodeFrom :: "bytes \<Rightarrow> VersionEdit \<Rightarrow> status \<times> VersionEdit" where
  "edit_DecodeFrom src e = decode_edit src (edit_Clear e)"

section \<open>Round trip\<close>

definition level_ok :: "int \<Rightarrow> bool" where "level_ok level \<longleftrightarrow> 0 \<le> level \<and> level < kNumLevels"

definition key_ok :: "bytes \<Rightarrow> bool" where "key_ok key \<longleftrightarrow> key \<noteq> [] \<and> length key < 2 ^ 32"

definition pair_less :: "int \<times> u64 \<Rightarrow> int \<times> u64 \<Rightarrow> bool" where
  "pair_less x y \<longleftrightarrow> fst x < fst y \<or> fst x = fst y \<and> snd x < snd y"

text \<open>What the setters keep of an edit.\<close>

definition edit_ok :: "VersionEdit \<Rightarrow> bool" where
  "edit_ok e \<longleftrightarrow> (if ve_has_comparator e then length (ve_comparator e) < 2 ^ 32 else ve_comparator e = [])
     \<and> (ve_has_log_number e \<or> ve_log_number e = 0) \<and> (ve_has_prev_log_number e \<or> ve_prev_log_number e = 0)
     \<and> (ve_has_next_file_number e \<or> ve_next_file_number e = 0) \<and> (ve_has_last_sequence e \<or> ve_last_sequence e = 0)
     \<and> (\<forall>(level, key) \<in> set (ve_compact_pointers e). level_ok level \<and> key_ok key)
     \<and> sorted_wrt pair_less (ve_deleted_files e) \<and> (\<forall>(level, n) \<in> set (ve_deleted_files e). level_ok level)
     \<and> (\<forall>(level, f) \<in> set (ve_new_files e). level_ok level \<and> key_ok (fm_smallest f) \<and> key_ok (fm_largest f)
          \<and> fm_refs f = 0 \<and> fm_allowed_seeks f = 2 ^ 30)"

lemma decode_step:
  "decode_edit (EncodeVarint32 tag @ p) e = (case decode_field tag p e of
       Inl msg \<Rightarrow> (Corruption (''VersionEdit: '' @ msg), e) | Inr (e, rest) \<Rightarrow> decode_edit rest e)"
  by (subst decode_edit.simps) (simp add: GetVarint32_Encode)

lemma GetLevel_Encode: "level_ok level \<Longrightarrow> GetLevel (EncodeVarint32 (of_int level) @ p) = Some (level, p)"
  by (simp add: GetLevel_def GetVarint32_Encode level_ok_def kNumLevels_def take_bit_int_eq_self uint_word_of_int_eq)

lemma GetSlice_Encode:
  "length s < 2 ^ 32 \<Longrightarrow> GetLengthPrefixedSlice (EncodeVarint32 (of_nat (length s)) @ s @ p) = Some (s, p)"
  using GetLengthPrefixedSlice_Put [of s p] by (simp add: PutLengthPrefixedSlice_def PutVarint32_def)

lemmas decode_simps = decode_step decode_field_def edit_tags GetVarint64_Encode GetLevel_Encode GetSlice_Encode GetInternalKey_def
  PutVarint32_def PutVarint64_def PutLengthPrefixedSlice_def

lemma decode_pointers:
  "\<forall>(level, key) \<in> set ps. level_ok level \<and> key_ok key \<Longrightarrow>
     \<exists>b. (\<forall>dst. encode_pointers ps dst = Inr (dst @ b))
       \<and> (\<forall>p e. decode_edit (b @ p) e = decode_edit p (e\<lparr>ve_compact_pointers := ve_compact_pointers e @ ps\<rparr>))"
proof (induction ps)
  case (Cons x ps)
  obtain level key where x: "x = (level, key)" by (cases x)
  obtain b where b: "\<And>dst. encode_pointers ps dst = Inr (dst @ b)"
      "\<And>p e. decode_edit (b @ p) e = decode_edit p (e\<lparr>ve_compact_pointers := ve_compact_pointers e @ ps\<rparr>)"
    using Cons by auto
  have ok: "level_ok level" "key \<noteq> []" "length key < 2 ^ 32" using Cons.prems x by (auto simp: key_ok_def)
  let ?b = "EncodeVarint32 kCompactPointer @ EncodeVarint32 (of_int level) @ EncodeVarint32 (of_nat (length key)) @ key @ b"
  have "encode_pointers (x # ps) dst = Inr (dst @ ?b)" for dst
    using ok b(1) x by (simp add: key_Encode_def decode_simps)
  moreover have "decode_edit (?b @ p) e = decode_edit p (e\<lparr>ve_compact_pointers := ve_compact_pointers e @ x # ps\<rparr>)" for p e
    using ok b(2) x by (simp add: decode_simps SetCompactPointer_def)
  ultimately show ?case by blast
qed (auto intro: exI [of _ "[]"])

lemma set_insert_last: "\<forall>y \<in> set ys. pair_less y x \<Longrightarrow> set_insert x ys = ys @ [x]"
  by (induction ys) (auto simp: pair_less_def)

lemma decode_deleted:
  "\<forall>(level, n) \<in> set ds. level_ok level \<Longrightarrow>
     \<exists>b. (\<forall>dst. encode_deleted ds dst = dst @ b)
       \<and> (\<forall>p e. sorted_wrt pair_less (ve_deleted_files e @ ds) \<longrightarrow>
            decode_edit (b @ p) e = decode_edit p (e\<lparr>ve_deleted_files := ve_deleted_files e @ ds\<rparr>))"
proof (induction ds)
  case (Cons x ds)
  obtain level n where x: "x = (level, n)" by (cases x)
  obtain b where b: "\<And>dst. encode_deleted ds dst = dst @ b"
      "\<And>p e. sorted_wrt pair_less (ve_deleted_files e @ ds) \<Longrightarrow> decode_edit (b @ p) e = decode_edit p (e\<lparr>ve_deleted_files := ve_deleted_files e @ ds\<rparr>)"
    using Cons by auto
  have ok: "level_ok level" using Cons.prems x by auto
  let ?b = "EncodeVarint32 kDeletedFile @ EncodeVarint32 (of_int level) @ EncodeVarint64 n @ b"
  have "encode_deleted (x # ds) dst = dst @ ?b" for dst using b(1) x by (simp add: decode_simps)
  moreover have "decode_edit (?b @ p) e = decode_edit p (e\<lparr>ve_deleted_files := ve_deleted_files e @ x # ds\<rparr>)"
    if s: "sorted_wrt pair_less (ve_deleted_files e @ x # ds)" for p e
  proof -
    have "set_insert x (ve_deleted_files e) = ve_deleted_files e @ [x]" using s by (intro set_insert_last) (auto simp: sorted_wrt_append)
    then show ?thesis using ok x b(2) [of "e\<lparr>ve_deleted_files := ve_deleted_files e @ [x]\<rparr>" p] s
      by (simp add: decode_simps edit_DeleteFile_def)
  qed
  ultimately show ?case by blast
qed (auto intro: exI [of _ "[]"])

lemma decode_new:
  "\<forall>(level, f) \<in> set fs. level_ok level \<and> key_ok (fm_smallest f) \<and> key_ok (fm_largest f) \<and> fm_refs f = 0 \<and> fm_allowed_seeks f = 2 ^ 30 \<Longrightarrow>
     \<exists>b. (\<forall>dst. encode_new fs dst = Inr (dst @ b))
       \<and> (\<forall>p e. decode_edit (b @ p) e = decode_edit p (e\<lparr>ve_new_files := ve_new_files e @ fs\<rparr>))"
proof (induction fs)
  case (Cons x fs)
  obtain level f where x: "x = (level, f)" by (cases x)
  obtain b where b: "\<And>dst. encode_new fs dst = Inr (dst @ b)"
      "\<And>p e. decode_edit (b @ p) e = decode_edit p (e\<lparr>ve_new_files := ve_new_files e @ fs\<rparr>)"
    using Cons by auto
  have ok: "level_ok level" "fm_smallest f \<noteq> []" "length (fm_smallest f) < 2 ^ 32" "fm_largest f \<noteq> []" "length (fm_largest f) < 2 ^ 32"
      "fm_refs f = 0" "fm_allowed_seeks f = 2 ^ 30"
    using Cons.prems x by (auto simp: key_ok_def)
  have f: "(newFileMetaData (fm_number f))\<lparr>fm_file_size := fm_file_size f, fm_smallest := fm_smallest f, fm_largest := fm_largest f\<rparr> = f"
    using ok by (simp add: newFileMetaData_def)
  let ?b = "EncodeVarint32 kNewFile @ EncodeVarint32 (of_int level) @ EncodeVarint64 (fm_number f) @ EncodeVarint64 (fm_file_size f)
      @ EncodeVarint32 (of_nat (length (fm_smallest f))) @ fm_smallest f @ EncodeVarint32 (of_nat (length (fm_largest f))) @ fm_largest f @ b"
  have "encode_new (x # fs) dst = Inr (dst @ ?b)" for dst
    using ok b(1) x by (simp add: key_Encode_def decode_simps)
  moreover have "decode_edit (?b @ p) e = decode_edit p (e\<lparr>ve_new_files := ve_new_files e @ x # fs\<rparr>)" for p e
    using ok b(2) x by (simp add: decode_simps AddFile_def f)
  ultimately show ?case by blast
qed (auto intro: exI [of _ "[]"])

lemma put_number_append: "put_number has tag n dst = dst @ put_number has tag n []"
  by (simp add: put_number_def PutVarint32_def PutVarint64_def)

lemma decode_numbers:
  "decode_edit (put_number has kLogNumber n [] @ p) e = decode_edit p (if has then SetLogNumber n e else e)"
  "decode_edit (put_number has kPrevLogNumber n [] @ p) e = decode_edit p (if has then SetPrevLogNumber n e else e)"
  "decode_edit (put_number has kNextFileNumber n [] @ p) e = decode_edit p (if has then SetNextFile n e else e)"
  "decode_edit (put_number has kLastSequence n [] @ p) e = decode_edit p (if has then SetLastSequence n e else e)"
  by (simp_all add: put_number_def decode_simps)

lemma decode_comparator:
  assumes "has \<longrightarrow> length name < 2 ^ 32"
  shows "decode_edit ((if has then PutLengthPrefixedSlice (PutVarint32 [] kComparator) name else []) @ p) e
    = decode_edit p (if has then SetComparatorName name e else e)"
  using assms by (simp add: decode_simps)

text \<open>The setters build edits that can be written.\<close>

lemma set_insert_ok:
  assumes "sorted_wrt pair_less ds"
  shows "sorted_wrt pair_less (set_insert x ds) \<and> set (set_insert x ds) = insert x (set ds)"
  using assms
proof (induction ds)
  case (Cons y ds)
  then show ?case by (cases x; cases y) (auto simp: pair_less_def not_less)
qed simp

lemma setters_ok:
  assumes "edit_ok e"
  shows "length name < 2 ^ 32 \<Longrightarrow> edit_ok (SetComparatorName name e)" "edit_ok (SetLogNumber n e)" "edit_ok (SetPrevLogNumber n e)"
    "edit_ok (SetNextFile n e)" "edit_ok (SetLastSequence n e)"
    "level_ok level \<Longrightarrow> key_ok key \<Longrightarrow> edit_ok (SetCompactPointer level key e)"
    "level_ok level \<Longrightarrow> edit_ok (edit_DeleteFile level n e)"
    "level_ok level \<Longrightarrow> key_ok smallest \<Longrightarrow> key_ok largest \<Longrightarrow> edit_ok (AddFile level n sz smallest largest e)"
  using assms set_insert_ok [of "ve_deleted_files e" "(level, n)"]
  by (auto simp: edit_ok_def SetComparatorName_def SetLogNumber_def SetPrevLogNumber_def SetNextFile_def SetLastSequence_def
      SetCompactPointer_def edit_DeleteFile_def AddFile_def newFileMetaData_def)

lemma newVersionEdit_ok: "edit_ok newVersionEdit"
  by (simp add: edit_ok_def newVersionEdit_def)

text \<open>C15: An edit that was built with the setters is written without a failed assertion, and reading what was written
  gives back every field of it, in a fresh edit or in one that was used before; only the compaction pointers of the
  edit that is read into stay in front of the ones that were read, since \<open>Clear\<close> does not remove them.\<close>

theorem edit_round_trip:
  assumes "edit_ok e"
  shows "\<exists>s. edit_EncodeTo e [] = Inr s
    \<and> edit_DecodeFrom s e0 = (StatusOK, e\<lparr>ve_compact_pointers := ve_compact_pointers e0 @ ve_compact_pointers e\<rparr>)"
proof -
  have ok: "\<forall>(level, key) \<in> set (ve_compact_pointers e). level_ok level \<and> key_ok key"
      "\<forall>(level, n) \<in> set (ve_deleted_files e). level_ok level" "sorted_wrt pair_less (ve_deleted_files e)"
      "\<forall>(level, f) \<in> set (ve_new_files e). level_ok level \<and> key_ok (fm_smallest f) \<and> key_ok (fm_largest f)
          \<and> fm_refs f = 0 \<and> fm_allowed_seeks f = 2 ^ 30"
      "ve_has_comparator e \<longrightarrow> length (ve_comparator e) < 2 ^ 32"
    using assms unfolding edit_ok_def by (auto split: if_splits)
  obtain pb where pb: "\<And>dst. encode_pointers (ve_compact_pointers e) dst = Inr (dst @ pb)"
      "\<And>p x. decode_edit (pb @ p) x = decode_edit p (x\<lparr>ve_compact_pointers := ve_compact_pointers x @ ve_compact_pointers e\<rparr>)"
    using decode_pointers [OF ok(1)] by blast
  obtain db where db: "\<And>dst. encode_deleted (ve_deleted_files e) dst = dst @ db"
      "\<And>p x. ve_deleted_files x = [] \<Longrightarrow> decode_edit (db @ p) x = decode_edit p (x\<lparr>ve_deleted_files := ve_deleted_files e\<rparr>)"
    using decode_deleted [OF ok(2)] ok(3) by fastforce
  obtain nb where nb: "\<And>dst. encode_new (ve_new_files e) dst = Inr (dst @ nb)"
      "\<And>p x. decode_edit (nb @ p) x = decode_edit p (x\<lparr>ve_new_files := ve_new_files x @ ve_new_files e\<rparr>)"
    using decode_new [OF ok(4)] by blast
  let ?c = "if ve_has_comparator e then PutLengthPrefixedSlice (PutVarint32 [] kComparator) (ve_comparator e) else []"
  let ?s = "?c @ put_number (ve_has_log_number e) kLogNumber (ve_log_number e) []
      @ put_number (ve_has_prev_log_number e) kPrevLogNumber (ve_prev_log_number e) []
      @ put_number (ve_has_next_file_number e) kNextFileNumber (ve_next_file_number e) []
      @ put_number (ve_has_last_sequence e) kLastSequence (ve_last_sequence e) [] @ pb @ db @ nb @ []"
  have enc: "edit_EncodeTo e [] = Inr ?s"
    unfolding edit_EncodeTo_def Let_def pb(1) db(1) nb(1) and_then.simps
    by (subst (4) put_number_append, subst (3) put_number_append, subst (2) put_number_append, subst (1) put_number_append) simp
  have "decode_edit ?s (edit_Clear e0) = (StatusOK, e\<lparr>ve_compact_pointers := ve_compact_pointers e0 @ ve_compact_pointers e\<rparr>)"
  proof -
    have clr: "ve_compact_pointers (edit_Clear e0) = ve_compact_pointers e0" by (simp add: edit_Clear_def)
    note set_defs = SetComparatorName_def SetLogNumber_def SetPrevLogNumber_def SetNextFile_def SetLastSequence_def edit_Clear_def
    have empty: "decode_edit [] x = (StatusOK, x)" for x
      by (subst decode_edit.simps) (simp add: GetVarint32_def GetVarint32Ptr_def GetVarint32PtrFallback_def)
    show ?thesis
      unfolding decode_comparator [OF ok(5)] decode_numbers pb(2)
      apply (subst db(2), simp add: set_defs)
      unfolding nb(2) empty
      using assms unfolding edit_ok_def by (intro conjI prod_eqI VersionEdit.equality) (auto simp: set_defs split: if_splits)
  qed
  then show ?thesis using enc by (auto simp: edit_DecodeFrom_def)
qed

definition sample_edit :: VersionEdit where
  "sample_edit = AddFile 2 9 4096 [97, 1, 0, 0, 0, 0, 0, 0, 0] [122, 1, 0, 0, 0, 0, 0, 0, 0]
     (edit_DeleteFile 1 4 (edit_DeleteFile 1 7 (SetCompactPointer 1 [107, 1, 0, 0, 0, 0, 0, 0, 0]
       (SetNextFile 300 (SetLogNumber 12 newVersionEdit)))))"

lemma sample_edit_ok: "edit_ok sample_edit"
  unfolding sample_edit_def
  by (intro setters_ok newVersionEdit_ok) (simp_all add: level_ok_def key_ok_def kNumLevels_def)

theorem edit_round_trip_witness:
  "\<exists>s. edit_EncodeTo sample_edit [] = Inr s \<and> edit_DecodeFrom s newVersionEdit = (StatusOK, sample_edit)
     \<and> ve_deleted_files sample_edit = [(1, 4), (1, 7)]"
proof -
  have "ve_deleted_files sample_edit = [(1, 4), (1, 7)]" by code_simp
  moreover have "ve_compact_pointers newVersionEdit = []" by (simp add: newVersionEdit_def)
  ultimately show ?thesis using edit_round_trip [OF sample_edit_ok, of newVersionEdit] by simp
qed

end
