(* ===== verification/Spec2Isabelle.thy ===== *)
theory Spec2Isabelle
  imports Chunker_Details Dector_Properties Manager_Merge Main_Properties Ldb_Memtable Ldb_Log Ldb_Skip_Iter Ldb_Block_Cache
    Ldb_Version_Edit
begin

text \<open>
  \<^bold>\<open>SimCompression: a verification library\<close>

  SimCompression is a deduplicating store with similarity detection.  Its program (\<open>src/src/main.cc\<close>)
  cuts a file into chunks, stores each chunk once in large container files, keeps a recipe of the
  chunks of the file, compares the chunk lists of two versions of a file to find changed regions,
  measures how well the changed chunks compress as deltas, and maintains the containers.  This
  library models the program and proves what its parts promise, and where they do not keep it.

  \<^bold>\<open>Parts of the program and their theories\<close>

  \<^item> \<open>Sim_Prelude\<close>: machine integers, the abnormal ends of a run (type \<open>abort\<close>: \<open>exit\<close>, an uncaught exception,
    and each kind of undefined behaviour the code can reach), memory regions, little-endian layouts,
    decimal text, C strings, the file system.  The collections \<open>res_simps\<close>, \<open>mem_simps\<close> and
    \<open>layout_simps\<close> carry the proofs of the components.
  \<^item> \<open>Data_Structure\<close> (\<open>include/dataStructure.hpp\<close>, macros of \<open>include/configure.hpp\<close>): the structures as
    records with their layouts in memory.
  \<^item> \<open>Database\<close> (\<open>src/database.cpp\<close>): the wrapper over LevelDB.  The locale \<open>kv_store\<close> is the contract the
    storage components use; the wrapper interprets it.
  \<^item> \<open>Crypto_Primitive\<close> (\<open>src/cryptoPrimitive.cc\<close>): hashes and encryption over the EVP functions of
    OpenSSL, which are parameters with the documented laws of a block cipher mode as hypotheses.
  \<^item> \<open>Configure\<close> (\<open>src/configure.cc\<close>): the settings and their getters over a parsed property tree.
  \<^item> \<open>Storage_Core\<close>, \<open>Storage_Names\<close>, \<open>Storage_Invariant\<close>, \<open>Storage_Properties\<close>, \<open>Storage_Recipes\<close>
    (\<open>src/storageCore.cpp\<close>): containers, chunks and recipes.  The state of an object is the record
    \<open>StorageCore\<close>; what outlives it, the databases and the file system, is the record \<open>world\<close>.
    \<open>storage_inv\<close> says that every chunk in the database lies inside the open container or a closed
    container file of an earlier name, and that the cached container is the file it was read from;
    the abstract store of the specification is the map \<open>abs_store\<close>.
  \<^item> \<open>Chunker\<close>, \<open>Chunk_Store\<close>, \<open>Chunker_Window\<close>, \<open>Chunker_Index\<close>, \<open>Chunker_Run\<close>, \<open>Chunker_Properties\<close>,
    \<open>Chunker_Details\<close>, \<open>Index_File\<close> (\<open>src/chunker.cc\<close>): the rolling fingerprint, content-defined and
    fixed-size chunking, the index of chunks, segments and containers and its file.  The locale of
    \<open>Chunk_Store\<close> is what chunking needs of the store; \<open>StorageCore\<close> interprets it.  The reference
    chunking \<open>ref_run\<close> is a plain recursion over the bytes of the file, to which the buffered loops are
    proved equal.
  \<^item> \<open>Dector\<close>, \<open>Dector_Properties\<close> (\<open>src/dector.cc\<close>): the search for changed regions.
  \<^item> \<open>Compressor\<close>, \<open>Compressor_Properties\<close> (\<open>src/compressor.cc\<close>): the store of deltas, simulated by that
    of chunks, and the measuring run.
  \<^item> \<open>Manager\<close>, \<open>Manager_Properties\<close>, \<open>Manager_Merge\<close> (\<open>src/manager.cc\<close>): merging deltas into containers,
    rewriting small containers, garbage collection.
  \<^item> \<open>Sim_Main\<close>, \<open>Main_Properties\<close> (\<open>src/main.cc\<close>): every command, from opening the databases to closing
    them, and the interrupt handler.
  \<^item> \<open>Ldb_Coding\<close>, \<open>Ldb_Keys\<close>, \<open>Ldb_Skip_List\<close>, \<open>Ldb_Skip_Iter\<close>, \<open>Ldb_Write_Batch\<close>, \<open>Ldb_Memtable\<close>, \<open>Ldb_Crc\<close>,
    \<open>Ldb_Log\<close>, \<open>Ldb_Bloom\<close> (\<open>lib/leveldb/util\<close>, \<open>lib/leveldb/db\<close>): the path of a write in the LevelDB sources kept in the
    repository, from the encodings and key order to the memtable, the log with its checksum,
    and the Bloom filter.  The locale \<open>comparator\<close> is the contract of the class of that
    name; the bytewise comparator, that of internal keys and that of memtable entries interpret it, and
    the lemmas on the skip list are proved in it once.
  \<^item> \<open>Ldb_Block\<close>, \<open>Ldb_Block_Layout\<close>, \<open>Ldb_Block_Iter\<close>, \<open>Ldb_Block_Properties\<close>, \<open>Ldb_Filter_Block\<close> (\<open>lib/leveldb/table\<close>): blocks
    with their prefix-compressed entries, builder and iterator, and the filter block.  The locale
    \<open>block_order\<close> extends \<open>comparator\<close> by what a builder needs; \<open>no_false_negatives\<close> is the contract of a filter
    policy, interpreted for the Bloom filter and its use on internal keys.
  \<^item> \<open>Ldb_Format\<close>, \<open>Ldb_Table_Builder\<close>, \<open>Ldb_Table\<close>, \<open>Ldb_Table_Layout\<close>, \<open>Ldb_Table_File\<close>, \<open>Ldb_Table_Properties\<close>
    (\<open>lib/leveldb/table\<close>, \<open>util/env_posix.cc\<close>): handles, footer and trailers, writing a table and reading
    it.  The state of a builder is the record \<open>table_builder\<close>; its invariant \<open>tb_inv\<close> lists the blocks in the file
    with the keys that separate them.  The locale \<open>random_access_file\<close> is interpreted for \<open>pread\<close> and for mapped files,
    \<open>table_order\<close> (a comparator with separators) for the bytewise order and that of internal keys.
  \<^item> \<open>Ldb_Cache\<close>, \<open>Ldb_Cache_Inv\<close>, \<open>Ldb_Cache_Properties\<close>, \<open>Ldb_Block_Cache\<close> (\<open>util/cache.cc\<close>): the cache of blocks, with
    handles on a heap, their reference counts, the hash table and the list in the order of use.  The states
    that clients reach are the inductive relation \<open>cache_reach\<close>.  The locale \<open>block_cache_contract\<close> is what tables need
    of a cache; the sharded cache interprets it.
  \<^item> \<open>Ldb_Version_Edit\<close> (\<open>db/version_edit.cc\<close>): the edits of the set of table files, their setters, and their encoding in
    the descriptor log.

  \<^bold>\<open>How code becomes definitions\<close>

  A function of the program is a definition of the same name.  A result is \<open>Inr\<close> of the value or \<open>Inl\<close>
  of an abnormal end; a call that may not return gives an \<open>option\<close>, with \<open>None\<close> for a run without end
  (\<open>partial_function\<close>).  Objects and files are passed and returned.  Locals and members that the code
  reads before writing them are parameters (\<open>key0\<close>, \<open>junk\<close>, the bodies of new containers), so that a
  theorem holds for every value they may have.  An unsigned integer is a word of its width; an \<open>int\<close> is
  an \<open>int\<close> whose conversions are written out, and whose increments wrap where a count may reach \<open>2 ^ 31\<close>.

  \<^bold>\<open>What is proved\<close>

  \<^item> End to end: a file stored by \<open>-c\<close> is written back by \<open>-rs\<close>, up to the replacement of zero bytes that
    \<open>saveChunk\<close> makes, over two runs of the program (\<open>Main_Properties\<close>); chunking loses no byte, respects the
    chunk sizes, stores every chunk and keeps the ones stored before, and builds an index that lists all
    chunks in order (\<open>Chunker_Properties\<close>).  Its segments and containers partition the file when it ends
    inside a chunk; when it ends on a chunk boundary the open segment and container are never written, and
    the theorem says which chunks the others cover.
  \<^item> The store: saving keeps every chunk readable, also when a container is full and the next name is
    taken, over restarts, garbage collection and rewriting; recipes and the index file are read back;
    a container is never written under a name that an earlier one has, until the last permutation.  A
    measuring run changes no chunk, and the sums it prints are those of the logged pairs and of the groups.
  \<^item> Changed regions: the search ends whenever the windows are positive, finds nothing in equal files and
    exactly the region of one changed chunk that a window follows.
  \<^item> LevelDB: encodings, batches and keys round trip, no truncated batch is accepted, the skip list keeps
    its order at every level for any random heights, the memtable answers a read at a snapshot from the
    newest write the reader may see, and it refines the map that \<open>Database\<close> uses for LevelDB.  The
    checksum with its tables is the CRC-32C for every alignment; what is written to the log is read
    back, and a log cut short by a crash gives a prefix of its records; the Bloom filter misses no key,
    nor does a filter block.  The iterator of a block moves as a cursor over the entries that were added,
    and a lookup in a table that was written hands out no entry but the first one at or after the key, and does
    hand it out when it is a version of the key, whatever compression, filter and block cache do; for a key
    between two blocks, of which the table has no version, it may hand out nothing.  The cache never
    touches a handle it has freed, keeps the order of use, and evicts the oldest entries, one at a time,
    exactly while the usage exceeds the capacity.  An edit of the set of table files is read back as it was
    written, behind the compaction pointers that \<open>Clear\<close> leaves.
  \<^item> Errors: each abnormal end that an input can reach is a theorem of its own: the chunk of fewer than
    two bytes, the delta read as a C string, the truncated new version, the zero window that never ends,
    the missing return, the settings the shipped file lacks, the restore that exits.

  \<^bold>\<open>Bounds and fuel\<close>

  No definition has fuel.  Loops over data are structural or have a measure; the loops of the search for
  regions, of the restoration of deltas and over the links of the skip list are partial functions, and
  that they return is proved from the positive windows, from the absence of deltas and from the invariant of
  the list.  The hypotheses on sizes are those of the code: 32-bit lengths, 16 MiB containers, fewer
  than \<open>2 ^ 31\<close> updates in a batch and chunks in a file, sequence numbers of 56 bits, and keys of less than
  \<open>2 ^ 31\<close> bytes, since \<open>Slice::compare\<close> keeps a length in an \<open>int\<close>.

  \<^bold>\<open>Not modelled\<close>

  \<^item> \<open>libsim.a\<close> (delta encoding, similarity features) has no sources in the repository; OpenSSL, Boost, and
    the MongoDB client are called only.  They are parameters.
  \<^item> LevelDB above its tables and its memtable: the iterators that merge them, the sets of table files (but
    for the edits of them), compaction, recovery and the background thread.  The storage components rely on the documented
    behaviour of the whole, the sorted map of \<open>Database\<close>.  Snappy has no sources in the repository: it is a
    parameter, and reading it back is a hypothesis.
  \<^item> Console output, timing, and the structures no code uses.
\<close>

end
